(* ===== verification/Go_Prelude.thy ===== *)
theory Go_Prelude
  imports Main "HOL-Library.Word" "HOL-Library.Sublist" "HOL-Library.Char_ord"
    "HOL-Library.List_Lexorder"
begin

text \<open>
  What every component of the runtime shares: Go's machine integers, contexts, and the part
  of the packages \<open>strings\<close>, \<open>unicode\<close>, \<open>utf8\<close> and \<open>strconv\<close> the sources call.
  A Go string is its list of bytes (\<^typ>\<open>string\<close>), so \<open>len\<close> is \<^const>\<open>length\<close> and
  comparison is lexicographic on bytes.  Ranging over a string decodes UTF-8 the way the
  language does: an ill-formed sequence yields U+FFFD and consumes one byte.
\<close>

section \<open>Integers, contexts, collections of facts\<close>

type_synonym uint16 = "16 word"
type_synonym uint32 = "32 word"
type_synonym uint64 = "64 word"
type_synonym go_time = int

named_theorems runtime_defs \<open>unfolding of the operations of a component\<close>
named_theorems runtime_inv \<open>preservation of a component's invariant\<close>

text \<open>A context argument: absent, live, or ended with its error.\<close>

datatype ctx_error = Canceled | DeadlineExceeded

datatype ctx = CtxNil | CtxLive | CtxEnded ctx_error

fun ctx_err :: "ctx \<Rightarrow> ctx_error option" where
  "ctx_err (CtxEnded e) = Some e"
| "ctx_err _ = None"

text \<open>A commit that fails may have been lost or applied all the same.\<close>

datatype commit_result = CommitOK | CommitLost | CommitApplied

definition maxInt64 :: int where
  "maxInt64 = 2 ^ 63 - 1"

text \<open>An update that keeps a projection of the entry keeps it everywhere.\<close>

lemma nth_update_proj: "f x = f (xs ! i) \<Longrightarrow> f (xs[i := x] ! j) = f (xs ! j)"
  by (cases "i < length xs") (simp_all add: nth_list_update list_update_beyond)

section \<open>UTF-8\<close>

definition bytes_of :: "string \<Rightarrow> nat list" where
  "bytes_of s = map of_char s"

definition utf8_lo :: "nat \<Rightarrow> nat" where
  "utf8_lo b = (if b = 0xE0 then 0xA0 else if b = 0xF0 then 0x90 else 0x80)"

definition utf8_hi :: "nat \<Rightarrow> nat" where
  "utf8_hi b = (if b = 0xED then 0x9F else if b = 0xF4 then 0x8F else 0xBF)"

definition utf8_cont :: "nat \<Rightarrow> bool" where
  "utf8_cont b \<longleftrightarrow> 0x80 \<le> b \<and> b \<le> 0xBF"

abbreviation rune_error :: nat where
  "rune_error \<equiv> 0xFFFD"

text \<open>\<open>utf8.DecodeRune\<close>: the rune and the number of bytes it occupies.\<close>

fun utf8_decode4 :: "nat \<Rightarrow> nat \<Rightarrow> nat \<Rightarrow> nat list \<Rightarrow> nat \<times> nat" where
  "utf8_decode4 b0 b1 b2 [] = (rune_error, 1)"
| "utf8_decode4 b0 b1 b2 (b3 # _) =
     (if utf8_cont b3
      then ((b0 mod 8) * 0x40000 + (b1 mod 0x40) * 0x1000 + (b2 mod 0x40) * 0x40 + b3 mod 0x40, 4)
      else (rune_error, 1))"

fun utf8_decode3 :: "nat \<Rightarrow> nat \<Rightarrow> nat list \<Rightarrow> nat \<times> nat" where
  "utf8_decode3 b0 b1 [] = (rune_error, 1)"
| "utf8_decode3 b0 b1 (b2 # p) =
     (if \<not> utf8_cont b2 then (rune_error, 1)
      else if b0 < 0xF0
        then ((b0 mod 0x10) * 0x1000 + (b1 mod 0x40) * 0x40 + b2 mod 0x40, 3)
      else utf8_decode4 b0 b1 b2 p)"

fun utf8_decode2 :: "nat \<Rightarrow> nat list \<Rightarrow> nat \<times> nat" where
  "utf8_decode2 b0 [] = (rune_error, 1)"
| "utf8_decode2 b0 (b1 # p) =
     (if b1 < utf8_lo b0 \<or> utf8_hi b0 < b1 then (rune_error, 1)
      else if b0 < 0xE0 then ((b0 mod 0x20) * 0x40 + b1 mod 0x40, 2)
      else utf8_decode3 b0 b1 p)"

fun utf8_decode :: "nat list \<Rightarrow> nat \<times> nat" where
  "utf8_decode [] = (rune_error, 0)"
| "utf8_decode (b0 # p) =
     (if b0 < 0x80 then (b0, 1)
      else if b0 < 0xC2 \<or> 0xF4 < b0 then (rune_error, 1)
      else utf8_decode2 b0 p)"

lemma utf8_decode4_width_pos: "0 < snd (utf8_decode4 b0 b1 b2 p)"
  by (cases p) auto

lemma utf8_decode3_width_pos: "0 < snd (utf8_decode3 b0 b1 p)"
  by (cases p) (auto simp: utf8_decode4_width_pos)

lemma utf8_decode2_width_pos: "0 < snd (utf8_decode2 b0 p)"
  by (cases p) (auto simp: utf8_decode3_width_pos)

lemma utf8_decode_width_pos: "0 < snd (utf8_decode (b # p))"
  by (auto simp: utf8_decode2_width_pos)

text \<open>The runes of a string with their widths, as \<open>range\<close> visits them.\<close>

function rune_steps :: "nat list \<Rightarrow> (nat \<times> nat) list" where
  "rune_steps [] = []"
| "rune_steps (b # p) =
     utf8_decode (b # p) # rune_steps (drop (snd (utf8_decode (b # p))) (b # p))"
  by pat_completeness auto
termination
proof (relation "measure length", goal_cases)
  case 1
  show ?case by simp
next
  case (2 b p)
  have "0 < snd (utf8_decode (b # p))" by (rule utf8_decode_width_pos)
  then show ?case by (simp del: utf8_decode.simps)
qed

definition go_runes :: "string \<Rightarrow> nat list" where
  "go_runes s = map fst (rune_steps (bytes_of s))"

text \<open>\<open>utf8.ValidString\<close>.\<close>

definition valid_utf8 :: "string \<Rightarrow> bool" where
  "valid_utf8 s \<longleftrightarrow> (rune_error, 1) \<notin> set (rune_steps (bytes_of s))"

definition is_ascii :: "string \<Rightarrow> bool" where
  "is_ascii s \<longleftrightarrow> list_all (\<lambda>c. (of_char c :: nat) < 0x80) s"

lemma rune_steps_ascii:
  "list_all (\<lambda>b. b < 0x80) bs \<Longrightarrow> rune_steps bs = map (\<lambda>b. (b, 1)) bs"
  by (induction bs) auto

lemma go_runes_ascii: "is_ascii s \<Longrightarrow> go_runes s = map of_char s"
  by (simp add: go_runes_def is_ascii_def bytes_of_def rune_steps_ascii list_all_iff)

lemma valid_utf8_ascii: "is_ascii s \<Longrightarrow> valid_utf8 s"
  by (auto simp: valid_utf8_def is_ascii_def bytes_of_def rune_steps_ascii list_all_iff)

text \<open>A sequence never continues across an ASCII byte.\<close>

lemma utf8_decode4_before_ascii:
  "x < 0x80 \<Longrightarrow> utf8_decode4 b b1 b2 (p @ x # q) = utf8_decode4 b b1 b2 p"
  "snd (utf8_decode4 b b1 b2 p) \<le> Suc (Suc (Suc (length p)))"
  by (cases p; auto simp: utf8_cont_def)+

lemma utf8_decode3_before_ascii:
  "x < 0x80 \<Longrightarrow> utf8_decode3 b b1 (p @ x # q) = utf8_decode3 b b1 p"
  "snd (utf8_decode3 b b1 p) \<le> Suc (Suc (length p))"
  by (cases p; auto simp: utf8_cont_def utf8_decode4_before_ascii)+

lemma utf8_decode2_before_ascii:
  "x < 0x80 \<Longrightarrow> utf8_decode2 b (p @ x # q) = utf8_decode2 b p"
  "snd (utf8_decode2 b p) \<le> Suc (length p)"
  by (cases p; auto simp: utf8_lo_def utf8_hi_def utf8_decode3_before_ascii)+

lemma utf8_decode_before_ascii:
  "x < 0x80 \<Longrightarrow> utf8_decode (b # p @ x # q) = utf8_decode (b # p)"
  "snd (utf8_decode (b # p)) \<le> length (b # p)"
  by (auto simp: utf8_decode2_before_ascii)

lemma rune_steps_before_ascii:
  "x < 0x80 \<Longrightarrow> rune_steps (p @ x # q) = rune_steps p @ rune_steps (x # q)"
proof (induction p rule: rune_steps.induct)
  case (2 b p)
  let ?w = "snd (utf8_decode (b # p))"
  have "drop ?w ((b # p) @ x # q) = drop ?w (b # p) @ x # q"
    using utf8_decode_before_ascii(2) [of b p] by (simp del: utf8_decode.simps append_Cons)
  with 2 utf8_decode_before_ascii(1) [OF 2(2), of b p q] show ?case
    by (simp del: utf8_decode.simps)
qed simp

lemma valid_utf8_cut:
  assumes "of_char c < (0x80 :: nat)"
  shows "valid_utf8 (s @ c # t) \<longleftrightarrow> valid_utf8 s \<and> valid_utf8 t"
proof -
  have "rune_steps (of_char c # bytes_of t) = (of_char c, 1) # rune_steps (bytes_of t)" using assms by simp
  moreover have "(of_char c :: nat) \<noteq> rune_error" using assms by simp
  ultimately show ?thesis
    using rune_steps_before_ascii [OF assms, of "bytes_of s" "bytes_of t"]
    by (auto simp: valid_utf8_def bytes_of_def simp del: rune_steps.simps)
qed

lemma valid_utf8_ascii_prefix: "is_ascii s \<Longrightarrow> valid_utf8 (s @ t) \<longleftrightarrow> valid_utf8 t"
proof (induction s)
  case (Cons c s)
  then have "valid_utf8 ([] @ c # (s @ t)) \<longleftrightarrow> valid_utf8 (s @ t)"
    by (subst valid_utf8_cut) (auto simp: is_ascii_def valid_utf8_def bytes_of_def)
  with Cons show ?case by (simp add: is_ascii_def)
qed simp

text \<open>\<open>unicode.IsControl\<close>: category Cc.\<close>

definition is_control :: "nat \<Rightarrow> bool" where
  "is_control r \<longleftrightarrow> r < 0x20 \<or> (0x7F \<le> r \<and> r \<le> 0x9F)"

definition has_control :: "string \<Rightarrow> bool" where
  "has_control s \<longleftrightarrow> list_ex is_control (go_runes s)"

section \<open>strings\<close>

text \<open>
  \<open>unicode.IsSpace\<close> holds of finitely many runes; these are their encodings.  A string starts
  (ends) with a space rune exactly when it starts (ends) with one of them.
\<close>

definition byte_char :: "nat \<Rightarrow> char" where
  "byte_char n = char_of n"

lemma of_byte_char [simp]: "(of_char (byte_char n) :: nat) = n mod 256"
  by (simp add: byte_char_def)

lemma byte_char_eq_iff:
  "byte_char n = c \<longleftrightarrow> n mod 256 = of_char c" "c = byte_char n \<longleftrightarrow> of_char c = n mod 256"
  by (metis of_byte_char of_char_eq_iff)+

definition space_encodings :: "string list" where
  "space_encodings =
     map (map byte_char)
      ([[9], [10], [11], [12], [13], [32], [0xC2, 0x85], [0xC2, 0xA0], [0xE1, 0x9A, 0x80]]
       @ map (\<lambda>n. [0xE2, 0x80, n]) [0x80, 0x81, 0x82, 0x83, 0x84, 0x85, 0x86, 0x87, 0x88, 0x89, 0x8A,
                                0xA8, 0xA9, 0xAF]
       @ [[0xE2, 0x81, 0x9F], [0xE3, 0x80, 0x80]])"

lemma space_encodings_nonempty: "e \<in> set space_encodings \<Longrightarrow> e \<noteq> []"
  by (auto simp: space_encodings_def)

function trim_prefixes :: "string list \<Rightarrow> string \<Rightarrow> string" where
  "trim_prefixes encs s =
     (case find (\<lambda>e. e \<noteq> [] \<and> prefix e s) encs of
        None \<Rightarrow> s
      | Some e \<Rightarrow> trim_prefixes encs (drop (length e) s))"
  by pat_completeness auto
termination
  by (relation "measure (\<lambda>(_, s). length s)") (auto simp: find_Some_iff prefix_def)

declare trim_prefixes.simps [simp del]

text \<open>\<open>strings.TrimSpace\<close>.\<close>

definition trim_space :: "string \<Rightarrow> string" where
  "trim_space s =
     rev (trim_prefixes (map rev space_encodings) (rev (trim_prefixes space_encodings s)))"

lemma trim_prefixes_id:
  "list_all (\<lambda>e. \<not> prefix e s) encs \<Longrightarrow> trim_prefixes encs s = s"
proof -
  assume "list_all (\<lambda>e. \<not> prefix e s) encs"
  then have "find (\<lambda>e. e \<noteq> [] \<and> prefix e s) encs = None"
    by (auto simp: list_all_iff find_None_iff)
  then show ?thesis by (subst trim_prefixes.simps) simp
qed

lemma trim_space_ascii:
  assumes "is_ascii s" and "s \<noteq> [] \<Longrightarrow> hd s \<notin> set (map byte_char [9, 10, 11, 12, 13, 32])"
    and "s \<noteq> [] \<Longrightarrow> last s \<notin> set (map byte_char [9, 10, 11, 12, 13, 32])"
  shows "trim_space s = s"
proof -
  have small: "c \<in> set s \<Longrightarrow> (of_char c :: nat) < 128" for c
    using assms(1) by (simp add: is_ascii_def list_all_iff)
  have big: "byte_char n \<notin> set s" if "128 \<le> n" "n < 256" for n
    using small [of "byte_char n"] that by auto
  have "list_all (\<lambda>e. \<not> prefix e s) space_encodings"
    using assms(2) big by (cases s) (auto simp: space_encodings_def)
  then have left: "trim_prefixes space_encodings s = s"
    by (rule trim_prefixes_id)
  have "list_all (\<lambda>e. \<not> prefix e (rev s)) (map rev space_encodings)"
    using assms(3) big
    by (cases s rule: rev_cases) (auto simp: space_encodings_def)
  then have "trim_prefixes (map rev space_encodings) (rev s) = rev s"
    by (rule trim_prefixes_id)
  with left show ?thesis by (simp add: trim_space_def)
qed

text \<open>
  \<open>strings.Cut\<close> with a one-character separator, and the text before and after it.
\<close>

definition cut_char :: "char \<Rightarrow> string \<Rightarrow> (string \<times> string) option" where
  "cut_char c s =
     (if c \<in> set s
      then Some (takeWhile (\<lambda>x. x \<noteq> c) s, tl (dropWhile (\<lambda>x. x \<noteq> c) s))
      else None)"

lemma cut_char_append: "c \<notin> set k \<Longrightarrow> cut_char c (k @ c # v) = Some (k, v)"
proof -
  assume k: "c \<notin> set k"
  then have "takeWhile (\<lambda>x. x \<noteq> c) (k @ c # v) = k" by (induction k) auto
  moreover from k have "dropWhile (\<lambda>x. x \<noteq> c) (k @ c # v) = c # v" by (induction k) auto
  ultimately show ?thesis by (simp add: cut_char_def)
qed

lemma cut_char_SomeD: "cut_char c s = Some (k, v) \<Longrightarrow> s = k @ c # v \<and> c \<notin> set k"
proof -
  assume cut: "cut_char c s = Some (k, v)"
  then have mem: "c \<in> set s" by (simp add: cut_char_def split: if_splits)
  then obtain k' v' where s: "s = k' @ c # v'" and "c \<notin> set k'"
    by (meson split_list_first)
  then have "cut_char c s = Some (k', v')" by (simp add: cut_char_append)
  with cut s \<open>c \<notin> set k'\<close> show ?thesis by simp
qed

text \<open>
  \<open>utf8.AppendRune\<close> and \<open>strings.ToLower\<close>.  ASCII letters are mapped here; the simple
  lower-case mapping of the other runes is data of the Unicode tables and stays the argument
  \<open>ul\<close>.
\<close>

definition encode_rune :: "nat \<Rightarrow> string" where
  "encode_rune r = map byte_char
     (if r < 0x80 then [r]
      else if r < 0x800 then [0xC0 + r div 0x40, 0x80 + r mod 0x40]
      else if r < 0x10000 \<and> \<not> (0xD800 \<le> r \<and> r \<le> 0xDFFF)
        then [0xE0 + r div 0x1000, 0x80 + r div 0x40 mod 0x40, 0x80 + r mod 0x40]
      else if 0x10000 \<le> r \<and> r \<le> 0x10FFFF
        then [0xF0 + r div 0x40000, 0x80 + r div 0x1000 mod 0x40, 0x80 + r div 0x40 mod 0x40,
              0x80 + r mod 0x40]
      else [0xEF, 0xBF, 0xBD])"

definition lower_rune :: "(nat \<Rightarrow> nat) \<Rightarrow> nat \<Rightarrow> nat" where
  "lower_rune ul r =
     (if 0x41 \<le> r \<and> r \<le> 0x5A then r + 0x20 else if r < 0x80 then r else ul r)"

definition to_lower :: "(nat \<Rightarrow> nat) \<Rightarrow> string \<Rightarrow> string" where
  "to_lower ul s =
     (if is_ascii s then map (\<lambda>c. byte_char (lower_rune ul (of_char c))) s
      else concat (map (\<lambda>r. encode_rune (lower_rune ul r)) (go_runes s)))"

lemma to_lower_ascii_id:
  "is_ascii s \<Longrightarrow> list_all (\<lambda>c. \<not> (0x41 \<le> (of_char c :: nat) \<and> (of_char c :: nat) \<le> 0x5A)) s
   \<Longrightarrow> to_lower ul s = s"
  by (auto simp: to_lower_def is_ascii_def list_all_iff lower_rune_def byte_char_def
      intro!: map_idI)

section \<open>strconv and joining\<close>

text \<open>\<open>strconv.FormatUint\<close> in base ten, \<open>%0wd\<close>, and \<open>strings.Join\<close>.\<close>

fun decimal :: "nat \<Rightarrow> string" where
  "decimal n = (if n < 10 then [byte_char (48 + n)] else decimal (n div 10) @ [byte_char (48 + n mod 10)])"

declare decimal.simps [simp del]

lemma decimal_length: "n < 10 ^ Suc k \<Longrightarrow> length (decimal n) \<le> Suc k"
proof (induction k arbitrary: n)
  case (Suc k)
  then show ?case by (subst decimal.simps) (auto simp: less_mult_imp_div_less mult.commute)
qed (simp add: decimal.simps)

definition padded :: "nat \<Rightarrow> nat \<Rightarrow> string" where
  "padded w n = replicate (w - length (decimal n)) (CHR ''0'') @ decimal n"

fun join :: "string \<Rightarrow> string list \<Rightarrow> string" where
  "join sep [] = []"
| "join sep [x] = x"
| "join sep (x # y # ys) = x @ sep @ join sep (y # ys)"

text \<open>\<open>strings.Split\<close> at one character, and \<open>strconv.Atoi\<close> on digits.\<close>

fun split_char :: "char \<Rightarrow> string \<Rightarrow> string list" where
  "split_char c [] = [[]]"
| "split_char c (x # s) =
     (if x = c then [] # split_char c s
      else (case split_char c s of [] \<Rightarrow> [[x]] | l # ls \<Rightarrow> (x # l) # ls))"

lemma split_char_nonempty [simp]: "split_char c s \<noteq> []"
  by (cases s) (auto split: list.splits)

lemma join_split [simp]: "join [c] (split_char c s) = s"
proof (induction s)
  case (Cons x s)
  then show ?case by (cases "split_char c s"; cases "tl (split_char c s)") (auto split: list.splits)
qed simp

lemma split_char_free: "l \<in> set (split_char c s) \<Longrightarrow> c \<notin> set l"
  by (induction s arbitrary: l) (auto split: if_splits list.splits)

lemma split_char_subset: "l \<in> set (split_char c s) \<Longrightarrow> set l \<subseteq> set s"
  by (induction s arbitrary: l) (fastforce split: if_splits list.splits)+

lemma split_join: "list_all (\<lambda>f. c \<notin> set f) fs \<Longrightarrow> fs \<noteq> [] \<Longrightarrow> split_char c (join [c] fs) = fs"
proof (induction "[c]" fs rule: join.induct)
  case (2 x)
  then have "c \<notin> set x" by simp
  then show ?case by (induction x) auto
next
  case (3 x y ys)
  then have "c \<notin> set x" "split_char c (join [c] (y # ys)) = y # ys" by auto
  then show ?case by (induction x) auto
qed simp

definition is_digit :: "char \<Rightarrow> bool" where
  "is_digit c \<longleftrightarrow> 48 \<le> (of_char c :: nat) \<and> (of_char c :: nat) \<le> 57"

definition digits_value :: "string \<Rightarrow> nat" where
  "digits_value s = foldl (\<lambda>n c. 10 * n + (of_char c - 48)) 0 s"

definition ParseUint16 :: "string \<Rightarrow> nat option" where
  "ParseUint16 s =
     (if s = [] \<or> \<not> list_all is_digit s \<or> 65535 < digits_value s then None else Some (digits_value s))"

lemma digits_value_snoc: "digits_value (s @ [c]) = 10 * digits_value s + (of_char c - 48)"
  by (simp add: digits_value_def)

lemma is_digit_byte [simp]: "n < 10 \<Longrightarrow> is_digit (byte_char (48 + n))"
  by (simp add: is_digit_def)

lemma decimal_digits: "list_all is_digit (decimal n)"
  by (induction n rule: decimal.induct) (subst decimal.simps, simp)

lemma digits_value_decimal: "digits_value (decimal n) = n"
proof (induction n rule: decimal.induct)
  case (1 n)
  show ?case
  proof (cases "n < 10")
    case True
    then show ?thesis by (subst decimal.simps) (simp add: digits_value_def)
  next
    case False
    with 1 show ?thesis by (subst decimal.simps) (simp add: digits_value_snoc)
  qed
qed

lemma decimal_nonempty [simp]: "decimal n \<noteq> []"
  by (subst decimal.simps) simp

lemma find_unique:
  assumes "x \<in> set xs" and "P x" and "\<And>y. y \<in> set xs \<Longrightarrow> P y \<Longrightarrow> y = x"
  shows "find P xs = Some x"
proof (cases "find P xs")
  case None
  then show ?thesis using assms(1,2) by (simp add: find_None_iff)
next
  case (Some y)
  then have "y \<in> set xs" "P y" by (auto simp: find_Some_iff)
  then show ?thesis using assms(3) Some by blast
qed

section \<open>Plain text\<close>

text \<open>
  Printable ASCII without blanks: valid, already trimmed, free of control characters.  Concrete
  identifiers are evaluated through these facts.
\<close>

definition plain_text :: "string \<Rightarrow> bool" where
  "plain_text s \<longleftrightarrow> list_all (\<lambda>c. 33 \<le> (of_char c :: nat) \<and> (of_char c :: nat) \<le> 126) s"

lemma plain_text_ascii: "plain_text s \<Longrightarrow> is_ascii s"
  by (auto simp: plain_text_def is_ascii_def list_all_iff)

lemma plain_text_trim: "plain_text s \<Longrightarrow> trim_space s = s"
proof (rule trim_space_ascii)
  assume s: "plain_text s"
  then show "is_ascii s" by (rule plain_text_ascii)
  have *: "c \<in> set s \<Longrightarrow> c \<notin> set (map byte_char [9, 10, 11, 12, 13, 32])" for c
    using s by (auto simp: plain_text_def list_all_iff)
  show "hd s \<notin> set (map byte_char [9, 10, 11, 12, 13, 32])" if "s \<noteq> []"
    using * that by simp
  show "last s \<notin> set (map byte_char [9, 10, 11, 12, 13, 32])" if "s \<noteq> []"
    using * that by simp
qed

lemma plain_text_no_control: "plain_text s \<Longrightarrow> \<not> has_control s"
  by (auto simp: has_control_def go_runes_ascii plain_text_ascii list_ex_iff is_control_def
      plain_text_def list_all_iff)

lemmas plain_text_facts =
  plain_text_ascii plain_text_trim plain_text_no_control plain_text_ascii [THEN valid_utf8_ascii]
  plain_text_ascii [THEN go_runes_ascii]

end
