(* ===== verification/Capture_Identity.thy ===== *)
theory Capture_Identity
  imports Go_Prelude
begin

text \<open>
  \<open>src/internal/captureidentity/identity.go\<close>: the typed identity shared by managed Capture runs
  and manual Captures, and its textual key.  A Go string type whose values are not closed by the
  compiler (\<open>Kind\<close>) stays a string, so that \<open>ParseKey\<close> may be given any text.
\<close>

section \<open>References\<close>

definition MaxIDBytes :: nat where
  "MaxIDBytes = 128"

definition KindManagedRun :: string where
  "KindManagedRun = ''managed_run''"

definition KindManualCapture :: string where
  "KindManualCapture = ''manual_capture''"

record reference =
  ref_Kind :: string
  ref_ID :: string

definition zero_reference :: reference where
  "zero_reference = \<lparr>ref_Kind = [], ref_ID = []\<rparr>"

datatype identity_error = ErrInvalidReference

text \<open>
  The loop of \<open>Validate\<close> ranges over runes; a rune it accepts is an ASCII letter, digit or one
  of the four punctuation marks.
\<close>

definition reference_rune :: "nat \<Rightarrow> bool" where
  "reference_rune r \<longleftrightarrow> \<not> (is_control r \<or> 0x7F < r
     \<or> \<not> (0x61 \<le> r \<and> r \<le> 0x7A) \<and> \<not> (0x41 \<le> r \<and> r \<le> 0x5A) \<and> \<not> (0x30 \<le> r \<and> r \<le> 0x39)
       \<and> r \<noteq> 0x2D \<and> r \<noteq> 0x5F \<and> r \<noteq> 0x2E \<and> r \<noteq> 0x3A)"

definition Reference_Validate :: "reference \<Rightarrow> bool" where
  "Reference_Validate r \<longleftrightarrow>
     (if (ref_Kind r \<noteq> KindManagedRun \<and> ref_Kind r \<noteq> KindManualCapture)
         \<or> ref_ID r = [] \<or> MaxIDBytes < length (ref_ID r)
         \<or> \<not> valid_utf8 (ref_ID r) \<or> trim_space (ref_ID r) \<noteq> ref_ID r
      then False
      else list_all reference_rune (go_runes (ref_ID r)))"

definition New_Reference :: "string \<Rightarrow> string \<Rightarrow> identity_error + reference" where
  "New_Reference kind ident =
     (let r = \<lparr>ref_Kind = kind, ref_ID = ident\<rparr>
      in if Reference_Validate r then Inr r else Inl ErrInvalidReference)"

definition Reference_Key :: "reference \<Rightarrow> string" where
  "Reference_Key r =
     (if Reference_Validate r then ref_Kind r @ '':'' @ ref_ID r else [])"

definition ParseKey :: "string \<Rightarrow> identity_error + reference" where
  "ParseKey v =
     (case cut_char (CHR '':'') v of
        None \<Rightarrow> Inl ErrInvalidReference
      | Some (kind, ident) \<Rightarrow> New_Reference kind ident)"

section \<open>The key determines the reference\<close>

lemma New_Reference_Inr:
  "New_Reference k i = Inr r \<longleftrightarrow> r = \<lparr>ref_Kind = k, ref_ID = i\<rparr> \<and> Reference_Validate r"
  by (auto simp: New_Reference_def Let_def)

lemma Reference_Validate_kind:
  "Reference_Validate r \<Longrightarrow> ref_Kind r \<in> {KindManagedRun, KindManualCapture}"
  by (auto simp: Reference_Validate_def split: if_splits)

lemma kind_no_colon:
  "Reference_Validate r \<Longrightarrow> CHR '':'' \<notin> set (ref_Kind r)"
  by (drule Reference_Validate_kind) (auto simp: KindManagedRun_def KindManualCapture_def)

lemma Reference_Validate_ID:
  "Reference_Validate r \<Longrightarrow> ref_ID r \<noteq> [] \<and> length (ref_ID r) \<le> MaxIDBytes"
  by (auto simp: Reference_Validate_def split: if_splits)

lemma Reference_Validate_plain:
  assumes "i \<noteq> []" and "length i \<le> MaxIDBytes" and "k = KindManagedRun \<or> k = KindManualCapture"
    and "plain_text i" and "list_all (\<lambda>c. reference_rune (of_char c)) i"
  shows "Reference_Validate \<lparr>ref_Kind = k, ref_ID = i\<rparr>"
proof -
  have "list_all reference_rune (go_runes i)"
    using assms(4,5) by (simp add: plain_text_facts list_all_iff)
  with assms show ?thesis by (auto simp: Reference_Validate_def plain_text_facts)
qed

text \<open>C7: a text parses as a Capture key exactly when it is the key of that valid reference, so
  keys and valid references are in bijection and parsing and printing are mutually inverse.\<close>

theorem ParseKey_iff_Key:
  "ParseKey v = Inr r \<longleftrightarrow> Reference_Validate r \<and> Reference_Key r = v"
proof
  assume "ParseKey v = Inr r"
  then obtain k i where cut: "cut_char (CHR '':'') v = Some (k, i)"
    and new: "New_Reference k i = Inr r"
    by (auto simp: ParseKey_def split: option.splits)
  from cut have "v = k @ CHR '':'' # i" by (simp add: cut_char_SomeD)
  with new show "Reference_Validate r \<and> Reference_Key r = v"
    by (auto simp: New_Reference_Inr Reference_Key_def)
next
  assume r: "Reference_Validate r \<and> Reference_Key r = v"
  then have "cut_char (CHR '':'') v = Some (ref_Kind r, ref_ID r)"
    by (auto simp: Reference_Key_def kind_no_colon cut_char_append)
  with r show "ParseKey v = Inr r"
    by (simp add: ParseKey_def New_Reference_Inr)
qed

lemma Reference_Key_inj:
  "Reference_Validate r \<Longrightarrow> Reference_Validate s \<Longrightarrow> Reference_Key r = Reference_Key s \<Longrightarrow> r = s"
proof -
  assume r: "Reference_Validate r" and s: "Reference_Validate s"
    and key: "Reference_Key r = Reference_Key s"
  have cut: "cut_char (CHR '':'') (Reference_Key x) = Some (ref_Kind x, ref_ID x)"
    if "Reference_Validate x" for x :: reference
    using that by (simp add: Reference_Key_def kind_no_colon cut_char_append)
  from cut [OF r] cut [OF s] key have "ref_Kind r = ref_Kind s" and "ref_ID r = ref_ID s"
    by simp_all
  then show "r = s" by simp
qed

end
