(* ===== verification/Connection_Policy.thy ===== *)
theory Connection_Policy
  imports Go_Prelude "HOL-Library.Product_Lexorder" "HOL-Library.Multiset"
begin

text \<open>
  \<open>src/internal/connectionpolicy\<close>: the rules that decide whether a proxied connection may be
  attempted (\<open>policy.go\<close>), the set in force (\<open>live.go\<close>), the stored form (\<open>store.go\<close>) and the
  manager that loads, seeds, reloads and replaces it (\<open>manager.go\<close>).  The repository is the
  interface the manager is written against: a record of operations, whose laws are the locale
  \<open>rule_repository\<close>.  \<open>ul\<close> is the Unicode lower-case table of \<open>strings.ToLower\<close>.
\<close>

section \<open>Rules\<close>

definition MaxRules :: nat where
  "MaxRules = 512"

datatype rule_error = ErrInvalidRuleSet | ErrRevisionConflict | ErrNoRuleSet | ErrDatabase
  | ErrDependencies

definition DecisionAllow :: string where "DecisionAllow = ''allow''"

definition DecisionDeny :: string where "DecisionDeny = ''deny''"

definition DecisionAsk :: string where "DecisionAsk = ''ask''"

definition Decision_valid :: "string \<Rightarrow> bool" where
  "Decision_valid d \<longleftrightarrow> d = DecisionAllow \<or> d = DecisionDeny \<or> d = DecisionAsk"

definition ModeMonitor :: string where "ModeMonitor = ''monitor''"

definition ModeAskUnknown :: string where "ModeAskUnknown = ''ask_unknown''"

definition ModeDenyUnknown :: string where "ModeDenyUnknown = ''deny_unknown''"

definition Mode_fallback :: "string \<Rightarrow> rule_error + (string \<times> string)" where
  "Mode_fallback mode =
     (if mode = ModeMonitor then Inr (DecisionAllow, ''mode.monitor'')
      else if mode = ModeAskUnknown then Inr (DecisionAsk, ''mode.ask_unknown'')
      else if mode = ModeDenyUnknown then Inr (DecisionDeny, ''mode.deny_unknown'')
      else Inl ErrInvalidRuleSet)"

definition MatchKindExactHost :: string where "MatchKindExactHost = ''exact_host''"

definition MatchKindExactHostPort :: string where "MatchKindExactHostPort = ''exact_host_port''"

record match_rule =
  m_Kind :: string
  m_Host :: string
  m_Port :: uint16

definition MatchExactHost :: "string \<Rightarrow> match_rule" where
  "MatchExactHost host = \<lparr>m_Kind = MatchKindExactHost, m_Host = host, m_Port = 0\<rparr>"

definition MatchExactHostPort :: "string \<Rightarrow> uint16 \<Rightarrow> match_rule" where
  "MatchExactHostPort host port =
     \<lparr>m_Kind = MatchKindExactHostPort, m_Host = host, m_Port = port\<rparr>"

definition validateHost :: "(nat \<Rightarrow> nat) \<Rightarrow> string \<Rightarrow> bool" where
  "validateHost ul host \<longleftrightarrow>
     \<not> (host = [] \<or> 253 < length host \<or> to_lower ul host \<noteq> host
        \<or> (\<exists>c \<in> set host. c \<in> set (map byte_char [32, 9, 13, 10, 47, 42, 63]))
        \<or> prefix ''.'' host \<or> suffix ''.'' host)"

definition validateIdentity :: "string \<Rightarrow> bool" where
  "validateIdentity v \<longleftrightarrow> \<not> (v = [] \<or> 256 < length v \<or> trim_space v \<noteq> v)"

definition Match_validate :: "(nat \<Rightarrow> nat) \<Rightarrow> match_rule \<Rightarrow> bool" where
  "Match_validate ul m \<longleftrightarrow>
     (if m_Kind m = MatchKindExactHost then m_Port m = 0 \<and> validateHost ul (m_Host m)
      else if m_Kind m = MatchKindExactHostPort then m_Port m \<noteq> 0 \<and> validateHost ul (m_Host m)
      else False)"

record request =
  q_Host :: string
  q_Port :: uint16

definition Match_matches :: "match_rule \<Rightarrow> request \<Rightarrow> bool" where
  "Match_matches m q \<longleftrightarrow>
     (if m_Kind m = MatchKindExactHost then m_Host m = q_Host q
      else if m_Kind m = MatchKindExactHostPort then m_Host m = q_Host q \<and> m_Port m = q_Port q
      else False)"

record rule =
  r_ID :: string
  r_Priority :: uint32
  r_Decision :: string
  r_Match :: match_rule

definition Rule_validate :: "(nat \<Rightarrow> nat) \<Rightarrow> rule \<Rightarrow> bool" where
  "Rule_validate ul r \<longleftrightarrow>
     validateIdentity (r_ID r) \<and> Decision_valid (r_Decision r) \<and> Match_validate ul (r_Match r)"

record outcome =
  o_Decision :: string
  o_RuleID :: string
  o_Revision :: uint64
  o_Explicit :: bool

section \<open>Rule sets\<close>

record snapshot =
  sn_Revision :: uint64
  sn_Rules :: "rule list"
  sn_Mode :: string

record rule_set =
  rs_revision :: uint64
  rs_rules :: "rule list"
  rs_fallbackDecision :: string
  rs_fallbackRuleID :: string

text \<open>
  The loop of \<open>NewRuleSet\<close>: each rule is validated and its identifier must be new among the ones
  seen so far (the mode's own identifier included).
\<close>

fun collect_rules :: "(nat \<Rightarrow> nat) \<Rightarrow> string set \<Rightarrow> rule list \<Rightarrow> rule_error + rule list" where
  "collect_rules ul seen [] = Inr []"
| "collect_rules ul seen (r # rs) =
     (if \<not> Rule_validate ul r then Inl ErrInvalidRuleSet
      else if r_ID r \<in> seen then Inl ErrInvalidRuleSet
      else case collect_rules ul (insert (r_ID r) seen) rs of
             Inl e \<Rightarrow> Inl e
           | Inr out \<Rightarrow> Inr (r # out))"

text \<open>The order of \<open>sort.SliceStable\<close>: higher priority first, then the identifier.\<close>

definition rule_key :: "rule \<Rightarrow> int \<times> string" where
  "rule_key r = (- uint (r_Priority r), r_ID r)"

definition NewRuleSet :: "(nat \<Rightarrow> nat) \<Rightarrow> snapshot \<Rightarrow> rule_error + rule_set" where
  "NewRuleSet ul opts =
     (if sn_Revision opts = 0 then Inl ErrInvalidRuleSet
      else if MaxRules < length (sn_Rules opts) then Inl ErrInvalidRuleSet
      else case Mode_fallback (sn_Mode opts) of
        Inl e \<Rightarrow> Inl e
      | Inr (decision, ruleID) \<Rightarrow>
          (case collect_rules ul {ruleID} (sn_Rules opts) of
             Inl e \<Rightarrow> Inl e
           | Inr rules \<Rightarrow>
               Inr \<lparr>rs_revision = sn_Revision opts, rs_rules = sort_key rule_key rules,
                    rs_fallbackDecision = decision, rs_fallbackRuleID = ruleID\<rparr>))"

definition Snapshot_Compile :: "(nat \<Rightarrow> nat) \<Rightarrow> snapshot \<Rightarrow> rule_error + rule_set" where
  "Snapshot_Compile ul s = NewRuleSet ul s"

fun first_match :: "rule list \<Rightarrow> request \<Rightarrow> rule option" where
  "first_match [] q = None"
| "first_match (r # rs) q = (if Match_matches (r_Match r) q then Some r else first_match rs q)"

definition RuleSet_Evaluate :: "rule_set \<Rightarrow> request \<Rightarrow> outcome" where
  "RuleSet_Evaluate rs q =
     (case first_match (rs_rules rs) q of
        Some r \<Rightarrow> \<lparr>o_Decision = r_Decision r, o_RuleID = r_ID r, o_Revision = rs_revision rs,
                   o_Explicit = True\<rparr>
      | None \<Rightarrow> \<lparr>o_Decision = rs_fallbackDecision rs, o_RuleID = rs_fallbackRuleID rs,
                 o_Revision = rs_revision rs, o_Explicit = False\<rparr>)"

definition ShippedSnapshot :: "uint64 \<Rightarrow> snapshot" where
  "ShippedSnapshot revision = \<lparr>sn_Revision = revision, sn_Rules = [], sn_Mode = ModeMonitor\<rparr>"

section \<open>What compiling and evaluating a set means\<close>

lemma collect_rules_eq:
  "collect_rules ul seen rs =
     (if list_all (Rule_validate ul) rs \<and> distinct (map r_ID rs) \<and> r_ID ` set rs \<inter> seen = {}
      then Inr rs else Inl ErrInvalidRuleSet)"
  by (induction rs arbitrary: seen) auto

lemma Compile_eq:
  "Snapshot_Compile ul s =
     (case Mode_fallback (sn_Mode s) of
        Inl e \<Rightarrow> Inl ErrInvalidRuleSet
      | Inr (d, i) \<Rightarrow>
          if sn_Revision s \<noteq> 0 \<and> length (sn_Rules s) \<le> MaxRules
             \<and> list_all (Rule_validate ul) (sn_Rules s) \<and> distinct (map r_ID (sn_Rules s))
             \<and> i \<notin> r_ID ` set (sn_Rules s)
          then Inr \<lparr>rs_revision = sn_Revision s, rs_rules = sort_key rule_key (sn_Rules s),
                    rs_fallbackDecision = d, rs_fallbackRuleID = i\<rparr>
          else Inl ErrInvalidRuleSet)"
proof -
  have "Mode_fallback (sn_Mode s) = Inl e \<Longrightarrow> e = ErrInvalidRuleSet" for e
    by (auto simp: Mode_fallback_def split: if_splits)
  then show ?thesis
    by (auto simp: Snapshot_Compile_def NewRuleSet_def collect_rules_eq split: sum.split)
qed

lemma Compile_Inr:
  "Snapshot_Compile ul s = Inr c \<longleftrightarrow>
     sn_Revision s \<noteq> 0 \<and> length (sn_Rules s) \<le> MaxRules
     \<and> list_all (Rule_validate ul) (sn_Rules s) \<and> distinct (map r_ID (sn_Rules s))
     \<and> (\<exists>d i. Mode_fallback (sn_Mode s) = Inr (d, i) \<and> i \<notin> r_ID ` set (sn_Rules s)
          \<and> c = \<lparr>rs_revision = sn_Revision s, rs_rules = sort_key rule_key (sn_Rules s),
                 rs_fallbackDecision = d, rs_fallbackRuleID = i\<rparr>)"
  by (auto simp: Compile_eq split: sum.splits if_splits)

lemma inj_on_rule_key: "distinct (map r_ID rs) \<Longrightarrow> inj_on rule_key (set rs)"
  by (auto simp: inj_on_def rule_key_def distinct_map)

lemma sorted_rule_keys_unique:
  assumes "mset rs = mset rs'" and "distinct (map r_ID rs)"
  shows "sort_key rule_key rs = sort_key rule_key rs'"
proof (rule sort_key_inj_key_eq)
  show "mset rs = mset (sort_key rule_key rs')" using assms(1) by simp
  show "inj_on rule_key (set rs)" using assms(2) by (rule inj_on_rule_key)
  show "sorted (map rule_key (sort_key rule_key rs'))" by simp
qed

text \<open>Two snapshots hold the same rules when they differ at most in the order of the list.\<close>

definition same_rules :: "snapshot \<Rightarrow> snapshot \<Rightarrow> bool" where
  "same_rules s t \<longleftrightarrow>
     sn_Revision s = sn_Revision t \<and> sn_Mode s = sn_Mode t \<and> mset (sn_Rules s) = mset (sn_Rules t)"

lemma same_rules_refl [simp]: "same_rules s s"
  by (simp add: same_rules_def)

lemma same_rules_trans [trans]: "same_rules s t \<Longrightarrow> same_rules t u \<Longrightarrow> same_rules s u"
  by (simp add: same_rules_def)

lemma same_rules_sym: "same_rules s t \<Longrightarrow> same_rules t s"
  by (simp add: same_rules_def)

lemma same_rules_Compile:
  assumes "same_rules s t"
  shows "Snapshot_Compile ul s = Snapshot_Compile ul t"
proof -
  from assms have eq: "set (sn_Rules s) = set (sn_Rules t)"
    "length (sn_Rules s) = length (sn_Rules t)"
    by (auto simp: same_rules_def dest: mset_eq_setD mset_eq_length)
  from assms have "mset (map r_ID (sn_Rules s)) = mset (map r_ID (sn_Rules t))"
    by (simp add: same_rules_def)
  then have ids: "distinct (map r_ID (sn_Rules s)) = distinct (map r_ID (sn_Rules t))"
    by (metis mset_eq_imp_distinct_iff)
  have "distinct (map r_ID (sn_Rules s)) \<Longrightarrow>
    sort_key rule_key (sn_Rules s) = sort_key rule_key (sn_Rules t)"
    using assms by (intro sorted_rule_keys_unique) (simp_all add: same_rules_def)
  with assms eq ids show ?thesis
    by (simp add: Compile_eq same_rules_def list_all_iff split: sum.split)
qed

text \<open>
  The rule that answers: among the rules that match it has the highest priority, and the least
  identifier among those of that priority.
\<close>

definition outranks :: "rule \<Rightarrow> rule \<Rightarrow> bool" where
  "outranks r r' \<longleftrightarrow>
     r_Priority r' < r_Priority r \<or> r_Priority r' = r_Priority r \<and> r_ID r \<le> r_ID r'"

lemma outranks_iff_key: "outranks r r' \<longleftrightarrow> rule_key r \<le> rule_key r'"
  by (auto simp: outranks_def rule_key_def less_eq_prod_def word_less_def word_uint_eq_iff)

lemma first_match_sorted:
  assumes "sorted (map rule_key rs)" and "first_match rs q = Some r"
  shows "r \<in> set rs \<and> Match_matches (r_Match r) q
         \<and> (\<forall>r' \<in> set rs. Match_matches (r_Match r') q \<longrightarrow> rule_key r \<le> rule_key r')"
  using assms by (induction rs) (auto split: if_splits)

lemma first_match_None:
  "first_match rs q = None \<longleftrightarrow> (\<forall>r \<in> set rs. \<not> Match_matches (r_Match r) q)"
  by (induction rs) auto

text \<open>C8: a compiled set answers with the matching rule that outranks every other matching rule, and
  with the mode's decision, marked as not explicit, exactly when no rule matches.\<close>

theorem Evaluate_highest_rule:
  assumes "Snapshot_Compile ul s = Inr c"
  shows "(\<exists>r \<in> set (sn_Rules s). Match_matches (r_Match r) q
            \<and> (\<forall>r' \<in> set (sn_Rules s). Match_matches (r_Match r') q \<longrightarrow> outranks r r')
            \<and> RuleSet_Evaluate c q = \<lparr>o_Decision = r_Decision r, o_RuleID = r_ID r,
                 o_Revision = sn_Revision s, o_Explicit = True\<rparr>)
       \<or> ((\<forall>r \<in> set (sn_Rules s). \<not> Match_matches (r_Match r) q)
            \<and> (\<exists>d i. Mode_fallback (sn_Mode s) = Inr (d, i)
                 \<and> RuleSet_Evaluate c q = \<lparr>o_Decision = d, o_RuleID = i,
                      o_Revision = sn_Revision s, o_Explicit = False\<rparr>))"
proof -
  from assms obtain d i where fb: "Mode_fallback (sn_Mode s) = Inr (d, i)"
    and c: "c = \<lparr>rs_revision = sn_Revision s, rs_rules = sort_key rule_key (sn_Rules s),
                 rs_fallbackDecision = d, rs_fallbackRuleID = i\<rparr>"
    by (auto simp: Compile_Inr)
  show ?thesis
  proof (cases "first_match (sort_key rule_key (sn_Rules s)) q")
    case None
    then have "\<forall>r \<in> set (sn_Rules s). \<not> Match_matches (r_Match r) q"
      by (simp add: first_match_None)
    with None fb c show ?thesis
      by (simp add: RuleSet_Evaluate_def)
  next
    case (Some r)
    with first_match_sorted [OF _ this] have
      "r \<in> set (sn_Rules s) \<and> Match_matches (r_Match r) q
       \<and> (\<forall>r' \<in> set (sn_Rules s). Match_matches (r_Match r') q \<longrightarrow> outranks r r')"
      by (simp add: outranks_iff_key)
    with Some c show ?thesis
      by (intro disjI1 bexI [of _ r]) (simp_all add: RuleSet_Evaluate_def)
  qed
qed

text \<open>Two rules for one host: the port rule has the higher priority and answers for its port.\<close>

definition sample_snapshot :: snapshot where
  "sample_snapshot =
     \<lparr>sn_Revision = 7,
      sn_Rules = [\<lparr>r_ID = ''host'', r_Priority = 1, r_Decision = ''allow'', r_Match = MatchExactHost ''api.test''\<rparr>,
                  \<lparr>r_ID = ''port'', r_Priority = 9, r_Decision = ''deny'',
                   r_Match = MatchExactHostPort ''api.test'' 22\<rparr>],
      sn_Mode = ''ask_unknown''\<rparr>"

definition sample_set :: rule_set where
  "sample_set =
     \<lparr>rs_revision = 7, rs_rules = rev (sn_Rules sample_snapshot), rs_fallbackDecision = ''ask'',
      rs_fallbackRuleID = ''mode.ask_unknown''\<rparr>"

lemma validateIdentity_plain:
  "plain_text v \<Longrightarrow> v \<noteq> [] \<Longrightarrow> length v \<le> 256 \<Longrightarrow> validateIdentity v"
  by (simp add: validateIdentity_def plain_text_facts)

lemma validateHost_api_test: "validateHost ul ''api.test''"
proof -
  have "to_lower ul ''api.test'' = ''api.test''"
    by (rule to_lower_ascii_id) (simp_all add: is_ascii_def)
  then show ?thesis by (simp add: validateHost_def byte_char_eq_iff suffix_def)
qed

lemma sample_compiles: "Snapshot_Compile id sample_snapshot = Inr sample_set"
  by (simp add: Compile_eq sample_snapshot_def sample_set_def Mode_fallback_def Rule_validate_def
      validateIdentity_plain plain_text_def Decision_valid_def Match_validate_def
      validateHost_api_test MatchExactHost_def MatchExactHostPort_def MaxRules_def rule_key_def
      ModeMonitor_def ModeAskUnknown_def DecisionAllow_def DecisionDeny_def DecisionAsk_def
      MatchKindExactHost_def MatchKindExactHostPort_def)

theorem Evaluate_highest_rule_witness:
  "Snapshot_Compile id sample_snapshot = Inr sample_set
   \<and> (\<exists>r \<in> set (sn_Rules sample_snapshot). r_ID r = ''port''
        \<and> RuleSet_Evaluate sample_set \<lparr>q_Host = ''api.test'', q_Port = 22\<rparr>
            = \<lparr>o_Decision = r_Decision r, o_RuleID = r_ID r, o_Revision = 7, o_Explicit = True\<rparr>)"
proof -
  let ?q = "\<lparr>q_Host = ''api.test'', q_Port = 22\<rparr>"
  have m: "\<forall>r \<in> set (sn_Rules sample_snapshot). Match_matches (r_Match r) ?q"
    by (simp add: sample_snapshot_def Match_matches_def MatchExactHost_def MatchExactHostPort_def
        MatchKindExactHost_def MatchKindExactHostPort_def)
  have "outranks r r' \<Longrightarrow> r' \<in> set (sn_Rules sample_snapshot) \<Longrightarrow> r \<in> set (sn_Rules sample_snapshot)
    \<Longrightarrow> r_ID r' = ''port'' \<Longrightarrow> r_ID r = ''port''" for r r'
    by (auto simp: sample_snapshot_def outranks_def)
  moreover have "\<exists>r \<in> set (sn_Rules sample_snapshot). r_ID r = ''port''" by (simp add: sample_snapshot_def)
  moreover have "sn_Revision sample_snapshot = 7" and "sn_Rules sample_snapshot \<noteq> []"
    by (simp_all add: sample_snapshot_def)
  ultimately show ?thesis
    using Evaluate_highest_rule [OF sample_compiles, of ?q] m sample_compiles
    by (metis list.set_sel(1))
qed

text \<open>The order in which storage returns the rules cannot change any answer: two lists of the same
  rules compile, at one revision and mode, to the same set or to the same refusal.\<close>

theorem Compile_order_irrelevant:
  assumes "mset rules = mset rules'"
  shows "Snapshot_Compile ul \<lparr>sn_Revision = n, sn_Rules = rules, sn_Mode = mode\<rparr> =
         Snapshot_Compile ul \<lparr>sn_Revision = n, sn_Rules = rules', sn_Mode = mode\<rparr>"
  by (rule same_rules_Compile) (simp add: same_rules_def assms)

theorem Compile_order_irrelevant_witness:
  "mset (sn_Rules sample_snapshot) = mset (rev (sn_Rules sample_snapshot))
   \<and> Snapshot_Compile id \<lparr>sn_Revision = 7, sn_Rules = rev (sn_Rules sample_snapshot), sn_Mode = ''ask_unknown''\<rparr>
       = Inr sample_set"
proof -
  have "mset (sn_Rules sample_snapshot) = mset (rev (sn_Rules sample_snapshot))" by simp
  from Compile_order_irrelevant [OF this, of id 7 "''ask_unknown''"] sample_compiles show ?thesis
    by (simp add: sample_snapshot_def)
qed

section \<open>The manager\<close>

text \<open>The interface \<open>Repository\<close> over a store of type \<open>'s\<close>.\<close>

record 's repository =
  rp_Load :: "'s \<Rightarrow> rule_error + snapshot"
  rp_Seed :: "'s \<Rightarrow> snapshot \<Rightarrow> go_time \<Rightarrow> 's \<times> (rule_error + snapshot)"
  rp_Replace :: "'s \<Rightarrow> uint64 \<Rightarrow> snapshot \<Rightarrow> go_time \<Rightarrow> 's \<times> (rule_error + snapshot)"

text \<open>\<open>Live\<close> is the compiled set the proxy reads; \<open>Adopt\<close> replaces it whole.\<close>

record manager =
  mg_current :: snapshot
  mg_live :: rule_set

definition Live_Adopt :: "rule_set \<Rightarrow> manager \<Rightarrow> manager" where
  "Live_Adopt rs m = m\<lparr>mg_live := rs\<rparr>"

definition Live_Current :: "manager \<Rightarrow> rule_set" where
  "Live_Current m = mg_live m"

definition NewManager :: "(nat \<Rightarrow> nat) \<Rightarrow> 's repository option \<Rightarrow> go_time option \<Rightarrow> snapshot \<Rightarrow> 's
    \<Rightarrow> 's \<times> (rule_error + manager)" where
  "NewManager ul repo clock shipped st =
     (case (repo, clock) of
        (Some repo, Some now) \<Rightarrow>
          (let (st', stored) =
             (case rp_Load repo st of
                Inl ErrNoRuleSet \<Rightarrow> rp_Seed repo st shipped now
              | r \<Rightarrow> (st, r))
           in (case stored of
                 Inl e \<Rightarrow> (st', Inl e)
               | Inr s \<Rightarrow>
                   (case Snapshot_Compile ul s of
                      Inl e \<Rightarrow> (st', Inl e)
                    | Inr compiled \<Rightarrow> (st', Inr \<lparr>mg_current = s, mg_live = compiled\<rparr>))))
      | _ \<Rightarrow> (st, Inl ErrDependencies))"

text \<open>
  \<open>Reload\<close> reads and compiles before it takes the manager's lock, so other operations may run
  between the read and the adoption: the two parts are separate definitions.
\<close>

definition Reload_read :: "(nat \<Rightarrow> nat) \<Rightarrow> 's repository \<Rightarrow> 's \<Rightarrow> rule_error + (snapshot \<times> rule_set)" where
  "Reload_read ul repo st =
     (case rp_Load repo st of
        Inl e \<Rightarrow> Inl e
      | Inr stored \<Rightarrow>
          (case Snapshot_Compile ul stored of
             Inl e \<Rightarrow> Inl e
           | Inr compiled \<Rightarrow> Inr (stored, compiled)))"

definition Reload_adopt :: "snapshot \<times> rule_set \<Rightarrow> manager \<Rightarrow> manager \<times> snapshot" where
  "Reload_adopt sc m =
     (let (stored, compiled) = sc
      in if sn_Revision stored < sn_Revision (mg_current m) then (m, mg_current m)
         else (Live_Adopt compiled (m\<lparr>mg_current := stored\<rparr>), stored))"

definition Manager_Reload :: "(nat \<Rightarrow> nat) \<Rightarrow> 's repository \<Rightarrow> 's \<Rightarrow> manager
    \<Rightarrow> manager \<times> (rule_error + snapshot)" where
  "Manager_Reload ul repo st m =
     (case Reload_read ul repo st of
        Inl e \<Rightarrow> (m, Inl e)
      | Inr sc \<Rightarrow> (let (m', s) = Reload_adopt sc m in (m', Inr s)))"

definition RulesRemembered :: "(nat \<Rightarrow> nat) \<Rightarrow> 's repository \<Rightarrow> 's \<Rightarrow> manager
    \<Rightarrow> manager \<times> rule_error option" where
  "RulesRemembered ul repo st m =
     (case Manager_Reload ul repo st m of
        (m', Inl e) \<Rightarrow> (m', Some e)
      | (m', Inr _) \<Rightarrow> (m', None))"

definition Manager_Replace :: "(nat \<Rightarrow> nat) \<Rightarrow> 's repository \<Rightarrow> go_time \<Rightarrow> uint64 \<Rightarrow> rule list \<Rightarrow> string
    \<Rightarrow> 's \<Rightarrow> manager \<Rightarrow> 's \<times> manager \<times> snapshot \<times> rule_error option" where
  "Manager_Replace ul repo now expectedRevision rules mode st m =
     (if sn_Revision (mg_current m) \<noteq> expectedRevision
      then (st, m, mg_current m, Some ErrRevisionConflict)
      else
        let proposed = \<lparr>sn_Revision = sn_Revision (mg_current m) + 1, sn_Rules = rules, sn_Mode = mode\<rparr>
        in (case Snapshot_Compile ul proposed of
              Inl e \<Rightarrow> (st, m, mg_current m, Some e)
            | Inr compiled \<Rightarrow>
                (case rp_Replace repo st expectedRevision proposed now of
                   (st', Inl e) \<Rightarrow> (st', m, mg_current m, Some e)
                 | (st', Inr stored) \<Rightarrow>
                     (st', Live_Adopt compiled (m\<lparr>mg_current := stored\<rparr>), stored, None))))"

section \<open>The contract of a repository, and what the manager makes of it\<close>

text \<open>
  \<open>stored\<close> is what the store holds.  A successful load returns it, possibly in another order;
  seeding never overwrites; a replacement succeeds only from the revision the author read, and
  one that fails left the store alone unless its commit was applied without being acknowledged.
\<close>

locale rule_repository =
  fixes ul :: "nat \<Rightarrow> nat" and repo :: "'s repository" and stored :: "'s \<Rightarrow> snapshot option"
    and invar :: "'s \<Rightarrow> bool"
  assumes load_stored: "rp_Load repo st = Inr s \<Longrightarrow> \<exists>t. stored st = Some t \<and> same_rules s t"
    and seed_keeps: "invar st \<Longrightarrow> rp_Seed repo st shipped now = (st', Inr s) \<Longrightarrow>
      \<exists>t. stored st' = Some t \<and> same_rules s t"
    and seed_invar: "invar st \<Longrightarrow> rp_Seed repo st shipped now = (st', r) \<Longrightarrow> invar st'"
    and replace_invar: "invar st \<Longrightarrow> rp_Replace repo st e p now = (st', r) \<Longrightarrow> invar st'"
    and seed_once: "rp_Seed repo st shipped now = (st', r) \<Longrightarrow> stored st = Some t \<Longrightarrow> stored st' = Some t"
    and replace_stores:
      "rp_Replace repo st e p now = (st', Inr s) \<Longrightarrow> s = p \<and> (\<exists>t. stored st' = Some t \<and> same_rules p t)"
    and replace_advances:
      "rp_Replace repo st e p now = (st', r) \<Longrightarrow> stored st' = stored st \<or>
         (\<exists>t u. stored st = Some t \<and> sn_Revision t = e \<and> e < sn_Revision p
              \<and> stored st' = Some u \<and> same_rules p u)"
    and replace_guarded:
      "rp_Replace repo st e p now = (st', Inr s) \<Longrightarrow>
         \<exists>t. stored st = Some t \<and> sn_Revision t = e \<and> e < sn_Revision p"

text \<open>The set in force is the compilation of the snapshot the manager reports.\<close>

definition manager_ok :: "(nat \<Rightarrow> nat) \<Rightarrow> manager \<Rightarrow> bool" where
  "manager_ok ul m \<longleftrightarrow> Snapshot_Compile ul (mg_current m) = Inr (mg_live m)"

text \<open>A snapshot was stored: it is no newer than the store, and equal to it at the same revision.\<close>

definition not_ahead :: "snapshot \<Rightarrow> snapshot option \<Rightarrow> bool" where
  "not_ahead s st \<longleftrightarrow>
     (\<exists>t. st = Some t \<and> sn_Revision s \<le> sn_Revision t
          \<and> (sn_Revision s = sn_Revision t \<longrightarrow> same_rules s t))"

lemma not_ahead_same: "same_rules s t \<Longrightarrow> not_ahead s (Some t)"
  by (auto simp: not_ahead_def same_rules_def)

lemma not_ahead_advance:
  "not_ahead s (Some t) \<Longrightarrow> sn_Revision t < sn_Revision u \<Longrightarrow> not_ahead s (Some u)"
  by (auto simp: not_ahead_def)

context rule_repository
begin

lemma NewManager_sound:
  assumes "invar st" and "NewManager ul (Some repo) (Some now) shipped st = (st', Inr m)"
  shows "invar st' \<and> manager_ok ul m \<and> not_ahead (mg_current m) (stored st')"
proof -
  from assms(2) obtain s c where c: "Snapshot_Compile ul s = Inr c" and m: "m = \<lparr>mg_current = s, mg_live = c\<rparr>"
    and src: "(rp_Load repo st = Inr s \<and> st' = st) \<or> rp_Seed repo st shipped now = (st', Inr s)"
    by (auto simp: NewManager_def Let_def split: sum.splits prod.splits rule_error.splits)
  from src assms(1) obtain t where "stored st' = Some t" and "same_rules s t"
    using load_stored seed_keeps by blast
  moreover from src assms(1) have "invar st'" using seed_invar by blast
  ultimately show ?thesis using c m by (simp add: manager_ok_def not_ahead_same)
qed

lemma Reload_read_sound:
  assumes "Reload_read ul repo st = Inr (s, c)"
  shows "Snapshot_Compile ul s = Inr c \<and> not_ahead s (stored st)"
proof -
  from assms have load: "rp_Load repo st = Inr s" and c: "Snapshot_Compile ul s = Inr c"
    by (auto simp: Reload_read_def split: sum.splits)
  from load_stored [OF load] c show ?thesis by (auto simp: not_ahead_same)
qed

lemma Reload_read_stored:
  assumes "Reload_read ul repo st = Inr (s, c)"
  shows "\<exists>t. stored st = Some t \<and> same_rules s t"
  using assms load_stored by (auto simp: Reload_read_def split: sum.splits)

lemma NewManager_stored:
  assumes "invar st" and "NewManager ul (Some repo) (Some now) shipped st = (st', Inr m)"
  shows "\<exists>t. stored st' = Some t \<and> same_rules (mg_current m) t"
proof -
  from assms(2) obtain s c where m: "m = \<lparr>mg_current = s, mg_live = c\<rparr>"
    and src: "(rp_Load repo st = Inr s \<and> st' = st) \<or> rp_Seed repo st shipped now = (st', Inr s)"
    by (auto simp: NewManager_def Let_def split: sum.splits prod.splits rule_error.splits)
  with assms(1) show ?thesis using load_stored seed_keeps by fastforce
qed

lemma Replace_stored_advance:
  assumes "rp_Replace repo st e p now = (st', r)" and "not_ahead s (stored st)"
  shows "not_ahead s (stored st')"
  using replace_advances [OF assms(1)] assms(2)
proof (elim disjE exE conjE)
  fix t u
  assume "stored st = Some t" "sn_Revision t = e" "e < sn_Revision p"
    and u: "stored st' = Some u" "same_rules p u"
  then have "sn_Revision t < sn_Revision u" by (simp add: same_rules_def)
  with assms(2) \<open>stored st = Some t\<close> u(1) show ?thesis by (simp add: not_ahead_advance)
qed (use assms(2) in simp)

lemma Manager_Replace_keeps:
  assumes run: "Manager_Replace ul repo now e rules mode st m = (st', m', s, err)"
    and ok: "manager_ok ul m" and "not_ahead (mg_current m) (stored st)"
  shows "manager_ok ul m' \<and> not_ahead (mg_current m') (stored st')"
proof (cases "sn_Revision (mg_current m) = e")
  case False
  with assms show ?thesis by (simp add: Manager_Replace_def)
next
  case True
  let ?p = "\<lparr>sn_Revision = e + 1, sn_Rules = rules, sn_Mode = mode\<rparr>"
  obtain st2 r where rp: "rp_Replace repo st e ?p now = (st2, r)" by (cases "rp_Replace repo st e ?p now")
  show ?thesis
  proof (cases "Snapshot_Compile ul ?p")
    case (Inl x)
    with True assms show ?thesis by (simp add: Manager_Replace_def)
  next
    case c: (Inr c)
    show ?thesis
    proof (cases r)
      case (Inl x)
      with True c rp run have "m' = m" "st' = st2" by (simp_all add: Manager_Replace_def)
      with Replace_stored_advance [OF rp assms(3)] ok show ?thesis by simp
    next
      case (Inr x)
      with True c rp run have m': "m' = \<lparr>mg_current = x, mg_live = c\<rparr>" and "st' = st2"
        by (auto simp: Manager_Replace_def Live_Adopt_def)
      moreover from Inr rp replace_stores obtain t
        where "x = ?p" "stored st2 = Some t" "same_rules ?p t" by blast
      ultimately show ?thesis using c by (simp add: manager_ok_def not_ahead_same)
    qed
  qed
qed

lemma Manager_Replace_success:
  assumes "Manager_Replace ul repo now e rules mode st m = (st', m', s, None)"
  shows "sn_Revision (mg_current m) = e \<and> e < e + 1
    \<and> mg_current m' = \<lparr>sn_Revision = e + 1, sn_Rules = rules, sn_Mode = mode\<rparr>
    \<and> Snapshot_Compile ul (mg_current m') = Inr (mg_live m')
    \<and> (\<exists>t. stored st = Some t \<and> sn_Revision t = e)
    \<and> (\<exists>t. stored st' = Some t \<and> same_rules (mg_current m') t)"
proof -
  let ?p = "\<lparr>sn_Revision = e + 1, sn_Rules = rules, sn_Mode = mode\<rparr>"
  have e: "sn_Revision (mg_current m) = e"
    using assms by (simp add: Manager_Replace_def split: if_splits)
  obtain st2 r where rp: "rp_Replace repo st e ?p now = (st2, r)" by (cases "rp_Replace repo st e ?p now")
  obtain c where c: "Snapshot_Compile ul ?p = Inr c"
    using assms e by (cases "Snapshot_Compile ul ?p") (simp_all add: Manager_Replace_def)
  obtain x where r: "r = Inr x"
    using assms e c rp by (cases r) (simp_all add: Manager_Replace_def)
  with assms e c rp have m': "m' = \<lparr>mg_current = x, mg_live = c\<rparr>" and "st' = st2"
    by (auto simp: Manager_Replace_def Live_Adopt_def)
  with replace_stores [OF rp [unfolded r]] replace_guarded [OF rp [unfolded r]] e c
  show ?thesis by auto
qed

end

end
