(* ===== verification/Connection_Rule_Store.thy ===== *)
theory Connection_Rule_Store
  imports Connection_Policy
begin

text \<open>
  \<open>src/internal/runtimepersistence/connection_rule_repository.go\<close> and \<open>remembered_answer.go\<close>: the
  SQLite tables \<open>connection_rule_sets\<close> and \<open>connection_rules\<close> with the constraints of
  \<open>schema.sql\<close>, the repository over them, and the rule a remembered answer writes.  A database
  call may fail (\<open>rule_io\<close>): a failed transaction is rolled back, except that a failed commit may
  have been applied.  SQLite returns the rows of an unordered query in an order of its own, which
  is the argument \<open>pos\<close>.
\<close>

section \<open>Tables\<close>

record rule_row =
  rr_rule_id :: string
  rr_priority :: int
  rr_decision :: string
  rr_match_kind :: string
  rr_match_host :: string
  rr_match_port :: int

record set_row =
  sr_revision :: int
  sr_mode :: string
  sr_updated_at :: int

record rule_db =
  db_set :: "set_row option"
  db_rules :: "rule_row list"

record rule_io =
  io_begin :: bool
  io_read :: bool
  io_write :: bool
  io_commit :: commit_result

text \<open>The column constraints of \<open>connection_rules\<close>, its primary key and its unique index.\<close>

definition row_check :: "rule_row \<Rightarrow> bool" where
  "row_check r \<longleftrightarrow>
     1 \<le> length (rr_rule_id r) \<and> length (rr_rule_id r) \<le> 256
     \<and> 0 \<le> rr_priority r \<and> rr_priority r \<le> 4294967295
     \<and> rr_decision r \<in> {''allow'', ''deny'', ''ask''}
     \<and> rr_match_kind r \<in> {''exact_host'', ''exact_host_port''}
     \<and> length (rr_match_host r) \<le> 253
     \<and> 0 \<le> rr_match_port r \<and> rr_match_port r \<le> 65535
     \<and> rr_match_host r \<noteq> [] \<and> hd (rr_match_host r) \<noteq> byte_char 0
     \<and> (rr_match_kind r = ''exact_host'' \<longleftrightarrow> rr_match_port r = 0)"

definition row_target :: "rule_row \<Rightarrow> string \<times> string \<times> int" where
  "row_target r = (rr_match_kind r, rr_match_host r, rr_match_port r)"

definition insert_row :: "rule_row \<Rightarrow> rule_row list \<Rightarrow> rule_row list option" where
  "insert_row r rows =
     (if row_check r \<and> rr_rule_id r \<notin> rr_rule_id ` set rows \<and> row_target r \<notin> row_target ` set rows
      then Some (rows @ [r]) else None)"

fun insert_rows :: "rule_row list \<Rightarrow> rule_row list \<Rightarrow> rule_row list option" where
  "insert_rows [] rows = Some rows"
| "insert_rows (r # rs) rows = Option.bind (insert_row r rows) (insert_rows rs)"

definition set_check :: "set_row \<Rightarrow> bool" where
  "set_check s \<longleftrightarrow> 1 \<le> sr_revision s \<and> sr_revision s \<le> maxInt64
     \<and> sr_mode s \<in> {''monitor'', ''ask_unknown'', ''deny_unknown''}"

definition rule_to_row :: "rule \<Rightarrow> rule_row" where
  "rule_to_row r =
     \<lparr>rr_rule_id = r_ID r, rr_priority = uint (r_Priority r), rr_decision = r_Decision r,
      rr_match_kind = m_Kind (r_Match r), rr_match_host = m_Host (r_Match r),
      rr_match_port = uint (m_Port (r_Match r))\<rparr>"

definition row_to_rule :: "rule_row \<Rightarrow> rule" where
  "row_to_rule r =
     \<lparr>r_ID = rr_rule_id r, r_Priority = word_of_int (rr_priority r), r_Decision = rr_decision r,
      r_Match = \<lparr>m_Kind = rr_match_kind r, m_Host = rr_match_host r,
                 m_Port = word_of_int (rr_match_port r)\<rparr>\<rparr>"

lemma row_to_rule_to_row [simp]: "row_to_rule (rule_to_row r) = r"
  by (cases r; cases "r_Match r") (auto simp: row_to_rule_def rule_to_row_def)

section \<open>The repository\<close>

text \<open>What the tables hold, the rules in storage order.\<close>

definition db_stored :: "rule_db \<Rightarrow> snapshot option" where
  "db_stored db =
     map_option (\<lambda>s. \<lparr>sn_Revision = word_of_int (sr_revision s),
                      sn_Rules = map row_to_rule (db_rules db), sn_Mode = sr_mode s\<rparr>) (db_set db)"

definition repo_read :: "(nat \<Rightarrow> nat) \<Rightarrow> (rule_row \<Rightarrow> nat) \<Rightarrow> rule_io \<Rightarrow> rule_db \<Rightarrow> rule_error + snapshot" where
  "repo_read ul pos io db =
     (case db_set db of
        None \<Rightarrow> Inl (if io_read io then ErrNoRuleSet else ErrDatabase)
      | Some s \<Rightarrow>
          if \<not> io_read io then Inl ErrDatabase
          else
            let snap = \<lparr>sn_Revision = word_of_int (sr_revision s),
                        sn_Rules = map row_to_rule (sort_key pos (db_rules db)), sn_Mode = sr_mode s\<rparr>
            in (case Snapshot_Compile ul snap of Inl e \<Rightarrow> Inl e | Inr _ \<Rightarrow> Inr snap))"

definition repo_write :: "rule_io \<Rightarrow> snapshot \<Rightarrow> go_time \<Rightarrow> rule_db \<Rightarrow> rule_error + rule_db" where
  "repo_write io snap now db =
     (let s = \<lparr>sr_revision = sint (sn_Revision snap), sr_mode = sn_Mode snap, sr_updated_at = now\<rparr>
      in if \<not> io_write io \<or> \<not> set_check s then Inl ErrDatabase
         else (case insert_rows (map rule_to_row (sn_Rules snap)) (db_rules db) of
                 None \<Rightarrow> Inl ErrDatabase
               | Some rows \<Rightarrow> Inr \<lparr>db_set = Some s, db_rules = rows\<rparr>))"

definition commit :: "rule_io \<Rightarrow> rule_db \<Rightarrow> rule_db \<Rightarrow> 'a \<Rightarrow> rule_db \<times> (rule_error + 'a)" where
  "commit io old new v =
     (case io_commit io of
        CommitOK \<Rightarrow> (new, Inr v)
      | CommitLost \<Rightarrow> (old, Inl ErrDatabase)
      | CommitApplied \<Rightarrow> (new, Inl ErrDatabase))"

definition repo_Load :: "(nat \<Rightarrow> nat) \<Rightarrow> (rule_row \<Rightarrow> nat) \<Rightarrow> rule_io \<Rightarrow> rule_db \<Rightarrow> rule_error + snapshot" where
  "repo_Load ul pos io db = (if \<not> io_begin io then Inl ErrDatabase else repo_read ul pos io db)"

definition repo_Seed :: "(nat \<Rightarrow> nat) \<Rightarrow> (rule_row \<Rightarrow> nat) \<Rightarrow> rule_io \<Rightarrow> rule_db \<Rightarrow> snapshot \<Rightarrow> go_time
    \<Rightarrow> rule_db \<times> (rule_error + snapshot)" where
  "repo_Seed ul pos io db snap now =
     (case Snapshot_Compile ul snap of
        Inl e \<Rightarrow> (db, Inl e)
      | Inr _ \<Rightarrow>
          if \<not> io_begin io then (db, Inl ErrDatabase)
          else (case repo_read ul pos io db of
              Inr s \<Rightarrow> (db, Inr s)
            | Inl ErrNoRuleSet \<Rightarrow>
                (case repo_write io snap now db of
                   Inl e \<Rightarrow> (db, Inl e)
                 | Inr new \<Rightarrow> commit io db new snap)
            | Inl e \<Rightarrow> (db, Inl e)))"

definition repo_Replace :: "(nat \<Rightarrow> nat) \<Rightarrow> (rule_row \<Rightarrow> nat) \<Rightarrow> rule_io \<Rightarrow> rule_db \<Rightarrow> uint64 \<Rightarrow> snapshot
    \<Rightarrow> go_time \<Rightarrow> rule_db \<times> (rule_error + snapshot)" where
  "repo_Replace ul pos io db expectedRevision snap now =
     (case Snapshot_Compile ul snap of
        Inl e \<Rightarrow> (db, Inl e)
      | Inr _ \<Rightarrow>
          if \<not> io_begin io then (db, Inl ErrDatabase)
          else (case repo_read ul pos io db of
              Inl e \<Rightarrow> (db, Inl e)
            | Inr s \<Rightarrow>
                if sn_Revision s \<noteq> expectedRevision then (db, Inl ErrRevisionConflict)
                else if sn_Revision snap \<le> sn_Revision s then (db, Inl ErrRevisionConflict)
                else (case repo_write io snap now (db\<lparr>db_rules := []\<rparr>) of
                    Inl e \<Rightarrow> (db, Inl e)
                  | Inr new \<Rightarrow> commit io db new snap)))"

definition rule_repo :: "(nat \<Rightarrow> nat) \<Rightarrow> (rule_row \<Rightarrow> nat) \<Rightarrow> rule_io \<Rightarrow> rule_db repository" where
  "rule_repo ul pos io =
     \<lparr>rp_Load = repo_Load ul pos io, rp_Seed = repo_Seed ul pos io,
      rp_Replace = repo_Replace ul pos io\<rparr>"

section \<open>The repository keeps its contract\<close>

lemma insert_rows_Some: "insert_rows rs rows = Some out \<Longrightarrow> out = rows @ rs"
  by (induction rs arbitrary: rows out)
     (fastforce simp: insert_row_def bind_eq_Some_conv split: if_splits)+

lemma repo_read_stored:
  "repo_read ul pos io db = Inr s \<Longrightarrow> \<exists>t. db_stored db = Some t \<and> same_rules s t"
  by (auto simp: repo_read_def db_stored_def same_rules_def Let_def
      split: option.splits if_splits sum.splits)

lemma repo_read_no_set:
  "repo_read ul pos io db = Inl ErrNoRuleSet \<Longrightarrow> db_set db = None"
  by (auto simp: repo_read_def Let_def Compile_eq split: option.splits if_splits sum.splits)

lemma repo_write_stored:
  assumes "repo_write io snap now db = Inr new" and "db_rules db = []"
  shows "db_stored new = Some snap"
proof -
  let ?s = "\<lparr>sr_revision = sint (sn_Revision snap), sr_mode = sn_Mode snap, sr_updated_at = now\<rparr>"
  from assms obtain rows where rows: "insert_rows (map rule_to_row (sn_Rules snap)) [] = Some rows"
    and new: "new = \<lparr>db_set = Some ?s, db_rules = rows\<rparr>"
    by (auto simp: repo_write_def Let_def split: if_splits option.splits)
  from insert_rows_Some [OF rows] have "rows = map rule_to_row (sn_Rules snap)" by simp
  with new show ?thesis by (simp add: db_stored_def comp_def)
qed

lemma commit_cases:
  "commit io old new v = (db', r) \<Longrightarrow> (db' = old \<and> r = Inl ErrDatabase) \<or>
     (db' = new \<and> (r = Inr v \<or> r = Inl ErrDatabase))"
  by (auto simp: commit_def split: commit_result.splits)

definition db_ok :: "rule_db \<Rightarrow> bool" where
  "db_ok db \<longleftrightarrow>
     (case db_set db of None \<Rightarrow> db_rules db = [] | Some s \<Rightarrow> set_check s)"

lemma repo_write_ok: "repo_write io snap now db = Inr new \<Longrightarrow> db_ok new"
  by (auto simp: repo_write_def db_ok_def Let_def split: if_splits option.splits)

lemma repo_Seed_cases:
  assumes "repo_Seed ul pos io db snap now = (db', r)"
  shows "(db' = db \<and> (\<forall>s. r = Inr s \<longrightarrow> repo_read ul pos io db = Inr s))
    \<or> (db_set db = None \<and> repo_write io snap now db = Inr db' \<and> (\<forall>s. r = Inr s \<longrightarrow> s = snap))"
  using assms repo_read_no_set [of ul pos io db]
  by (auto simp: repo_Seed_def dest!: commit_cases
      split: sum.splits rule_error.splits if_splits)

lemma repo_Replace_cases:
  assumes "repo_Replace ul pos io db e snap now = (db', r)"
  shows "(db' = db \<and> (\<forall>s. r \<noteq> Inr s))
    \<or> (\<exists>s. repo_read ul pos io db = Inr s \<and> sn_Revision s = e \<and> e < sn_Revision snap
         \<and> repo_write io snap now (db\<lparr>db_rules := []\<rparr>) = Inr db' \<and> (\<forall>s. r = Inr s \<longrightarrow> s = snap))"
  using assms
  by (auto simp: repo_Replace_def not_le dest!: commit_cases split: sum.splits if_splits)

interpretation sqlite_rules: rule_repository ul "rule_repo ul pos io" db_stored db_ok
  for ul pos io
proof unfold_locales
  fix db s
  assume "rp_Load (rule_repo ul pos io) db = Inr s"
  then show "\<exists>t. db_stored db = Some t \<and> same_rules s t"
    by (auto simp: rule_repo_def repo_Load_def split: if_splits dest: repo_read_stored)
next
  fix db shipped now db' s
  assume "db_ok db" and "rp_Seed (rule_repo ul pos io) db shipped now = (db', Inr s)"
  then show "\<exists>t. db_stored db' = Some t \<and> same_rules s t"
    by (auto simp: rule_repo_def db_ok_def dest!: repo_Seed_cases
        dest: repo_read_stored repo_write_stored)
next
  fix db shipped now db' and r :: "rule_error + snapshot"
  assume "db_ok db" and "rp_Seed (rule_repo ul pos io) db shipped now = (db', r)"
  then show "db_ok db'"
    by (auto simp: rule_repo_def dest!: repo_Seed_cases dest: repo_write_ok)
next
  fix db e p now db' and r :: "rule_error + snapshot"
  assume "db_ok db" and "rp_Replace (rule_repo ul pos io) db e p now = (db', r)"
  then show "db_ok db'"
    by (auto simp: rule_repo_def dest!: repo_Replace_cases dest: repo_write_ok)
next
  fix db shipped now db' r t
  assume "rp_Seed (rule_repo ul pos io) db shipped now = (db', r)" and "db_stored db = Some t"
  then show "db_stored db' = Some t"
    by (auto simp: rule_repo_def db_stored_def dest!: repo_Seed_cases)
next
  fix db e p now db' s
  assume "rp_Replace (rule_repo ul pos io) db e p now = (db', Inr s)"
  then show "s = p \<and> (\<exists>t. db_stored db' = Some t \<and> same_rules p t)"
    by (auto simp: rule_repo_def dest!: repo_Replace_cases dest: repo_write_stored)
next
  fix db e p now db' and r :: "rule_error + snapshot"
  assume "rp_Replace (rule_repo ul pos io) db e p now = (db', r)"
  then show "db_stored db' = db_stored db \<or>
      (\<exists>t u. db_stored db = Some t \<and> sn_Revision t = e \<and> e < sn_Revision p
           \<and> db_stored db' = Some u \<and> same_rules p u)"
    by (auto simp: rule_repo_def same_rules_def dest!: repo_Replace_cases repo_read_stored
        dest: repo_write_stored)
next
  fix db e p now db' s
  assume "rp_Replace (rule_repo ul pos io) db e p now = (db', Inr s)"
  then show "\<exists>t. db_stored db = Some t \<and> sn_Revision t = e \<and> e < sn_Revision p"
    by (auto simp: rule_repo_def same_rules_def dest!: repo_Replace_cases repo_read_stored)
qed

section \<open>Remembered answers\<close>

text \<open>The fields of the resolved approval record the writer reads.\<close>

record remembered_record =
  ra_DecisionScope :: string
  ra_Kind :: string
  ra_Decision :: string
  ra_Host :: string
  ra_Port :: uint16

datatype remember_error = ErrInvalidApproval | ErrRememberDatabase | ErrNoSetToRememberInto

definition remembered_row :: "string \<Rightarrow> remembered_record \<Rightarrow> rule_row" where
  "remembered_row identifier rec =
     \<lparr>rr_rule_id = identifier, rr_priority = 100,
      rr_decision = (if ra_Decision rec = ''deny'' then DecisionDeny else DecisionAllow),
      rr_match_kind = ''exact_host_port'', rr_match_host = ra_Host rec,
      rr_match_port = uint (ra_Port rec)\<rparr>"

text \<open>\<open>INSERT .. ON CONFLICT (match_kind, match_host, match_port) DO UPDATE\<close>.\<close>

definition upsert_row :: "rule_row \<Rightarrow> rule_row list \<Rightarrow> rule_row list option" where
  "upsert_row r rows =
     (if \<not> row_check r then None
      else if row_target r \<in> row_target ` set rows
        then Some (map (\<lambda>x. if row_target x = row_target r
                            then x\<lparr>rr_decision := rr_decision r, rr_priority := rr_priority r\<rparr>
                            else x) rows)
      else insert_row r rows)"

definition rememberConnectionAnswer :: "rule_io \<Rightarrow> string option \<Rightarrow> remembered_record \<Rightarrow> go_time \<Rightarrow> rule_db
    \<Rightarrow> remember_error + rule_db" where
  "rememberConnectionAnswer io identifier rec now db =
     (if ra_DecisionScope rec \<noteq> ''host_port'' then Inr db
      else if ra_Kind rec \<noteq> ''network_ask'' then Inl ErrInvalidApproval
      else case identifier of
        None \<Rightarrow> Inl ErrRememberDatabase
      | Some ident \<Rightarrow>
          (case (if io_write io then upsert_row (remembered_row ident rec) (db_rules db) else None) of
             None \<Rightarrow> Inl ErrRememberDatabase
           | Some rows \<Rightarrow>
               (case db_set db of
                  None \<Rightarrow> Inl ErrNoSetToRememberInto
                | Some s \<Rightarrow>
                    let s' = s\<lparr>sr_revision := sr_revision s + 1, sr_updated_at := now\<rparr>
                    in if set_check s' then Inr \<lparr>db_set = Some s', db_rules = rows\<rparr>
                       else Inl ErrRememberDatabase)))"

text \<open>The writer runs inside the transaction that resolves the question.\<close>

definition decide_and_remember :: "rule_io \<Rightarrow> string option \<Rightarrow> remembered_record \<Rightarrow> go_time \<Rightarrow> rule_db \<Rightarrow> rule_db" where
  "decide_and_remember io identifier rec now db =
     (case rememberConnectionAnswer io identifier rec now db of
        Inl _ \<Rightarrow> db
      | Inr new \<Rightarrow> fst (commit io db new ()))"

lemma set_check_revision_less:
  assumes "set_check s" and "set_check s'" and "sr_revision s < sr_revision s'"
  shows "(word_of_int (sr_revision s) :: uint64) < word_of_int (sr_revision s')"
  using assms by (simp add: set_check_def maxInt64_def word_less_def uint_word_of_int)

lemma remember_advances:
  assumes "rememberConnectionAnswer io identifier rec now db = Inr new" and "db_ok db"
  shows "new = db \<or> db_ok new \<and>
    (\<exists>t u. db_stored db = Some t \<and> db_stored new = Some u \<and> sn_Revision t < sn_Revision u)"
proof (cases "new = db")
  case False
  with assms(1) obtain s rows where s: "db_set db = Some s"
    and new: "new = \<lparr>db_set = Some (s\<lparr>sr_revision := sr_revision s + 1, sr_updated_at := now\<rparr>), db_rules = rows\<rparr>"
    and chk: "set_check (s\<lparr>sr_revision := sr_revision s + 1, sr_updated_at := now\<rparr>)"
    by (auto simp: rememberConnectionAnswer_def Let_def split: if_splits option.splits)
  from set_check_revision_less [OF _ chk] s assms(2) have
    "(word_of_int (sr_revision s) :: uint64) < word_of_int (sr_revision s + 1)"
    by (simp add: db_ok_def)
  with s new chk show ?thesis by (simp add: db_stored_def db_ok_def)
qed simp

lemma decide_and_remember_keeps:
  assumes "db_ok db" and "not_ahead s (db_stored db)"
  shows "db_ok (decide_and_remember io identifier rec now db)
    \<and> not_ahead s (db_stored (decide_and_remember io identifier rec now db))"
proof (cases "rememberConnectionAnswer io identifier rec now db")
  case (Inl e)
  with assms show ?thesis by (simp add: decide_and_remember_def)
next
  case (Inr new)
  then have "decide_and_remember io identifier rec now db \<in> {db, new}"
    by (simp add: decide_and_remember_def commit_def split: commit_result.split)
  with remember_advances [OF Inr assms(1)] assms show ?thesis
    by (auto intro: not_ahead_advance)
qed

section \<open>Editors, remembered answers and reloads running together\<close>

text \<open>
  A reload reads the store, and only later takes the manager's lock: \<open>ps_reads\<close> holds the reads
  that have not been adopted yet.  Steps of different goroutines interleave freely.
\<close>

record policy_system =
  ps_db :: rule_db
  ps_mgr :: manager
  ps_reads :: "(snapshot \<times> rule_set) list"

inductive policy_step :: "(nat \<Rightarrow> nat) \<Rightarrow> policy_system \<Rightarrow> policy_system \<Rightarrow> bool" for ul where
  edit: "Manager_Replace ul (rule_repo ul pos io) now e rules mode (ps_db y) (ps_mgr y) = (db', m', s, err)
    \<Longrightarrow> policy_step ul y (y\<lparr>ps_db := db', ps_mgr := m'\<rparr>)"
| remember: "policy_step ul y (y\<lparr>ps_db := decide_and_remember io identifier rec now (ps_db y)\<rparr>)"
| read: "Reload_read ul (rule_repo ul pos io) (ps_db y) = Inr sc
    \<Longrightarrow> policy_step ul y (y\<lparr>ps_reads := sc # ps_reads y\<rparr>)"
| adopt: "sc \<in> set (ps_reads y)
    \<Longrightarrow> policy_step ul y (y\<lparr>ps_mgr := fst (Reload_adopt sc (ps_mgr y)), ps_reads := remove1 sc (ps_reads y)\<rparr>)"

inductive policy_reach :: "(nat \<Rightarrow> nat) \<Rightarrow> policy_system \<Rightarrow> bool" for ul where
  start: "db_ok db \<Longrightarrow> NewManager ul (Some (rule_repo ul pos io)) (Some now) shipped db = (db', Inr m)
    \<Longrightarrow> policy_reach ul \<lparr>ps_db = db', ps_mgr = m, ps_reads = []\<rparr>"
| step: "policy_reach ul y \<Longrightarrow> policy_step ul y z \<Longrightarrow> policy_reach ul z"

definition policy_inv :: "(nat \<Rightarrow> nat) \<Rightarrow> policy_system \<Rightarrow> bool" where
  "policy_inv ul y \<longleftrightarrow>
     db_ok (ps_db y) \<and> manager_ok ul (ps_mgr y) \<and> not_ahead (mg_current (ps_mgr y)) (db_stored (ps_db y))
     \<and> (\<forall>(s, c) \<in> set (ps_reads y). Snapshot_Compile ul s = Inr c \<and> not_ahead s (db_stored (ps_db y)))"

lemma Manager_Replace_db:
  assumes "Manager_Replace ul (rule_repo ul pos io) now e rules mode db m = (db', m', s, err)"
  shows "db' = db \<or> (\<exists>p r. rp_Replace (rule_repo ul pos io) db e p now = (db', r))"
proof -
  let ?p = "\<lparr>sn_Revision = sn_Revision (mg_current m) + 1, sn_Rules = rules, sn_Mode = mode\<rparr>"
  obtain d r where "rp_Replace (rule_repo ul pos io) db e ?p now = (d, r)" by fastforce
  with assms show ?thesis
    by (cases r) (auto simp: Manager_Replace_def Let_def split: if_splits sum.splits)
qed

lemma policy_step_inv:
  assumes "policy_step ul y z" and inv: "policy_inv ul y"
  shows "policy_inv ul z"
  using assms(1)
proof cases
  case (edit pos io now e rules mode db' m' s err)
  have keep: "not_ahead x (db_stored db')" if "not_ahead x (db_stored (ps_db y))" for x
    using Manager_Replace_db [OF edit(2)] that sqlite_rules.Replace_stored_advance by metis
  have "db_ok db'"
    using Manager_Replace_db [OF edit(2)] inv sqlite_rules.replace_invar
    by (metis policy_inv_def)
  with edit inv keep sqlite_rules.Manager_Replace_keeps [OF edit(2)] show ?thesis
    by (auto simp: policy_inv_def)
next
  case (remember io ident rec now)
  with inv decide_and_remember_keeps show ?thesis by (fastforce simp: policy_inv_def)
next
  case (read pos io sc)
  with inv sqlite_rules.Reload_read_sound show ?thesis by (cases sc) (fastforce simp: policy_inv_def)
next
  case (adopt sc)
  obtain s c where sc: "sc = (s, c)" by fastforce
  from adopt inv have "Snapshot_Compile ul s = Inr c" and "not_ahead s (db_stored (ps_db y))"
    by (auto simp: policy_inv_def sc)
  with adopt inv show ?thesis
    by (auto simp: policy_inv_def Reload_adopt_def manager_ok_def Live_Adopt_def sc
        dest!: in_set_remove1 [THEN iffD1] set_mp [OF set_remove1_subset])
qed

lemma policy_reach_inv: "policy_reach ul y \<Longrightarrow> policy_inv ul y"
proof (induction rule: policy_reach.induct)
  case (start db pos io now shipped db' m)
  from sqlite_rules.NewManager_sound [OF this] show ?case by (simp add: policy_inv_def)
next
  case (step y z)
  then show ?case by (blast intro: policy_step_inv)
qed

text \<open>Histories: the states from the start of the manager on.\<close>

inductive policy_run :: "(nat \<Rightarrow> nat) \<Rightarrow> policy_system list \<Rightarrow> bool" for ul where
  start: "db_ok db \<Longrightarrow> NewManager ul (Some (rule_repo ul pos io)) (Some now) shipped db = (db', Inr m)
    \<Longrightarrow> policy_run ul [\<lparr>ps_db = db', ps_mgr = m, ps_reads = []\<rparr>]"
| step: "policy_run ul ys \<Longrightarrow> policy_step ul (last ys) z \<Longrightarrow> policy_run ul (ys @ [z])"

lemma policy_run_reach: "policy_run ul ys \<Longrightarrow> policy_reach ul (last ys)"
  by (induction rule: policy_run.induct) (auto intro: policy_reach.intros)

text \<open>The store held this snapshot in one of these states.\<close>

definition was_stored :: "policy_system list \<Rightarrow> snapshot \<Rightarrow> bool" where
  "was_stored ys s \<longleftrightarrow> (\<exists>z \<in> set ys. \<exists>t. db_stored (ps_db z) = Some t \<and> same_rules s t)"

lemma was_stored_mono: "was_stored ys s \<Longrightarrow> was_stored (ys @ zs) s"
  by (auto simp: was_stored_def)

lemma was_stored_last: "db_stored (ps_db (last ys)) = Some t \<Longrightarrow> same_rules s t \<Longrightarrow> ys \<noteq> [] \<Longrightarrow> was_stored ys s"
  unfolding was_stored_def by (meson last_in_set)

lemma Manager_Replace_failed:
  assumes "Manager_Replace ul repo now e rules mode st m = (st', m', s, Some x)"
  shows "m' = m"
  using assms by (auto simp: Manager_Replace_def Let_def split: if_splits sum.splits prod.splits)

lemma policy_run_stored:
  assumes "policy_run ul ys"
  shows "ys \<noteq> [] \<and> was_stored ys (mg_current (ps_mgr (last ys))) \<and> (\<forall>sc \<in> set (ps_reads (last ys)). was_stored ys (fst sc))"
  using assms
proof (induction rule: policy_run.induct)
  case (start db pos io now shipped db' m)
  from sqlite_rules.NewManager_stored [OF this] show ?case by (auto simp: was_stored_def)
next
  case (step ys z)
  then have old: "ys \<noteq> []" "was_stored (ys @ [z]) (mg_current (ps_mgr (last ys)))"
    "\<And>sc. sc \<in> set (ps_reads (last ys)) \<Longrightarrow> was_stored (ys @ [z]) (fst sc)" by (auto intro: was_stored_mono)
  from step(2) show ?case
  proof cases
    case (edit pos io now e rules mode db' m' s err)
    have "was_stored (ys @ [z]) (mg_current m')"
    proof (cases err)
      case None
      from sqlite_rules.Manager_Replace_success [OF edit(2) [unfolded None]] obtain t
        where "db_stored db' = Some t" "same_rules (mg_current m') t" by blast
      then show ?thesis using edit(1) by (auto simp: was_stored_def)
    next
      case (Some x)
      from Manager_Replace_failed [OF edit(2) [unfolded Some]] old(2) show ?thesis by simp
    qed
    then show ?thesis using edit(1) old by simp
  next
    case remember
    then show ?thesis using old by auto
  next
    case (read _ _ sc)
    obtain s c where sc: "sc = (s, c)" by fastforce
    from sqlite_rules.Reload_read_stored [OF read(2) [unfolded sc]] have "was_stored ys s"
      using was_stored_last old(1) by blast
    then show ?thesis using read(1) old was_stored_mono by (auto simp: sc)
  next
    case (adopt sc)
    then show ?thesis using old set_remove1_subset [of sc "ps_reads (last ys)"]
      by (auto simp: Reload_adopt_def Live_Adopt_def split: prod.splits)
  qed
qed

text \<open>C9: under any interleaving of edits, remembered answers and reloads, with any database failures,
  the set the proxy evaluates is the compilation of a snapshot the store held, at that revision,
  at some time since the manager started; it is also the compilation of the snapshot the manager
  reports, which is never newer than the store, and if the store still is at that revision, the
  compilation of what is stored now.\<close>

theorem rules_in_force_are_stored:
  assumes "policy_run ul ys" and "m = ps_mgr (last ys)"
  shows "Snapshot_Compile ul (mg_current m) = Inr (Live_Current m)
    \<and> (\<exists>z \<in> set ys. \<exists>t. db_stored (ps_db z) = Some t \<and> sn_Revision t = sn_Revision (mg_current m)
         \<and> Snapshot_Compile ul t = Inr (Live_Current m))
    \<and> (\<exists>t. db_stored (ps_db (last ys)) = Some t \<and> sn_Revision (mg_current m) \<le> sn_Revision t
         \<and> (sn_Revision (mg_current m) = sn_Revision t \<longrightarrow> Snapshot_Compile ul t = Inr (Live_Current m)))"
proof -
  have inv: "policy_inv ul (last ys)" by (rule policy_reach_inv [OF policy_run_reach [OF assms(1)]])
  then have live: "Snapshot_Compile ul (mg_current m) = Inr (Live_Current m)"
    by (simp add: assms(2) policy_inv_def manager_ok_def Live_Current_def)
  obtain z t where "z \<in> set ys" "db_stored (ps_db z) = Some t" "same_rules (mg_current m) t"
    using policy_run_stored [OF assms(1)] assms(2) by (auto simp: was_stored_def)
  then have "\<exists>z \<in> set ys. \<exists>t. db_stored (ps_db z) = Some t \<and> sn_Revision t = sn_Revision (mg_current m) \<and> Snapshot_Compile ul t = Inr (Live_Current m)"
    using live same_rules_Compile [of "mg_current m" t ul] by (auto simp: same_rules_def)
  with inv live show ?thesis
    by (auto simp: assms(2) policy_inv_def not_ahead_def dest: same_rules_Compile [of _ _ ul])
qed

text \<open>No step moves the rules in force backwards: every edit, remembered answer and reload leaves
  the revision the manager reports or advances it.\<close>

theorem rules_never_move_backwards:
  assumes "policy_reach ul y" and "policy_step ul y z"
  shows "sn_Revision (mg_current (ps_mgr y)) \<le> sn_Revision (mg_current (ps_mgr z))"
  using assms(2)
proof cases
  case (edit pos io now e rules mode db' m' s err)
  show ?thesis
  proof (cases err)
    case None
    from sqlite_rules.Manager_Replace_success [OF edit(2) [unfolded None]]
    show ?thesis using edit by (simp add: order_less_imp_le)
  next
    case (Some x)
    with edit have "m' = ps_mgr y"
      by (auto simp: Manager_Replace_def Let_def split: if_splits sum.splits prod.splits)
    with edit show ?thesis by simp
  qed
next
  case (adopt sc)
  then show ?thesis by (auto simp: Reload_adopt_def Live_Adopt_def split: prod.splits)
qed auto

text \<open>A fresh store is seeded with the shipped snapshot; an edit then puts one rule in force.\<close>

definition fault_free :: rule_io where
  "fault_free = \<lparr>io_begin = True, io_read = True, io_write = True, io_commit = CommitOK\<rparr>"

definition empty_db :: rule_db where
  "empty_db = \<lparr>db_set = None, db_rules = []\<rparr>"

definition first_system :: policy_system where
  "first_system =
     \<lparr>ps_db = \<lparr>db_set = Some \<lparr>sr_revision = 1, sr_mode = ''monitor'', sr_updated_at = 0\<rparr>, db_rules = []\<rparr>,
      ps_mgr = \<lparr>mg_current = ShippedSnapshot 1,
                mg_live = \<lparr>rs_revision = 1, rs_rules = [], rs_fallbackDecision = ''allow'',
                           rs_fallbackRuleID = ''mode.monitor''\<rparr>\<rparr>,
      ps_reads = []\<rparr>"

definition host_rule :: rule where
  "host_rule = \<lparr>r_ID = ''host'', r_Priority = 1, r_Decision = ''deny'', r_Match = MatchExactHost ''api.test''\<rparr>"

definition edited_system :: policy_system where
  "edited_system =
     \<lparr>ps_db = \<lparr>db_set = Some \<lparr>sr_revision = 2, sr_mode = ''monitor'', sr_updated_at = 5\<rparr>,
               db_rules = [rule_to_row host_rule]\<rparr>,
      ps_mgr = \<lparr>mg_current = \<lparr>sn_Revision = 2, sn_Rules = [host_rule], sn_Mode = ''monitor''\<rparr>,
                mg_live = \<lparr>rs_revision = 2, rs_rules = [host_rule], rs_fallbackDecision = ''allow'',
                           rs_fallbackRuleID = ''mode.monitor''\<rparr>\<rparr>,
      ps_reads = []\<rparr>"

lemma monitor_compiles:
  "n \<noteq> 0 \<Longrightarrow> Snapshot_Compile id \<lparr>sn_Revision = n, sn_Rules = [], sn_Mode = ''monitor''\<rparr>
     = Inr \<lparr>rs_revision = n, rs_rules = [], rs_fallbackDecision = ''allow'', rs_fallbackRuleID = ''mode.monitor''\<rparr>"
  by (simp add: Compile_eq Mode_fallback_def ModeMonitor_def DecisionAllow_def MaxRules_def)

lemma host_rule_compiles:
  "n \<noteq> 0 \<Longrightarrow> Snapshot_Compile id \<lparr>sn_Revision = n, sn_Rules = [host_rule], sn_Mode = ''monitor''\<rparr>
     = Inr \<lparr>rs_revision = n, rs_rules = [host_rule], rs_fallbackDecision = ''allow'',
            rs_fallbackRuleID = ''mode.monitor''\<rparr>"
  by (simp add: Compile_eq Mode_fallback_def Rule_validate_def host_rule_def
      validateIdentity_plain plain_text_def Decision_valid_def Match_validate_def
      validateHost_api_test MatchExactHost_def MaxRules_def ModeMonitor_def DecisionAllow_def
      DecisionDeny_def MatchKindExactHost_def)

lemma first_system_start:
  "NewManager id (Some (rule_repo id (\<lambda>_. 0) fault_free)) (Some 0) (ShippedSnapshot 1) empty_db
    = (ps_db first_system, Inr (ps_mgr first_system))"
  by (simp add: NewManager_def rule_repo_def repo_Load_def repo_Seed_def repo_read_def repo_write_def
      commit_def fault_free_def empty_db_def ShippedSnapshot_def monitor_compiles set_check_def
      maxInt64_def first_system_def ModeMonitor_def)

lemma first_system_reach: "policy_reach id first_system"
proof -
  have "db_ok empty_db" by (simp add: db_ok_def empty_db_def)
  from policy_reach.start [OF this first_system_start] show ?thesis by (simp add: first_system_def)
qed

lemma host_rule_stored: "insert_row (rule_to_row host_rule) [] = Some [rule_to_row host_rule]"
  by (simp add: insert_row_def row_check_def rule_to_row_def host_rule_def MatchExactHost_def
      MatchKindExactHost_def byte_char_eq_iff)

lemma edited_system_step: "policy_step id first_system edited_system"
proof -
  have "Manager_Replace id (rule_repo id (\<lambda>_. 0) fault_free) 5 1 [host_rule] ''monitor''
      (ps_db first_system) (ps_mgr first_system)
    = (ps_db edited_system, ps_mgr edited_system, mg_current (ps_mgr edited_system), None)"
    by (simp add: Manager_Replace_def rule_repo_def repo_Replace_def repo_read_def repo_write_def
        commit_def fault_free_def first_system_def edited_system_def ShippedSnapshot_def
        monitor_compiles host_rule_compiles set_check_def maxInt64_def ModeMonitor_def
        host_rule_stored Live_Adopt_def Let_def word_le_nat_alt)
  from policy_step.edit [OF this] show ?thesis
    by (simp add: first_system_def edited_system_def)
qed

lemma first_system_run: "policy_run id [first_system]"
  using policy_run.start [OF _ first_system_start] by (simp add: db_ok_def empty_db_def first_system_def)

theorem rules_in_force_are_stored_witness:
  "policy_run id [first_system, edited_system] \<and> sn_Revision (mg_current (ps_mgr edited_system)) = 2
   \<and> (\<exists>z \<in> {first_system, edited_system}. \<exists>t. db_stored (ps_db z) = Some t \<and> sn_Revision t = 2
        \<and> Snapshot_Compile id t = Inr (Live_Current (ps_mgr edited_system)))"
proof -
  have run: "policy_run id [first_system, edited_system]"
    using policy_run.step [OF first_system_run, of edited_system] edited_system_step by simp
  moreover have "sn_Revision (mg_current (ps_mgr edited_system)) = 2" by (simp add: edited_system_def)
  ultimately show ?thesis using rules_in_force_are_stored [OF run, of "ps_mgr edited_system"] by auto
qed

theorem rules_never_move_backwards_witness:
  "policy_step id first_system edited_system
   \<and> sn_Revision (mg_current (ps_mgr first_system)) \<le> sn_Revision (mg_current (ps_mgr edited_system))"
  using rules_never_move_backwards [OF first_system_reach edited_system_step] edited_system_step
  by simp

section \<open>A remembered answer is not counted\<close>

lemma repo_Load_too_many:
  "MaxRules < length (db_rules db) \<Longrightarrow> db_set db \<noteq> None \<Longrightarrow>
     repo_Load ul pos io db \<in> {Inl ErrInvalidRuleSet, Inl ErrDatabase}"
  by (auto simp: repo_Load_def repo_read_def Compile_eq Let_def split: option.splits sum.splits)

definition overfull :: "rule_db \<Rightarrow> bool" where
  "overfull db \<longleftrightarrow> MaxRules < length (db_rules db) \<and> db_set db \<noteq> None"

lemma overfull_load: "overfull db \<Longrightarrow> repo_Load ul pos io db \<in> {Inl ErrInvalidRuleSet, Inl ErrDatabase}"
  unfolding overfull_def by (intro repo_Load_too_many) simp_all

lemma overfull_replace: "overfull db \<Longrightarrow> repo_Replace ul pos io db e p now = (db', r) \<Longrightarrow> db' = db"
  using repo_Load_too_many [of db ul pos "io\<lparr>io_begin := True\<rparr>"]
  by (auto simp: overfull_def repo_Load_def repo_read_def dest!: repo_Replace_cases)

lemma upsert_grows: "upsert_row r rows = Some rows' \<Longrightarrow> length rows \<le> length rows'"
  by (auto simp: upsert_row_def insert_row_def split: if_splits)

lemma overfull_remember: "overfull db \<Longrightarrow> overfull (decide_and_remember io identifier rec now db)"
  by (auto simp: overfull_def decide_and_remember_def rememberConnectionAnswer_def commit_def Let_def
      split: if_splits option.splits sum.splits commit_result.splits dest!: upsert_grows)

lemma overfull_steps: "(policy_step ul)\<^sup>*\<^sup>* y z \<Longrightarrow> overfull (ps_db y) \<Longrightarrow> overfull (ps_db z)"
proof (induction rule: rtranclp_induct)
  case (step u v)
  then have u: "overfull (ps_db u)" by blast
  from step(2) show ?case
  proof cases
    case (edit pos io now e rules mode db' m' s err)
    have "db' = ps_db u" using Manager_Replace_db [OF edit(2)] overfull_replace [OF u] by (fastforce simp: rule_repo_def)
    then show ?thesis using edit(1) u by simp
  qed (use u overfull_remember in auto)
qed

text \<open>C10: remembering an answer does not count the stored rules: from a loadable set of \<open>MaxRules\<close>
  rules, an answer for a host and port that has no rule yet is written all the same, and from then on, whatever
  edits, remembered answers and reloads follow, neither a reload nor a restart succeeds, in whatever storage order
  and with whatever failures.  (An answer for a host and port that has a rule updates that rule.)\<close>

theorem remember_can_make_rules_unloadable:
  assumes "repo_Load ul pos io db = Inr s" and "length (sn_Rules s) = MaxRules"
    and "rememberConnectionAnswer io (Some ident) rec now db = Inr new"
    and "ra_DecisionScope rec = ''host_port''"
    and "row_target (remembered_row ident rec) \<notin> row_target ` set (db_rules db)"
    and "ps_db y = new" and "(policy_step ul)\<^sup>*\<^sup>* y z"
  shows "(\<exists>e. Reload_read ul (rule_repo ul pos' io') (ps_db z) = Inl e)
    \<and> (\<exists>e. snd (NewManager ul (Some (rule_repo ul pos' io')) (Some now') shipped (ps_db z)) = Inl e)"
proof -
  from assms(1,2) have len: "length (db_rules db) = MaxRules"
    by (auto simp: repo_Load_def repo_read_def Let_def split: if_splits option.splits sum.splits)
  from assms(3-5) have "length (db_rules new) = Suc (length (db_rules db))" and "db_set new \<noteq> None"
    by (auto simp: rememberConnectionAnswer_def upsert_row_def insert_row_def Let_def
        split: if_splits option.splits)
  with len have "overfull (ps_db y)" by (simp add: overfull_def assms(6))
  with assms(7) have "overfull (ps_db z)" by (rule overfull_steps)
  then have "repo_Load ul pos' io' (ps_db z) \<in> {Inl ErrInvalidRuleSet, Inl ErrDatabase}" by (rule overfull_load)
  then show ?thesis
    by (auto simp: Reload_read_def NewManager_def rule_repo_def)
qed

text \<open>A store of \<open>MaxRules\<close> valid rules: one host, the ports 1 to 512.\<close>

definition full_row :: "nat \<Rightarrow> rule_row" where
  "full_row i =
     \<lparr>rr_rule_id = (if i < 256 then replicate (Suc i) (CHR ''a'') else replicate (i - 255) (CHR ''b'')),
      rr_priority = 0, rr_decision = ''allow'', rr_match_kind = ''exact_host_port'',
      rr_match_host = ''h'', rr_match_port = int (Suc i)\<rparr>"

definition full_db :: rule_db where
  "full_db =
     \<lparr>db_set = Some \<lparr>sr_revision = 1, sr_mode = ''monitor'', sr_updated_at = 0\<rparr>,
      db_rules = map full_row [0..<512]\<rparr>"

definition answer_for :: "string \<Rightarrow> uint16 \<Rightarrow> remembered_record" where
  "answer_for host port =
     \<lparr>ra_DecisionScope = ''host_port'', ra_Kind = ''network_ask'', ra_Decision = ''allow'',
      ra_Host = host, ra_Port = port\<rparr>"

lemma validateIdentity_replicate:
  assumes "0 < n" and "n \<le> 256" and "c = CHR ''a'' \<or> c = CHR ''b''"
  shows "validateIdentity (replicate n c)"
proof -
  have "c \<notin> set (map byte_char [9, 10, 11, 12, 13, 32])"
    using assms(3) by (auto simp: byte_char_eq_iff)
  with assms have "trim_space (replicate n c) = replicate n c"
    by (intro trim_space_ascii) (auto simp: is_ascii_def list_all_iff last_replicate hd_replicate)
  with assms show ?thesis by (simp add: validateIdentity_def)
qed

lemma full_row_valid: "i < 512 \<Longrightarrow> Rule_validate ul (row_to_rule (full_row i))"
proof -
  assume i: "i < 512"
  have "to_lower ul ''h'' = ''h''"
    by (rule to_lower_ascii_id) (simp_all add: is_ascii_def)
  then have "validateHost ul ''h''" by (simp add: validateHost_def byte_char_eq_iff suffix_def)
  moreover have "validateIdentity (rr_rule_id (full_row i))"
    using i by (auto simp: full_row_def simp del: replicate_Suc intro!: validateIdentity_replicate)
  moreover have "word_of_int (int (Suc i)) \<noteq> (0 :: uint16)"
    unfolding word_of_int_eq_0_iff using i by (auto dest: zdvd_imp_le)
  ultimately show ?thesis
    by (simp add: Rule_validate_def Match_validate_def row_to_rule_def full_row_def Decision_valid_def
        DecisionAllow_def MatchKindExactHost_def MatchKindExactHostPort_def)
qed

lemma full_row_ids: "inj_on (\<lambda>i. rr_rule_id (full_row i)) {0..<512}"
proof (rule inj_onI)
  fix i j
  assume "i \<in> {0..<512}" "j \<in> {0..<512}" and eq: "rr_rule_id (full_row i) = rr_rule_id (full_row j)"
  have "length (rr_rule_id (full_row i)) = length (rr_rule_id (full_row j))"
    and "hd (rr_rule_id (full_row i)) = hd (rr_rule_id (full_row j))" using eq by simp_all
  then show "i = j" by (auto simp: full_row_def split: if_splits)
qed

lemma full_db_loads:
  "\<exists>s. repo_Load ul (\<lambda>_. 0) fault_free full_db = Inr s \<and> length (sn_Rules s) = MaxRules"
proof -
  let ?rs = "map row_to_rule (map full_row [0..<512])"
  have "distinct (map r_ID ?rs)"
    using full_row_ids by (simp add: comp_def row_to_rule_def distinct_map)
  moreover have "list_all (Rule_validate ul) ?rs" by (auto simp: list_all_iff full_row_valid)
  moreover have "''mode.monitor'' \<notin> r_ID ` set ?rs"
    by (auto simp: row_to_rule_def full_row_def dest!: arg_cong [where f = hd] split: if_splits)
  ultimately have "\<exists>c. Snapshot_Compile ul \<lparr>sn_Revision = 1, sn_Rules = ?rs, sn_Mode = ''monitor''\<rparr> = Inr c"
    by (simp add: Compile_eq Mode_fallback_def ModeMonitor_def MaxRules_def)
  then obtain c where
    "Snapshot_Compile ul \<lparr>sn_Revision = 1, sn_Rules = ?rs, sn_Mode = ''monitor''\<rparr> = Inr c" ..
  then show ?thesis
    by (simp add: repo_Load_def repo_read_def fault_free_def full_db_def sort_key_const MaxRules_def)
qed

text \<open>The store of \<open>MaxRules\<close> rules loads, an answer for another host commits, and the set is lost.\<close>

theorem remember_can_make_rules_unloadable_witness:
  "\<exists>new. rememberConnectionAnswer fault_free (Some ''r'') (answer_for ''x'' 1) 0 full_db = Inr new
     \<and> (\<exists>s. repo_Load id (\<lambda>_. 0) fault_free full_db = Inr s)
     \<and> (\<exists>e. Reload_read id (rule_repo id (\<lambda>_. 0) fault_free) new = Inl e)
     \<and> (\<exists>e. snd (NewManager id (Some (rule_repo id (\<lambda>_. 0) fault_free)) (Some 0) (ShippedSnapshot 1) new)
             = Inl e)"
proof -
  obtain s where load: "repo_Load id (\<lambda>_. 0) fault_free full_db = Inr s" "length (sn_Rules s) = MaxRules"
    using full_db_loads by blast
  have fresh: "row_target (remembered_row ''r'' (answer_for ''x'' 1)) \<notin> row_target ` set (db_rules full_db)"
    by (auto simp: row_target_def remembered_row_def answer_for_def full_db_def full_row_def)
  moreover have "''r'' \<notin> rr_rule_id ` set (db_rules full_db)"
    by (auto simp: full_db_def full_row_def dest!: arg_cong [where f = hd] split: if_splits)
  ultimately obtain new where
    new: "rememberConnectionAnswer fault_free (Some ''r'') (answer_for ''x'' 1) 0 full_db = Inr new"
    by (auto simp: rememberConnectionAnswer_def answer_for_def upsert_row_def insert_row_def
        row_check_def fault_free_def set_check_def maxInt64_def full_db_def remembered_row_def
        DecisionAllow_def byte_char_eq_iff)
  have "ra_DecisionScope (answer_for ''x'' 1) = ''host_port''" by (simp add: answer_for_def)
  let ?y = "\<lparr>ps_db = new, ps_mgr = ps_mgr first_system, ps_reads = []\<rparr>"
  from remember_can_make_rules_unloadable [OF load new \<open>ra_DecisionScope (answer_for ''x'' 1) = ''host_port''\<close> fresh, of ?y ?y] load(1) new
  show ?thesis by auto
qed

end
