(* ===== verification/Egress_Policy.thy ===== *)
theory Egress_Policy
  imports Go_Prelude
begin

text \<open>
  The configured network path of an egress (\<open>src/internal/egressnetwork/policy.go\<close>,
  \<open>domains.go\<close>, \<open>target_access.go\<close>).
\<close>

section \<open>Policies\<close>

record proxy_policy =
  px_Kind :: string
  px_Endpoint :: string
  px_CredentialRef :: string
  px_CredentialRevision :: uint64

record resolver_policy =
  rv_Kind :: string
  rv_DoHURL :: string
  rv_Transport :: string

record egress_policy =
  ep_Proxy :: proxy_policy
  ep_Resolver :: resolver_policy
  ep_DirectDomains :: string

type_synonym target_access = "8 word"

definition TargetAccessPublicOnly :: target_access where "TargetAccessPublicOnly = 1"

definition TargetAccessOwnerConfigured :: target_access where "TargetAccessOwnerConfigured = 2"

end
