(* ===== verification/Offline_Hold.thy ===== *)
theory Offline_Hold
  imports Go_Prelude Egress_Policy "HOL-Library.Multiset"
begin

text \<open>
  The planned-offline gate (\<open>src/internal/offlinehold\<close>): every external egress is admitted
  here.  One definition per critical section of \<open>Gate\<close>; an operation that waits outside the
  mutex (\<open>Acquire\<close>, \<open>Enter\<close>, \<open>Resume\<close>) is split at the wait.  The objects the
  gate hands out by pointer (waiters, egress leases) are lists indexed by their allocation
  number.  The argument \<open>clk\<close> gives the time a transition reads, indexed by the number of
  mutations before it; \<open>ul\<close> is the lower-case mapping of the Unicode tables and
  \<open>norm\<close> the normalisation of an egress policy.
\<close>

section \<open>Kinds, states, errors\<close>

definition EgressProvider :: string where "EgressProvider = ''provider''"

definition EgressOpaque :: string where "EgressOpaque = ''opaque''"

definition EgressAuxiliary :: string where "EgressAuxiliary = ''auxiliary''"

definition EgressPlugin :: string where "EgressPlugin = ''plugin''"

definition EgressUpdate :: string where "EgressUpdate = ''update''"

definition EgressBlindTunnel :: string where "EgressBlindTunnel = ''blind_tunnel''"

definition EgressDatagram :: string where "EgressDatagram = ''datagram''"

definition validEgressKind :: "string \<Rightarrow> bool" where
  "validEgressKind k \<longleftrightarrow> k \<in> {EgressProvider, EgressOpaque, EgressAuxiliary, EgressPlugin, EgressUpdate,
     EgressDatagram, EgressBlindTunnel}"

text \<open>The coarser kind under which the gate admits an egress of a given purpose.\<close>

definition KindForPurpose :: "string \<Rightarrow> string option" where
  "KindForPurpose purpose =
     (if purpose \<in> {''provider_attempt'', ''upstream_model_discovery''} then Some EgressProvider
      else if purpose = ''original_origin'' then Some EgressOpaque
      else if purpose \<in> {''route_operation'', ''agent_probe'', ''client_tool_service'', ''upstream_account_read'',
           ''upstream_account_action'', ''model_metadata_directory'', ''credential_refresh'',
           ''auxiliary_llm'', ''language_transform''}
        then Some EgressAuxiliary
      else if purpose \<in> {''plugin_catalog_sync'', ''plugin_artifact_fetch''} then Some EgressPlugin
      else if purpose = ''update'' then Some EgressUpdate
      else if purpose = ''blind_tunnel'' then Some EgressBlindTunnel
      else if purpose = ''datagram'' then Some EgressDatagram
      else None)"

lemma KindForPurpose_valid: "KindForPurpose p = Some k \<Longrightarrow> validEgressKind k"
  by (auto simp: KindForPurpose_def validEgressKind_def split: if_splits)

datatype hold_state =
  StateUnbound | StateOnline | StateEntering | StateHeld | StateProbing | StateReleasing | StateStopping

definition ProbeTransportStrictTLS :: string where "ProbeTransportStrictTLS = ''strict_tls''"

definition ProbeTransportLoopbackCleartext :: string where
  "ProbeTransportLoopbackCleartext = ''loopback_cleartext''"

definition ProbeTransportPrivateCleartext :: string where
  "ProbeTransportPrivateCleartext = ''private_cleartext''"

definition ProbeTransportTCP :: string where "ProbeTransportTCP = ''tcp''"

definition ProbeTransportUDPSetup :: string where "ProbeTransportUDPSetup = ''udp_setup''"

definition ProbeReasonTransportUnavailable :: string where
  "ProbeReasonTransportUnavailable = ''transport_unavailable''"

definition ProbeReasonTLSRejected :: string where "ProbeReasonTLSRejected = ''tls_rejected''"

definition ProbeReasonCanceled :: string where "ProbeReasonCanceled = ''canceled''"

definition ProbeReasonFailed :: string where "ProbeReasonFailed = ''probe_failed''"

text \<open>The error of a probe, as \<open>errors.As\<close> and \<open>errors.Is\<close> see it: the reason of the
  \<open>ProbeFailure\<close> in its chain, and the context error in its chain.\<close>

record probe_error =
  pe_failure :: "string option"
  pe_context :: "ctx_error option"

datatype hold_error =
  ErrInvalidConfig | ErrInvalidRequest | ErrNotStarted | ErrAlreadyStarted | ErrCoordinatorStopping
  | ErrHeldCapacity | ErrHoldTimeout | ErrDuplicateRequest | ErrRevisionConflict uint64 uint64
  | ErrInvalidTransition hold_state | ErrProbe probe_error | ErrContext ctx_error | ErrNoLease

definition probeReasonOf :: "probe_error \<Rightarrow> string" where
  "probeReasonOf err =
     (case pe_failure err of
        Some reason \<Rightarrow>
          if reason \<in> {ProbeReasonTransportUnavailable, ProbeReasonTLSRejected, ProbeReasonCanceled,
               ProbeReasonFailed}
          then reason
          else if pe_context err \<noteq> None then ProbeReasonCanceled else ProbeReasonFailed
      | None \<Rightarrow> if pe_context err \<noteq> None then ProbeReasonCanceled else ProbeReasonFailed)"

section \<open>Data\<close>

record hold_config =
  hc_MaxHeldRequests :: int
  hc_MaxHeldBytes :: int
  hc_MaxHoldDuration :: int
  hc_ReleaseConcurrency :: int

definition DefaultConfig :: hold_config where
  "DefaultConfig = \<lparr>hc_MaxHeldRequests = 256, hc_MaxHeldBytes = 64 * 2 ^ 20,
     hc_MaxHoldDuration = 30 * 60 * 10 ^ 9, hc_ReleaseConcurrency = 8\<rparr>"

definition Config_validate :: "hold_config \<Rightarrow> bool" where
  "Config_validate c \<longleftrightarrow> \<not> (hc_MaxHeldRequests c \<le> 0 \<or> hc_MaxHeldBytes c \<le> 0 \<or> hc_MaxHoldDuration c \<le> 0
     \<or> hc_ReleaseConcurrency c \<le> 0)"

record probe_target =
  pt_Kind :: string
  pt_Transport :: string
  pt_TargetRef :: string
  pt_NetworkOrigin :: string
  pt_HTTPAuthority :: string
  pt_TLSServerName :: string
  pt_PlanRevision :: uint64
  pt_PlanDigest :: string
  pt_EgressPolicy :: egress_policy
  pt_TargetAccess :: target_access

text \<open>An action lease is immutable; the pointer to it is the record with its gate and its
  allocation number.\<close>

record action_lease =
  al_gate :: nat
  al_ref :: nat
  al_actionID :: string
  al_beforeEnter :: bool

record acquire_request =
  ar_RequestID :: string
  ar_Action :: "action_lease option"
  ar_Target :: probe_target
  ar_SizeBytes :: int

text \<open>A lease with the state of its \<open>sync.Once\<close>.\<close>

record egress_lease =
  el_request :: acquire_request
  el_done :: bool

datatype waiter_state = waiterQueued | waiterGranted | waiterCanceled

record waiter =
  wt_request :: acquire_request
  wt_state :: waiter_state
  wt_ready :: bool
  wt_lease :: "nat option"

record gate =
  gt_config :: hold_config
  gt_binding :: string
  gt_state :: hold_state
  gt_since :: go_time
  gt_revision :: uint64
  gt_active :: nat
  gt_activeByKind :: "string \<rightharpoonup> nat"
  gt_actions :: "(string \<times> action_lease) list"
  gt_entering :: nat
  gt_queue :: "nat list"
  gt_heldBytes :: int
  gt_requestIDs :: "string set"
  gt_probed :: "probe_target set"
  gt_lastProbe :: string
  gt_changed :: nat
  gt_self :: nat
  gt_nextAction :: nat
  gt_waiters :: "waiter list"
  gt_leases :: "egress_lease list"

record hold_snapshot =
  hs_State :: hold_state
  hs_Revision :: uint64
  hs_Since :: go_time
  hs_ActiveActions :: nat
  hs_EnteringActions :: nat
  hs_ActiveEgress :: nat
  hs_QueuedRequests :: nat
  hs_HeldBytes :: int
  hs_SafeToDisconnect :: bool
  hs_ActiveByKind :: "string \<rightharpoonup> nat"
  hs_QueuedByKind :: "string \<rightharpoonup> nat"
  hs_LastProbeReason :: string

section \<open>Validation\<close>

definition maxOpaqueIdentityBytes :: nat where "maxOpaqueIdentityBytes = 1024"

definition validateOpaqueIdentity :: "string \<Rightarrow> bool" where
  "validateOpaqueIdentity v \<longleftrightarrow>
     \<not> (v = [] \<or> maxOpaqueIdentityBytes < length v \<or> \<not> valid_utf8 v \<or> trim_space v \<noteq> v) \<and> \<not> has_control v"

definition is_hex_digit :: "char \<Rightarrow> bool" where
  "is_hex_digit c \<longleftrightarrow> (let b = of_char c :: nat in
     b \<in> {0x30..0x39} \<or> b \<in> {0x41..0x46} \<or> b \<in> {0x61..0x66})"

definition validatePlanDigest :: "(nat \<Rightarrow> nat) \<Rightarrow> string \<Rightarrow> bool" where
  "validatePlanDigest ul v \<longleftrightarrow> \<not> (length v \<noteq> 64 \<or> to_lower ul v \<noteq> v) \<and> list_all is_hex_digit v"

definition explicit_access :: "target_access \<Rightarrow> bool" where
  "explicit_access a \<longleftrightarrow> a = TargetAccessPublicOnly \<or> a = TargetAccessOwnerConfigured"

definition target_access_ok :: "probe_target \<Rightarrow> bool" where
  "target_access_ok t \<longleftrightarrow>
     (if pt_Kind t = EgressBlindTunnel \<and> pt_Transport t = ProbeTransportTCP
         \<or> pt_Kind t = EgressDatagram \<and> pt_Transport t = ProbeTransportUDPSetup
      then explicit_access (pt_TargetAccess t)
      else if (pt_Kind t = EgressOpaque \<or> pt_Kind t = EgressAuxiliary)
           \<and> (pt_Transport t = ProbeTransportStrictTLS \<or> pt_Transport t = ProbeTransportLoopbackCleartext
              \<or> pt_Transport t = ProbeTransportPrivateCleartext)
        then explicit_access (pt_TargetAccess t)
             \<or> pt_TargetAccess t = 0 \<and> pt_Transport t = ProbeTransportStrictTLS
      else pt_TargetAccess t = 0)"

definition target_transport_ok :: "probe_target \<Rightarrow> bool" where
  "target_transport_ok t \<longleftrightarrow>
     (if pt_Transport t = ProbeTransportUDPSetup
      then pt_Kind t = EgressDatagram \<and> pt_TLSServerName t = [] \<and> pt_HTTPAuthority t = []
           \<and> pt_PlanRevision t = 0 \<and> pt_PlanDigest t = []
      else if pt_Transport t = ProbeTransportStrictTLS
        then validateOpaqueIdentity (pt_TLSServerName t)
      else if pt_Transport t = ProbeTransportLoopbackCleartext \<or> pt_Transport t = ProbeTransportPrivateCleartext
        then (pt_Kind t = EgressProvider \<or> pt_Kind t = EgressAuxiliary \<or> pt_Kind t = EgressOpaque)
             \<and> pt_TLSServerName t = []
      else if pt_Transport t = ProbeTransportTCP
        then pt_Kind t = EgressBlindTunnel \<and> pt_TLSServerName t = []
      else False)"

definition validateProbeTarget ::
    "(nat \<Rightarrow> nat) \<Rightarrow> (egress_policy \<Rightarrow> egress_policy option) \<Rightarrow> probe_target \<Rightarrow> bool" where
  "validateProbeTarget ul norm t \<longleftrightarrow>
     validEgressKind (pt_Kind t)
     \<and> \<not> (pt_Kind t = EgressDatagram \<and> pt_Transport t \<noteq> ProbeTransportUDPSetup)
     \<and> target_access_ok t \<and> target_transport_ok t
     \<and> validateOpaqueIdentity (pt_TargetRef t) \<and> validateOpaqueIdentity (pt_NetworkOrigin t)
     \<and> (pt_Transport t = ProbeTransportUDPSetup \<or> validateOpaqueIdentity (pt_HTTPAuthority t))
     \<and> (pt_PlanRevision t = 0 \<longleftrightarrow> pt_PlanDigest t = [])
     \<and> (pt_PlanDigest t \<noteq> [] \<longrightarrow> validatePlanDigest ul (pt_PlanDigest t))
     \<and> norm (pt_EgressPolicy t) \<noteq> None"

definition validateAcquireRequest ::
    "(nat \<Rightarrow> nat) \<Rightarrow> (egress_policy \<Rightarrow> egress_policy option) \<Rightarrow> acquire_request \<Rightarrow> bool" where
  "validateAcquireRequest ul norm r \<longleftrightarrow>
     validateOpaqueIdentity (ar_RequestID r) \<and> ar_Action r \<noteq> None
     \<and> validateProbeTarget ul norm (ar_Target r) \<and> \<not> ar_SizeBytes r < 0"

fun normalize_targets ::
    "(nat \<Rightarrow> nat) \<Rightarrow> (egress_policy \<Rightarrow> egress_policy option) \<Rightarrow> probe_target set \<Rightarrow> probe_target list
     \<Rightarrow> probe_target list option" where
  "normalize_targets ul norm seen [] = Some []"
| "normalize_targets ul norm seen (t # ts) =
     (case norm (pt_EgressPolicy t) of
        None \<Rightarrow> None
      | Some policy \<Rightarrow>
          let t' = t\<lparr>pt_EgressPolicy := policy\<rparr> in
          if \<not> validateProbeTarget ul norm t' \<or> t' \<in> seen then None
          else map_option (Cons t') (normalize_targets ul norm (insert t' seen) ts))"

definition normalizeProbeTargets ::
    "(nat \<Rightarrow> nat) \<Rightarrow> (egress_policy \<Rightarrow> egress_policy option) \<Rightarrow> probe_target list \<Rightarrow> probe_target list option"
  where "normalizeProbeTargets ul norm ts = normalize_targets ul norm {} ts"


section \<open>The critical sections\<close>

definition New_gate :: "nat \<Rightarrow> hold_config \<Rightarrow> hold_error + gate" where
  "New_gate self config =
     (if \<not> Config_validate config then Inl ErrInvalidConfig
      else Inr \<lparr>gt_config = config, gt_binding = [], gt_state = StateUnbound, gt_since = 0, gt_revision = 0,
        gt_active = 0, gt_activeByKind = Map.empty, gt_actions = [], gt_entering = 0, gt_queue = [],
        gt_heldBytes = 0, gt_requestIDs = {}, gt_probed = {}, gt_lastProbe = [], gt_changed = 0,
        gt_self = self, gt_nextAction = 0, gt_waiters = [], gt_leases = []\<rparr>)"

text \<open>A mutation advances the revision and wakes everyone waiting on \<open>changed\<close>.\<close>

definition mutatedLocked :: "gate \<Rightarrow> gate" where
  "mutatedLocked g = g\<lparr>gt_revision := gt_revision g + 1, gt_changed := Suc (gt_changed g)\<rparr>"

definition transitionLocked :: "(nat \<Rightarrow> go_time) \<Rightarrow> hold_state \<Rightarrow> gate \<Rightarrow> gate" where
  "transitionLocked clk next g = mutatedLocked (g\<lparr>gt_state := next, gt_since := clk (gt_changed g)\<rparr>)"

definition checkRevisionLocked :: "uint64 \<Rightarrow> gate \<Rightarrow> hold_error option" where
  "checkRevisionLocked expected g =
     (if gt_state g = StateUnbound then Some ErrNotStarted
      else if gt_state g = StateStopping then Some ErrCoordinatorStopping
      else if expected = 0 \<or> expected \<noteq> gt_revision g
        then Some (ErrRevisionConflict expected (gt_revision g))
      else None)"

definition validActionLocked :: "action_lease option \<Rightarrow> gate \<Rightarrow> bool" where
  "validActionLocked action g \<longleftrightarrow>
     (case action of
        None \<Rightarrow> False
      | Some a \<Rightarrow> al_gate a = gt_self g \<and> map_of (gt_actions g) (al_actionID a) = Some a)"

definition bump :: "string \<Rightarrow> (string \<rightharpoonup> nat) \<Rightarrow> (string \<rightharpoonup> nat)" where
  "bump k m = m(k \<mapsto> (case m k of None \<Rightarrow> 1 | Some n \<Rightarrow> Suc n))"

definition waiter_at :: "gate \<Rightarrow> nat \<Rightarrow> waiter" where
  "waiter_at g a = gt_waiters g ! a"

fun count_kinds :: "waiter list \<Rightarrow> (string \<rightharpoonup> nat)" where
  "count_kinds [] = Map.empty"
| "count_kinds (w # ws) =
     (if wt_state w = waiterQueued then bump (pt_Kind (ar_Target (wt_request w))) (count_kinds ws)
      else count_kinds ws)"

definition snapshotLocked :: "gate \<Rightarrow> hold_snapshot" where
  "snapshotLocked g =
     \<lparr>hs_State = gt_state g, hs_Revision = gt_revision g, hs_Since = gt_since g,
      hs_ActiveActions = length (gt_actions g), hs_EnteringActions = gt_entering g,
      hs_ActiveEgress = gt_active g, hs_QueuedRequests = length (gt_queue g), hs_HeldBytes = gt_heldBytes g,
      hs_SafeToDisconnect = (gt_state g = StateHeld \<and> gt_active g = 0 \<and> gt_entering g = 0),
      hs_ActiveByKind = gt_activeByKind g, hs_QueuedByKind = count_kinds (map (waiter_at g) (gt_queue g)),
      hs_LastProbeReason = gt_lastProbe g\<rparr>"

definition Start :: "(nat \<Rightarrow> go_time) \<Rightarrow> ctx \<Rightarrow> string \<Rightarrow> gate \<Rightarrow> gate \<times> hold_error option" where
  "Start clk c instanceID g =
     (if c = CtxNil then (g, Some ErrInvalidRequest)
      else (case ctx_err c of
         Some e \<Rightarrow> (g, Some (ErrContext e))
       | None \<Rightarrow>
           if \<not> validateOpaqueIdentity instanceID then (g, Some ErrInvalidRequest)
           else if gt_state g \<noteq> StateUnbound then (g, Some ErrAlreadyStarted)
           else (transitionLocked clk StateOnline (g\<lparr>gt_binding := instanceID\<rparr>), None)))"

definition BeginAction :: "ctx \<Rightarrow> string \<Rightarrow> gate \<Rightarrow> gate \<times> (hold_error + action_lease)" where
  "BeginAction c actionID g =
     (if c = CtxNil then (g, Inl ErrInvalidRequest)
      else if \<not> validateOpaqueIdentity actionID then (g, Inl ErrInvalidRequest)
      else (case ctx_err c of
         Some e \<Rightarrow> (g, Inl (ErrContext e))
       | None \<Rightarrow>
           if gt_state g = StateUnbound then (g, Inl ErrNotStarted)
           else if gt_state g = StateStopping then (g, Inl ErrCoordinatorStopping)
           else if map_of (gt_actions g) actionID \<noteq> None then (g, Inl ErrDuplicateRequest)
           else
             let lease = \<lparr>al_gate = gt_self g, al_ref = gt_nextAction g, al_actionID = actionID,
                          al_beforeEnter = (gt_state g = StateOnline)\<rparr> in
             (mutatedLocked (g\<lparr>gt_nextAction := Suc (gt_nextAction g),
                               gt_actions := (actionID, lease) # gt_actions g,
                               gt_entering := (if al_beforeEnter lease then Suc (gt_entering g)
                                               else gt_entering g)\<rparr>),
              Inr lease)))"

definition grantLocked :: "acquire_request \<Rightarrow> gate \<Rightarrow> gate \<times> nat" where
  "grantLocked r g =
     (let g1 = mutatedLocked (g\<lparr>gt_requestIDs := insert (ar_RequestID r) (gt_requestIDs g),
                                gt_active := Suc (gt_active g),
                                gt_activeByKind := bump (pt_Kind (ar_Target r)) (gt_activeByKind g)\<rparr>)
      in (g1\<lparr>gt_leases := gt_leases g1 @ [\<lparr>el_request = r, el_done = False\<rparr>]\<rparr>, length (gt_leases g1)))"

text \<open>The body of the loop of \<open>releaseQueuedLocked\<close> for an approved head of the queue.\<close>

definition grant_head :: "gate \<Rightarrow> gate" where
  "grant_head g =
     (let a = hd (gt_queue g); w = waiter_at g a; r = wt_request w;
          g1 = mutatedLocked
                 (g\<lparr>gt_queue := tl (gt_queue g), gt_heldBytes := gt_heldBytes g - ar_SizeBytes r,
                    gt_leases := gt_leases g @ [\<lparr>el_request = r, el_done = False\<rparr>],
                    gt_waiters := (gt_waiters g)[a := w\<lparr>wt_state := waiterGranted,
                                                       wt_lease := Some (length (gt_leases g))\<rparr>],
                    gt_active := Suc (gt_active g),
                    gt_activeByKind := bump (pt_Kind (ar_Target r)) (gt_activeByKind g)\<rparr>)
      in g1\<lparr>gt_waiters := (gt_waiters g1)[a := (waiter_at g1 a)\<lparr>wt_ready := True\<rparr>]\<rparr>)"

function (sequential) releaseQueuedLocked :: "(nat \<Rightarrow> go_time) \<Rightarrow> gate \<Rightarrow> gate" where
  "releaseQueuedLocked clk g =
     (if gt_state g = StateReleasing \<and> int (gt_active g) < hc_ReleaseConcurrency (gt_config g)
         \<and> gt_queue g \<noteq> []
      then if ar_Target (wt_request (waiter_at g (hd (gt_queue g)))) \<notin> gt_probed g
           then if gt_active g = 0 then transitionLocked clk StateHeld (g\<lparr>gt_probed := {}\<rparr>) else g
           else releaseQueuedLocked clk (grant_head g)
      else if gt_state g = StateReleasing \<and> gt_queue g = [] \<and> gt_active g = 0 \<and> gt_actions g = []
        then transitionLocked clk StateOnline (g\<lparr>gt_probed := {}\<rparr>)
      else g)"
  by pat_completeness auto
termination
  by (relation "measure (\<lambda>(_, g). length (gt_queue g))")
     (auto simp: grant_head_def mutatedLocked_def Let_def)

declare releaseQueuedLocked.simps [simp del]

text \<open>What \<open>release\<close> and \<open>releaseAction\<close> do after the accounting.\<close>

definition settle :: "(nat \<Rightarrow> go_time) \<Rightarrow> gate \<Rightarrow> gate" where
  "settle clk g =
     (if gt_state g = StateEntering
      then if gt_active g = 0 \<and> gt_entering g = 0 then transitionLocked clk StateHeld g else g
      else if gt_state g = StateReleasing then releaseQueuedLocked clk g
      else g)"

definition unbump :: "string \<Rightarrow> (string \<rightharpoonup> nat) \<Rightarrow> (string \<rightharpoonup> nat)" where
  "unbump k m =
     (case m k of
        None \<Rightarrow> m(k := None)
      | Some n \<Rightarrow> if 1 < n then m(k \<mapsto> n - 1) else m(k := None))"

definition release :: "(nat \<Rightarrow> go_time) \<Rightarrow> acquire_request \<Rightarrow> gate \<Rightarrow> gate" where
  "release clk r g =
     (if ar_RequestID r \<notin> gt_requestIDs g then g
      else settle clk (mutatedLocked
        (g\<lparr>gt_requestIDs := gt_requestIDs g - {ar_RequestID r},
           gt_active := (if 0 < gt_active g then gt_active g - 1 else gt_active g),
           gt_activeByKind := unbump (pt_Kind (ar_Target r)) (gt_activeByKind g)\<rparr>)))"

definition Lease_Release :: "(nat \<Rightarrow> go_time) \<Rightarrow> nat \<Rightarrow> gate \<Rightarrow> gate" where
  "Lease_Release clk l g =
     (if el_done (gt_leases g ! l) then g
      else release clk (el_request (gt_leases g ! l))
             (g\<lparr>gt_leases := (gt_leases g)[l := (gt_leases g ! l)\<lparr>el_done := True\<rparr>]\<rparr>))"

definition releaseAction :: "(nat \<Rightarrow> go_time) \<Rightarrow> action_lease \<Rightarrow> gate \<Rightarrow> gate" where
  "releaseAction clk a g =
     (if map_of (gt_actions g) (al_actionID a) \<noteq> Some a then g
      else settle clk (mutatedLocked
        (g\<lparr>gt_actions := filter (\<lambda>(k, _). k \<noteq> al_actionID a) (gt_actions g),
           gt_entering := (if al_beforeEnter a \<and> 0 < gt_entering g then gt_entering g - 1
                           else gt_entering g)\<rparr>)))"

text \<open>\<open>Acquire\<close> up to its wait: refused, granted at once, or queued.\<close>

datatype acquire_outcome = AcquireError hold_error | AcquireGranted nat | AcquireWaiting nat

definition enqueue :: "acquire_request \<Rightarrow> gate \<Rightarrow> gate" where
  "enqueue r g = mutatedLocked
     (g\<lparr>gt_waiters := gt_waiters g @ [\<lparr>wt_request = r, wt_state = waiterQueued, wt_ready = False,
                                       wt_lease = None\<rparr>],
        gt_queue := gt_queue g @ [length (gt_waiters g)],
        gt_heldBytes := gt_heldBytes g + ar_SizeBytes r,
        gt_requestIDs := insert (ar_RequestID r) (gt_requestIDs g)\<rparr>)"

definition admits :: "acquire_request \<Rightarrow> gate \<Rightarrow> bool" where
  "admits r g \<longleftrightarrow> gt_state g = StateOnline
     \<or> gt_state g = StateEntering \<and> (case ar_Action r of None \<Rightarrow> False | Some a \<Rightarrow> al_beforeEnter a)"

definition Acquire_locked :: "(nat \<Rightarrow> go_time) \<Rightarrow> acquire_request \<Rightarrow> gate \<Rightarrow> gate \<times> acquire_outcome" where
  "Acquire_locked clk r g =
     (if gt_state g = StateUnbound then (g, AcquireError ErrNotStarted)
      else if gt_state g = StateStopping then (g, AcquireError ErrCoordinatorStopping)
      else if \<not> validActionLocked (ar_Action r) g then (g, AcquireError ErrInvalidRequest)
      else if ar_RequestID r \<in> gt_requestIDs g then (g, AcquireError ErrDuplicateRequest)
      else if admits r g then (let (g', l) = grantLocked r g in (g', AcquireGranted l))
      else if hc_MaxHeldRequests (gt_config g) \<le> int (length (gt_queue g))
           \<or> hc_MaxHeldBytes (gt_config g) - gt_heldBytes g < ar_SizeBytes r
        then (g, AcquireError ErrHeldCapacity)
      else (releaseQueuedLocked clk (enqueue r g), AcquireWaiting (length (gt_waiters g))))"

definition Acquire ::
    "(nat \<Rightarrow> nat) \<Rightarrow> (egress_policy \<Rightarrow> egress_policy option) \<Rightarrow> (nat \<Rightarrow> go_time) \<Rightarrow> ctx \<Rightarrow> acquire_request
     \<Rightarrow> gate \<Rightarrow> gate \<times> acquire_outcome" where
  "Acquire ul norm clk c r g =
     (if c = CtxNil then (g, AcquireError ErrInvalidRequest)
      else (case norm (pt_EgressPolicy (ar_Target r)) of
         None \<Rightarrow> (g, AcquireError ErrInvalidRequest)
       | Some policy \<Rightarrow>
           let r' = r\<lparr>ar_Target := (ar_Target r)\<lparr>pt_EgressPolicy := policy\<rparr>\<rparr> in
           if \<not> validateAcquireRequest ul norm r' then (g, AcquireError ErrInvalidRequest)
           else (case ctx_err c of
              Some e \<Rightarrow> (g, AcquireError (ErrContext e))
            | None \<Rightarrow> Acquire_locked clk r' g)))"

text \<open>The three ways the wait of \<open>Acquire\<close> ends.\<close>

definition finishWaiter :: "(nat \<Rightarrow> go_time) \<Rightarrow> ctx \<Rightarrow> nat \<Rightarrow> gate \<Rightarrow> gate \<times> (hold_error + nat)" where
  "finishWaiter clk c a g =
     (let w = waiter_at g a in
      if wt_state w = waiterCanceled then (g, Inl ErrCoordinatorStopping)
      else (case wt_lease w of
         None \<Rightarrow> (g, Inl ErrNoLease)
       | Some l \<Rightarrow>
           if wt_state w \<noteq> waiterGranted then (g, Inl ErrNoLease)
           else (case ctx_err c of
              Some e \<Rightarrow> (Lease_Release clk l g, Inl (ErrContext e))
            | None \<Rightarrow> (g, Inr l))))"

definition cancelWaiter :: "(nat \<Rightarrow> go_time) \<Rightarrow> nat \<Rightarrow> hold_error \<Rightarrow> gate \<Rightarrow> gate \<times> hold_error" where
  "cancelWaiter clk a cause g =
     (let w = waiter_at g a in
      if wt_state w = waiterGranted
      then (case wt_lease w of None \<Rightarrow> g | Some l \<Rightarrow> Lease_Release clk l g, cause)
      else if wt_state w = waiterCanceled
      then (g, if cause = ErrHoldTimeout then cause else ErrCoordinatorStopping)
      else (mutatedLocked
              (g\<lparr>gt_queue := remove1 a (gt_queue g),
                 gt_waiters := (gt_waiters g)[a := w\<lparr>wt_state := waiterCanceled\<rparr>],
                 gt_heldBytes := gt_heldBytes g - ar_SizeBytes (wt_request w),
                 gt_requestIDs := gt_requestIDs g - {ar_RequestID (wt_request w)}\<rparr>),
            cause))"

text \<open>\<open>Enter\<close>: the transition, then the wait for the end of \<open>StateEntering\<close>.\<close>

datatype enter_outcome = EnterDone hold_snapshot "hold_error option" | EnterWaiting nat

definition Enter_check :: "gate \<Rightarrow> enter_outcome" where
  "Enter_check g =
     (if gt_state g = StateEntering then EnterWaiting (gt_changed g)
      else EnterDone (snapshotLocked g)
             (if gt_state g = StateStopping then Some ErrCoordinatorStopping else None))"

definition Enter :: "(nat \<Rightarrow> go_time) \<Rightarrow> ctx \<Rightarrow> uint64 \<Rightarrow> gate \<Rightarrow> gate \<times> (hold_error + enter_outcome)" where
  "Enter clk c expected g =
     (if c = CtxNil then (g, Inl ErrInvalidRequest)
      else (case ctx_err c of
         Some e \<Rightarrow> (g, Inl (ErrContext e))
       | None \<Rightarrow>
         (case checkRevisionLocked expected g of
            Some e \<Rightarrow> (g, Inr (EnterDone (snapshotLocked g) (Some e)))
          | None \<Rightarrow>
              if gt_state g \<noteq> StateOnline
              then (g, Inr (EnterDone (snapshotLocked g) (Some (ErrInvalidTransition (gt_state g)))))
              else
                let g1 = transitionLocked clk StateEntering g;
                    g2 = (if gt_active g1 = 0 \<and> gt_entering g1 = 0
                          then transitionLocked clk StateHeld g1 else g1)
                in (g2, Inr (Enter_check g2)))))"

definition Enter_canceled :: "ctx_error \<Rightarrow> gate \<Rightarrow> enter_outcome" where
  "Enter_canceled e g = EnterDone (snapshotLocked g) (Some (ErrContext e))"

text \<open>\<open>Resume\<close>: before the probe and after it.  A refused call reports its snapshot.\<close>

definition Resume_begin ::
    "(nat \<Rightarrow> nat) \<Rightarrow> (egress_policy \<Rightarrow> egress_policy option) \<Rightarrow> (nat \<Rightarrow> go_time) \<Rightarrow> ctx \<Rightarrow> bool \<Rightarrow> uint64
     \<Rightarrow> probe_target list \<Rightarrow> gate \<Rightarrow> gate \<times> ((hold_snapshot option \<times> hold_error) + probe_target list)" where
  "Resume_begin ul norm clk c has_prober expected request g =
     (if c = CtxNil \<or> \<not> has_prober then (g, Inl (None, ErrInvalidRequest))
      else (case normalizeProbeTargets ul norm request of
         None \<Rightarrow> (g, Inl (None, ErrInvalidRequest))
       | Some targets \<Rightarrow>
         (case ctx_err c of
            Some e \<Rightarrow> (g, Inl (None, ErrContext e))
          | None \<Rightarrow>
            (case checkRevisionLocked expected g of
               Some e \<Rightarrow> (g, Inl (Some (snapshotLocked g), e))
             | None \<Rightarrow>
                 if gt_state g \<noteq> StateHeld
                 then (g, Inl (Some (snapshotLocked g), ErrInvalidTransition (gt_state g)))
                 else if targets = [] \<and> gt_queue g \<noteq> []
                 then (g, Inl (Some (snapshotLocked g), ErrInvalidRequest))
                 else (transitionLocked clk StateProbing g, Inr targets)))))"

definition Resume_finish ::
    "(nat \<Rightarrow> go_time) \<Rightarrow> probe_target list \<Rightarrow> probe_error option \<Rightarrow> gate
     \<Rightarrow> gate \<times> hold_snapshot \<times> hold_error option" where
  "Resume_finish clk targets probeErr g =
     (if gt_state g = StateStopping then (g, snapshotLocked g, Some ErrCoordinatorStopping)
      else if gt_state g \<noteq> StateProbing
      then (g, snapshotLocked g, Some (ErrInvalidTransition (gt_state g)))
      else (case probeErr of
         Some e \<Rightarrow>
           let g' = transitionLocked clk StateHeld (g\<lparr>gt_lastProbe := probeReasonOf e\<rparr>)
           in (g', snapshotLocked g', Some (ErrProbe e))
       | None \<Rightarrow>
           let g' = releaseQueuedLocked clk (transitionLocked clk StateReleasing
                      (g\<lparr>gt_lastProbe := [], gt_probed := set targets\<rparr>))
           in (g', snapshotLocked g', None)))"

definition BeginShutdown :: "(nat \<Rightarrow> go_time) \<Rightarrow> gate \<Rightarrow> gate" where
  "BeginShutdown clk g =
     (if gt_state g = StateStopping then g
      else if gt_state g = StateUnbound then transitionLocked clk StateStopping g
      else
        let g1 = transitionLocked clk StateStopping g;
            queued = filter (\<lambda>a. wt_state (waiter_at g1 a) = waiterQueued) (gt_queue g1)
        in mutatedLocked
             (g1\<lparr>gt_waiters := fold (\<lambda>a ws. ws[a := (ws ! a)\<lparr>wt_state := waiterCanceled, wt_ready := True\<rparr>])
                                queued (gt_waiters g1),
                 gt_requestIDs := gt_requestIDs g1
                                  - set (map (\<lambda>a. ar_RequestID (wt_request (waiter_at g1 a))) queued),
                 gt_queue := [], gt_heldBytes := 0, gt_probed := {}\<rparr>))"

text \<open>The frozen targets a resume has to probe: the distinct targets of the queue, ordered.\<close>

definition probeTargetSortKey :: "probe_target \<Rightarrow> string" where
  "probeTargetSortKey t =
     (let p = ep_Proxy (pt_EgressPolicy t); r = ep_Resolver (pt_EgressPolicy t) in
      join [byte_char 0]
        [pt_Kind t, pt_Transport t, pt_TargetRef t, pt_NetworkOrigin t, pt_HTTPAuthority t, pt_TLSServerName t,
         padded 20 (unat (pt_PlanRevision t)), pt_PlanDigest t, px_Kind p, px_Endpoint p, px_CredentialRef p,
         padded 20 (unat (px_CredentialRevision p)), ep_DirectDomains (pt_EgressPolicy t), rv_Kind r,
         rv_DoHURL r, rv_Transport r, padded 3 (unat (pt_TargetAccess t))])"

fun pending_targets :: "probe_target set \<Rightarrow> waiter list \<Rightarrow> probe_target list" where
  "pending_targets seen [] = []"
| "pending_targets seen (w # ws) =
     (let t = ar_Target (wt_request w) in
      if wt_state w \<noteq> waiterQueued \<or> t \<in> seen then pending_targets seen ws
      else t # pending_targets (insert t seen) ws)"

definition PendingProbeTargets :: "gate \<Rightarrow> probe_target list" where
  "PendingProbeTargets g =
     sort_key probeTargetSortKey (pending_targets {} (map (waiter_at g) (gt_queue g)))"

text \<open>\<open>Drain\<close> waits, re-reading under the mutex at every change, until this holds.\<close>

definition Drain_done :: "gate \<Rightarrow> bool" where
  "Drain_done g \<longleftrightarrow> \<not> (gt_active g \<noteq> 0 \<or> gt_queue g \<noteq> [] \<or> gt_actions g \<noteq> [])"

end
