(* ===== verification/Offline_Hold_Inv.thy ===== *)
theory Offline_Hold_Inv
  imports Offline_Hold
begin

text \<open>
  The invariant of the gate.  The accounting part relates the counters to the leases that are
  still out and to the waiters in the queue; the phase part says what each state promises.
\<close>

section \<open>What is out and what is queued\<close>

definition live :: "gate \<Rightarrow> acquire_request multiset" where
  "live g = image_mset el_request (filter_mset (\<lambda>l. \<not> el_done l) (mset (gt_leases g)))"

definition queued :: "gate \<Rightarrow> acquire_request list" where
  "queued g = map (\<lambda>a. wt_request (gt_waiters g ! a)) (gt_queue g)"

definition kind_of :: "acquire_request \<Rightarrow> string" where
  "kind_of r = pt_Kind (ar_Target r)"

definition early :: "gate \<Rightarrow> (string \<times> action_lease) list" where
  "early g = filter (\<lambda>(_, a). al_beforeEnter a) (gt_actions g)"

definition counts :: "('a \<rightharpoonup> nat) \<Rightarrow> 'a multiset \<Rightarrow> bool" where
  "counts m M \<longleftrightarrow> (\<forall>k. m k = (if count M k = 0 then None else Some (count M k)))"

definition waiters_ok :: "gate \<Rightarrow> bool" where
  "waiters_ok g \<longleftrightarrow>
     distinct (gt_queue g)
     \<and> (\<forall>a < length (gt_waiters g). (wt_state (gt_waiters g ! a) = waiterQueued) = (a \<in> set (gt_queue g)))
     \<and> (\<forall>a \<in> set (gt_queue g). a < length (gt_waiters g) \<and> \<not> wt_ready (gt_waiters g ! a))
     \<and> (\<forall>a < length (gt_waiters g). wt_state (gt_waiters g ! a) = waiterGranted \<longrightarrow>
          wt_ready (gt_waiters g ! a)
          \<and> (\<exists>l < length (gt_leases g). wt_lease (gt_waiters g ! a) = Some l
               \<and> el_request (gt_leases g ! l) = wt_request (gt_waiters g ! a)))"

definition actions_ok :: "gate \<Rightarrow> bool" where
  "actions_ok g \<longleftrightarrow> distinct (map fst (gt_actions g))
     \<and> (\<forall>(k, a) \<in> set (gt_actions g). al_actionID a = k \<and> al_gate a = gt_self g \<and> al_ref a < gt_nextAction g)
     \<and> gt_entering g = length (early g)"

definition capacity_ok :: "gate \<Rightarrow> bool" where
  "capacity_ok g \<longleftrightarrow>
     Config_validate (gt_config g)
     \<and> gt_heldBytes g = sum_list (map ar_SizeBytes (queued g))
     \<and> (\<forall>r \<in> set (queued g). 0 \<le> ar_SizeBytes r)
     \<and> gt_heldBytes g \<le> hc_MaxHeldBytes (gt_config g)
     \<and> int (length (gt_queue g)) \<le> hc_MaxHeldRequests (gt_config g)"

definition ids_ok :: "gate \<Rightarrow> bool" where
  "ids_ok g \<longleftrightarrow> finite (gt_requestIDs g)
     \<and> image_mset ar_RequestID (live g + mset (queued g)) = mset_set (gt_requestIDs g)"

definition active_ok :: "gate \<Rightarrow> bool" where
  "active_ok g \<longleftrightarrow> gt_active g = size (live g) \<and> counts (gt_activeByKind g) (image_mset kind_of (live g))"

definition accounts_ok :: "gate \<Rightarrow> bool" where
  "accounts_ok g \<longleftrightarrow> waiters_ok g \<and> actions_ok g \<and> capacity_ok g \<and> ids_ok g \<and> active_ok g"

fun phase_ok :: "hold_state \<Rightarrow> gate \<Rightarrow> bool" where
  "phase_ok StateUnbound g \<longleftrightarrow> gt_active g = 0 \<and> gt_queue g = [] \<and> gt_actions g = []"
| "phase_ok StateOnline g \<longleftrightarrow> gt_queue g = [] \<and> early g = gt_actions g"
| "phase_ok StateEntering g \<longleftrightarrow> 0 < gt_active g \<or> 0 < gt_entering g"
| "phase_ok StateHeld g \<longleftrightarrow> gt_active g = 0 \<and> gt_entering g = 0"
| "phase_ok StateProbing g \<longleftrightarrow> gt_active g = 0 \<and> gt_entering g = 0"
| "phase_ok StateReleasing g \<longleftrightarrow> gt_entering g = 0
     \<and> int (gt_active g) \<le> hc_ReleaseConcurrency (gt_config g)
     \<and> (gt_active g = 0 \<longrightarrow> gt_queue g = [] \<and> gt_actions g \<noteq> [])"
| "phase_ok StateStopping g \<longleftrightarrow> gt_queue g = []"

definition gate_inv :: "gate \<Rightarrow> bool" where
  "gate_inv g \<longleftrightarrow> accounts_ok g \<and> phase_ok (gt_state g) g
     \<and> (gt_state g \<noteq> StateReleasing \<longrightarrow> gt_probed g = {})
     \<and> gt_revision g = of_nat (gt_changed g)"

section \<open>The accounting under single updates\<close>

lemma bump_counts: "counts m M \<Longrightarrow> counts (bump k m) (add_mset k M)"
  by (auto simp: counts_def bump_def count_eq_zero_iff)

lemma unbump_counts: "counts m M \<Longrightarrow> k \<in># M \<Longrightarrow> counts (unbump k m) (M - {#k#})"
  by (auto simp: counts_def unbump_def count_eq_zero_iff split: option.splits if_splits)

lemma live_append: "live (g\<lparr>gt_leases := gt_leases g @ [\<lparr>el_request = r, el_done = False\<rparr>]\<rparr>) = add_mset r (live g)"
  by (simp add: live_def)

lemma live_done:
  assumes "l < length (gt_leases g)" and "\<not> el_done (gt_leases g ! l)"
  shows "el_request (gt_leases g ! l) \<in># live g"
    and "live (g\<lparr>gt_leases := (gt_leases g)[l := (gt_leases g ! l)\<lparr>el_done := True\<rparr>]\<rparr>)
      = live g - {#el_request (gt_leases g ! l)#}"
proof -
  have mem: "gt_leases g ! l \<in># filter_mset (\<lambda>l. \<not> el_done l) (mset (gt_leases g))"
    using assms by simp
  then show "el_request (gt_leases g ! l) \<in># live g" by (simp add: live_def)
  have "filter_mset (\<lambda>l. \<not> el_done l) (mset (gt_leases g)) - {#gt_leases g ! l#} + {#gt_leases g ! l#}
      = filter_mset (\<lambda>l. \<not> el_done l) (mset (gt_leases g))" using mem by simp
  then show "live (g\<lparr>gt_leases := (gt_leases g)[l := (gt_leases g ! l)\<lparr>el_done := True\<rparr>]\<rparr>)
      = live g - {#el_request (gt_leases g ! l)#}"
    using assms mem by (simp add: live_def mset_update image_mset_Diff)
qed


lemmas accounts_defs = accounts_ok_def waiters_ok_def actions_ok_def capacity_ok_def ids_ok_def active_ok_def
  live_def queued_def early_def

lemma accounts_frame [simp]:
  "accounts_ok (mutatedLocked g) = accounts_ok g"
  "accounts_ok (transitionLocked clk s g) = accounts_ok g"
  "accounts_ok (g\<lparr>gt_probed := P\<rparr>) = accounts_ok g"
  "accounts_ok (g\<lparr>gt_lastProbe := x\<rparr>) = accounts_ok g"
  "accounts_ok (g\<lparr>gt_binding := b\<rparr>) = accounts_ok g"
  by (simp_all add: accounts_defs mutatedLocked_def transitionLocked_def)

lemma fields_frame [simp]:
  "gt_state (mutatedLocked g) = gt_state g" "gt_active (mutatedLocked g) = gt_active g"
  "gt_entering (mutatedLocked g) = gt_entering g" "gt_queue (mutatedLocked g) = gt_queue g"
  "gt_actions (mutatedLocked g) = gt_actions g" "gt_config (mutatedLocked g) = gt_config g"
  "gt_probed (mutatedLocked g) = gt_probed g" "gt_leases (mutatedLocked g) = gt_leases g"
  "gt_waiters (mutatedLocked g) = gt_waiters g"
  "gt_state (transitionLocked clk s g) = s" "gt_active (transitionLocked clk s g) = gt_active g"
  "gt_entering (transitionLocked clk s g) = gt_entering g" "gt_queue (transitionLocked clk s g) = gt_queue g"
  "gt_actions (transitionLocked clk s g) = gt_actions g" "gt_config (transitionLocked clk s g) = gt_config g"
  "gt_probed (transitionLocked clk s g) = gt_probed g" "gt_leases (transitionLocked clk s g) = gt_leases g"
  "gt_waiters (transitionLocked clk s g) = gt_waiters g"
  by (simp_all add: mutatedLocked_def transitionLocked_def)

lemma revision_frame [simp]:
  "gt_revision (mutatedLocked g) = gt_revision g + 1" "gt_changed (mutatedLocked g) = Suc (gt_changed g)"
  "gt_revision (transitionLocked clk s g) = gt_revision g + 1"
  "gt_changed (transitionLocked clk s g) = Suc (gt_changed g)"
  by (simp_all add: mutatedLocked_def transitionLocked_def)

lemma waiters_ok_append_lease:
  assumes "waiters_ok g"
  shows "waiters_ok (g\<lparr>gt_leases := gt_leases g @ [l], gt_active := n, gt_activeByKind := k, gt_requestIDs := i\<rparr>)"
  using assms unfolding waiters_ok_def by (fastforce simp: nth_append)

lemma grant_accounts:
  assumes "accounts_ok g" and "ar_RequestID r \<notin> gt_requestIDs g"
  shows "accounts_ok (fst (grantLocked r g))"
proof -
  let ?g = "g\<lparr>gt_leases := gt_leases g @ [\<lparr>el_request = r, el_done = False\<rparr>], gt_active := Suc (gt_active g),
    gt_activeByKind := bump (kind_of r) (gt_activeByKind g),
    gt_requestIDs := insert (ar_RequestID r) (gt_requestIDs g)\<rparr>"
  have live: "live ?g = add_mset r (live g)" and queue: "queued ?g = queued g"
    by (simp_all add: live_def queued_def)
  from assms have "waiters_ok ?g" by (simp only: accounts_ok_def waiters_ok_append_lease)
  moreover from assms have "actions_ok ?g" and "capacity_ok ?g"
    by (simp_all add: accounts_ok_def actions_ok_def capacity_ok_def early_def queue)
  moreover from assms have "ids_ok ?g"
    by (simp add: accounts_ok_def ids_ok_def live queue)
  moreover from assms have "active_ok ?g"
    unfolding accounts_ok_def active_ok_def live by (simp add: bump_counts)
  ultimately have "accounts_ok ?g" by (simp add: accounts_ok_def)
  moreover have "fst (grantLocked r g) = mutatedLocked ?g"
    by (simp add: grantLocked_def Let_def mutatedLocked_def kind_of_def)
  ultimately show ?thesis by simp
qed

lemma queue_head:
  assumes "accounts_ok g" and "gt_queue g \<noteq> []"
  obtains a q w where "gt_queue g = a # q" and "a < length (gt_waiters g)" and "a \<notin> set q"
    and "w = gt_waiters g ! a" and "wt_state w = waiterQueued" and "queued g = wt_request w # map (\<lambda>a. wt_request (gt_waiters g ! a)) q"
    and "distinct q" "\<not> wt_ready w"
  using assms by (cases "gt_queue g") (auto simp: accounts_ok_def waiters_ok_def queued_def)

lemma grant_head_accounts:
  assumes ok: "accounts_ok g" and "gt_queue g \<noteq> []"
  shows "accounts_ok (grant_head g)"
proof -
  obtain a q w where q: "gt_queue g = a # q" "a < length (gt_waiters g)" "a \<notin> set q" "w = gt_waiters g ! a"
      "wt_state w = waiterQueued" "queued g = wt_request w # map (\<lambda>a. wt_request (gt_waiters g ! a)) q"
      "distinct q"
    using queue_head [OF assms] by metis
  let ?r = "wt_request w"
  let ?g = "g\<lparr>gt_queue := q, gt_heldBytes := gt_heldBytes g - ar_SizeBytes ?r,
     gt_leases := gt_leases g @ [\<lparr>el_request = ?r, el_done = False\<rparr>],
     gt_waiters := (gt_waiters g)[a := w\<lparr>wt_state := waiterGranted, wt_lease := Some (length (gt_leases g)),
                                        wt_ready := True\<rparr>],
     gt_active := Suc (gt_active g), gt_activeByKind := bump (kind_of ?r) (gt_activeByKind g)\<rparr>"
  have live: "live ?g = add_mset ?r (live g)" by (simp add: live_def)
  have queue: "queued ?g = map (\<lambda>a. wt_request (gt_waiters g ! a)) q"
    using q by (auto simp: queued_def nth_list_update)
  have "waiters_ok ?g"
    using ok q unfolding accounts_ok_def waiters_ok_def
    by (auto simp: nth_list_update nth_append less_Suc_eq)
  moreover from ok have "actions_ok ?g" by (simp add: accounts_ok_def actions_ok_def early_def)
  moreover from ok q queue have "capacity_ok ?g" by (auto simp: accounts_ok_def capacity_ok_def)
  moreover from ok have "ids_ok ?g"
    unfolding accounts_ok_def ids_ok_def live queue q(6) by simp
  moreover from ok have "active_ok ?g"
    unfolding accounts_ok_def active_ok_def live by (simp add: bump_counts)
  ultimately have "accounts_ok ?g" by (simp add: accounts_ok_def)
  moreover have "grant_head g = mutatedLocked ?g"
    using q by (simp add: grant_head_def Let_def mutatedLocked_def kind_of_def waiter_at_def)
  ultimately show ?thesis by simp
qed


lemma enqueue_accounts:
  assumes ok: "accounts_ok g" and new: "ar_RequestID r \<notin> gt_requestIDs g" and "0 \<le> ar_SizeBytes r"
    and "\<not> hc_MaxHeldRequests (gt_config g) \<le> int (length (gt_queue g))"
    and "\<not> hc_MaxHeldBytes (gt_config g) - gt_heldBytes g < ar_SizeBytes r"
  shows "accounts_ok (enqueue r g)"
proof -
  let ?g = "g\<lparr>gt_waiters := gt_waiters g @ [\<lparr>wt_request = r, wt_state = waiterQueued, wt_ready = False,
       wt_lease = None\<rparr>], gt_queue := gt_queue g @ [length (gt_waiters g)],
     gt_heldBytes := gt_heldBytes g + ar_SizeBytes r, gt_requestIDs := insert (ar_RequestID r) (gt_requestIDs g)\<rparr>"
  from ok have in_range: "a \<in> set (gt_queue g) \<Longrightarrow> a < length (gt_waiters g)" for a
    by (simp add: accounts_ok_def waiters_ok_def)
  have live: "live ?g = live g" by (simp add: live_def)
  have queue: "queued ?g = queued g @ [r]"
    using in_range by (auto simp: queued_def nth_append)
  have "waiters_ok ?g"
    using ok in_range unfolding accounts_ok_def waiters_ok_def by (auto simp: nth_append less_Suc_eq)
  moreover from ok have "actions_ok ?g" by (simp add: accounts_ok_def actions_ok_def early_def)
  moreover from ok assms(3-5) have "capacity_ok ?g"
    unfolding accounts_ok_def capacity_ok_def queue by auto
  moreover from ok new have "ids_ok ?g" unfolding accounts_ok_def ids_ok_def live queue by simp
  moreover from ok have "active_ok ?g" unfolding accounts_ok_def active_ok_def live by simp
  ultimately have "accounts_ok ?g" by (simp add: accounts_ok_def)
  then show ?thesis by (simp add: enqueue_def)
qed

text \<open>Taking a lease off the accounts.\<close>

definition account_release :: "nat \<Rightarrow> gate \<Rightarrow> gate" where
  "account_release l g =
     (let r = el_request (gt_leases g ! l) in
      g\<lparr>gt_leases := (gt_leases g)[l := (gt_leases g ! l)\<lparr>el_done := True\<rparr>],
        gt_requestIDs := gt_requestIDs g - {ar_RequestID r},
        gt_active := (if 0 < gt_active g then gt_active g - 1 else gt_active g),
        gt_activeByKind := unbump (kind_of r) (gt_activeByKind g)\<rparr>)"

lemma live_ids: "ids_ok g \<Longrightarrow> r \<in># live g \<Longrightarrow> ar_RequestID r \<in> gt_requestIDs g"
proof -
  assume ok: "ids_ok g" and r: "r \<in># live g"
  then have "ar_RequestID r \<in># image_mset ar_RequestID (live g + mset (queued g))" by simp
  with ok show "ar_RequestID r \<in> gt_requestIDs g" by (auto simp: ids_ok_def)
qed

lemma Lease_Release_account:
  assumes ok: "accounts_ok g" and l: "l < length (gt_leases g)" "\<not> el_done (gt_leases g ! l)"
  shows "Lease_Release clk l g = settle clk (mutatedLocked (account_release l g))"
proof -
  from l ok have "ar_RequestID (el_request (gt_leases g ! l)) \<in> gt_requestIDs g"
    by (auto intro!: live_ids live_done simp: accounts_ok_def)
  with l show ?thesis
    by (simp add: Lease_Release_def release_def account_release_def Let_def kind_of_def)
qed

lemma account_release_accounts:
  assumes ok: "accounts_ok g" and l: "l < length (gt_leases g)" "\<not> el_done (gt_leases g ! l)"
  shows "accounts_ok (account_release l g)"
proof -
  let ?r = "el_request (gt_leases g ! l)" let ?g = "account_release l g"
  have mem: "?r \<in># live g" by (rule live_done(1) [OF l])
  have live: "live ?g = live g - {#?r#}"
    using live_done(2) [OF l] by (simp add: live_def account_release_def Let_def)
  have queue: "queued ?g = queued g" by (simp add: queued_def account_release_def Let_def)
  have "el_request (gt_leases ?g ! i) = el_request (gt_leases g ! i)" for i
    using l by (cases "i = l") (simp_all add: account_release_def Let_def)
  moreover have "length (gt_leases ?g) = length (gt_leases g)" "gt_queue ?g = gt_queue g"
      "gt_waiters ?g = gt_waiters g"
    by (simp_all add: account_release_def Let_def)
  ultimately have "waiters_ok ?g" using ok by (simp add: accounts_ok_def waiters_ok_def)
  moreover from ok have "actions_ok ?g"
    by (simp add: accounts_ok_def actions_ok_def early_def account_release_def Let_def)
  moreover from ok have "capacity_ok ?g"
    unfolding accounts_ok_def capacity_ok_def queue by (simp add: account_release_def Let_def)
  moreover have "ids_ok ?g"
  proof -
    from ok mem have fin: "finite (gt_requestIDs g)" and here: "ar_RequestID ?r \<in> gt_requestIDs g"
      and eq: "image_mset ar_RequestID (live g + mset (queued g)) = mset_set (gt_requestIDs g)"
      by (auto simp: accounts_ok_def intro: live_ids) (auto simp: ids_ok_def)
    have "image_mset ar_RequestID (live g - {#?r#} + mset (queued g))
        = image_mset ar_RequestID (live g + mset (queued g)) - {#ar_RequestID ?r#}"
      using mem by (simp add: image_mset_Diff)
    also have "\<dots> = mset_set (gt_requestIDs g - {ar_RequestID ?r})"
      unfolding eq using fin here by (simp add: mset_set_Diff)
    finally show ?thesis
      unfolding ids_ok_def live queue using fin by (simp add: account_release_def Let_def)
  qed
  moreover from ok mem have "active_ok ?g"
    unfolding accounts_ok_def active_ok_def live
    by (auto simp: account_release_def Let_def image_mset_Diff size_Diff_singleton
        intro!: unbump_counts dest: size_eq_0_iff_empty [THEN iffD1])
  ultimately show ?thesis by (simp add: accounts_ok_def)
qed


text \<open>Actions come and go.\<close>

lemma drop_key:
  assumes "distinct (map fst xs)" and "map_of xs k = Some v"
  shows "length (filter P (filter (\<lambda>(j, _). j \<noteq> k) xs)) = length (filter P xs) - (if P (k, v) then 1 else 0)"
    and "P (k, v) \<Longrightarrow> 0 < length (filter P xs)"
proof -
  have mem: "(k, v) \<in> set xs" using assms(2) by (rule map_of_SomeD)
  have "(j \<noteq> k) = ((j, u) \<noteq> (k, v))" if "(j, u) \<in> set xs" for j u
    using assms mem that by (auto dest: eq_key_imp_eq_value)
  then have "filter (\<lambda>(j, _). j \<noteq> k) xs = filter (\<lambda>p. p \<noteq> (k, v)) xs" by (auto intro: filter_cong)
  also have "\<dots> = remove1 (k, v) xs" using assms(1) by (simp add: distinct_remove1_removeAll removeAll_filter_not_eq
        distinct_map eq_commute)
  finally have "mset (filter (\<lambda>(j, _). j \<noteq> k) xs) = mset xs - {#(k, v)#}" by simp
  then have "mset (filter P (filter (\<lambda>(j, _). j \<noteq> k) xs)) = filter_mset P (mset xs - {#(k, v)#})"
    by (metis mset_filter)
  then have "size (mset (filter P (filter (\<lambda>(j, _). j \<noteq> k) xs)))
      = size (filter_mset P (mset xs)) - (if P (k, v) then 1 else 0)"
    using mem by (simp add: filter_diff_mset size_Diff_singleton)
  then show "length (filter P (filter (\<lambda>(j, _). j \<noteq> k) xs)) = length (filter P xs) - (if P (k, v) then 1 else 0)"
    by (metis mset_filter size_mset)
  show "P (k, v) \<Longrightarrow> 0 < length (filter P xs)" using mem by (force simp: filter_empty_conv)
qed

definition account_releaseAction :: "action_lease \<Rightarrow> gate \<Rightarrow> gate" where
  "account_releaseAction a g =
     g\<lparr>gt_actions := filter (\<lambda>(k, _). k \<noteq> al_actionID a) (gt_actions g),
       gt_entering := (if al_beforeEnter a \<and> 0 < gt_entering g then gt_entering g - 1 else gt_entering g)\<rparr>"

lemma account_releaseAction_accounts:
  assumes ok: "accounts_ok g" and "map_of (gt_actions g) (al_actionID a) = Some a"
  shows "accounts_ok (account_releaseAction a g)"
proof -
  let ?g = "account_releaseAction a g"
  from ok have dist: "distinct (map fst (gt_actions g))" by (simp add: accounts_ok_def actions_ok_def)
  have "actions_ok ?g"
    using ok drop_key [OF dist assms(2), of "\<lambda>(_, a). al_beforeEnter a"]
    by (auto simp: accounts_ok_def actions_ok_def early_def account_releaseAction_def distinct_map
        inj_on_def)
  then show ?thesis
    using ok by (simp add: accounts_ok_def waiters_ok_def capacity_ok_def ids_ok_def active_ok_def
        live_def queued_def account_releaseAction_def)
qed

lemma account_beginAction_accounts:
  assumes ok: "accounts_ok g" and "map_of (gt_actions g) k = None"
    and "al_actionID a = k" "al_gate a = gt_self g" "al_ref a = gt_nextAction g"
  shows "accounts_ok (g\<lparr>gt_nextAction := Suc (gt_nextAction g), gt_actions := (k, a) # gt_actions g,
      gt_entering := (if al_beforeEnter a then Suc (gt_entering g) else gt_entering g)\<rparr>)" (is "accounts_ok ?g")
proof -
  have "actions_ok ?g"
    using ok assms(2-5)
    by (auto simp: accounts_ok_def actions_ok_def early_def map_of_eq_None_iff less_Suc_eq)
  then show ?thesis
    using ok by (simp add: accounts_ok_def waiters_ok_def capacity_ok_def ids_ok_def active_ok_def
        live_def queued_def)
qed

text \<open>A queued waiter gives up.\<close>

definition account_cancel :: "nat \<Rightarrow> gate \<Rightarrow> gate" where
  "account_cancel a g =
     (let w = waiter_at g a in
      g\<lparr>gt_queue := remove1 a (gt_queue g),
        gt_waiters := (gt_waiters g)[a := w\<lparr>wt_state := waiterCanceled\<rparr>],
        gt_heldBytes := gt_heldBytes g - ar_SizeBytes (wt_request w),
        gt_requestIDs := gt_requestIDs g - {ar_RequestID (wt_request w)}\<rparr>)"

lemma account_cancel_accounts:
  assumes ok: "accounts_ok g" and a: "a < length (gt_waiters g)" "wt_state (waiter_at g a) = waiterQueued"
  shows "accounts_ok (account_cancel a g)"
proof -
  let ?w = "gt_waiters g ! a" let ?g = "account_cancel a g"
  let ?f = "\<lambda>a. wt_request (gt_waiters g ! a)"
  from ok a have mem: "a \<in> set (gt_queue g)" and dist: "distinct (gt_queue g)"
    by (auto simp: accounts_ok_def waiters_ok_def waiter_at_def)
  have live: "live ?g = live g" by (simp add: live_def account_cancel_def Let_def)
  have queue: "queued ?g = map ?f (remove1 a (gt_queue g))"
    using dist by (auto simp: queued_def account_cancel_def Let_def nth_list_update)
  have bag: "mset (queued ?g) = mset (queued g) - {#wt_request ?w#}"
    using mem by (simp add: queue queued_def [of g] image_mset_Diff)
  have inq: "wt_request ?w \<in># mset (queued g)" using mem by (auto simp: queued_def)
  have "waiters_ok ?g"
    using ok dist a unfolding accounts_ok_def waiters_ok_def account_cancel_def Let_def waiter_at_def
    by (auto simp: nth_list_update)
  moreover from ok have "actions_ok ?g"
    by (simp add: accounts_ok_def actions_ok_def early_def account_cancel_def Let_def)
  moreover have "capacity_ok ?g"
  proof -
    have "sum_list (map ar_SizeBytes (queued g))
        = ar_SizeBytes (wt_request ?w) + sum_list (map ar_SizeBytes (queued ?g))"
      using sum_list_map_remove1 [OF mem, of "\<lambda>a. ar_SizeBytes (?f a)"]
      by (simp add: queue queued_def [of g] comp_def)
    moreover have "set (queued ?g) \<subseteq> set (queued g)"
      using set_remove1_subset [of a "gt_queue g"] by (auto simp: queue queued_def [of g])
    moreover have "length (remove1 a (gt_queue g)) \<le> length (gt_queue g)"
      by (simp add: length_remove1)
    ultimately show ?thesis
      using ok inq by (auto simp: accounts_ok_def capacity_ok_def account_cancel_def Let_def waiter_at_def)
  qed
  moreover have "ids_ok ?g"
  proof -
    from ok have fin: "finite (gt_requestIDs g)"
      and eq: "image_mset ar_RequestID (live g + mset (queued g)) = mset_set (gt_requestIDs g)"
      by (auto simp: accounts_ok_def ids_ok_def)
    have "ar_RequestID (wt_request ?w) \<in># image_mset ar_RequestID (live g + mset (queued g))"
      using inq by auto
    then have here: "ar_RequestID (wt_request ?w) \<in> gt_requestIDs g" unfolding eq using fin by simp
    have "image_mset ar_RequestID (live g + (mset (queued g) - {#wt_request ?w#}))
        = image_mset ar_RequestID (live g + mset (queued g)) - {#ar_RequestID (wt_request ?w)#}"
      using inq by (simp add: image_mset_Diff)
    also have "\<dots> = mset_set (gt_requestIDs g - {ar_RequestID (wt_request ?w)})"
      unfolding eq using fin here by (simp add: mset_set_Diff)
    finally show ?thesis
      unfolding ids_ok_def live bag using fin by (simp add: account_cancel_def Let_def waiter_at_def)
  qed
  moreover from ok have "active_ok ?g"
    unfolding accounts_ok_def active_ok_def live by (simp add: account_cancel_def Let_def)
  ultimately show ?thesis by (simp add: accounts_ok_def)
qed


text \<open>Shutdown cancels the whole queue.\<close>

lemma mset_set_split:
  assumes "finite R" and "M + N = mset_set R"
  shows "M = mset_set (R - set_mset N)"
proof (rule multiset_eqI)
  fix x
  have "count M x + count N x = count (mset_set R) x" using assms(2) by (metis count_union)
  then show "count M x = count (mset_set (R - set_mset N)) x"
    using assms(1) by (cases "x \<in> R"; cases "x \<in># N") (auto simp: not_in_iff simp flip: count_greater_zero_iff)
qed

lemma fold_update_nth:
  "distinct as \<Longrightarrow> i < length ws \<Longrightarrow>
     fold (\<lambda>a ws. ws[a := f (ws ! a)]) as ws ! i = (if i \<in> set as then f (ws ! i) else ws ! i)"
  by (induction as arbitrary: ws) (auto, metis nth_list_update_neq)

lemma fold_update_length: "length (fold (\<lambda>a ws. ws[a := f (ws ! a)]) as ws) = length ws"
  by (induction as arbitrary: ws) auto

lemma queue_all_queued:
  "accounts_ok g \<Longrightarrow> filter (\<lambda>a. wt_state (waiter_at g a) = waiterQueued) (gt_queue g) = gt_queue g"
  by (auto simp: accounts_ok_def waiters_ok_def waiter_at_def filter_id_conv)

definition account_shutdown :: "gate \<Rightarrow> gate" where
  "account_shutdown g =
     g\<lparr>gt_waiters := fold (\<lambda>a ws. ws[a := (ws ! a)\<lparr>wt_state := waiterCanceled, wt_ready := True\<rparr>])
                        (gt_queue g) (gt_waiters g),
       gt_requestIDs := gt_requestIDs g - set (map ar_RequestID (queued g)),
       gt_queue := [], gt_heldBytes := 0, gt_probed := {}\<rparr>"

lemma account_shutdown_accounts:
  assumes ok: "accounts_ok g"
  shows "accounts_ok (account_shutdown g)"
proof -
  let ?g = "account_shutdown g" let ?f = "\<lambda>w. w\<lparr>wt_state := waiterCanceled, wt_ready := True\<rparr>"
  from ok have dist: "distinct (gt_queue g)" by (simp add: accounts_ok_def waiters_ok_def)
  have live: "live ?g = live g" and queue: "queued ?g = []"
    by (simp_all add: live_def queued_def account_shutdown_def)
  have "waiters_ok ?g"
    using ok dist unfolding accounts_ok_def waiters_ok_def account_shutdown_def
    by (simp add: fold_update_length [where f = ?f] fold_update_nth [where f = ?f])
  moreover from ok have "actions_ok ?g" by (simp add: accounts_ok_def actions_ok_def early_def account_shutdown_def)
  moreover from ok have "capacity_ok ?g"
    unfolding accounts_ok_def capacity_ok_def queue
    by (auto simp: account_shutdown_def Config_validate_def)
  moreover have "ids_ok ?g"
  proof -
    from ok have "finite (gt_requestIDs g)" and
      "image_mset ar_RequestID (live g) + image_mset ar_RequestID (mset (queued g)) = mset_set (gt_requestIDs g)"
      by (simp_all add: accounts_ok_def ids_ok_def)
    from this(1) mset_set_split [OF this] show ?thesis
      unfolding ids_ok_def live queue by (simp add: account_shutdown_def)
  qed
  moreover from ok have "active_ok ?g"
    unfolding accounts_ok_def active_ok_def live by (simp add: account_shutdown_def)
  ultimately show ?thesis by (simp add: accounts_ok_def)
qed

section \<open>Releasing the queue\<close>

lemma grant_head_fields [simp]:
  "gt_state (grant_head g) = gt_state g" "gt_active (grant_head g) = Suc (gt_active g)"
  "gt_queue (grant_head g) = tl (gt_queue g)" "gt_actions (grant_head g) = gt_actions g"
  "gt_entering (grant_head g) = gt_entering g" "gt_config (grant_head g) = gt_config g"
  "gt_probed (grant_head g) = gt_probed g" "gt_revision (grant_head g) = gt_revision g + 1"
  "gt_changed (grant_head g) = Suc (gt_changed g)"
  by (simp_all add: grant_head_def Let_def mutatedLocked_def)

lemma releaseQueued_accounts: "accounts_ok g \<Longrightarrow> accounts_ok (releaseQueuedLocked clk g)"
proof (induction clk g rule: releaseQueuedLocked.induct)
  case (1 clk g)
  show ?case
    using 1 by (subst releaseQueuedLocked.simps) (simp add: grant_head_accounts)
qed

lemma releaseQueued_idle: "gt_state g \<noteq> StateReleasing \<Longrightarrow> releaseQueuedLocked clk g = g"
  by (subst releaseQueuedLocked.simps) simp

definition releasing_ready :: "gate \<Rightarrow> bool" where
  "releasing_ready g \<longleftrightarrow> gt_state g = StateReleasing \<and> gt_entering g = 0
     \<and> int (gt_active g) \<le> hc_ReleaseConcurrency (gt_config g)
     \<and> gt_revision g = of_nat (gt_changed g)"

lemma releaseQueued_inv:
  "accounts_ok g \<Longrightarrow> releasing_ready g \<Longrightarrow> gate_inv (releaseQueuedLocked clk g)"
proof (induction clk g rule: releaseQueuedLocked.induct)
  case (1 clk g)
  from 1(2) have pos: "0 < hc_ReleaseConcurrency (gt_config g)"
    by (simp add: accounts_ok_def capacity_ok_def Config_validate_def)
  consider (grant) "int (gt_active g) < hc_ReleaseConcurrency (gt_config g)" "gt_queue g \<noteq> []"
      "ar_Target (wt_request (waiter_at g (hd (gt_queue g)))) \<in> gt_probed g"
    | (hold) "int (gt_active g) < hc_ReleaseConcurrency (gt_config g)" "gt_queue g \<noteq> []"
      "ar_Target (wt_request (waiter_at g (hd (gt_queue g)))) \<notin> gt_probed g"
    | (idle) "gt_queue g = [] \<or> hc_ReleaseConcurrency (gt_config g) = int (gt_active g)"
    using 1(3) by (fastforce simp: releasing_ready_def)
  then show ?case
  proof cases
    case grant
    with 1(3) have "releasing_ready (grant_head g)" by (simp add: releasing_ready_def)
    with grant 1 show ?thesis
      by (subst releaseQueuedLocked.simps) (simp add: releasing_ready_def grant_head_accounts)
  next
    case hold
    with 1 show ?thesis
      by (subst releaseQueuedLocked.simps) (auto simp: releasing_ready_def gate_inv_def)
  next
    case idle
    have "early g = gt_actions g" if "gt_actions g = []" using that by (simp add: early_def)
    with idle 1 pos show ?thesis
      by (subst releaseQueuedLocked.simps) (auto simp: releasing_ready_def gate_inv_def early_def)
  qed
qed

lemma settle_inv:
  assumes "accounts_ok g" and "gt_revision g = of_nat (gt_changed g)"
    and "gt_state g \<noteq> StateReleasing \<longrightarrow> gt_probed g = {}"
    and "gt_state g = StateReleasing \<Longrightarrow> releasing_ready g"
    and "gt_state g \<notin> {StateEntering, StateReleasing} \<Longrightarrow> phase_ok (gt_state g) g"
  shows "gate_inv (settle clk g)"
proof (cases "gt_state g = StateReleasing")
  case True
  with assms releaseQueued_inv [of g clk] show ?thesis by (simp add: settle_def)
next
  case False
  with assms show ?thesis
    by (cases "gt_state g = StateEntering") (auto simp: settle_def gate_inv_def)
qed


section \<open>Every operation keeps the invariant\<close>

lemma gate_invD:
  assumes "gate_inv g"
  shows "accounts_ok g" and "phase_ok (gt_state g) g" and "gt_state g \<noteq> StateReleasing \<Longrightarrow> gt_probed g = {}"
    and "gt_revision g = of_nat (gt_changed g)"
  using assms by (simp_all add: gate_inv_def)

lemma New_gate_inv: "New_gate self config = Inr g \<Longrightarrow> gate_inv g"
  by (auto simp: New_gate_def gate_inv_def accounts_defs counts_def Config_validate_def split: if_splits)

lemma Start_inv [runtime_inv]: "gate_inv g \<Longrightarrow> gate_inv (fst (Start clk c i g))"
  by (auto simp: Start_def gate_inv_def early_def split: option.splits)

lemma phase_actions:
  assumes "phase_ok s g" and "s \<noteq> StateUnbound" and "al_beforeEnter a = (s = StateOnline)"
  shows "phase_ok s (g\<lparr>gt_nextAction := n, gt_actions := (k, a) # gt_actions g,
      gt_entering := (if al_beforeEnter a then Suc (gt_entering g) else gt_entering g)\<rparr>)"
  using assms by (cases s) (auto simp: early_def)

lemma phase_frame:
  assumes "gt_active h = gt_active g" "gt_queue h = gt_queue g" "gt_actions h = gt_actions g"
    "gt_entering h = gt_entering g" "gt_config h = gt_config g"
  shows "phase_ok s h = phase_ok s g"
  using assms by (cases s) (simp_all add: early_def)

lemma phase_mutated [simp]: "phase_ok s (mutatedLocked g) = phase_ok s g"
  by (rule phase_frame) simp_all

lemma BeginAction_inv [runtime_inv]:
  assumes inv: "gate_inv g"
  shows "gate_inv (fst (BeginAction c k g))"
proof (cases "BeginAction c k g")
  case (Pair g' res)
  show ?thesis
  proof (cases res)
    case (Inl e)
    with Pair have "g' = g" by (auto simp: BeginAction_def Let_def split: if_splits option.splits)
    with Pair inv show ?thesis by simp
  next
    case (Inr a)
    from Pair Inr have a: "a = \<lparr>al_gate = gt_self g, al_ref = gt_nextAction g, al_actionID = k,
          al_beforeEnter = (gt_state g = StateOnline)\<rparr>" and "map_of (gt_actions g) k = None"
        and "gt_state g \<noteq> StateUnbound"
        and g': "g' = mutatedLocked (g\<lparr>gt_nextAction := Suc (gt_nextAction g), gt_actions := (k, a) # gt_actions g,
          gt_entering := (if al_beforeEnter a then Suc (gt_entering g) else gt_entering g)\<rparr>)"
      by (auto simp: BeginAction_def Let_def split: if_splits option.splits)
    from gate_invD [OF inv] show ?thesis
      using account_beginAction_accounts [of g k a] phase_actions [of "gt_state g" g a k "Suc (gt_nextAction g)"]
        \<open>map_of (gt_actions g) k = None\<close> \<open>gt_state g \<noteq> StateUnbound\<close>
      by (auto simp: Pair g' gate_inv_def a)
  qed
qed

lemma phase_releasing: "phase_ok (gt_state g) g \<Longrightarrow> gt_state g = StateReleasing \<Longrightarrow>
    gt_entering g = 0 \<and> int (gt_active g) \<le> hc_ReleaseConcurrency (gt_config g)"
  by simp

lemma Lease_Release_inv [runtime_inv]:
  assumes inv: "gate_inv g" and l: "l < length (gt_leases g)"
  shows "gate_inv (Lease_Release clk l g)"
proof (cases "el_done (gt_leases g ! l)")
  case True
  with inv show ?thesis by (simp add: Lease_Release_def)
next
  case False
  note ok = gate_invD(1) [OF inv]
  have active: "gt_active (account_release l g) = gt_active g - 1"
    and frame: "gt_state (account_release l g) = gt_state g" "gt_queue (account_release l g) = gt_queue g"
      "gt_actions (account_release l g) = gt_actions g" "gt_entering (account_release l g) = gt_entering g"
      "gt_config (account_release l g) = gt_config g" "gt_probed (account_release l g) = gt_probed g"
      "gt_revision (account_release l g) = gt_revision g" "gt_changed (account_release l g) = gt_changed g"
    by (simp_all add: account_release_def Let_def)
  have phase: "phase_ok (gt_state g) (account_release l g)" if "gt_state g \<notin> {StateEntering, StateReleasing}"
    using gate_invD(2) [OF inv] that by (cases "gt_state g") (simp_all add: active frame early_def)
  have "gate_inv (settle clk (mutatedLocked (account_release l g)))"
    using account_release_accounts [OF ok l False] gate_invD(2-4) [OF inv] phase
    by (intro settle_inv) (auto simp: releasing_ready_def frame active)
  with Lease_Release_account [OF ok l False] show ?thesis by simp
qed

lemma releaseAction_inv [runtime_inv]:
  assumes inv: "gate_inv g"
  shows "gate_inv (releaseAction clk a g)"
proof (cases "map_of (gt_actions g) (al_actionID a) = Some a")
  case False
  with inv show ?thesis by (simp add: releaseAction_def)
next
  case True
  have frame: "gt_state (account_releaseAction a g) = gt_state g" "gt_queue (account_releaseAction a g) = gt_queue g"
      "gt_active (account_releaseAction a g) = gt_active g" "gt_config (account_releaseAction a g) = gt_config g"
      "gt_probed (account_releaseAction a g) = gt_probed g"
      "gt_revision (account_releaseAction a g) = gt_revision g"
      "gt_changed (account_releaseAction a g) = gt_changed g"
    and le: "gt_entering (account_releaseAction a g) \<le> gt_entering g"
    and none: "gt_actions g = [] \<Longrightarrow> gt_actions (account_releaseAction a g) = []"
    by (simp_all add: account_releaseAction_def)
  have phase: "phase_ok (gt_state g) (account_releaseAction a g)"
      if "gt_state g \<notin> {StateEntering, StateReleasing}"
    using gate_invD(2) [OF inv] that le none
    by (cases "gt_state g") (auto simp: frame early_def account_releaseAction_def filter_id_conv intro!: filter_cong)
  have "gate_inv (settle clk (mutatedLocked (account_releaseAction a g)))"
    using account_releaseAction_accounts [OF gate_invD(1) [OF inv] True] gate_invD(2-4) [OF inv] phase le
    by (intro settle_inv) (auto simp: releasing_ready_def frame)
  with True show ?thesis by (simp add: releaseAction_def account_releaseAction_def)
qed


lemma Acquire_locked_cases:
  obtains (refused) e where "Acquire_locked clk r g = (g, AcquireError e)"
    | (granted) "ar_RequestID r \<notin> gt_requestIDs g" "admits r g" "validActionLocked (ar_Action r) g"
        "Acquire_locked clk r g = (fst (grantLocked r g), AcquireGranted (length (gt_leases g)))"
    | (waiting) "gt_state g \<notin> {StateUnbound, StateStopping, StateOnline}"
        "ar_RequestID r \<notin> gt_requestIDs g" "\<not> admits r g" "validActionLocked (ar_Action r) g"
        "\<not> hc_MaxHeldRequests (gt_config g) \<le> int (length (gt_queue g))"
        "\<not> hc_MaxHeldBytes (gt_config g) - gt_heldBytes g < ar_SizeBytes r"
        "Acquire_locked clk r g
           = (releaseQueuedLocked clk (enqueue r g), AcquireWaiting (length (gt_waiters g)))"
proof -
  let ?closed = "gt_state g = StateUnbound \<or> gt_state g = StateStopping
    \<or> \<not> validActionLocked (ar_Action r) g \<or> ar_RequestID r \<in> gt_requestIDs g"
  let ?full = "hc_MaxHeldRequests (gt_config g) \<le> int (length (gt_queue g))
    \<or> hc_MaxHeldBytes (gt_config g) - gt_heldBytes g < ar_SizeBytes r"
  consider "?closed" | "\<not> ?closed" "admits r g" | "\<not> ?closed" "\<not> admits r g" "?full"
    | "\<not> ?closed" "\<not> admits r g" "\<not> ?full" by blast
  then show thesis
  proof cases
    case 1
    then have "\<exists>e. Acquire_locked clk r g = (g, AcquireError e)"
      by (elim disjE) (simp_all add: Acquire_locked_def)
    then show thesis using refused by blast
  next
    case 2
    then show thesis
      by (intro granted) (simp_all add: Acquire_locked_def grantLocked_def Let_def)
  next
    case 3
    then have "\<exists>e. Acquire_locked clk r g = (g, AcquireError e)" by (simp add: Acquire_locked_def)
    then show thesis using refused by blast
  next
    case 4
    then have "gt_state g \<noteq> StateOnline" by (simp add: admits_def)
    with 4 show thesis by (intro waiting) (simp_all add: Acquire_locked_def)
  qed
qed

lemma Acquire_locked_inv:
  assumes inv: "gate_inv g" and size: "0 \<le> ar_SizeBytes r"
  shows "gate_inv (fst (Acquire_locked clk r g))"
proof -
  note ok = gate_invD(1) [OF inv]
  show ?thesis
  proof (cases rule: Acquire_locked_cases [of clk r g])
    case refused
    with inv show ?thesis by simp
  next
    case granted
    have "gt_state g = StateOnline \<or> gt_state g = StateEntering" using granted(2) by (auto simp: admits_def)
    with gate_invD(2-4) [OF inv] grant_accounts [OF ok granted(1)] show ?thesis
      by (auto simp: granted(4) gate_inv_def grantLocked_def Let_def early_def)
  next
    case waiting
    have ok': "accounts_ok (enqueue r g)" using ok size waiting by (intro enqueue_accounts) auto
    have frame: "gt_state (enqueue r g) = gt_state g" "gt_active (enqueue r g) = gt_active g"
        "gt_entering (enqueue r g) = gt_entering g" "gt_actions (enqueue r g) = gt_actions g"
        "gt_config (enqueue r g) = gt_config g" "gt_probed (enqueue r g) = gt_probed g"
        "gt_revision (enqueue r g) = gt_revision g + 1" "gt_changed (enqueue r g) = Suc (gt_changed g)"
      by (simp_all add: enqueue_def)
    show ?thesis
    proof (cases "gt_state g = StateReleasing")
      case True
      with gate_invD(2-4) [OF inv] have "releasing_ready (enqueue r g)"
        by (simp add: releasing_ready_def frame)
      with ok' show ?thesis by (simp add: waiting(7) releaseQueued_inv)
    next
      case False
      then have same: "releaseQueuedLocked clk (enqueue r g) = enqueue r g"
        by (intro releaseQueued_idle) (simp add: frame)
      from waiting(1) False gate_invD(2-4) [OF inv] ok' show ?thesis
        by (cases "gt_state g") (auto simp: waiting(7) same gate_inv_def frame)
    qed
  qed
qed

lemma Acquire_inv [runtime_inv]: "gate_inv g \<Longrightarrow> gate_inv (fst (Acquire ul norm clk c r g))"
  unfolding Acquire_def
  by (auto simp: Let_def validateAcquireRequest_def Acquire_locked_inv split: option.splits)

lemma granted_waiter_lease:
  "gate_inv g \<Longrightarrow> a < length (gt_waiters g) \<Longrightarrow> wt_state (waiter_at g a) = waiterGranted \<Longrightarrow>
     \<exists>l < length (gt_leases g). wt_lease (waiter_at g a) = Some l
       \<and> el_request (gt_leases g ! l) = wt_request (waiter_at g a)"
  by (auto simp: gate_inv_def accounts_ok_def waiters_ok_def waiter_at_def)

lemma finishWaiter_inv [runtime_inv]:
  assumes "gate_inv g" and "a < length (gt_waiters g)"
  shows "gate_inv (fst (finishWaiter clk c a g))"
  using assms granted_waiter_lease [OF assms]
  by (auto simp: finishWaiter_def Let_def Lease_Release_inv split: option.splits)

lemma cancelWaiter_inv [runtime_inv]:
  assumes inv: "gate_inv g" and a: "a < length (gt_waiters g)"
  shows "gate_inv (fst (cancelWaiter clk a cause g))"
proof (cases "wt_state (waiter_at g a)")
  case waiterQueued
  note ok = gate_invD(1) [OF inv]
  from ok a waiterQueued have mem: "a \<in> set (gt_queue g)"
    by (auto simp: accounts_ok_def waiters_ok_def waiter_at_def)
  have "phase_ok (gt_state g) (account_cancel a g)"
    using gate_invD(2) [OF inv] mem
    by (cases "gt_state g") (auto simp: account_cancel_def Let_def early_def)
  then have "gate_inv (mutatedLocked (account_cancel a g))"
    using account_cancel_accounts [OF ok a waiterQueued] gate_invD(3,4) [OF inv]
    by (simp add: gate_inv_def account_cancel_def Let_def)
  with waiterQueued show ?thesis by (simp add: cancelWaiter_def Let_def account_cancel_def)
next
  case waiterGranted
  with granted_waiter_lease [OF inv a] inv show ?thesis
    by (auto simp: cancelWaiter_def Let_def Lease_Release_inv)
next
  case waiterCanceled
  with inv show ?thesis by (simp add: cancelWaiter_def Let_def)
qed

lemma Enter_inv [runtime_inv]: "gate_inv g \<Longrightarrow> gate_inv (fst (Enter clk c n g))"
  by (auto simp: Enter_def gate_inv_def Let_def split: option.splits)

lemma Resume_begin_inv [runtime_inv]: "gate_inv g \<Longrightarrow> gate_inv (fst (Resume_begin ul norm clk c p n ts g))"
  by (auto simp: Resume_begin_def gate_inv_def split: option.splits)

lemma Resume_finish_inv [runtime_inv]:
  assumes inv: "gate_inv g"
  shows "gate_inv (fst (Resume_finish clk ts err g))"
proof (cases "gt_state g = StateProbing")
  case True
  let ?g = "transitionLocked clk StateReleasing (g\<lparr>gt_lastProbe := [], gt_probed := set ts\<rparr>)"
  have "accounts_ok ?g" using gate_invD(1) [OF inv] by simp
  moreover have "releasing_ready ?g"
    using gate_invD [OF inv] True
    by (simp add: releasing_ready_def accounts_ok_def capacity_ok_def Config_validate_def)
  ultimately have "gate_inv (releaseQueuedLocked clk ?g)" by (rule releaseQueued_inv)
  with True inv show ?thesis
    by (auto simp: Resume_finish_def Let_def gate_inv_def split: option.splits)
next
  case False
  with inv show ?thesis by (simp add: Resume_finish_def)
qed

lemma BeginShutdown_account:
  assumes "accounts_ok g" and "gt_state g \<notin> {StateStopping, StateUnbound}"
  shows "BeginShutdown clk g = mutatedLocked (account_shutdown (transitionLocked clk StateStopping g))"
proof -
  note all = queue_all_queued [OF assms(1)]
  have "{a \<in> set (gt_queue g). wt_state (gt_waiters g ! a) = waiterQueued} = set (gt_queue g)"
    using arg_cong [OF all, of set] by (simp add: waiter_at_def)
  moreover have "waiter_at (transitionLocked clk StateStopping g) = waiter_at g"
    by (simp add: waiter_at_def fun_eq_iff)
  ultimately show ?thesis
    using assms(2) all
    by (simp add: BeginShutdown_def Let_def account_shutdown_def queued_def waiter_at_def comp_def)
qed

lemma BeginShutdown_inv [runtime_inv]:
  assumes inv: "gate_inv g"
  shows "gate_inv (BeginShutdown clk g)"
proof (cases "gt_state g \<in> {StateStopping, StateUnbound}")
  case True
  with inv show ?thesis by (auto simp: BeginShutdown_def gate_inv_def)
next
  case False
  let ?g = "account_shutdown (transitionLocked clk StateStopping g)"
  have "accounts_ok ?g" using gate_invD(1) [OF inv] by (intro account_shutdown_accounts) simp
  then have "gate_inv (mutatedLocked ?g)"
    using gate_invD(4) [OF inv] by (simp add: gate_inv_def account_shutdown_def)
  with BeginShutdown_account [OF gate_invD(1) [OF inv] False] show ?thesis by simp
qed

end
