(* ===== verification/Offline_Hold_System.thy ===== *)
theory Offline_Hold_System
  imports Offline_Hold_Inv
begin

text \<open>
  The gate as its callers drive it: every critical section is one step, the calls that wait
  outside the mutex are part of the state.  The properties of \<open>src/internal/offlinehold\<close>
  follow from the invariant.
\<close>

section \<open>Steps\<close>

text \<open>\<open>sy_waiting\<close>: the waiters whose \<open>Acquire\<close> has not returned; \<open>sy_resumes\<close>: the
  targets of the \<open>Resume\<close> calls whose probe has not returned.\<close>

record hold_system =
  sy_gate :: gate
  sy_waiting :: "nat set"
  sy_resumes :: "probe_target list list"

definition after_acquire :: "acquire_outcome \<Rightarrow> nat set \<Rightarrow> nat set" where
  "after_acquire out W = (case out of AcquireWaiting a \<Rightarrow> insert a W | _ \<Rightarrow> W)"

definition after_resume :: "'e + probe_target list \<Rightarrow> probe_target list list \<Rightarrow> probe_target list list" where
  "after_resume out R = (case out of Inr ts \<Rightarrow> ts # R | Inl _ \<Rightarrow> R)"

inductive hold_step ::
    "(nat \<Rightarrow> nat) \<Rightarrow> (egress_policy \<Rightarrow> egress_policy option) \<Rightarrow> hold_system \<Rightarrow> hold_system \<Rightarrow> bool"
  for ul norm where
  start: "hold_step ul norm s (s\<lparr>sy_gate := fst (Start clk c i (sy_gate s))\<rparr>)"
| begin_action: "hold_step ul norm s (s\<lparr>sy_gate := fst (BeginAction c k (sy_gate s))\<rparr>)"
| acquire: "Acquire ul norm clk c r (sy_gate s) = (g, out)
    \<Longrightarrow> hold_step ul norm s (s\<lparr>sy_gate := g, sy_waiting := after_acquire out (sy_waiting s)\<rparr>)"
| ready: "a \<in> sy_waiting s \<Longrightarrow> wt_ready (waiter_at (sy_gate s) a)
    \<Longrightarrow> hold_step ul norm s (s\<lparr>sy_gate := fst (finishWaiter clk c a (sy_gate s)),
                             sy_waiting := sy_waiting s - {a}\<rparr>)"
| give_up: "a \<in> sy_waiting s
    \<Longrightarrow> hold_step ul norm s (s\<lparr>sy_gate := fst (cancelWaiter clk a cause (sy_gate s)),
                             sy_waiting := sy_waiting s - {a}\<rparr>)"
| release: "l < length (gt_leases (sy_gate s))
    \<Longrightarrow> hold_step ul norm s (s\<lparr>sy_gate := Lease_Release clk l (sy_gate s)\<rparr>)"
| release_action: "hold_step ul norm s (s\<lparr>sy_gate := releaseAction clk act (sy_gate s)\<rparr>)"
| enter: "hold_step ul norm s (s\<lparr>sy_gate := fst (Enter clk c n (sy_gate s))\<rparr>)"
| resume: "Resume_begin ul norm clk c p n request (sy_gate s) = (g, out)
    \<Longrightarrow> hold_step ul norm s (s\<lparr>sy_gate := g, sy_resumes := after_resume out (sy_resumes s)\<rparr>)"
| probed: "ts \<in> set (sy_resumes s) \<Longrightarrow> ts = [] \<longrightarrow> err = None
    \<Longrightarrow> hold_step ul norm s (s\<lparr>sy_gate := fst (Resume_finish clk ts err (sy_gate s)),
                             sy_resumes := remove1 ts (sy_resumes s)\<rparr>)"
| shutdown: "hold_step ul norm s (s\<lparr>sy_gate := BeginShutdown clk (sy_gate s)\<rparr>)"

inductive hold_reach ::
    "(nat \<Rightarrow> nat) \<Rightarrow> (egress_policy \<Rightarrow> egress_policy option) \<Rightarrow> hold_system \<Rightarrow> bool" for ul norm where
  new: "New_gate self config = Inr g \<Longrightarrow> hold_reach ul norm \<lparr>sy_gate = g, sy_waiting = {}, sy_resumes = []\<rparr>"
| step: "hold_reach ul norm s \<Longrightarrow> hold_step ul norm s t \<Longrightarrow> hold_reach ul norm t"

section \<open>How each section changes what is out\<close>

lemma live_frame [simp]:
  "live (mutatedLocked g) = live g" "live (transitionLocked clk s g) = live g"
  "queued (mutatedLocked g) = queued g" "queued (transitionLocked clk s g) = queued g"
  "live (g\<lparr>gt_probed := P\<rparr>) = live g" "queued (g\<lparr>gt_probed := P\<rparr>) = queued g"
  "live (g\<lparr>gt_lastProbe := x\<rparr>) = live g" "queued (g\<lparr>gt_lastProbe := x\<rparr>) = queued g"
  by (simp_all add: live_def queued_def mutatedLocked_def transitionLocked_def)

lemma grant_head_effect:
  assumes "accounts_ok g" and "gt_queue g \<noteq> []"
  shows "queued g = wt_request (waiter_at g (hd (gt_queue g))) # queued (grant_head g)"
    and "live (grant_head g) = add_mset (wt_request (waiter_at g (hd (gt_queue g)))) (live g)"
proof -
  obtain a q w where q: "gt_queue g = a # q" "a < length (gt_waiters g)" "a \<notin> set q" "w = gt_waiters g ! a"
    using queue_head [OF assms] by metis
  then show "queued g = wt_request (waiter_at g (hd (gt_queue g))) # queued (grant_head g)"
    by (auto simp: queued_def grant_head_def Let_def mutatedLocked_def waiter_at_def nth_list_update)
  show "live (grant_head g) = add_mset (wt_request (waiter_at g (hd (gt_queue g)))) (live g)"
    by (simp add: live_def grant_head_def Let_def mutatedLocked_def)
qed

text \<open>Releasing the queue grants exactly a prefix of it, in order, every target of it probed, and
  stops only when the queue is empty, the release concurrency is reached, or the next target has
  not been probed.\<close>

lemma releaseQueued_prefix:
  assumes "accounts_ok g" and "gt_state g = StateReleasing"
  shows "\<exists>n. queued (releaseQueuedLocked clk g) = drop n (queued g)
    \<and> live (releaseQueuedLocked clk g) = live g + mset (take n (queued g))
    \<and> (\<forall>r \<in> set (take n (queued g)). ar_Target r \<in> gt_probed g)
    \<and> (drop n (queued g) = [] \<or> hc_ReleaseConcurrency (gt_config g) \<le> int (gt_active g + n)
       \<or> ar_Target (hd (drop n (queued g))) \<notin> gt_probed g)"
  using assms
proof (induction clk g rule: releaseQueuedLocked.induct)
  case (1 clk g)
  let ?r = "wt_request (waiter_at g (hd (gt_queue g)))"
  let ?grant = "int (gt_active g) < hc_ReleaseConcurrency (gt_config g) \<and> gt_queue g \<noteq> []"
  show ?case
  proof (cases "?grant \<and> ar_Target ?r \<in> gt_probed g")
    case True
    note head = grant_head_effect [OF 1(2)]
    have step: "releaseQueuedLocked clk g = releaseQueuedLocked clk (grant_head g)"
      using True 1(3) by (subst releaseQueuedLocked.simps) simp
    from True 1 obtain n where n: "queued (releaseQueuedLocked clk (grant_head g)) = drop n (queued (grant_head g))"
      "live (releaseQueuedLocked clk (grant_head g)) = live (grant_head g) + mset (take n (queued (grant_head g)))"
      "\<forall>r \<in> set (take n (queued (grant_head g))). ar_Target r \<in> gt_probed g"
      "drop n (queued (grant_head g)) = [] \<or> hc_ReleaseConcurrency (gt_config g) \<le> int (Suc (gt_active g) + n)
       \<or> ar_Target (hd (drop n (queued (grant_head g)))) \<notin> gt_probed g"
      by (auto simp: grant_head_accounts)
    show ?thesis
      by (rule exI [of _ "Suc n"]) (use n True head in \<open>auto simp: step\<close>)
  next
    case False
    then have same: "queued (releaseQueuedLocked clk g) = queued g" "live (releaseQueuedLocked clk g) = live g"
      by (subst releaseQueuedLocked.simps, auto)+
    have "queued g = [] \<or> hc_ReleaseConcurrency (gt_config g) \<le> int (gt_active g)
        \<or> ar_Target (hd (queued g)) \<notin> gt_probed g"
      using False by (cases "gt_queue g") (auto simp: queued_def waiter_at_def)
    then show ?thesis by (intro exI [of _ 0]) (simp add: same)
  qed
qed


definition newly :: "gate \<Rightarrow> gate \<Rightarrow> acquire_request multiset" where
  "newly g h = live h - live g"

lemma added_in:
  assumes "A \<subseteq># C" and "r \<in># (A + B) - C"
  shows "r \<in># B"
proof -
  have "count A r \<le> count C r" using assms(1) by (rule mset_subset_eq_count)
  with assms(2) show ?thesis unfolding in_diff_count by (metis count_union add_less_cancel_left count_greater_zero_iff
        le_trans less_le_not_le linorder_not_le not_add_less1 add.right_neutral add_le_mono1 not_gr_zero)
qed

lemma releaseQueued_new:
  assumes "accounts_ok g" and "live g \<subseteq># live h" and "r \<in># newly h (releaseQueuedLocked clk g)"
  shows "gt_state g = StateReleasing \<and> ar_Target r \<in> gt_probed g \<and> r \<in> set (queued g)"
proof (cases "gt_state g = StateReleasing")
  case True
  from releaseQueued_prefix [OF assms(1) True, of clk] obtain n where
    "live (releaseQueuedLocked clk g) = live g + mset (take n (queued g))"
    "\<forall>r \<in> set (take n (queued g)). ar_Target r \<in> gt_probed g" by blast
  with assms(2,3) added_in [of "live g" "live h" r "mset (take n (queued g))"] True show ?thesis
    by (auto simp: newly_def dest: in_set_takeD)
next
  case False
  moreover have "live g - live h = {#}" using assms(2) by (simp add: Diff_eq_empty_iff_mset)
  ultimately show ?thesis using assms(3) by (simp add: releaseQueued_idle newly_def)
qed

lemma settle_new:
  assumes "accounts_ok g" and "live g \<subseteq># live h" and "r \<in># newly h (settle clk g)"
  shows "gt_state g = StateReleasing \<and> ar_Target r \<in> gt_probed g \<and> r \<in> set (queued g)"
proof (cases "gt_state g = StateReleasing")
  case True
  with assms releaseQueued_new show ?thesis by (simp add: settle_def)
next
  case False
  moreover have "live g - live h = {#}" using assms(2) by (simp add: Diff_eq_empty_iff_mset)
  ultimately show ?thesis using assms(3) by (simp add: settle_def newly_def split: if_splits)
qed

lemma Lease_Release_new:
  assumes ok: "accounts_ok g" and l: "l < length (gt_leases g)" and r: "r \<in># newly g (Lease_Release clk l g)"
  shows "gt_state g = StateReleasing \<and> ar_Target r \<in> gt_probed g"
proof (cases "el_done (gt_leases g ! l)")
  case True
  with r show ?thesis by (simp add: Lease_Release_def newly_def)
next
  case False
  let ?g = "mutatedLocked (account_release l g)"
  have "live ?g = live g - {#el_request (gt_leases g ! l)#}"
    using live_done(2) [OF l False] by (simp add: live_def account_release_def Let_def)
  then have "live ?g \<subseteq># live g" by simp
  moreover have "accounts_ok ?g" using account_release_accounts [OF ok l False] by simp
  ultimately show ?thesis
    using settle_new [of ?g g r clk] r
    by (simp add: Lease_Release_account [OF ok l False]) (simp add: account_release_def Let_def)
qed

lemma releaseAction_new:
  assumes ok: "accounts_ok g" and r: "r \<in># newly g (releaseAction clk a g)"
  shows "gt_state g = StateReleasing \<and> ar_Target r \<in> gt_probed g"
proof (cases "map_of (gt_actions g) (al_actionID a) = Some a")
  case False
  with r show ?thesis by (simp add: releaseAction_def newly_def)
next
  case True
  let ?g = "mutatedLocked (account_releaseAction a g)"
  have "live ?g = live g" by (simp add: live_def account_releaseAction_def)
  moreover have "releaseAction clk a g = settle clk ?g"
    using True by (simp add: releaseAction_def account_releaseAction_def)
  ultimately show ?thesis
    using settle_new [of ?g g r clk] r account_releaseAction_accounts [OF ok True]
    by (simp add: account_releaseAction_def)
qed


section \<open>How the gate evolves\<close>

text \<open>Every section leaves the gate as it is or advances its generation; it never forgets a waiter
  or a lease, a released lease stays released, and a waiter outside \<open>X\<close> that leaves the queue
  has its channel closed.\<close>

definition served :: "gate \<Rightarrow> nat \<Rightarrow> bool" where
  "served g a \<longleftrightarrow> a \<in> set (gt_queue g) \<or> wt_ready (gt_waiters g ! a)"

definition evolves :: "nat set \<Rightarrow> gate \<Rightarrow> gate \<Rightarrow> bool" where
  "evolves X g h \<longleftrightarrow> (g = h \<or> gt_changed g < gt_changed h)
     \<and> length (gt_waiters g) \<le> length (gt_waiters h) \<and> length (gt_leases g) \<le> length (gt_leases h)
     \<and> (\<forall>l < length (gt_leases g). el_request (gt_leases h ! l) = el_request (gt_leases g ! l)
          \<and> (el_done (gt_leases g ! l) \<longrightarrow> el_done (gt_leases h ! l)))
     \<and> (\<forall>a < length (gt_waiters g). wt_request (gt_waiters h ! a) = wt_request (gt_waiters g ! a)
          \<and> (a \<notin> X \<and> served g a \<longrightarrow> served h a) \<and> (a \<in> set (gt_queue h) \<longrightarrow> a \<in> set (gt_queue g)))
     \<and> (gt_state g = StateStopping \<longrightarrow> gt_state h = StateStopping)"

lemma evolves_refl [simp]: "evolves X g g"
  by (simp add: evolves_def)

lemma evolves_trans [trans]: "evolves X g h \<Longrightarrow> evolves X h k \<Longrightarrow> evolves X g k"
  by (fastforce simp: evolves_def)

lemma evolvesI:
  assumes "gt_changed g < gt_changed h" and "length (gt_waiters g) \<le> length (gt_waiters h)"
    and "length (gt_leases g) \<le> length (gt_leases h)"
    and "\<And>l. l < length (gt_leases g) \<Longrightarrow> el_request (gt_leases h ! l) = el_request (gt_leases g ! l)
          \<and> (el_done (gt_leases g ! l) \<longrightarrow> el_done (gt_leases h ! l))"
    and "\<And>a. a < length (gt_waiters g) \<Longrightarrow> wt_request (gt_waiters h ! a) = wt_request (gt_waiters g ! a)"
    and "\<And>a. a < length (gt_waiters g) \<Longrightarrow> a \<notin> X \<Longrightarrow> served g a \<Longrightarrow> served h a"
    and "\<And>a. a < length (gt_waiters g) \<Longrightarrow> a \<in> set (gt_queue h) \<Longrightarrow> a \<in> set (gt_queue g)"
    and "gt_state g = StateStopping \<Longrightarrow> gt_state h = StateStopping"
  shows "evolves X g h"
  using assms by (simp add: evolves_def)

lemma evolves_keep_waiters:
  assumes "gt_changed g < gt_changed h" and "gt_waiters h = gt_waiters g" "gt_queue h = gt_queue g"
    and "length (gt_leases g) \<le> length (gt_leases h)"
    and "\<And>l. l < length (gt_leases g) \<Longrightarrow> el_request (gt_leases h ! l) = el_request (gt_leases g ! l)
          \<and> (el_done (gt_leases g ! l) \<longrightarrow> el_done (gt_leases h ! l))"
    and "gt_state g = StateStopping \<Longrightarrow> gt_state h = StateStopping"
  shows "evolves X g h"
  using assms by (intro evolvesI) (auto simp: served_def)

lemma evolves_transition:
  "gt_state g \<noteq> StateStopping \<or> s = StateStopping \<Longrightarrow> gt_changed h = gt_changed g \<Longrightarrow>
   gt_waiters h = gt_waiters g \<Longrightarrow> gt_leases h = gt_leases g \<Longrightarrow> gt_queue h = gt_queue g \<Longrightarrow>
   evolves X g (transitionLocked clk s h)"
  by (rule evolves_keep_waiters) auto

lemma evolves_grant_head:
  assumes "accounts_ok g" and "gt_queue g \<noteq> []"
  shows "evolves X g (grant_head g)"
proof -
  obtain a q w where q: "gt_queue g = a # q" "a < length (gt_waiters g)" "w = gt_waiters g ! a"
    using queue_head [OF assms] by metis
  then have "gt_waiters (grant_head g) = (gt_waiters g)[a := w\<lparr>wt_state := waiterGranted,
      wt_lease := Some (length (gt_leases g)), wt_ready := True\<rparr>]"
    by (simp add: grant_head_def Let_def mutatedLocked_def waiter_at_def)
  with q show ?thesis
    by (intro evolvesI) (auto simp: served_def nth_list_update grant_head_def Let_def nth_append)
qed

lemma evolves_releaseQueued: "accounts_ok g \<Longrightarrow> evolves X g (releaseQueuedLocked clk g)"
proof (induction clk g rule: releaseQueuedLocked.induct)
  case (1 clk g)
  let ?grant = "gt_state g = StateReleasing \<and> int (gt_active g) < hc_ReleaseConcurrency (gt_config g)
    \<and> gt_queue g \<noteq> [] \<and> ar_Target (wt_request (waiter_at g (hd (gt_queue g)))) \<in> gt_probed g"
  show ?case
  proof (cases ?grant)
    case True
    then have "evolves X g (releaseQueuedLocked clk (grant_head g))"
      using 1 by (intro evolves_trans [OF evolves_grant_head 1(1)]) (simp_all add: grant_head_accounts)
    with True show ?thesis by (subst releaseQueuedLocked.simps) simp
  next
    case False
    then show ?thesis
      by (subst releaseQueuedLocked.simps) (auto intro: evolves_transition)
  qed
qed

lemma evolves_settle: "accounts_ok g \<Longrightarrow> evolves X g (settle clk g)"
  by (auto simp: settle_def intro: evolves_transition evolves_releaseQueued)

lemma evolves_Lease_Release:
  assumes "accounts_ok g" and l: "l < length (gt_leases g)"
  shows "evolves X g (Lease_Release clk l g)"
proof (cases "el_done (gt_leases g ! l)")
  case True
  then show ?thesis by (simp add: Lease_Release_def)
next
  case False
  have "evolves X g (mutatedLocked (account_release l g))"
    by (rule evolves_keep_waiters) (use l in \<open>auto simp: account_release_def Let_def nth_list_update\<close>)
  also have "evolves X \<dots> (settle clk (mutatedLocked (account_release l g)))"
    using account_release_accounts [OF assms False] by (simp add: evolves_settle)
  finally show ?thesis using Lease_Release_account [OF assms False] by simp
qed

lemma evolves_releaseAction:
  assumes "accounts_ok g"
  shows "evolves X g (releaseAction clk a g)"
proof (cases "map_of (gt_actions g) (al_actionID a) = Some a")
  case True
  have "evolves X g (mutatedLocked (account_releaseAction a g))"
    by (rule evolves_keep_waiters) (auto simp: account_releaseAction_def)
  also have "evolves X \<dots> (settle clk (mutatedLocked (account_releaseAction a g)))"
    using account_releaseAction_accounts [OF assms True] by (simp add: evolves_settle)
  finally show ?thesis using True by (simp add: releaseAction_def account_releaseAction_def)
qed (simp add: releaseAction_def)

lemma evolves_Acquire_locked:
  assumes "accounts_ok g" and "0 \<le> ar_SizeBytes r"
  shows "evolves X g (fst (Acquire_locked clk r g))"
proof (cases rule: Acquire_locked_cases [of clk r g])
  case granted
  then show ?thesis
    by (auto simp: grantLocked_def Let_def nth_append intro!: evolves_keep_waiters)
next
  case waiting
  have "evolves X g (enqueue r g)"
    by (rule evolvesI) (auto simp: enqueue_def served_def nth_append)
  also have "evolves X \<dots> (releaseQueuedLocked clk (enqueue r g))"
    using assms waiting by (intro evolves_releaseQueued enqueue_accounts) auto
  finally show ?thesis using waiting by simp
qed simp

lemma evolves_cancelWaiter:
  assumes "gate_inv g" and "a < length (gt_waiters g)"
  shows "evolves {a} g (fst (cancelWaiter clk a cause g))"
proof (cases "wt_state (waiter_at g a)")
  case waiterQueued
  then show ?thesis
    by (auto simp: cancelWaiter_def Let_def served_def waiter_at_def nth_update_proj [where f = wt_ready]
        nth_update_proj [where f = wt_request] intro!: evolvesI dest: set_remove1_subset [THEN subsetD])
      (metis in_set_remove1)
next
  case waiterGranted
  with granted_waiter_lease [OF assms] gate_invD(1) [OF assms(1)] show ?thesis
    by (auto simp: cancelWaiter_def Let_def evolves_Lease_Release)
next
  case waiterCanceled
  then show ?thesis by (simp add: cancelWaiter_def Let_def)
qed

lemma evolves_finishWaiter:
  assumes "gate_inv g" and "a < length (gt_waiters g)"
  shows "evolves X g (fst (finishWaiter clk c a g))"
  using granted_waiter_lease [OF assms] gate_invD(1) [OF assms(1)]
  by (auto simp: finishWaiter_def Let_def evolves_Lease_Release split: option.splits)

lemma evolves_BeginShutdown:
  assumes "gate_inv g"
  shows "evolves X g (BeginShutdown clk g)"
proof (cases "gt_state g \<in> {StateStopping, StateUnbound}")
  case True
  then show ?thesis by (auto simp: BeginShutdown_def intro: evolves_transition)
next
  case False
  let ?f = "\<lambda>w. w\<lparr>wt_state := waiterCanceled, wt_ready := True\<rparr>"
  have "distinct (gt_queue g)" using gate_invD(1) [OF assms] by (simp add: accounts_ok_def waiters_ok_def)
  then have "evolves X g (mutatedLocked (account_shutdown (transitionLocked clk StateStopping g)))"
    by (intro evolvesI) (auto simp: account_shutdown_def served_def fold_update_length [where f = ?f]
        fold_update_nth [where f = ?f])
  with BeginShutdown_account [OF gate_invD(1) [OF assms] False] show ?thesis by simp
qed

lemma evolves_Enter: "evolves X g (fst (Enter clk c n g))"
proof -
  have "evolves X g (transitionLocked clk StateHeld (transitionLocked clk StateEntering g))"
    if "gt_state g = StateOnline"
    using that by (intro evolves_trans [OF evolves_transition evolves_transition]) auto
  then show ?thesis by (auto simp: Enter_def Let_def intro: evolves_transition split: option.splits)
qed

lemma evolves_Resume_finish:
  assumes "accounts_ok g"
  shows "evolves X g (fst (Resume_finish clk ts err g))"
proof -
  have "evolves X g (releaseQueuedLocked clk
      (transitionLocked clk StateReleasing (g\<lparr>gt_lastProbe := [], gt_probed := set ts\<rparr>)))"
    if "gt_state g = StateProbing"
    using that assms by (intro evolves_trans [OF evolves_transition evolves_releaseQueued]) auto
  then show ?thesis by (auto simp: Resume_finish_def Let_def intro: evolves_transition split: option.splits)
qed

lemma evolves_small:
  "evolves X g (fst (Start clk c i g))" "evolves X g (fst (BeginAction c k g))"
  "evolves X g (fst (Resume_begin ul norm clk c p n ts g))"
  by (auto simp: Start_def BeginAction_def Resume_begin_def Let_def
      intro: evolves_transition intro!: evolves_keep_waiters split: option.splits)


section \<open>The invariant of the system\<close>

definition admissible ::
    "(nat \<Rightarrow> nat) \<Rightarrow> (egress_policy \<Rightarrow> egress_policy option) \<Rightarrow> acquire_request \<Rightarrow> bool" where
  "admissible ul norm r \<longleftrightarrow> validateAcquireRequest ul norm r
     \<and> (\<exists>p. norm p = Some (pt_EgressPolicy (ar_Target r)))"

definition system_inv ::
    "(nat \<Rightarrow> nat) \<Rightarrow> (egress_policy \<Rightarrow> egress_policy option) \<Rightarrow> hold_system \<Rightarrow> bool" where
  "system_inv ul norm s \<longleftrightarrow> gate_inv (sy_gate s)
     \<and> (\<forall>a \<in> sy_waiting s. a < length (gt_waiters (sy_gate s)) \<and> served (sy_gate s) a)
     \<and> set (gt_queue (sy_gate s)) \<subseteq> sy_waiting s
     \<and> (\<forall>w \<in> set (gt_waiters (sy_gate s)). admissible ul norm (wt_request w))"

lemma queue_in_range: "gate_inv g \<Longrightarrow> a \<in> set (gt_queue g) \<Longrightarrow> a < length (gt_waiters g)"
  by (simp add: gate_inv_def accounts_ok_def waiters_ok_def)

lemma queue_not_ready: "gate_inv g \<Longrightarrow> a \<in> set (gt_queue g) \<Longrightarrow> \<not> wt_ready (gt_waiters g ! a)"
  by (simp add: gate_inv_def accounts_ok_def waiters_ok_def)

text \<open>The sections other than \<open>Acquire\<close> allocate no waiter.\<close>

lemma waiters_length_releaseQueued [simp]:
  "length (gt_waiters (releaseQueuedLocked clk g)) = length (gt_waiters g)"
proof (induction clk g rule: releaseQueuedLocked.induct)
  case (1 clk g)
  have "length (gt_waiters (grant_head g)) = length (gt_waiters g)"
    by (simp add: grant_head_def Let_def mutatedLocked_def)
  with 1 show ?case by (subst releaseQueuedLocked.simps) simp
qed

lemma waiters_length_settle [simp]: "length (gt_waiters (settle clk g)) = length (gt_waiters g)"
  by (simp add: settle_def)

lemma waiters_length_Lease_Release [simp]:
  "length (gt_waiters (Lease_Release clk l g)) = length (gt_waiters g)"
  by (simp add: Lease_Release_def release_def)

lemma waiters_length [simp]:
  "length (gt_waiters (fst (Start clk c i g))) = length (gt_waiters g)"
  "length (gt_waiters (fst (BeginAction c k g))) = length (gt_waiters g)"
  "length (gt_waiters (fst (finishWaiter clk c a g))) = length (gt_waiters g)"
  "length (gt_waiters (fst (cancelWaiter clk a cause g))) = length (gt_waiters g)"
  "length (gt_waiters (releaseAction clk act g)) = length (gt_waiters g)"
  "length (gt_waiters (fst (Enter clk c n g))) = length (gt_waiters g)"
  "length (gt_waiters (fst (Resume_begin ul norm clk c p n ts g))) = length (gt_waiters g)"
  "length (gt_waiters (fst (Resume_finish clk ts err g))) = length (gt_waiters g)"
  "length (gt_waiters (BeginShutdown clk g)) = length (gt_waiters g)"
  by (auto simp: Start_def BeginAction_def finishWaiter_def cancelWaiter_def releaseAction_def Enter_def
      Resume_begin_def Resume_finish_def BeginShutdown_def Let_def
      fold_update_length [where f = "\<lambda>w. w\<lparr>wt_state := waiterCanceled, wt_ready := True\<rparr>"]
      split: option.splits)

lemma system_inv_section:
  assumes inv: "system_inv ul norm s" and "gate_inv h" and ev: "evolves X (sy_gate s) h"
    and len: "length (gt_waiters h) = length (gt_waiters (sy_gate s))"
    and W: "W \<subseteq> sy_waiting s - X" "set (gt_queue h) \<subseteq> W"
  shows "system_inv ul norm \<lparr>sy_gate = h, sy_waiting = W, sy_resumes = R\<rparr>"
proof -
  have "admissible ul norm (wt_request w)" if "w \<in> set (gt_waiters h)" for w
  proof -
    from that len obtain a where "a < length (gt_waiters (sy_gate s))" "w = gt_waiters h ! a"
      by (metis in_set_conv_nth)
    with ev inv show ?thesis by (auto simp: evolves_def system_inv_def)
  qed
  moreover have "a < length (gt_waiters h) \<and> served h a" if "a \<in> W" for a
  proof -
    from that W(1) have a: "a \<in> sy_waiting s" "a \<notin> X" by auto
    with inv have "a < length (gt_waiters (sy_gate s))" "served (sy_gate s) a"
      by (simp_all add: system_inv_def)
    with ev len a show ?thesis by (simp add: evolves_def)
  qed
  ultimately show ?thesis using assms(2) W(2) by (simp add: system_inv_def)
qed


lemma queue_shrinks:
  assumes "gate_inv h" and "evolves X g h" and "length (gt_waiters h) = length (gt_waiters g)"
  shows "set (gt_queue h) \<subseteq> set (gt_queue g)"
  using assms queue_in_range [OF assms(1)] by (auto simp: evolves_def)

lemma system_inv_plain:
  assumes "system_inv ul norm s" and "gate_inv h" and "evolves {} (sy_gate s) h"
    and "length (gt_waiters h) = length (gt_waiters (sy_gate s))"
  shows "system_inv ul norm (s\<lparr>sy_gate := h\<rparr>)" "system_inv ul norm (s\<lparr>sy_gate := h, sy_resumes := R\<rparr>)"
proof -
  have "set (gt_queue h) \<subseteq> sy_waiting s"
    using queue_shrinks [OF assms(2-4)] assms(1) by (auto simp: system_inv_def)
  from system_inv_section [OF assms _ this, of "sy_resumes s"] system_inv_section [OF assms _ this, of R]
  show "system_inv ul norm (s\<lparr>sy_gate := h\<rparr>)" "system_inv ul norm (s\<lparr>sy_gate := h, sy_resumes := R\<rparr>)"
    by (cases s; simp)+
qed

lemma Acquire_locked_system:
  assumes inv: "system_inv ul norm s" and r: "admissible ul norm r"
    and run: "Acquire_locked clk r (sy_gate s) = (h, out)"
  shows "system_inv ul norm (s\<lparr>sy_gate := h, sy_waiting := after_acquire out (sy_waiting s)\<rparr>)"
proof -
  let ?g = "sy_gate s"
  from inv have g: "gate_inv ?g" by (simp add: system_inv_def)
  from r have size: "0 \<le> ar_SizeBytes r" by (simp add: admissible_def validateAcquireRequest_def)
  have h: "gate_inv h" using Acquire_locked_inv [OF g size, of clk] run by simp
  have ev: "evolves {} ?g h"
    using evolves_Acquire_locked [OF gate_invD(1) [OF g] size, of "{}" clk] run by simp
  show ?thesis
  proof (cases rule: Acquire_locked_cases [of clk r ?g])
    case refused
    with run inv show ?thesis by (auto simp: after_acquire_def)
  next
    case granted
    with run have "length (gt_waiters h) = length (gt_waiters ?g)" and "out = AcquireGranted (length (gt_leases ?g))"
      by (auto simp: grantLocked_def Let_def)
    with system_inv_plain(1) [OF inv h ev] show ?thesis by (simp add: after_acquire_def)
  next
    case waiting
    let ?a = "length (gt_waiters ?g)"
    from run waiting have out: "out = AcquireWaiting ?a" and hh: "h = releaseQueuedLocked clk (enqueue r ?g)"
      by simp_all
    have len: "length (gt_waiters h) = Suc ?a" by (simp add: hh enqueue_def)
    have ev2: "evolves {} (enqueue r ?g) h"
      unfolding hh using gate_invD(1) [OF g] size waiting by (intro evolves_releaseQueued enqueue_accounts) auto
    have old: "gt_waiters (enqueue r ?g) = gt_waiters ?g @ [\<lparr>wt_request = r, wt_state = waiterQueued,
        wt_ready = False, wt_lease = None\<rparr>]" "served (enqueue r ?g) ?a"
      by (simp_all add: enqueue_def served_def)
    have new: "wt_request (gt_waiters h ! ?a) = r" "served h ?a"
      using ev2 old by (auto simp: evolves_def nth_append)
    have "served h a" if "a \<in> sy_waiting s" for a
      using that inv ev by (simp add: system_inv_def evolves_def)
    moreover have "set (gt_queue h) \<subseteq> insert ?a (sy_waiting s)"
      using queue_in_range [OF h] ev inv by (fastforce simp: len less_Suc_eq evolves_def system_inv_def)
    moreover have "admissible ul norm (wt_request w)" if "w \<in> set (gt_waiters h)" for w
    proof -
      from that obtain a where "a < Suc ?a" "w = gt_waiters h ! a" by (metis len in_set_conv_nth)
      with new r ev inv show ?thesis by (auto simp: less_Suc_eq evolves_def system_inv_def)
    qed
    ultimately show ?thesis
      using inv h new by (auto simp: out after_acquire_def system_inv_def len intro: less_SucI)
  qed
qed


lemma Acquire_cases:
  obtains (early) e where "Acquire ul norm clk c r g = (g, AcquireError e)"
    | (locked) r' where "admissible ul norm r'" and "ar_Action r' = ar_Action r"
        and "Acquire ul norm clk c r g = Acquire_locked clk r' g"
proof (cases "c \<noteq> CtxNil \<and> ctx_err c = None \<and> (\<exists>p. norm (pt_EgressPolicy (ar_Target r)) = Some p
      \<and> validateAcquireRequest ul norm (r\<lparr>ar_Target := (ar_Target r)\<lparr>pt_EgressPolicy := p\<rparr>\<rparr>))")
  case True
  then obtain p where p: "norm (pt_EgressPolicy (ar_Target r)) = Some p"
    "validateAcquireRequest ul norm (r\<lparr>ar_Target := (ar_Target r)\<lparr>pt_EgressPolicy := p\<rparr>\<rparr>)" by blast
  show thesis
  proof (rule locked [of "r\<lparr>ar_Target := (ar_Target r)\<lparr>pt_EgressPolicy := p\<rparr>\<rparr>"])
    show "admissible ul norm (r\<lparr>ar_Target := (ar_Target r)\<lparr>pt_EgressPolicy := p\<rparr>\<rparr>)"
      using p by (auto simp: admissible_def)
    show "Acquire ul norm clk c r g
        = Acquire_locked clk (r\<lparr>ar_Target := (ar_Target r)\<lparr>pt_EgressPolicy := p\<rparr>\<rparr>) g"
      using True p by (simp add: Acquire_def)
  qed simp
next
  case False
  then have "\<exists>e. Acquire ul norm clk c r g = (g, AcquireError e)"
    by (cases "norm (pt_EgressPolicy (ar_Target r))") (auto simp: Acquire_def Let_def split: option.splits)
  then show thesis using early by blast
qed

lemma hold_step_system_inv:
  assumes step: "hold_step ul norm s t" and inv: "system_inv ul norm s"
  shows "system_inv ul norm t \<and> evolves (sy_waiting s - sy_waiting t) (sy_gate s) (sy_gate t)"
  using step
proof cases
  case (acquire clk c r g out)
  show ?thesis
  proof (cases rule: Acquire_cases [of ul norm clk c r "sy_gate s"])
    case early
    with acquire inv show ?thesis by (auto simp: after_acquire_def)
  next
    case (locked r')
    then have run: "Acquire_locked clk r' (sy_gate s) = (g, out)" using acquire by simp
    from inv have "accounts_ok (sy_gate s)" by (simp add: system_inv_def gate_invD(1))
    moreover have "0 \<le> ar_SizeBytes r'"
      using locked(1) by (simp add: admissible_def validateAcquireRequest_def)
    ultimately have "evolves X (sy_gate s) g" for X
      using evolves_Acquire_locked [of "sy_gate s" r' X clk] run by simp
    with Acquire_locked_system [OF inv locked(1) run] acquire show ?thesis by simp
  qed
next
  case (ready a clk c)
  from inv ready have g: "gate_inv (sy_gate s)" and a: "a < length (gt_waiters (sy_gate s))"
    by (simp_all add: system_inv_def)
  let ?h = "fst (finishWaiter clk c a (sy_gate s))"
  have h: "gate_inv ?h" by (rule finishWaiter_inv [OF g a])
  have ev: "evolves {a} (sy_gate s) ?h" by (rule evolves_finishWaiter [OF g a])
  have "set (gt_queue ?h) \<subseteq> sy_waiting s - {a}"
    using queue_shrinks [OF h ev] queue_not_ready [OF g] inv ready(3)
    by (auto simp: system_inv_def waiter_at_def)
  from system_inv_section [OF inv h ev _ _ this] have "system_inv ul norm t"
    using ready(1) by (cases s) simp
  moreover have "sy_waiting s - sy_waiting t = {a}" using ready(1,2) by auto
  ultimately show ?thesis using ev ready(1) by simp
next
  case (give_up a clk cause)
  from inv give_up have g: "gate_inv (sy_gate s)" and a: "a < length (gt_waiters (sy_gate s))"
    and "served (sy_gate s) a" by (simp_all add: system_inv_def)
  let ?h = "fst (cancelWaiter clk a cause (sy_gate s))"
  have h: "gate_inv ?h" by (rule cancelWaiter_inv [OF g a])
  have ev: "evolves {a} (sy_gate s) ?h" by (rule evolves_cancelWaiter [OF g a])
  have gone: "a \<notin> set (gt_queue ?h)"
  proof (cases "wt_state (waiter_at (sy_gate s) a) = waiterQueued")
    case True
    with g show ?thesis
      by (simp add: cancelWaiter_def Let_def gate_inv_def accounts_ok_def waiters_ok_def)
  next
    case False
    then have "a \<notin> set (gt_queue (sy_gate s))"
      using gate_invD(1) [OF g] a by (auto simp: accounts_ok_def waiters_ok_def waiter_at_def)
    with queue_shrinks [OF h ev] show ?thesis by auto
  qed
  have "set (gt_queue ?h) \<subseteq> sy_waiting s - {a}"
    using queue_shrinks [OF h ev] gone inv by (auto simp: system_inv_def)
  from system_inv_section [OF inv h ev _ _ this] have "system_inv ul norm t"
    using give_up(1) by (cases s) simp
  moreover have "sy_waiting s - sy_waiting t = {a}" using give_up(1,2) by auto
  ultimately show ?thesis using ev give_up(1) by simp
next
  case (resume clk c p n request g out)
  from inv have "gate_inv (sy_gate s)" by (simp add: system_inv_def)
  from Resume_begin_inv [OF this, of ul norm clk c p n request] have h: "gate_inv g" using resume by simp
  have ev: "evolves X (sy_gate s) g" for X
    using evolves_small(3) [of X "sy_gate s" ul norm clk c p n request] resume by simp
  have "length (gt_waiters g) = length (gt_waiters (sy_gate s))"
    using waiters_length(7) [of ul norm clk c p n request "sy_gate s"] resume by simp
  from system_inv_plain(2) [OF inv h ev this] ev resume show ?thesis by simp
qed (use inv in \<open>auto intro!: system_inv_plain runtime_inv evolves_small evolves_Lease_Release
      evolves_releaseAction evolves_Enter evolves_Resume_finish evolves_BeginShutdown
      dest: gate_invD(1) simp: system_inv_def [of ul norm s]\<close>)


lemma hold_reach_inv: "hold_reach ul norm s \<Longrightarrow> system_inv ul norm s"
proof (induction rule: hold_reach.induct)
  case (new self config g)
  then have "gt_queue g = []" "gt_waiters g = []" by (auto simp: New_gate_def split: if_splits)
  with New_gate_inv [OF new] show ?case by (simp add: system_inv_def)
next
  case (step s t)
  then show ?case using hold_step_system_inv by blast
qed

lemma hold_reach_gate: "hold_reach ul norm s \<Longrightarrow> gate_inv (sy_gate s)"
  using hold_reach_inv by (simp add: system_inv_def)

lemma live_empty: "live g = {#} \<longleftrightarrow> (\<forall>l \<in> set (gt_leases g). el_done l)"
  by (auto simp: live_def filter_mset_eq_mempty_iff)

lemma early_empty: "early g = [] \<longleftrightarrow> (\<forall>(k, a) \<in> set (gt_actions g). \<not> al_beforeEnter a)"
  by (auto simp: early_def filter_empty_conv)

lemma gate_counts:
  assumes "gate_inv g"
  shows "gt_active g = size (live g)" and "gt_entering g = length (early g)"
  using assms by (simp_all add: gate_inv_def accounts_ok_def active_ok_def actions_ok_def)

text \<open>C2: in every reachable state the gate reports that it is safe to disconnect exactly when it is
  held; and whenever it is held or probing, every egress lease it ever gave out has been released
  and no action admitted before the gate was entered is still open.\<close>

theorem safe_to_disconnect:
  assumes "hold_reach ul norm s"
  shows "hs_SafeToDisconnect (snapshotLocked (sy_gate s)) = (gt_state (sy_gate s) = StateHeld)
    \<and> (gt_state (sy_gate s) \<in> {StateHeld, StateProbing} \<longrightarrow>
        (\<forall>l \<in> set (gt_leases (sy_gate s)). el_done l)
        \<and> (\<forall>(k, a) \<in> set (gt_actions (sy_gate s)). \<not> al_beforeEnter a))"
proof -
  note inv = hold_reach_gate [OF assms]
  have "gt_active (sy_gate s) = 0 \<and> gt_entering (sy_gate s) = 0"
    if "gt_state (sy_gate s) \<in> {StateHeld, StateProbing}"
    using gate_invD(2) [OF inv] that by auto
  then show ?thesis
    using gate_counts [OF inv] live_empty [of "sy_gate s"] early_empty [of "sy_gate s"]
    by (auto simp: snapshotLocked_def)
qed

text \<open>C1: an egress goes out only while the gate admits it: online; while entering, for an action
  admitted before the gate was entered; after a probe, for a target that this resume probed.  In
  particular no step from a held, unbound or stopping gate lets a request out.\<close>

theorem egress_only_when_admitted:
  assumes reach: "hold_reach ul norm s" and step: "hold_step ul norm s t"
    and new: "r \<in># live (sy_gate t) - live (sy_gate s)"
  shows "gt_state (sy_gate s) = StateOnline
    \<or> gt_state (sy_gate s) = StateEntering
      \<and> (\<exists>a. ar_Action r = Some a \<and> al_beforeEnter a \<and> (al_actionID a, a) \<in> set (gt_actions (sy_gate s)))
    \<or> gt_state (sy_gate s) = StateReleasing \<and> ar_Target r \<in> gt_probed (sy_gate s)
    \<or> gt_state (sy_gate s) = StateProbing \<and> (\<exists>ts \<in> set (sy_resumes s). ar_Target r \<in> set ts)"
proof -
  let ?g = "sy_gate s"
  note ok = gate_invD(1) [OF hold_reach_gate [OF reach]]
  from hold_reach_inv [OF reach] have W: "\<forall>a \<in> sy_waiting s. a < length (gt_waiters ?g)"
    by (simp add: system_inv_def)
  have out: "r \<in># newly ?g (sy_gate t)" using new by (simp add: newly_def)
  show ?thesis using step
  proof cases
    case (acquire clk c q g out)
    show ?thesis
    proof (cases rule: Acquire_cases [of ul norm clk c q ?g])
      case (locked q')
      show ?thesis
      proof (cases rule: Acquire_locked_cases [of clk q' ?g])
        case granted
        have "g = fst (grantLocked q' ?g)" using acquire locked granted by simp
        then have "live g = add_mset q' (live ?g)" by (simp add: grantLocked_def Let_def live_def)
        with new acquire have "r = q'" by (simp split: if_splits)
        with granted show ?thesis
          by (auto simp: admits_def validActionLocked_def dest: map_of_SomeD split: option.splits)
      next
        case waiting
        have "accounts_ok (enqueue q' ?g)"
          using ok waiting locked(1)
          by (intro enqueue_accounts) (auto simp: admissible_def validateAcquireRequest_def)
        moreover have "live (enqueue q' ?g) = live ?g" by (simp add: enqueue_def live_def)
        ultimately show ?thesis
          using releaseQueued_new [of "enqueue q' ?g" ?g r clk] out acquire locked waiting
          by (simp add: enqueue_def)
      qed (use acquire locked new in auto)
    qed (use acquire new in auto)
  next
    case (ready a clk c)
    with W granted_waiter_lease [OF hold_reach_gate [OF reach], of a] out Lease_Release_new [OF ok] show ?thesis
      by (auto simp: finishWaiter_def Let_def newly_def split: option.splits if_splits)
  next
    case (give_up a clk cause)
    have frame: "live (mutatedLocked (account_cancel a ?g)) = live ?g"
      by (simp add: live_def account_cancel_def Let_def)
    from give_up W granted_waiter_lease [OF hold_reach_gate [OF reach], of a] out Lease_Release_new [OF ok] frame
    show ?thesis
      by (cases "wt_state (waiter_at ?g a)")
         (auto simp: cancelWaiter_def Let_def newly_def account_cancel_def split: option.splits)
  next
    case (probed ts err clk)
    let ?h = "transitionLocked clk StateReleasing (?g\<lparr>gt_lastProbe := [], gt_probed := set ts\<rparr>)"
    have "accounts_ok ?h" "live ?h = live ?g" using ok by (simp_all add: live_def)
    with releaseQueued_new [of ?h ?g r clk] out probed show ?thesis
      by (auto simp: Resume_finish_def Let_def newly_def live_def split: if_splits option.splits)
  qed (use new out Lease_Release_new [OF ok] releaseAction_new [OF ok] in
      \<open>auto simp: Start_def BeginAction_def Enter_def Resume_begin_def BeginShutdown_def Let_def live_def
         mutatedLocked_def split: if_splits option.splits\<close>)
qed

end
