(* ===== verification/Offline_Hold_Demo.thy ===== *)
theory Offline_Hold_Demo
  imports Offline_Hold_System
begin

text \<open>
  A run of the gate on concrete inputs, on which the witnesses of the properties evaluate: an
  action goes out online, the gate is entered, a later action queues, a resume releases it.
\<close>

lemma validateOpaqueIdentity_plain:
  "plain_text v \<Longrightarrow> v \<noteq> [] \<Longrightarrow> length v \<le> 1024 \<Longrightarrow> validateOpaqueIdentity v"
  by (simp add: validateOpaqueIdentity_def plain_text_facts maxOpaqueIdentityBytes_def)

definition demo_config :: hold_config where
  "demo_config = \<lparr>hc_MaxHeldRequests = 4, hc_MaxHeldBytes = 100, hc_MaxHoldDuration = 60, hc_ReleaseConcurrency = 1\<rparr>"

definition demo_policy :: egress_policy where
  "demo_policy = \<lparr>ep_Proxy = \<lparr>px_Kind = ''direct'', px_Endpoint = [], px_CredentialRef = [], px_CredentialRevision = 0\<rparr>,
     ep_Resolver = \<lparr>rv_Kind = ''system'', rv_DoHURL = [], rv_Transport = ''direct''\<rparr>, ep_DirectDomains = []\<rparr>"

definition demo_target :: probe_target where
  "demo_target = \<lparr>pt_Kind = ''provider'', pt_Transport = ''strict_tls'', pt_TargetRef = ''t'',
     pt_NetworkOrigin = ''o'', pt_HTTPAuthority = ''h'', pt_TLSServerName = ''h'', pt_PlanRevision = 0,
     pt_PlanDigest = [], pt_EgressPolicy = demo_policy, pt_TargetAccess = 0\<rparr>"

definition early_action :: action_lease where
  "early_action = \<lparr>al_gate = 0, al_ref = 0, al_actionID = ''a'', al_beforeEnter = True\<rparr>"

definition late_action :: action_lease where
  "late_action = \<lparr>al_gate = 0, al_ref = 1, al_actionID = ''b'', al_beforeEnter = False\<rparr>"

definition request_of :: "string \<Rightarrow> action_lease \<Rightarrow> acquire_request" where
  "request_of k a = \<lparr>ar_RequestID = k, ar_Action = Some a, ar_Target = demo_target, ar_SizeBytes = 10\<rparr>"

definition demo_clock :: "nat \<Rightarrow> go_time" where
  "demo_clock n = int n"

lemma demo_target_valid: "validateProbeTarget id Some demo_target"
proof -
  have "validateOpaqueIdentity ''h''" "validateOpaqueIdentity ''t''" "validateOpaqueIdentity ''o''"
    by (auto intro!: validateOpaqueIdentity_plain simp: plain_text_def)
  then show ?thesis
    by (simp add: validateProbeTarget_def demo_target_def validEgressKind_def target_access_ok_def
        target_transport_ok_def EgressProvider_def EgressOpaque_def EgressAuxiliary_def EgressPlugin_def
        EgressUpdate_def EgressBlindTunnel_def EgressDatagram_def ProbeTransportStrictTLS_def
        ProbeTransportUDPSetup_def ProbeTransportTCP_def)
qed

lemma request_of_valid:
  "validateOpaqueIdentity k \<Longrightarrow> validateAcquireRequest id Some (request_of k a)"
  by (simp add: validateAcquireRequest_def request_of_def demo_target_valid)

lemma Acquire_demo:
  "validateOpaqueIdentity k \<Longrightarrow>
   Acquire id Some clk CtxLive (request_of k a) g = Acquire_locked clk (request_of k a) g"
  using request_of_valid [of k a] by (simp add: Acquire_def Let_def request_of_def)

text \<open>The gate after each call.\<close>

definition demo_new :: gate where
  "demo_new = \<lparr>gt_config = demo_config, gt_binding = [], gt_state = StateUnbound, gt_since = 0, gt_revision = 0,
     gt_active = 0, gt_activeByKind = Map.empty, gt_actions = [], gt_entering = 0, gt_queue = [], gt_heldBytes = 0,
     gt_requestIDs = {}, gt_probed = {}, gt_lastProbe = [], gt_changed = 0, gt_self = 0, gt_nextAction = 0,
     gt_waiters = [], gt_leases = []\<rparr>"

definition demo_online :: gate where
  "demo_online = demo_new\<lparr>gt_binding := ''run'', gt_state := StateOnline, gt_since := 0, gt_revision := 2,
     gt_changed := 2, gt_nextAction := 1, gt_actions := [(''a'', early_action)], gt_entering := 1\<rparr>"

definition demo_out :: gate where
  "demo_out = demo_online\<lparr>gt_revision := 3, gt_changed := 3, gt_active := 1,
     gt_activeByKind := [''provider'' \<mapsto> 1], gt_requestIDs := {''r1''},
     gt_leases := [\<lparr>el_request = request_of ''r1'' early_action, el_done = False\<rparr>]\<rparr>"

definition demo_entering :: gate where
  "demo_entering = demo_out\<lparr>gt_state := StateEntering, gt_since := 3, gt_revision := 5, gt_changed := 5,
     gt_nextAction := 2, gt_actions := [(''b'', late_action), (''a'', early_action)]\<rparr>"

definition demo_back :: gate where
  "demo_back = demo_entering\<lparr>gt_revision := 6, gt_changed := 6, gt_active := 0, gt_activeByKind := Map.empty,
     gt_requestIDs := {}, gt_leases := [\<lparr>el_request = request_of ''r1'' early_action, el_done = True\<rparr>]\<rparr>"

definition demo_held :: gate where
  "demo_held = demo_back\<lparr>gt_state := StateHeld, gt_since := 7, gt_revision := 8, gt_changed := 8,
     gt_actions := [(''b'', late_action)], gt_entering := 0\<rparr>"

definition demo_queued :: gate where
  "demo_queued = demo_held\<lparr>gt_revision := 9, gt_changed := 9, gt_queue := [0], gt_heldBytes := 10,
     gt_requestIDs := {''r2''},
     gt_waiters := [\<lparr>wt_request = request_of ''r2'' late_action, wt_state = waiterQueued, wt_ready = False,
                    wt_lease = None\<rparr>]\<rparr>"

definition demo_probing :: gate where
  "demo_probing = demo_queued\<lparr>gt_state := StateProbing, gt_since := 9, gt_revision := 10, gt_changed := 10\<rparr>"

definition demo_released :: gate where
  "demo_released = demo_probing\<lparr>gt_state := StateReleasing, gt_since := 10, gt_revision := 12, gt_changed := 12,
     gt_probed := {demo_target}, gt_queue := [], gt_heldBytes := 0, gt_active := 1,
     gt_activeByKind := [''provider'' \<mapsto> 1],
     gt_waiters := [\<lparr>wt_request = request_of ''r2'' late_action, wt_state = waiterGranted, wt_ready = True,
                    wt_lease = Some 1\<rparr>],
     gt_leases := [\<lparr>el_request = request_of ''r1'' early_action, el_done = True\<rparr>,
                   \<lparr>el_request = request_of ''r2'' late_action, el_done = False\<rparr>]\<rparr>"

lemmas demo_defs = demo_new_def demo_online_def demo_out_def demo_entering_def demo_back_def demo_held_def
  demo_queued_def demo_probing_def demo_released_def early_action_def late_action_def

lemmas gate_ops = mutatedLocked_def transitionLocked_def Let_def

lemma demo_ids: "validateOpaqueIdentity ''run''" "validateOpaqueIdentity ''a''" "validateOpaqueIdentity ''b''"
  "validateOpaqueIdentity ''r1''" "validateOpaqueIdentity ''r2''"
  by (auto intro!: validateOpaqueIdentity_plain simp: plain_text_def)

lemma demo_online_run:
  "fst (BeginAction CtxLive ''a'' (fst (Start demo_clock CtxLive ''run'' demo_new))) = demo_online"
  by (simp add: BeginAction_def Start_def demo_ids gate_ops demo_defs demo_clock_def)

lemma demo_out_run:
  "Acquire id Some demo_clock CtxLive (request_of ''r1'' early_action) demo_online = (demo_out, AcquireGranted 0)"
  by (simp add: Acquire_demo demo_ids Acquire_locked_def)
     (simp add: validActionLocked_def admits_def grantLocked_def bump_def gate_ops demo_defs request_of_def
      demo_target_def fun_eq_iff)

lemma demo_entering_run:
  "fst (BeginAction CtxLive ''b'' (fst (Enter demo_clock CtxLive 3 demo_out))) = demo_entering"
  by (simp add: BeginAction_def Enter_def checkRevisionLocked_def demo_ids gate_ops demo_defs demo_clock_def)

lemma demo_back_run: "Lease_Release demo_clock 0 demo_entering = demo_back"
  by (simp add: Lease_Release_def release_def settle_def unbump_def gate_ops demo_defs request_of_def
      demo_target_def)

lemma demo_held_run: "releaseAction demo_clock early_action demo_back = demo_held"
  by (simp add: releaseAction_def settle_def gate_ops demo_defs demo_clock_def)

lemma demo_queued_run:
  "Acquire id Some demo_clock CtxLive (request_of ''r2'' late_action) demo_held = (demo_queued, AcquireWaiting 0)"
  by (simp add: Acquire_demo demo_ids Acquire_locked_def validActionLocked_def admits_def)
     (simp add: enqueue_def gate_ops demo_defs request_of_def demo_config_def releaseQueuedLocked.simps)

lemma demo_pending: "PendingProbeTargets demo_queued = [demo_target]"
  by (simp add: PendingProbeTargets_def demo_defs waiter_at_def request_of_def Let_def)

lemma demo_probing_run:
  "Resume_begin id Some demo_clock CtxLive True 9 [demo_target] demo_queued = (demo_probing, Inr [demo_target])"
  by (simp add: Resume_begin_def normalizeProbeTargets_def demo_target_valid checkRevisionLocked_def)
     (simp add: gate_ops demo_defs demo_clock_def)

lemma demo_released_run: "fst (Resume_finish demo_clock [demo_target] None demo_probing) = demo_released"
  by (simp add: Resume_finish_def releaseQueuedLocked.simps grant_head_def gate_ops waiter_at_def bump_def demo_defs
      request_of_def demo_config_def demo_clock_def) (simp add: demo_target_def)


section \<open>The run is reachable\<close>

definition at_rest :: "gate \<Rightarrow> hold_system" where
  "at_rest g = \<lparr>sy_gate = g, sy_waiting = {}, sy_resumes = []\<rparr>"

definition waiting_at :: "gate \<Rightarrow> probe_target list list \<Rightarrow> hold_system" where
  "waiting_at g R = \<lparr>sy_gate = g, sy_waiting = {0}, sy_resumes = R\<rparr>"

lemma reach_online: "hold_reach id Some (at_rest demo_online)"
proof -
  have "New_gate 0 demo_config = Inr demo_new"
    by (simp add: New_gate_def demo_new_def demo_config_def Config_validate_def)
  from hold_reach.new [OF this, of id Some] have "hold_reach id Some (at_rest demo_new)" by (simp add: at_rest_def)
  from hold_reach.step [OF hold_reach.step [OF this hold_step.start] hold_step.begin_action,
      of CtxLive "''a''" demo_clock CtxLive "''run''"]
  show ?thesis by (simp add: at_rest_def demo_online_run)
qed

lemma step_out: "hold_step id Some (at_rest demo_online) (at_rest demo_out)"
  using hold_step.acquire [of id Some demo_clock CtxLive "request_of ''r1'' early_action" "at_rest demo_online"]
    demo_out_run by (simp add: at_rest_def after_acquire_def)

lemma reach_out: "hold_reach id Some (at_rest demo_out)"
  by (rule hold_reach.step [OF reach_online step_out])

lemma steps_entering: "(hold_step id Some)\<^sup>*\<^sup>* (at_rest demo_out) (at_rest demo_entering)"
proof -
  have "hold_step id Some (at_rest demo_out) (at_rest (fst (Enter demo_clock CtxLive 3 demo_out)))"
    using hold_step.enter [of id Some "at_rest demo_out" demo_clock CtxLive 3] by (simp add: at_rest_def)
  moreover have "hold_step id Some (at_rest (fst (Enter demo_clock CtxLive 3 demo_out))) (at_rest demo_entering)"
    using hold_step.begin_action [of id Some "at_rest (fst (Enter demo_clock CtxLive 3 demo_out))" CtxLive "''b''"]
    by (simp add: at_rest_def demo_entering_run)
  ultimately show ?thesis by (meson converse_rtranclp_into_rtranclp rtranclp.rtrancl_refl)
qed

lemma reach_entering: "hold_reach id Some (at_rest demo_entering)"
  using steps_entering reach_out by (induction rule: rtranclp_induct) (auto intro: hold_reach.step)

lemma reach_held: "hold_reach id Some (at_rest demo_held)"
proof -
  have "hold_step id Some (at_rest demo_entering) (at_rest demo_back)"
    using hold_step.release [of 0 "at_rest demo_entering" id Some demo_clock]
    by (simp add: at_rest_def demo_back_run) (simp add: demo_defs)
  moreover have "hold_step id Some (at_rest demo_back) (at_rest demo_held)"
    using hold_step.release_action [of id Some "at_rest demo_back" demo_clock early_action]
    by (simp add: at_rest_def demo_held_run)
  ultimately show ?thesis by (blast intro: hold_reach.step reach_entering)
qed

lemma reach_queued: "hold_reach id Some (waiting_at demo_queued [])"
  using hold_reach.step [OF reach_held hold_step.acquire, of demo_clock CtxLive "request_of ''r2'' late_action"]
    demo_queued_run by (simp add: at_rest_def waiting_at_def after_acquire_def)

lemma reach_probing: "hold_reach id Some (waiting_at demo_probing [[demo_target]])"
  using hold_reach.step [OF reach_queued hold_step.resume, of demo_clock CtxLive True 9 "[demo_target]"]
    demo_probing_run by (simp add: waiting_at_def after_resume_def)

lemma step_released: "hold_step id Some (waiting_at demo_probing [[demo_target]]) (waiting_at demo_released [])"
  using hold_step.probed [of "[demo_target]" "waiting_at demo_probing [[demo_target]]" None id Some demo_clock]
    demo_released_run by (simp add: waiting_at_def)

end
