(* ===== verification/Shutdown_Contract.thy ===== *)
theory Shutdown_Contract
  imports Go_Prelude
begin

text \<open>
  The contract every admission gate of the runtime offers its owner: closing admission is final,
  a closed gate admits nobody, and draining waits exactly for the holders admitted before.  The
  owner's arguments are made here once; the gates interpret the locales.
\<close>

locale draining_gate =
  fixes step :: "'s \<Rightarrow> 's \<Rightarrow> bool"
    and inv :: "'s \<Rightarrow> bool"
    and stopping :: "'s \<Rightarrow> bool"
    and holders :: "'s \<Rightarrow> 'h set"
    and drained :: "'s \<Rightarrow> bool"
  assumes step_inv: "inv s \<Longrightarrow> step s t \<Longrightarrow> inv t"
    and stays_stopping: "inv s \<Longrightarrow> stopping s \<Longrightarrow> step s t \<Longrightarrow> stopping t"
    and admits_nobody: "inv s \<Longrightarrow> stopping s \<Longrightarrow> step s t \<Longrightarrow> holders t \<subseteq> holders s"
    and drained_iff: "inv s \<Longrightarrow> stopping s \<Longrightarrow> drained s \<longleftrightarrow> holders s = {}"
begin

lemma closed_run:
  assumes "step\<^sup>*\<^sup>* s t" and "inv s" and "stopping s"
  shows "inv t \<and> stopping t \<and> holders t \<subseteq> holders s"
  using assms
proof (induction rule: rtranclp_induct)
  case (step t u)
  then show ?case using step_inv stays_stopping admits_nobody by blast
qed simp

lemma drained_run:
  assumes "step\<^sup>*\<^sup>* s t" and "inv s" and "stopping s" and "drained s"
  shows "drained t"
  using closed_run [OF assms(1-3)] drained_iff [of s] drained_iff [of t] assms by blast

end

text \<open>A gate whose holders can each let go.\<close>

locale releasing_gate = draining_gate +
  fixes let_go :: "'b \<Rightarrow> 'a \<Rightarrow> 'a"
  assumes let_go_steps: "inv s \<Longrightarrow> stopping s \<Longrightarrow> h \<in> holders s \<Longrightarrow> step\<^sup>*\<^sup>* s (let_go h s)"
    and let_go_removes: "inv s \<Longrightarrow> stopping s \<Longrightarrow> h \<in> holders s \<Longrightarrow> holders (let_go h s) = holders s - {h}"
begin

text \<open>Whatever the order in which the holders let go, the gate drains.\<close>

lemma drains:
  assumes "inv s" and "stopping s" and "distinct hs" and "set hs = holders s"
  shows "step\<^sup>*\<^sup>* s (fold let_go hs s) \<and> drained (fold let_go hs s)"
  using assms
proof (induction hs arbitrary: s)
  case Nil
  then show ?case using drained_iff by simp
next
  case (Cons h hs)
  then have h: "h \<in> holders s" by auto
  note steps = let_go_steps [OF Cons(2,3) h]
  with Cons have "inv (let_go h s)" "stopping (let_go h s)" using closed_run by blast+
  moreover have "set hs = holders (let_go h s)" using let_go_removes [OF Cons(2,3) h] Cons(4,5) by auto
  ultimately have "step\<^sup>*\<^sup>* (let_go h s) (fold let_go hs (let_go h s)) \<and> drained (fold let_go hs (let_go h s))"
    using Cons.IH Cons.prems(3) by simp
  with steps show ?case by auto
qed

end

end
