(* ===== verification/Offline_Hold_Safety.thy ===== *)
theory Offline_Hold_Safety
  imports Offline_Hold_System Offline_Hold_Demo Shutdown_Contract
begin

text \<open>
  Consequences of the gate's invariant for its callers: optimistic control calls, leases,
  resuming, shutdown, progress.  Each property has a witness on a small run.
\<close>

abbreviation hold_steps ::
    "(nat \<Rightarrow> nat) \<Rightarrow> (egress_policy \<Rightarrow> egress_policy option) \<Rightarrow> hold_system \<Rightarrow> hold_system \<Rightarrow> bool" where
  "hold_steps ul norm \<equiv> (hold_step ul norm)\<^sup>*\<^sup>*"

lemma evolves_weaken: "evolves X g h \<Longrightarrow> evolves UNIV g h"
  by (auto simp: evolves_def)

lemma hold_steps_evolves:
  assumes "hold_steps ul norm s t" and "hold_reach ul norm s"
  shows "hold_reach ul norm t \<and> evolves UNIV (sy_gate s) (sy_gate t)"
  using assms
proof (induction rule: rtranclp_induct)
  case base
  then show ?case by simp
next
  case (step t u)
  then have t: "hold_reach ul norm t" "evolves UNIV (sy_gate s) (sy_gate t)" by auto
  with hold_step_system_inv [OF step(2) hold_reach_inv [OF t(1)]]
  have "evolves UNIV (sy_gate t) (sy_gate u)" by (blast intro: evolves_weaken)
  with t step(2) show ?case by (blast intro: evolves_trans hold_reach.step)
qed

section \<open>Control calls are optimistic\<close>

lemma revision_moved:
  assumes "gate_inv g" "gate_inv h" "gt_changed g < gt_changed h" "gt_changed h - gt_changed g < 2 ^ 64"
  shows "gt_revision g \<noteq> gt_revision h"
proof
  assume "gt_revision g = gt_revision h"
  then have "(of_nat (gt_changed g) :: uint64) = of_nat (gt_changed h)"
    using gate_invD(4) [OF assms(1)] gate_invD(4) [OF assms(2)] by simp
  then have "(of_nat (gt_changed h - gt_changed g) :: uint64) = 0" using assms(3) by (simp add: of_nat_diff)
  then have "(2 :: nat) ^ 64 dvd gt_changed h - gt_changed g" by (simp add: word_of_nat_eq_0_iff)
  with assms(3,4) show False by (auto dest: dvd_imp_le)
qed

text \<open>A control call prepared against a snapshot that has been overtaken changes nothing: once the
  gate has moved since the revision was read (and fewer than \<open>2 ^ 64\<close> mutations lie between),
  neither \<open>Enter\<close> nor \<open>Resume\<close> with that revision has an effect.\<close>

theorem stale_revision_refused:
  assumes "hold_reach ul norm s" and "hold_steps ul norm s t" and moved: "sy_gate t \<noteq> sy_gate s"
    and near: "gt_changed (sy_gate t) - gt_changed (sy_gate s) < 2 ^ 64"
  shows "fst (Enter clk c (gt_revision (sy_gate s)) (sy_gate t)) = sy_gate t
    \<and> fst (Resume_begin ul norm clk c p (gt_revision (sy_gate s)) ts (sy_gate t)) = sy_gate t"
proof -
  from hold_steps_evolves [OF assms(2,1)] have t: "hold_reach ul norm t"
    and "gt_changed (sy_gate s) < gt_changed (sy_gate t)" using moved by (auto simp: evolves_def)
  then have "gt_revision (sy_gate s) \<noteq> gt_revision (sy_gate t)"
    using near revision_moved [OF hold_reach_gate [OF assms(1)] hold_reach_gate [OF t]] by simp
  then show ?thesis
    by (auto simp: Enter_def Resume_begin_def checkRevisionLocked_def split: option.splits)
qed

section \<open>Leases are released once\<close>

lemma settle_prefix:
  assumes "accounts_ok g"
  shows "\<exists>n. live (settle clk g) = live g + mset (take n (queued g)) \<and> queued (settle clk g) = drop n (queued g)
    \<and> (gt_state g \<noteq> StateReleasing \<longrightarrow> n = 0)"
proof (cases "gt_state g = StateReleasing")
  case True
  with releaseQueued_prefix [OF assms True, of clk] show ?thesis by (auto simp: settle_def)
next
  case False
  then show ?thesis by (intro exI [of _ 0]) (auto simp: settle_def)
qed

text \<open>The first \<open>Release\<close> of a lease takes exactly its request off the egresses that are out
  (and, while releasing, lets the next waiters in, from the head of the queue); every later
  \<open>Release\<close> of the same lease, whatever happened in between, changes nothing.\<close>

theorem lease_released_once:
  assumes reach: "hold_reach ul norm s" and l: "l < length (gt_leases (sy_gate s))"
    and held: "\<not> el_done (gt_leases (sy_gate s) ! l)"
    and later: "hold_steps ul norm (s\<lparr>sy_gate := Lease_Release clk l (sy_gate s)\<rparr>) t"
  shows "(\<exists>n. live (Lease_Release clk l (sy_gate s))
        = live (sy_gate s) - {#el_request (gt_leases (sy_gate s) ! l)#} + mset (take n (queued (sy_gate s)))
      \<and> queued (Lease_Release clk l (sy_gate s)) = drop n (queued (sy_gate s))
      \<and> (gt_state (sy_gate s) \<noteq> StateReleasing \<longrightarrow> n = 0))
    \<and> Lease_Release clk' l (sy_gate t) = sy_gate t"
proof
  let ?g = "sy_gate s" let ?h = "mutatedLocked (account_release l ?g)"
  note ok = gate_invD(1) [OF hold_reach_gate [OF reach]]
  note run = Lease_Release_account [OF ok l held, of clk]
  have frame: "live ?h = live ?g - {#el_request (gt_leases ?g ! l)#}" "queued ?h = queued ?g"
      "gt_state ?h = gt_state ?g" "el_done (gt_leases ?h ! l)" "l < length (gt_leases ?h)"
    using live_done(2) [OF l held] l by (simp_all add: live_def queued_def account_release_def Let_def)
  have "accounts_ok ?h" using account_release_accounts [OF ok l held] by simp
  from settle_prefix [OF this, of clk, unfolded frame]
  show "\<exists>n. live (Lease_Release clk l ?g) = live ?g - {#el_request (gt_leases ?g ! l)#} + mset (take n (queued ?g))
      \<and> queued (Lease_Release clk l ?g) = drop n (queued ?g) \<and> (gt_state ?g \<noteq> StateReleasing \<longrightarrow> n = 0)"
    unfolding run .
  have "evolves {} ?h (Lease_Release clk l ?g)"
    unfolding run using account_release_accounts [OF ok l held] by (simp add: evolves_settle)
  then have here: "el_done (gt_leases (Lease_Release clk l ?g) ! l)" "l < length (gt_leases (Lease_Release clk l ?g))"
    using frame by (auto simp: evolves_def)
  have "hold_reach ul norm (s\<lparr>sy_gate := Lease_Release clk l ?g\<rparr>)"
    by (rule hold_reach.step [OF reach hold_step.release [OF l]])
  from hold_steps_evolves [OF later this] here have "el_done (gt_leases (sy_gate t) ! l)"
    by (simp add: evolves_def)
  then show "Lease_Release clk' l (sy_gate t) = sy_gate t" by (simp add: Lease_Release_def)
qed

section \<open>Resuming\<close>

lemma releaseQueued_active:
  "int (gt_active g) \<le> hc_ReleaseConcurrency (gt_config g)
   \<Longrightarrow> int (gt_active (releaseQueuedLocked clk g)) \<le> hc_ReleaseConcurrency (gt_config g)"
proof (induction clk g rule: releaseQueuedLocked.induct)
  case (1 clk g)
  then show ?case by (subst releaseQueuedLocked.simps) simp
qed

lemma Resume_finish_ok:
  assumes inv: "gate_inv g" and "gt_state g = StateProbing"
    and h: "h = fst (Resume_finish clk ts None g)"
  shows "\<exists>n. queued h = drop n (queued g) \<and> live h = mset (take n (queued g))
    \<and> (\<forall>r \<in> set (take n (queued g)). ar_Target r \<in> set ts)
    \<and> int n \<le> hc_ReleaseConcurrency (gt_config g) \<and> n \<le> length (queued g)
    \<and> (n = length (queued g) \<or> int n = hc_ReleaseConcurrency (gt_config g)
       \<or> ar_Target (queued g ! n) \<notin> set ts)"
proof -
  let ?g = "transitionLocked clk StateReleasing (g\<lparr>gt_lastProbe := [], gt_probed := set ts\<rparr>)"
  have frame: "queued ?g = queued g" "live ?g = live g" by (simp_all add: queued_def live_def)
  have none: "live g = {#}" using gate_invD(2) [OF inv] gate_counts(1) [OF inv] assms(2) by simp
  have hh: "h = releaseQueuedLocked clk ?g" using assms(2) h by (simp add: Resume_finish_def Let_def)
  have h_inv: "gate_inv h" using Resume_finish_inv [OF inv, of clk ts None] h by simp
  have "accounts_ok ?g" using gate_invD(1) [OF inv] by simp
  from releaseQueued_prefix [OF this, of clk] obtain n where n: "queued h = drop n (queued g)"
    "live h = mset (take n (queued g))" "\<forall>r \<in> set (take n (queued g)). ar_Target r \<in> set ts"
    "drop n (queued g) = [] \<or> hc_ReleaseConcurrency (gt_config g) \<le> int (gt_active g + n)
       \<or> ar_Target (hd (drop n (queued g))) \<notin> set ts"
    by (auto simp: frame none simp flip: hh)
  define m where "m = min n (length (queued g))"
  have m: "queued h = drop m (queued g)" "take n (queued g) = take m (queued g)" "m \<le> length (queued g)"
    "size (live h) = m"
    using n by (auto simp: m_def min_def)
  have "int m \<le> hc_ReleaseConcurrency (gt_config g)"
    using releaseQueued_active [of ?g clk] gate_counts(1) [OF h_inv] m(4) gate_invD(1,2) [OF inv] assms(2)
    by (auto simp: hh accounts_ok_def capacity_ok_def Config_validate_def)
  moreover have "m = length (queued g) \<or> int m = hc_ReleaseConcurrency (gt_config g)
      \<or> ar_Target (queued g ! m) \<notin> set ts"
    using n(4) calculation gate_invD(2) [OF inv] assms(2)
    by (cases "n < length (queued g)") (auto simp: m_def hd_drop_conv_nth)
  ultimately show ?thesis using n(2,3) m by (intro exI [of _ m]) auto
qed


text \<open>C4: a resume whose probe succeeded lets out exactly a prefix of the queue, oldest first: only
  requests whose target this resume probed, never more than the release concurrency, and it stops
  short of both bounds only at a target that was not probed.\<close>

theorem resume_releases_prefix:
  assumes "hold_reach ul norm s" and "gt_state (sy_gate s) = StateProbing"
    and "Resume_finish clk ts None (sy_gate s) = (h, snap, err)"
  shows "err = None \<and> (\<exists>n. queued h = drop n (queued (sy_gate s)) \<and> live h = mset (take n (queued (sy_gate s)))
    \<and> (\<forall>r \<in> set (take n (queued (sy_gate s))). ar_Target r \<in> set ts)
    \<and> int n \<le> hc_ReleaseConcurrency (gt_config (sy_gate s)) \<and> n \<le> length (queued (sy_gate s))
    \<and> (n = length (queued (sy_gate s)) \<or> int n = hc_ReleaseConcurrency (gt_config (sy_gate s))
       \<or> ar_Target (queued (sy_gate s) ! n) \<notin> set ts))"
  using Resume_finish_ok [OF hold_reach_gate [OF assms(1)] assms(2), of h clk ts] assms(2,3)
  by (simp add: Resume_finish_def Let_def)

lemma pending_targets_spec:
  "distinct (pending_targets seen ws)
   \<and> set (pending_targets seen ws) = {ar_Target (wt_request w) |w. w \<in> set ws \<and> wt_state w = waiterQueued} - seen"
proof (induction ws arbitrary: seen)
  case (Cons w ws)
  then show ?case by (auto simp: Let_def)
qed simp

lemma pending_set:
  assumes "gate_inv g"
  shows "set (PendingProbeTargets g) = ar_Target ` set (queued g)" and "distinct (PendingProbeTargets g)"
proof -
  have "wt_state (gt_waiters g ! a) = waiterQueued" if "a \<in> set (gt_queue g)" for a
    using gate_invD(1) [OF assms] that by (simp add: accounts_ok_def waiters_ok_def)
  then show "set (PendingProbeTargets g) = ar_Target ` set (queued g)"
    by (auto simp: PendingProbeTargets_def pending_targets_spec queued_def waiter_at_def image_image)
  show "distinct (PendingProbeTargets g)" by (simp add: PendingProbeTargets_def pending_targets_spec)
qed

lemma normalize_targets_id:
  assumes "distinct ts" and "set ts \<inter> seen = {}"
    and "\<And>t. t \<in> set ts \<Longrightarrow> validateProbeTarget ul norm t \<and> norm (pt_EgressPolicy t) = Some (pt_EgressPolicy t)"
  shows "normalize_targets ul norm seen ts = Some ts"
  using assms by (induction ts arbitrary: seen) (simp_all add: Let_def)

text \<open>Where policy normalisation is idempotent, resuming with the pending targets of a held gate is
  accepted, and when their probe succeeds it releases as many requests as the queue holds and the
  release concurrency allows.\<close>

theorem resume_pending_targets:
  assumes reach: "hold_reach ul norm s" and held: "gt_state (sy_gate s) = StateHeld"
    and idem: "\<And>p q. norm p = Some q \<Longrightarrow> norm q = Some q" and rev: "gt_revision (sy_gate s) \<noteq> 0"
  shows "\<exists>h. Resume_begin ul norm clk CtxLive True (gt_revision (sy_gate s)) (PendingProbeTargets (sy_gate s)) (sy_gate s)
        = (h, Inr (PendingProbeTargets (sy_gate s)))
      \<and> size (live (fst (Resume_finish clk' (PendingProbeTargets (sy_gate s)) None h)))
        = min (length (queued (sy_gate s))) (nat (hc_ReleaseConcurrency (gt_config (sy_gate s))))"
proof -
  let ?g = "sy_gate s" let ?ts = "PendingProbeTargets ?g" let ?h = "transitionLocked clk StateProbing ?g"
  note inv = hold_reach_gate [OF reach]
  have valid: "validateProbeTarget ul norm t \<and> norm (pt_EgressPolicy t) = Some (pt_EgressPolicy t)"
    if "t \<in> set ?ts" for t
  proof -
    from that obtain a where "a \<in> set (gt_queue ?g)" "t = ar_Target (wt_request (gt_waiters ?g ! a))"
      by (auto simp: pending_set(1) [OF inv] queued_def)
    with hold_reach_inv [OF reach] queue_in_range [OF inv] have "\<exists>r. admissible ul norm r \<and> t = ar_Target r"
      by (auto simp: system_inv_def)
    with idem show ?thesis by (auto simp: admissible_def validateAcquireRequest_def)
  qed
  have "normalizeProbeTargets ul norm ?ts = Some ?ts"
    unfolding normalizeProbeTargets_def using valid pending_set(2) [OF inv] by (intro normalize_targets_id) auto
  moreover have "gt_queue ?g = []" if "?ts = []"
    using that pending_set(1) [OF inv] by (auto simp: queued_def)
  ultimately have accepted: "Resume_begin ul norm clk CtxLive True (gt_revision ?g) ?ts ?g = (?h, Inr ?ts)"
    using held rev by (auto simp: Resume_begin_def checkRevisionLocked_def)
  have "gate_inv ?h"
    using Resume_begin_inv [OF inv, of ul norm clk CtxLive True "gt_revision ?g" ?ts] accepted by simp
  from Resume_finish_ok [OF this, of _ clk' ?ts] obtain n where
    n: "live (fst (Resume_finish clk' ?ts None ?h)) = mset (take n (queued ?g))" "n \<le> length (queued ?g)"
      "int n \<le> hc_ReleaseConcurrency (gt_config ?g)"
      "n = length (queued ?g) \<or> int n = hc_ReleaseConcurrency (gt_config ?g) \<or> ar_Target (queued ?g ! n) \<notin> set ?ts"
    by auto
  then have "n = min (length (queued ?g)) (nat (hc_ReleaseConcurrency (gt_config ?g)))"
    by (auto simp: pending_set(1) [OF inv])
  with accepted n show ?thesis by simp
qed

section \<open>Shutdown\<close>

lemma settle_stopping: "gt_state g = StateStopping \<Longrightarrow> settle clk g = g"
  by (simp add: settle_def)

text \<open>C5: shutdown empties the queue and wakes every waiting \<open>Acquire\<close> without letting any request
  out, and the gate it leaves refuses every later action and acquisition unchanged.\<close>

theorem shutdown_closes_admission:
  assumes reach: "hold_reach ul norm s" and started: "gt_state (sy_gate s) \<noteq> StateUnbound"
  shows "gt_state (BeginShutdown clk (sy_gate s)) = StateStopping
    \<and> gt_queue (BeginShutdown clk (sy_gate s)) = []
    \<and> live (BeginShutdown clk (sy_gate s)) = live (sy_gate s)
    \<and> (\<forall>a \<in> sy_waiting s. wt_ready (waiter_at (BeginShutdown clk (sy_gate s)) a))
    \<and> (\<exists>e. Acquire ul norm clk' c r (BeginShutdown clk (sy_gate s)) = (BeginShutdown clk (sy_gate s), AcquireError e))
    \<and> (\<exists>e. BeginAction c k (BeginShutdown clk (sy_gate s)) = (BeginShutdown clk (sy_gate s), Inl e))"
proof -
  let ?g = "sy_gate s" let ?h = "BeginShutdown clk ?g"
  note inv = hold_reach_gate [OF reach]
  have h: "gt_state ?h = StateStopping" "gt_queue ?h = []" "live ?h = live ?g"
    using gate_invD(2) [OF inv] started
    by (auto simp: BeginShutdown_def Let_def live_def)
  have "system_inv ul norm (s\<lparr>sy_gate := ?h\<rparr>)"
    by (rule hold_reach_inv [OF hold_reach.step [OF reach hold_step.shutdown]])
  then have "\<forall>a \<in> sy_waiting s. served ?h a" by (simp add: system_inv_def)
  then have "\<forall>a \<in> sy_waiting s. wt_ready (waiter_at ?h a)" by (simp add: served_def h(2) waiter_at_def)
  moreover have "\<exists>e. Acquire ul norm clk' c r ?h = (?h, AcquireError e)"
    using h(1) by (cases rule: Acquire_cases [of ul norm clk' c r ?h]) (auto simp: Acquire_locked_def)
  moreover have "\<exists>e. BeginAction c k ?h = (?h, Inl e)"
    using h(1) by (auto simp: BeginAction_def split: option.splits)
  ultimately show ?thesis using h by blast
qed


lemma Lease_Release_stopping:
  assumes "accounts_ok g" and "gt_state g = StateStopping" and "l < length (gt_leases g)"
  shows "length (gt_leases (Lease_Release clk l g)) = length (gt_leases g)
    \<and> gt_actions (Lease_Release clk l g) = gt_actions g
    \<and> (\<forall>k < length (gt_leases g). el_done (gt_leases (Lease_Release clk l g) ! k) = (el_done (gt_leases g ! k) \<or> k = l))"
proof (cases "el_done (gt_leases g ! l)")
  case True
  then show ?thesis by (auto simp: Lease_Release_def)
next
  case False
  have "Lease_Release clk l g = mutatedLocked (account_release l g)"
    using Lease_Release_account [OF assms(1,3) False, of clk] assms(2)
    by (simp add: settle_stopping account_release_def Let_def)
  then show ?thesis using assms(3) by (auto simp: account_release_def Let_def nth_list_update)
qed

lemma releaseAction_stopping:
  assumes "accounts_ok g" and "gt_state g = StateStopping"
  shows "gt_leases (releaseAction clk a g) = gt_leases g
    \<and> set (gt_actions (releaseAction clk a g)) = set (gt_actions g) - {(al_actionID a, a)}"
proof -
  have key: "map_of (gt_actions g) k = Some b" if "(k, b) \<in> set (gt_actions g)" for k b
    using assms(1) that by (simp add: accounts_ok_def actions_ok_def)
  show ?thesis
  proof (cases "map_of (gt_actions g) (al_actionID a) = Some a")
    case True
    then have "set (filter (\<lambda>(k, _). k \<noteq> al_actionID a) (gt_actions g)) = set (gt_actions g) - {(al_actionID a, a)}"
      using key by fastforce
    with True assms(2) show ?thesis by (simp add: releaseAction_def settle_stopping)
  next
    case False
    with key show ?thesis by (auto simp: releaseAction_def)
  qed
qed

lemma stopping_step:
  assumes step: "hold_step ul norm s t" and inv: "system_inv ul norm s" and stop: "gt_state (sy_gate s) = StateStopping"
  shows "length (gt_leases (sy_gate t)) = length (gt_leases (sy_gate s))
    \<and> set (gt_actions (sy_gate t)) \<subseteq> set (gt_actions (sy_gate s))"
proof -
  from inv have g: "gate_inv (sy_gate s)" and W: "\<forall>a \<in> sy_waiting s. a < length (gt_waiters (sy_gate s))"
    by (simp_all add: system_inv_def)
  note ok = gate_invD(1) [OF g]
  note rel = Lease_Release_stopping [OF ok stop] releaseAction_stopping [OF ok stop]
  from step show ?thesis
  proof cases
    case (acquire clk c r g out)
    then show ?thesis
      using stop by (cases rule: Acquire_cases [of ul norm clk c r "sy_gate s"]) (auto simp: Acquire_locked_def)
  next
    case (ready a clk c)
    with W granted_waiter_lease [OF g, of a] rel show ?thesis
      by (auto simp: finishWaiter_def Let_def split: option.splits)
  next
    case (give_up a clk cause)
    with W granted_waiter_lease [OF g, of a] rel show ?thesis
      by (cases "wt_state (waiter_at (sy_gate s) a)") (auto simp: cancelWaiter_def Let_def split: option.splits)
  qed (use stop rel in \<open>auto simp: Start_def BeginAction_def Enter_def Resume_begin_def Resume_finish_def
        BeginShutdown_def checkRevisionLocked_def split: option.splits if_splits\<close>)
qed

text \<open>The holders of the gate: the leases that are out and the actions that are open.\<close>

definition hold_holders :: "hold_system \<Rightarrow> (nat + (string \<times> action_lease)) set" where
  "hold_holders s = Inl ` {l. l < length (gt_leases (sy_gate s)) \<and> \<not> el_done (gt_leases (sy_gate s) ! l)}
     \<union> Inr ` set (gt_actions (sy_gate s))"

fun let_hold_go :: "(nat \<Rightarrow> go_time) \<Rightarrow> nat + (string \<times> action_lease) \<Rightarrow> hold_system \<Rightarrow> hold_system" where
  "let_hold_go clk (Inl l) s = s\<lparr>sy_gate := Lease_Release clk l (sy_gate s)\<rparr>"
| "let_hold_go clk (Inr (k, a)) s = s\<lparr>sy_gate := releaseAction clk a (sy_gate s)\<rparr>"

interpretation hold_gate: releasing_gate "hold_step ul norm" "system_inv ul norm"
    "\<lambda>s. gt_state (sy_gate s) = StateStopping" hold_holders "\<lambda>s. Drain_done (sy_gate s)" "let_hold_go clk"
  for ul norm clk
proof (unfold_locales, goal_cases)
  case (1 s t) then show ?case by (blast dest: hold_step_system_inv)
next
  case (2 s t) then show ?case using hold_step_system_inv [OF 2(3,1)] by (simp add: evolves_def)
next
  case (3 s t)
  with hold_step_system_inv [OF 3(3,1)] stopping_step [OF 3(3,1,2)] show ?case
    by (auto simp: hold_holders_def evolves_def)
next
  case (4 s)
  then have g: "gate_inv (sy_gate s)" by (simp add: system_inv_def)
  with gate_invD(2) [OF g] 4(2) gate_counts(1) [OF g] live_empty [of "sy_gate s"] show ?case
    by (auto simp: Drain_done_def hold_holders_def all_set_conv_all_nth)
next
  case (5 s h)
  then show ?case
    using hold_step.release [of _ s ul norm clk] hold_step.release_action [of ul norm s clk]
    by (cases h) (auto simp: hold_holders_def)
next
  case (6 s h)
  then have "gate_inv (sy_gate s)" by (simp add: system_inv_def)
  note ok = gate_invD(1) [OF this]
  have key: "al_actionID a = k" if "(k, a) \<in> set (gt_actions (sy_gate s))" for k a
    using ok that by (auto simp: accounts_ok_def actions_ok_def)
  show ?case
  proof (cases h)
    case (Inl l)
    with 6 have "l < length (gt_leases (sy_gate s))" by (auto simp: hold_holders_def)
    from Lease_Release_stopping [OF ok 6(2) this, of clk] show ?thesis by (auto simp: Inl hold_holders_def)
  next
    case (Inr p)
    with 6(3) key obtain a where "p = (al_actionID a, a)" by (cases p) (auto simp: hold_holders_def)
    with releaseAction_stopping [OF ok 6(2), of clk a] show ?thesis by (auto simp: Inr hold_holders_def)
  qed
qed

text \<open>C6: a stopping gate admits nobody and drains: whatever its callers do, no lease or action is added,
  \<open>Drain\<close> is over exactly when every lease is released and every action closed, and releasing
  the remaining ones in any order brings that about.\<close>

theorem shutdown_drains:
  assumes reach: "hold_reach ul norm s" and stop: "gt_state (sy_gate s) = StateStopping"
    and run: "hold_steps ul norm s t" and "distinct order" and "set order = hold_holders t"
  shows "hold_holders t \<subseteq> hold_holders s \<and> (Drain_done (sy_gate t) \<longleftrightarrow> hold_holders t = {})
    \<and> Drain_done (sy_gate (fold (let_hold_go clk) order t))"
proof -
  note t = hold_gate.closed_run [OF run hold_reach_inv [OF reach] stop]
  with hold_gate.drains [of ul norm t order clk] assms(4,5) hold_gate.drained_iff [of ul norm t] show ?thesis
    by simp
qed

section \<open>Progress and accounting\<close>

text \<open>The gate never waits for nothing: while it is entering some lease or some earlier action is
  still open; while it releases some lease is open, or the queue is empty and an action is open;
  and every waiting \<open>Acquire\<close> is in the queue or its channel is closed.\<close>

theorem gate_waits_for_something:
  assumes "hold_reach ul norm s"
  shows "(gt_state (sy_gate s) = StateEntering \<longrightarrow>
        (\<exists>l \<in> set (gt_leases (sy_gate s)). \<not> el_done l) \<or> (\<exists>(k, a) \<in> set (gt_actions (sy_gate s)). al_beforeEnter a))
    \<and> (gt_state (sy_gate s) = StateReleasing \<longrightarrow>
        (\<exists>l \<in> set (gt_leases (sy_gate s)). \<not> el_done l) \<or> gt_queue (sy_gate s) = [] \<and> gt_actions (sy_gate s) \<noteq> [])
    \<and> (\<forall>a \<in> sy_waiting s. a \<in> set (gt_queue (sy_gate s)) \<or> wt_ready (waiter_at (sy_gate s) a))"
proof -
  note inv = hold_reach_gate [OF assms]
  show ?thesis
    using gate_invD(2) [OF inv] gate_counts [OF inv] live_empty [of "sy_gate s"] early_empty [of "sy_gate s"]
      hold_reach_inv [OF assms]
    by (auto simp: system_inv_def served_def waiter_at_def)
qed

lemma mset_set_distinct:
  assumes "finite R" and "mset xs = mset_set R"
  shows "distinct xs"
proof -
  have "set xs = R" using arg_cong [OF assms(2), of set_mset] assms(1) by simp
  with assms show ?thesis by (simp add: distinct_count_atmost_1)
qed

lemma count_image_filter:
  "count (image_mset f (filter_mset P (mset xs))) k = length (filter (\<lambda>x. P x \<and> f x = k) xs)"
  by (induction xs) auto

text \<open>C3: the counters are exact and bounded in every reachable state: the active count is the number
  of unreleased leases, in total and per kind; the held bytes are the bytes of the queue and stay
  within the configured limit, like the length of the queue; a request identity is held by at most
  one lease or waiter.\<close>

theorem gate_accounting:
  assumes "hold_reach ul norm s"
  shows "gt_active (sy_gate s) = length (filter (\<lambda>l. \<not> el_done l) (gt_leases (sy_gate s)))
    \<and> (\<forall>k. (case gt_activeByKind (sy_gate s) k of None \<Rightarrow> 0 | Some n \<Rightarrow> n)
          = length (filter (\<lambda>l. \<not> el_done l \<and> pt_Kind (ar_Target (el_request l)) = k) (gt_leases (sy_gate s))))
    \<and> gt_heldBytes (sy_gate s) = (\<Sum>a \<leftarrow> gt_queue (sy_gate s). ar_SizeBytes (wt_request (waiter_at (sy_gate s) a)))
    \<and> 0 \<le> gt_heldBytes (sy_gate s) \<and> gt_heldBytes (sy_gate s) \<le> hc_MaxHeldBytes (gt_config (sy_gate s))
    \<and> int (length (gt_queue (sy_gate s))) \<le> hc_MaxHeldRequests (gt_config (sy_gate s))
    \<and> distinct (map ar_RequestID (map el_request (filter (\<lambda>l. \<not> el_done l) (gt_leases (sy_gate s)))
                  @ map (\<lambda>a. wt_request (waiter_at (sy_gate s) a)) (gt_queue (sy_gate s))))"
proof -
  let ?g = "sy_gate s" let ?out = "filter (\<lambda>l. \<not> el_done l) (gt_leases ?g)"
  from gate_invD(1) [OF hold_reach_gate [OF assms]] have ok: "capacity_ok ?g" "ids_ok ?g" "active_ok ?g"
    by (simp_all add: accounts_ok_def)
  have live: "live ?g = mset (map el_request ?out)" by (simp add: live_def)
  have kinds: "count (image_mset kind_of (live ?g)) k
      = length (filter (\<lambda>l. \<not> el_done l \<and> pt_Kind (ar_Target (el_request l)) = k) (gt_leases ?g))" for k
    unfolding live_def image_mset.compositionality count_image_filter by (simp add: kind_of_def)
  from ok(1) have "gt_heldBytes ?g = (\<Sum>a \<leftarrow> gt_queue ?g. ar_SizeBytes (wt_request (waiter_at ?g a)))"
    and "0 \<le> gt_heldBytes ?g"
    by (auto simp: capacity_ok_def queued_def waiter_at_def comp_def intro!: sum_list_nonneg)
  moreover from ok(2) have "distinct (map ar_RequestID (map el_request ?out @ queued ?g))"
    by (intro mset_set_distinct [of "gt_requestIDs ?g"])
       (simp_all add: ids_ok_def live image_mset.compositionality comp_def)
  then have "distinct (map ar_RequestID (map el_request ?out @ map (\<lambda>a. wt_request (waiter_at ?g a)) (gt_queue ?g)))"
    by (simp only: queued_def waiter_at_def)
  moreover have "gt_active ?g = length ?out"
    using ok(3) unfolding active_ok_def live size_mset length_map by simp
  moreover have "(case gt_activeByKind ?g k of None \<Rightarrow> 0 | Some n \<Rightarrow> n)
      = length (filter (\<lambda>l. \<not> el_done l \<and> pt_Kind (ar_Target (el_request l)) = k) (gt_leases ?g))" for k
    using ok(3) unfolding active_ok_def counts_def kinds [symmetric] by simp
  ultimately show ?thesis using ok(1) unfolding capacity_ok_def by blast
qed

section \<open>Witnesses\<close>

theorem safe_to_disconnect_witness:
  "hold_reach id Some (at_rest demo_held) \<and> hs_SafeToDisconnect (snapshotLocked demo_held)
   \<and> list_all el_done (gt_leases demo_held)"
  using safe_to_disconnect [OF reach_held] reach_held
  by (simp add: at_rest_def list_all_iff) (simp add: demo_defs)

theorem egress_only_when_admitted_witness:
  "request_of ''r2'' late_action \<in># live demo_released - live demo_probing
   \<and> (\<exists>ts \<in> set [[demo_target]]. ar_Target (request_of ''r2'' late_action) \<in> set ts)"
proof -
  have new: "request_of ''r2'' late_action \<in># live demo_released - live demo_probing"
    by (simp add: live_def demo_defs request_of_def)
  moreover have "gt_state demo_probing = StateProbing" by (simp add: demo_defs)
  ultimately show ?thesis
    using egress_only_when_admitted [OF reach_probing step_released, of "request_of ''r2'' late_action"]
    by (simp add: waiting_at_def)
qed

theorem stale_revision_refused_witness:
  "fst (Enter demo_clock CtxLive 3 demo_entering) = demo_entering
   \<and> fst (Resume_begin id Some demo_clock CtxLive True 3 [demo_target] demo_entering) = demo_entering"
proof -
  have "gt_revision demo_out = 3" "demo_entering \<noteq> demo_out" "gt_changed demo_entering - gt_changed demo_out = 2"
    by (simp_all add: demo_defs gate.defs)
  with stale_revision_refused [OF reach_out steps_entering, of demo_clock CtxLive True "[demo_target]"]
  show ?thesis by (simp add: at_rest_def)
qed

theorem lease_released_once_witness:
  "live demo_back = live demo_entering - {#request_of ''r1'' early_action#}
   \<and> Lease_Release demo_clock 0 demo_back = demo_back"
proof -
  have "0 < length (gt_leases demo_entering)" "\<not> el_done (gt_leases demo_entering ! 0)"
    "el_request (gt_leases demo_entering ! 0) = request_of ''r1'' early_action"
    "gt_state demo_entering \<noteq> StateReleasing"
    by (simp_all add: demo_defs)
  with lease_released_once [OF reach_entering, of 0 demo_clock "at_rest demo_back" demo_clock]
  show ?thesis by (auto simp: at_rest_def demo_back_run)
qed

theorem resume_releases_prefix_witness:
  "Resume_finish demo_clock [demo_target] None demo_probing = (demo_released, snapshotLocked demo_released, None)
   \<and> (\<exists>n. live demo_released = mset (take n (queued demo_probing)) \<and> n \<le> 1)"
proof -
  have state: "gt_state demo_probing = StateProbing" "hc_ReleaseConcurrency (gt_config demo_probing) = 1"
    by (simp_all add: demo_defs demo_config_def)
  then have run: "Resume_finish demo_clock [demo_target] None demo_probing
      = (demo_released, snapshotLocked demo_released, None)"
    using demo_released_run by (auto simp: Resume_finish_def Let_def)
  with resume_releases_prefix [OF reach_probing, of demo_clock "[demo_target]" demo_released] state show ?thesis
    by (auto simp: waiting_at_def)
qed

theorem resume_pending_targets_witness:
  "size (live (fst (Resume_finish demo_clock [demo_target] None demo_probing))) = 1"
proof -
  have "gt_state demo_queued = StateHeld" "gt_revision demo_queued = 9" "length (queued demo_queued) = 1"
    "hc_ReleaseConcurrency (gt_config demo_queued) = 1"
    by (simp_all add: demo_defs demo_config_def queued_def)
  with resume_pending_targets [OF reach_queued, of demo_clock demo_clock] demo_probing_run demo_pending
  show ?thesis by (auto simp: waiting_at_def)
qed

theorem shutdown_closes_admission_witness:
  "gt_queue (BeginShutdown demo_clock demo_queued) = [] \<and> wt_ready (waiter_at (BeginShutdown demo_clock demo_queued) 0)"
  using shutdown_closes_admission [OF reach_queued, of demo_clock]
  by (simp add: waiting_at_def) (simp add: demo_defs)

theorem shutdown_drains_witness:
  "Drain_done (releaseAction demo_clock late_action (releaseAction demo_clock early_action
     (Lease_Release demo_clock 0 (BeginShutdown demo_clock demo_entering))))"
proof -
  let ?h = "BeginShutdown demo_clock demo_entering"
  have "hold_step id Some (at_rest demo_entering) (at_rest ?h)"
    using hold_step.shutdown [of id Some "at_rest demo_entering" demo_clock] by (simp add: at_rest_def)
  then have reach: "hold_reach id Some (at_rest ?h)" by (rule hold_reach.step [OF reach_entering])
  let ?order = "[Inl 0, Inr (''a'', early_action), Inr (''b'', late_action)]"
  have "gt_state ?h = StateStopping" "set ?order = hold_holders (at_rest ?h)" "distinct ?order"
    by (auto simp: BeginShutdown_def gate_ops demo_defs hold_holders_def at_rest_def)
  with shutdown_drains [OF reach, of "at_rest ?h" ?order demo_clock] show ?thesis by (simp add: at_rest_def)
qed

theorem gate_waits_for_something_witness:
  "gt_state demo_entering = StateEntering \<and> (\<exists>l \<in> set (gt_leases demo_entering). \<not> el_done l)"
  using gate_waits_for_something [OF reach_entering] by (simp add: at_rest_def) (simp add: demo_defs)

theorem gate_accounting_witness:
  "gt_active demo_entering = 1 \<and> length (filter (\<lambda>l. \<not> el_done l) (gt_leases demo_entering)) = 1"
proof -
  have "gt_active demo_entering = 1" by (simp add: demo_defs)
  then show ?thesis using gate_accounting [OF reach_entering] by (simp add: at_rest_def)
qed

end
