(* ===== verification/Commit_Ledger.thy ===== *)
theory Commit_Ledger
  imports Go_Prelude
begin

text \<open>
  The commit ledger of an exchange (\<open>src/internal/exchange/ledger.go\<close>): it separates what
  the provider may have processed from what the client has irrevocably seen, and decides whether
  an attempt may be sent again.  Counters have the width of the source; byte counts are the
  two's complement of an \<open>int64\<close>.
\<close>

section \<open>The ledger and its operations\<close>

definition allowsTransportResend :: "string \<Rightarrow> bool" where
  "allowsTransportResend class \<longleftrightarrow> class \<in> {''safe'', ''idempotency_keyed'', ''generation_cost_only''}"

datatype retry_block_reason =
  RetryAllowed | RetryBlockedPolicy | RetryBlockedReplayClass | RetryBlockedProviderMetadata | RetryBlockedOrdinaryHeaders
  | RetryBlockedDownstreamSemantics | RetryBlockedToolExposure | RetryBlockedTerminal | RetryBlockedFailure
  | RetryBlockedUpstreamProcessed

record ledger_state =
  upstreamSends :: uint32
  upstreamResponses :: uint32
  upstreamBodyBytes :: uint64
  downstreamHoldEnvelope :: bool
  downstreamOrdinaryHeader :: bool
  downstreamProviderMetadata :: bool
  downstreamSemanticBytes :: uint64
  downstreamSemanticWrites :: uint32
  downstreamToolKeys :: "string list"
  downstreamTerminal :: bool
  downstreamFailure :: bool

definition CommitLedger :: ledger_state where
  "CommitLedger = \<lparr>upstreamSends = 0, upstreamResponses = 0, upstreamBodyBytes = 0, downstreamHoldEnvelope = False,
     downstreamOrdinaryHeader = False, downstreamProviderMetadata = False, downstreamSemanticBytes = 0,
     downstreamSemanticWrites = 0, downstreamToolKeys = [], downstreamTerminal = False, downstreamFailure = False\<rparr>"

datatype ledger_error =
  NegativeBody | HoldCommitted | HeadersCommitted | NonPositiveWrite | AfterTerminal | NoToolKeys | EmptyToolKey
  | TerminalCommitted

text \<open>Each operation returns the ledger it leaves and its error.\<close>

definition RecordUpstreamSend :: "int \<Rightarrow> ledger_state \<Rightarrow> ledger_state \<times> ledger_error option" where
  "RecordUpstreamSend bodyBytes s =
     (if bodyBytes < 0 then (s, Some NegativeBody)
      else (s\<lparr>upstreamSends := upstreamSends s + 1,
              upstreamBodyBytes := upstreamBodyBytes s + word_of_int bodyBytes\<rparr>, None))"

definition RecordUpstreamResponse :: "ledger_state \<Rightarrow> ledger_state" where
  "RecordUpstreamResponse s = s\<lparr>upstreamResponses := upstreamResponses s + 1\<rparr>"

definition RecordProviderMetadata :: "ledger_state \<Rightarrow> ledger_state" where
  "RecordProviderMetadata s = s\<lparr>downstreamProviderMetadata := True\<rparr>"

definition RecordHoldEnvelope :: "ledger_state \<Rightarrow> ledger_state \<times> ledger_error option" where
  "RecordHoldEnvelope s =
     (if downstreamHoldEnvelope s then (s, Some HoldCommitted)
      else if downstreamOrdinaryHeader s then (s, Some HeadersCommitted)
      else (s\<lparr>downstreamHoldEnvelope := True\<rparr>, None))"

definition RecordOrdinaryHeaders :: "ledger_state \<Rightarrow> ledger_state \<times> ledger_error option" where
  "RecordOrdinaryHeaders s =
     (if downstreamOrdinaryHeader s then (s, Some HeadersCommitted)
      else if downstreamHoldEnvelope s then (s, Some HoldCommitted)
      else (s\<lparr>downstreamOrdinaryHeader := True\<rparr>, None))"

definition RecordSemanticWrite :: "int \<Rightarrow> ledger_state \<Rightarrow> ledger_state \<times> ledger_error option" where
  "RecordSemanticWrite bytes s =
     (if bytes \<le> 0 then (s, Some NonPositiveWrite)
      else if downstreamTerminal s \<or> downstreamFailure s then (s, Some AfterTerminal)
      else (s\<lparr>downstreamSemanticBytes := downstreamSemanticBytes s + word_of_int bytes,
              downstreamSemanticWrites := downstreamSemanticWrites s + 1\<rparr>, None))"

text \<open>The loop over the exposed keys: the keys before an empty one are already recorded.\<close>

fun expose :: "string set \<Rightarrow> string list \<Rightarrow> string list \<Rightarrow> string list \<times> ledger_error option" where
  "expose known keys [] = (keys, None)"
| "expose known keys (k # ks) =
     (if k = [] then (keys, Some EmptyToolKey)
      else if k \<in> known then expose known keys ks
      else expose (insert k known) (keys @ [k]) ks)"

definition RecordToolExposure :: "string list \<Rightarrow> ledger_state \<Rightarrow> ledger_state \<times> ledger_error option" where
  "RecordToolExposure toolKeys s =
     (if toolKeys = [] then (s, Some NoToolKeys)
      else if downstreamTerminal s \<or> downstreamFailure s then (s, Some AfterTerminal)
      else (let (keys, err) = expose (set (downstreamToolKeys s)) (downstreamToolKeys s) toolKeys
            in (s\<lparr>downstreamToolKeys := keys\<rparr>, err)))"

definition RecordTerminal :: "ledger_state \<Rightarrow> ledger_state \<times> ledger_error option" where
  "RecordTerminal s =
     (if downstreamTerminal s \<or> downstreamFailure s then (s, Some TerminalCommitted)
      else (s\<lparr>downstreamTerminal := True\<rparr>, None))"

definition RecordFailure :: "ledger_state \<Rightarrow> ledger_state \<times> ledger_error option" where
  "RecordFailure s =
     (if downstreamTerminal s \<or> downstreamFailure s then (s, Some TerminalCommitted)
      else (s\<lparr>downstreamFailure := True\<rparr>, None))"

definition CanTransportResend :: "string \<Rightarrow> bool \<Rightarrow> ledger_state \<Rightarrow> bool \<times> retry_block_reason" where
  "CanTransportResend class allowRepeatBilling s =
     (if \<not> allowsTransportResend class then (False, RetryBlockedReplayClass)
      else if downstreamOrdinaryHeader s then (False, RetryBlockedOrdinaryHeaders)
      else if downstreamProviderMetadata s then (False, RetryBlockedProviderMetadata)
      else if downstreamSemanticBytes s \<noteq> 0 \<or> downstreamSemanticWrites s \<noteq> 0
        then (False, RetryBlockedDownstreamSemantics)
      else if downstreamToolKeys s \<noteq> [] then (False, RetryBlockedToolExposure)
      else if downstreamTerminal s then (False, RetryBlockedTerminal)
      else if downstreamFailure s then (False, RetryBlockedFailure)
      else if upstreamResponses s \<noteq> 0 \<and> \<not> allowRepeatBilling then (False, RetryBlockedUpstreamProcessed)
      else (True, RetryAllowed))"

section \<open>Histories\<close>

datatype ledger_op =
  UpstreamSend int | UpstreamResponse | ProviderMetadata | HoldEnvelope | OrdinaryHeaders | SemanticWrite int
  | ToolExposure "string list" | Terminal | Failure

fun ledger_apply :: "ledger_op \<Rightarrow> ledger_state \<Rightarrow> ledger_state \<times> ledger_error option" where
  "ledger_apply (UpstreamSend n) s = RecordUpstreamSend n s"
| "ledger_apply UpstreamResponse s = (RecordUpstreamResponse s, None)"
| "ledger_apply ProviderMetadata s = (RecordProviderMetadata s, None)"
| "ledger_apply HoldEnvelope s = RecordHoldEnvelope s"
| "ledger_apply OrdinaryHeaders s = RecordOrdinaryHeaders s"
| "ledger_apply (SemanticWrite n) s = RecordSemanticWrite n s"
| "ledger_apply (ToolExposure ks) s = RecordToolExposure ks s"
| "ledger_apply Terminal s = RecordTerminal s"
| "ledger_apply Failure s = RecordFailure s"

definition ledger_run :: "ledger_op list \<Rightarrow> ledger_state \<Rightarrow> ledger_state" where
  "ledger_run ops s = fold (\<lambda>op s. fst (ledger_apply op s)) ops s"

text \<open>What commits the client to this attempt.\<close>

fun commits :: "ledger_op \<Rightarrow> bool" where
  "commits (UpstreamSend n) = False"
| "commits UpstreamResponse = False"
| "commits HoldEnvelope = False"
| "commits ProviderMetadata = True"
| "commits OrdinaryHeaders = True"
| "commits (SemanticWrite n) = True"
| "commits (ToolExposure ks) = True"
| "commits Terminal = True"
| "commits Failure = True"


text \<open>Whether a history commits: some committing operation took effect.  A refused tool exposure has
  taken effect when its first key was recorded.\<close>

fun takes_effect :: "ledger_op \<Rightarrow> ledger_error option \<Rightarrow> bool" where
  "takes_effect (ToolExposure (k # ks)) err \<longleftrightarrow> err = None \<or> err = Some EmptyToolKey \<and> k \<noteq> []"
| "takes_effect op err \<longleftrightarrow> commits op \<and> err = None"

fun committed :: "ledger_op list \<Rightarrow> ledger_state \<Rightarrow> bool" where
  "committed [] s = False"
| "committed (op # ops) s =
     (let (s', err) = ledger_apply op s in takes_effect op err \<or> committed ops s')"

section \<open>The decision depends on the history alone\<close>

lemmas ledger_defs [runtime_defs] = RecordUpstreamSend_def RecordUpstreamResponse_def RecordProviderMetadata_def
  RecordHoldEnvelope_def RecordOrdinaryHeaders_def RecordSemanticWrite_def RecordToolExposure_def
  RecordTerminal_def RecordFailure_def

definition client_committed :: "ledger_state \<Rightarrow> bool" where
  "client_committed s \<longleftrightarrow> downstreamOrdinaryHeader s \<or> downstreamProviderMetadata s
     \<or> downstreamSemanticWrites s \<noteq> 0 \<or> downstreamToolKeys s \<noteq> [] \<or> downstreamTerminal s \<or> downstreamFailure s"

definition writes_counted :: "ledger_state \<Rightarrow> bool" where
  "writes_counted s \<longleftrightarrow> (downstreamSemanticWrites s = 0 \<longrightarrow> downstreamSemanticBytes s = 0)"

lemma expose_keeps: "\<exists>new. fst (expose known keys ks) = keys @ new \<and> set new \<subseteq> set ks"
proof (induction ks arbitrary: known keys)
  case (Cons k ks)
  from Cons [of known keys] Cons [of "insert k known" "keys @ [k]"] show ?case by fastforce
qed simp

lemma expose_none: "snd (expose known keys (k # ks)) \<noteq> None \<longrightarrow> snd (expose known keys (k # ks)) = Some EmptyToolKey"
  by (induction ks arbitrary: known keys k) (auto split: if_splits)

lemma expose_grows:
  "known = set keys \<Longrightarrow> fst (expose known keys (k # ks)) \<noteq> [] \<longleftrightarrow> keys \<noteq> [] \<or> k \<noteq> []"
proof -
  assume known: "known = set keys"
  from expose_keeps [of known keys ks] expose_keeps [of "insert k known" "keys @ [k]" ks] known
  show ?thesis by (cases keys) auto
qed

lemma word32_Suc:
  fixes w :: uint32
  assumes "unat w + n < 2 ^ 32" and "0 < n"
  shows "w + 1 \<noteq> 0" and "unat (w + 1) = Suc (unat w)"
proof -
  have "unat w + 1 < 2 ^ LENGTH(32)" using assms by simp
  then show "unat (w + 1) = Suc (unat w)" by (simp add: unat_word_ariths)
  then show "w + 1 \<noteq> 0" by (metis Zero_not_Suc unat_0)
qed

lemma RecordToolExposure_eq:
  "ks \<noteq> [] \<Longrightarrow> \<not> downstreamTerminal s \<Longrightarrow> \<not> downstreamFailure s \<Longrightarrow>
   RecordToolExposure ks s
     = (s\<lparr>downstreamToolKeys := fst (expose (set (downstreamToolKeys s)) (downstreamToolKeys s) ks)\<rparr>,
        snd (expose (set (downstreamToolKeys s)) (downstreamToolKeys s) ks))"
  by (simp add: RecordToolExposure_def case_prod_beta)

lemma ledger_counters:
  assumes "ledger_apply op s = (t, err)"
  shows "downstreamSemanticWrites t = downstreamSemanticWrites s \<and> downstreamSemanticBytes t = downstreamSemanticBytes s
      \<or> downstreamSemanticWrites t = downstreamSemanticWrites s + 1"
    and "upstreamResponses t = (if op = UpstreamResponse then upstreamResponses s + 1 else upstreamResponses s)"
  using assms by (cases op; auto simp: ledger_defs case_prod_beta split: if_splits)+

lemma ledger_commits:
  assumes "ledger_apply op s = (t, err)" and "downstreamSemanticWrites s + 1 \<noteq> 0"
  shows "client_committed t \<longleftrightarrow> client_committed s \<or> takes_effect op err"
proof (cases op)
  case (ToolExposure ks)
  show ?thesis
  proof (cases "ks = [] \<or> downstreamTerminal s \<or> downstreamFailure s")
    case True
    with assms(1) ToolExposure show ?thesis
      by (cases ks) (auto simp: RecordToolExposure_def client_committed_def)
  next
    case False
    then obtain k rest where ks: "ks = k # rest" by (cases ks) auto
    from False assms(1) ToolExposure expose_grows [OF refl, of "downstreamToolKeys s" k rest]
      expose_none [of "set (downstreamToolKeys s)" "downstreamToolKeys s" k rest]
    show ?thesis
      by (cases "k = []") (auto simp: RecordToolExposure_eq client_committed_def ks simp del: expose.simps,
          auto simp: ks)
  qed
qed (use assms in \<open>auto simp: ledger_defs client_committed_def split: if_splits\<close>)

lemma ledger_step:
  assumes room: "unat (downstreamSemanticWrites s) + Suc n < 2 ^ 32" "unat (upstreamResponses s) + Suc n < 2 ^ 32"
    and counted: "writes_counted s" and run: "ledger_apply op s = (t, err)"
  shows "client_committed t \<longleftrightarrow> client_committed s \<or> takes_effect op err"
    and "writes_counted t"
    and "upstreamResponses t \<noteq> 0 \<longleftrightarrow> upstreamResponses s \<noteq> 0 \<or> op = UpstreamResponse"
    and "unat (downstreamSemanticWrites t) + n < 2 ^ 32" "unat (upstreamResponses t) + n < 2 ^ 32"
proof -
  note w = word32_Suc [OF room(1)] word32_Suc [OF room(2)]
  from w(1) show "client_committed t \<longleftrightarrow> client_committed s \<or> takes_effect op err"
    by (intro ledger_commits [OF run]) simp
  from ledger_counters(1) [OF run] counted w(1) show "writes_counted t" by (auto simp: writes_counted_def)
  from ledger_counters(1) [OF run] w(2) room show "unat (downstreamSemanticWrites t) + n < 2 ^ 32" by auto
  from ledger_counters(2) [OF run] w(3,4) room
  show "upstreamResponses t \<noteq> 0 \<longleftrightarrow> upstreamResponses s \<noteq> 0 \<or> op = UpstreamResponse"
    and "unat (upstreamResponses t) + n < 2 ^ 32" by auto
qed

lemma ledger_history:
  assumes "unat (downstreamSemanticWrites s) + length ops < 2 ^ 32" "unat (upstreamResponses s) + length ops < 2 ^ 32"
    and "writes_counted s"
  shows "(client_committed (ledger_run ops s) \<longleftrightarrow> client_committed s \<or> committed ops s)
    \<and> writes_counted (ledger_run ops s)
    \<and> (upstreamResponses (ledger_run ops s) \<noteq> 0 \<longleftrightarrow> upstreamResponses s \<noteq> 0 \<or> UpstreamResponse \<in> set ops)"
  using assms
proof (induction ops arbitrary: s)
  case Nil
  then show ?case by (simp add: ledger_run_def)
next
  case (Cons op ops)
  obtain t err where run: "ledger_apply op s = (t, err)" by (cases "ledger_apply op s")
  note step = ledger_step [of s "length ops", OF _ _ Cons(4) run]
  have "ledger_run (op # ops) s = ledger_run ops t" by (simp add: ledger_run_def run)
  with step Cons.IH [of t] Cons(2,3) show ?case by (auto simp: run)
qed

text \<open>C11: whether an attempt may be sent again depends exactly on what the ledger recorded: a replayable
  class, no committing operation in effect, and no upstream response unless repeat billing is
  allowed (for histories shorter than the \<open>2 ^ 32\<close> wrap of the counters).\<close>

theorem resend_iff_uncommitted:
  assumes "length ops < 2 ^ 32"
  shows "fst (CanTransportResend class allowRepeatBilling (ledger_run ops CommitLedger)) \<longleftrightarrow>
    allowsTransportResend class \<and> \<not> committed ops CommitLedger
    \<and> (allowRepeatBilling \<or> UpstreamResponse \<notin> set ops)"
proof -
  have "\<not> client_committed CommitLedger" "writes_counted CommitLedger"
    by (simp_all add: CommitLedger_def client_committed_def writes_counted_def)
  with ledger_history [of CommitLedger ops] assms show ?thesis
    by (auto simp: CanTransportResend_def client_committed_def writes_counted_def CommitLedger_def
        split: if_splits)
qed

section \<open>Exclusive and final states\<close>

definition ledger_ok :: "ledger_state \<Rightarrow> bool" where
  "ledger_ok s \<longleftrightarrow> \<not> (downstreamHoldEnvelope s \<and> downstreamOrdinaryHeader s)
     \<and> \<not> (downstreamTerminal s \<and> downstreamFailure s)
     \<and> distinct (downstreamToolKeys s) \<and> [] \<notin> set (downstreamToolKeys s)"

lemma expose_ok:
  "distinct keys \<Longrightarrow> [] \<notin> set keys \<Longrightarrow>
   distinct (fst (expose (set keys) keys ks)) \<and> [] \<notin> set (fst (expose (set keys) keys ks))"
proof (induction ks arbitrary: keys)
  case (Cons k ks)
  from Cons.IH [of keys] Cons.IH [of "keys @ [k]"] Cons.prems show ?case by auto
qed simp

lemma ledger_apply_ok: "ledger_ok s \<Longrightarrow> ledger_ok (fst (ledger_apply op s))"
  using expose_ok [of "downstreamToolKeys s"]
  by (cases op) (auto simp: ledger_defs ledger_ok_def case_prod_beta)

lemma ledger_run_ok: "ledger_ok s \<Longrightarrow> ledger_ok (ledger_run ops s)"
  unfolding ledger_run_def by (induction ops arbitrary: s) (simp_all add: ledger_apply_ok)

text \<open>Whatever is recorded in whatever order, a ledger never holds both the Hold envelope and
  ordinary headers, never both a terminal and a failure, and lists each exposed tool key once.\<close>

theorem ledger_states_exclusive:
  "\<not> (downstreamHoldEnvelope (ledger_run ops CommitLedger) \<and> downstreamOrdinaryHeader (ledger_run ops CommitLedger))
   \<and> \<not> (downstreamTerminal (ledger_run ops CommitLedger) \<and> downstreamFailure (ledger_run ops CommitLedger))
   \<and> distinct (downstreamToolKeys (ledger_run ops CommitLedger))
   \<and> [] \<notin> set (downstreamToolKeys (ledger_run ops CommitLedger))"
  using ledger_run_ok [of CommitLedger ops] by (simp add: ledger_ok_def CommitLedger_def)

definition semantics :: "ledger_state \<Rightarrow> bool \<times> bool \<times> uint64 \<times> uint32 \<times> string list" where
  "semantics s = (downstreamTerminal s, downstreamFailure s, downstreamSemanticBytes s, downstreamSemanticWrites s,
     downstreamToolKeys s)"

lemma ledger_apply_final:
  "downstreamTerminal s \<or> downstreamFailure s \<Longrightarrow> semantics (fst (ledger_apply op s)) = semantics s"
  by (cases op) (auto simp: ledger_defs semantics_def)

text \<open>A terminal or a failure is final: no later operation changes it or commits further semantic
  bytes, writes or tools.\<close>

theorem terminal_is_final:
  assumes "downstreamTerminal s \<or> downstreamFailure s"
  shows "semantics (ledger_run ops s) = semantics s"
  using assms
proof (induction ops arbitrary: s)
  case (Cons op ops)
  note same = ledger_apply_final [OF Cons(2), of op]
  then have "downstreamTerminal (fst (ledger_apply op s)) \<or> downstreamFailure (fst (ledger_apply op s))"
    using Cons(2) by (simp add: semantics_def)
  from Cons(1) [OF this] same show ?case by (simp add: ledger_run_def)
qed (simp add: ledger_run_def)

section \<open>Witnesses\<close>

theorem resend_iff_uncommitted_witness:
  "fst (CanTransportResend ''safe'' True (ledger_run [UpstreamSend 10, UpstreamResponse, HoldEnvelope] CommitLedger))
   \<and> \<not> fst (CanTransportResend ''safe'' True (ledger_run [HoldEnvelope, ToolExposure [''t'', []]] CommitLedger))"
  using resend_iff_uncommitted [of "[UpstreamSend 10, UpstreamResponse, HoldEnvelope]" "''safe''" True]
    resend_iff_uncommitted [of "[HoldEnvelope, ToolExposure [''t'', []]]" "''safe''" True]
  by (simp add: ledger_defs CommitLedger_def allowsTransportResend_def)

theorem terminal_is_final_witness:
  "semantics (ledger_run [SemanticWrite 3, Terminal, Failure] (fst (RecordTerminal CommitLedger)))
     = (True, False, 0, 0, [])"
  using terminal_is_final [of "fst (RecordTerminal CommitLedger)" "[SemanticWrite 3, Terminal, Failure]"]
  by (simp add: RecordTerminal_def CommitLedger_def semantics_def)

end
