(* ===== verification/Body_Admission.thy ===== *)
theory Body_Admission
  imports Go_Prelude Shutdown_Contract "HOL-Library.Monad_Syntax"
begin

text \<open>
  Admission of request bodies against a finite execution budget
  (\<open>src/internal/exchange/resource_admission.go\<close>, \<open>resource_envelope.go\<close>, the limits of
  \<open>src/internal/exchangecontent/source.go\<close> and \<open>src/internal/protocolcore/resource.go\<close>).
  Credits are \<open>uint64\<close>.  Sizes of Go types are those of a 64-bit platform: a string header is
  16 bytes, a slice header 24, an interface 16.  Waiting for a change is the outcome
  \<open>BodyWait\<close>; the caller tries again after the next notification.
\<close>

section \<open>Checked sums\<close>

definition maxCredit :: uint64 where "maxCredit = 2 ^ 63 - 1"

fun checked_from :: "uint64 \<Rightarrow> (uint64 \<times> uint64) list \<Rightarrow> uint64 option" where
  "checked_from acc [] = Some acc"
| "checked_from acc ((a, b) # terms) =
     (if b \<noteq> 0 \<and> (maxCredit - acc) div b < a then None else checked_from (acc + a * b) terms)"

definition checkedEnvelope :: "(uint64 \<times> uint64) list \<Rightarrow> uint64 option" where
  "checkedEnvelope terms = checked_from 0 terms"

section \<open>Limits and envelopes\<close>

record resource_cost =
  rc_PayloadBytes :: uint64
  rc_StructureBytes :: uint64

record source_limits =
  sl_Request :: resource_cost
  sl_Response :: resource_cost
  sl_Scratch :: resource_cost
  sl_CanonicalBytes :: uint64
  sl_RetainedBytes :: uint64
  sl_StructureBytes :: uint64

definition ResourceLimits_Validate :: "resource_cost \<Rightarrow> resource_cost \<Rightarrow> bool" where
  "ResourceLimits_Validate request response \<longleftrightarrow>
     \<not> (rc_PayloadBytes request = 0 \<or> rc_StructureBytes request = 0)
     \<and> \<not> (rc_PayloadBytes response = 0 \<or> rc_StructureBytes response = 0)"

definition SourceLimits_Validate :: "source_limits \<Rightarrow> bool" where
  "SourceLimits_Validate l \<longleftrightarrow> ResourceLimits_Validate (sl_Request l) (sl_Response l)
     \<and> list_all (\<lambda>n. \<not> (n = 0 \<or> maxCredit < n))
         [sl_CanonicalBytes l, sl_RetainedBytes l, sl_StructureBytes l, rc_PayloadBytes (sl_Scratch l),
          rc_StructureBytes (sl_Scratch l), rc_PayloadBytes (sl_Request l), rc_StructureBytes (sl_Request l),
          rc_PayloadBytes (sl_Response l), rc_StructureBytes (sl_Response l)]"

definition wire_bytes :: uint64 where "wire_bytes = 16 * 2 ^ 20"

definition header_bytes :: uint64 where "header_bytes = 64 * 2 ^ 10 + 128 * (16 + 24 + 128 * 16)"

definition context_bytes :: uint64 where "context_bytes = 7 * (64 * 2 ^ 10) + 1024 * (16 + 128)"

definition metadata_bytes :: uint64 where
  "metadata_bytes = 6 * (128 + 4096 + 64 + 256 + 64 + 128 + 4096 + 256 + 64) + 1024"

definition RequiredExecutionEnvelope :: "source_limits \<Rightarrow> (uint64 \<times> uint64) option" where
  "RequiredExecutionEnvelope l =
     (if \<not> SourceLimits_Validate l then None
      else do {
        requestIR \<leftarrow> checkedEnvelope [(rc_PayloadBytes (sl_Request l), 1), (rc_StructureBytes (sl_Request l), 1)];
        responseIR \<leftarrow> checkedEnvelope [(rc_PayloadBytes (sl_Response l), 1), (rc_StructureBytes (sl_Response l), 1)];
        transformMetadata \<leftarrow> checkedEnvelope [(header_bytes, 4), (context_bytes, 1), (metadata_bytes, 2)];
        selectorMetadata \<leftarrow> checkedEnvelope
          [(1024, 3 * (6 * (128 + 256) + 64) + 3 * 2 * 16), (header_bytes, 2), (metadata_bytes + 6 * 128 + 128, 3)];
        script \<leftarrow> checkedEnvelope [(wire_bytes, 20), (max transformMetadata selectorMetadata, 1)];
        decode \<leftarrow> checkedEnvelope [(rc_PayloadBytes (sl_Request l), 2), (rc_StructureBytes (sl_Request l), 3)];
        request \<leftarrow> checkedEnvelope [(requestIR, 6), (wire_bytes, 8), (max script decode, 1)];
        output \<leftarrow> checkedEnvelope [(wire_bytes, 6), (32 * 2 ^ 10 div 2 + 256 + 4, 4096)];
        stream \<leftarrow> checkedEnvelope [(responseIR, 7), (output, 2), (wire_bytes, 2), (4 * 2 ^ 20, 2)];
        Some (request, stream)
      })"

record resource_policy =
  po_Content :: source_limits
  po_RequestBytes :: uint64
  po_ResponseBytes :: uint64
  po_SlotBytes :: uint64
  po_ActiveBytes :: uint64

definition Policy_Validate :: "resource_policy \<Rightarrow> bool" where
  "Policy_Validate p \<longleftrightarrow> SourceLimits_Validate (po_Content p)
     \<and> \<not> (po_RequestBytes p = 0 \<or> po_ResponseBytes p = 0 \<or> maxCredit < po_SlotBytes p \<or> maxCredit < po_ActiveBytes p
          \<or> po_SlotBytes p < po_RequestBytes p \<or> po_SlotBytes p - po_RequestBytes p < po_ResponseBytes p
          \<or> po_ActiveBytes p < po_SlotBytes p)
     \<and> (case RequiredExecutionEnvelope (po_Content p) of
          None \<Rightarrow> False
        | Some (request, response) \<Rightarrow> \<not> (po_RequestBytes p < request \<or> po_ResponseBytes p < response))"

definition DefaultResourcePolicy :: "source_limits option \<Rightarrow> resource_policy option" where
  "DefaultResourcePolicy defaults = do {
     content \<leftarrow> defaults;
     (request0, response) \<leftarrow> RequiredExecutionEnvelope content;
     request \<leftarrow> checkedEnvelope [(request0, 1), (64 * 2 ^ 20, 1)];
     slot \<leftarrow> checkedEnvelope [(request, 1), (response, 1)];
     active \<leftarrow> checkedEnvelope [(slot, 4)];
     (let policy = \<lparr>po_Content = content, po_RequestBytes = request, po_ResponseBytes = response,
                    po_SlotBytes = slot, po_ActiveBytes = active\<rparr>
      in if Policy_Validate policy then Some policy else None)
   }"

section \<open>The admission gate\<close>

text \<open>What admission reads of a frozen plan: the bytes its transform chain retains (an error when they
  overflow), its digest and its protocol.\<close>

record request_plan =
  pl_RetainedRequestBytes :: "uint64 option"
  pl_EnvironmentDigest :: string
  pl_ProtocolID :: string

record body_lease =
  bl_gate :: nat
  bl_constructed :: bool
  bl_claimed :: bool
  bl_executing :: bool
  bl_released :: bool
  bl_refunded :: bool
  bl_requestUsed :: uint64
  bl_reserved :: uint64
  bl_requestBytes :: uint64
  bl_transformBytes :: uint64
  bl_planBound :: bool
  bl_planDigest :: string
  bl_protocolID :: string

record body_gate =
  bg_self :: nat
  bg_policy :: resource_policy
  bg_used :: uint64
  bg_closing :: bool
  bg_changed :: nat
  bg_leases :: "body_lease list"

datatype body_error =
  BodyInvalidPolicy | BodyOverflow | BodyPlanTooLarge | BodyMissing | BodyStopping | BodyContext ctx_error
  | BodyWrongPlan | BodyCannotConstruct | BodyForeign | BodyUsed

definition NewBodyAdmission :: "nat \<Rightarrow> resource_policy \<Rightarrow> body_error + body_gate" where
  "NewBodyAdmission self policy =
     (if \<not> Policy_Validate policy then Inl BodyInvalidPolicy
      else Inr \<lparr>bg_self = self, bg_policy = policy, bg_used = 0, bg_closing = False, bg_changed = 0, bg_leases = []\<rparr>)"

definition planReservation :: "request_plan \<Rightarrow> body_gate \<Rightarrow> body_error + (uint64 \<times> uint64 \<times> uint64)" where
  "planReservation plan g =
     (case pl_RetainedRequestBytes plan of
        None \<Rightarrow> Inl BodyOverflow
      | Some retained \<Rightarrow>
        (case RequiredExecutionEnvelope (po_Content (bg_policy g)) of
           None \<Rightarrow> Inl BodyOverflow
         | Some (base, _) \<Rightarrow>
           (case checkedEnvelope [(base, 1), (retained, 1)] of
              None \<Rightarrow> Inl BodyOverflow
            | Some request0 \<Rightarrow>
                let request = max request0 (po_RequestBytes (bg_policy g)) in
                (case checkedEnvelope [(po_SlotBytes (bg_policy g), 1), (request - po_RequestBytes (bg_policy g), 1)] of
                   None \<Rightarrow> Inl BodyOverflow
                 | Some cost \<Rightarrow>
                     if po_ActiveBytes (bg_policy g) < cost then Inl BodyPlanTooLarge
                     else Inr (cost, request, retained)))))"

definition CheckPlan :: "request_plan \<Rightarrow> body_gate \<Rightarrow> body_error option" where
  "CheckPlan plan g = (case planReservation plan g of Inl e \<Rightarrow> Some e | Inr _ \<Rightarrow> None)"

definition fresh_lease :: "body_gate \<Rightarrow> uint64 \<Rightarrow> uint64 \<Rightarrow> body_lease" where
  "fresh_lease g reserved requestBytes =
     \<lparr>bl_gate = bg_self g, bl_constructed = False, bl_claimed = False, bl_executing = False, bl_released = False,
      bl_refunded = False, bl_requestUsed = 0, bl_reserved = reserved, bl_requestBytes = requestBytes,
      bl_transformBytes = 0, bl_planBound = False, bl_planDigest = [], bl_protocolID = []\<rparr>"

text \<open>One round of the loop of \<open>acquire\<close>.\<close>

datatype body_outcome = BodyError body_error | BodyGranted nat | BodyWait nat

definition body_acquire :: "ctx \<Rightarrow> body_lease \<Rightarrow> body_gate \<Rightarrow> body_gate \<times> body_outcome" where
  "body_acquire c reservation g =
     (case ctx_err c of
        Some e \<Rightarrow> (g, BodyError (BodyContext e))
      | None \<Rightarrow>
          if bg_closing g then (g, BodyError BodyStopping)
          else if bl_reserved reservation \<le> po_ActiveBytes (bg_policy g) - bg_used g
          then (g\<lparr>bg_used := bg_used g + bl_reserved reservation, bg_leases := bg_leases g @ [reservation]\<rparr>,
                BodyGranted (length (bg_leases g)))
          else (g, BodyWait (bg_changed g)))"

definition Body_Acquire :: "ctx \<Rightarrow> body_gate \<Rightarrow> body_gate \<times> body_outcome" where
  "Body_Acquire c g =
     (if c = CtxNil then (g, BodyError BodyMissing)
      else body_acquire c (fresh_lease g (po_SlotBytes (bg_policy g)) (po_RequestBytes (bg_policy g))) g)"

definition AcquirePlan :: "ctx \<Rightarrow> request_plan \<Rightarrow> body_gate \<Rightarrow> body_gate \<times> body_outcome" where
  "AcquirePlan c plan g =
     (if c = CtxNil then (g, BodyError BodyMissing)
      else (case planReservation plan g of
         Inl e \<Rightarrow> (g, BodyError e)
       | Inr (cost, request, retained) \<Rightarrow>
           body_acquire c ((fresh_lease g cost request)\<lparr>bl_transformBytes := retained, bl_planBound := True,
             bl_planDigest := pl_EnvironmentDigest plan, bl_protocolID := pl_ProtocolID plan\<rparr>) g))"

definition notify :: "body_gate \<Rightarrow> body_gate" where
  "notify g = g\<lparr>bg_changed := Suc (bg_changed g)\<rparr>"

definition Body_BeginShutdown :: "body_gate \<Rightarrow> body_gate" where
  "Body_BeginShutdown g = notify (g\<lparr>bg_closing := True\<rparr>)"

definition Body_Drained :: "body_gate \<Rightarrow> bool" where
  "Body_Drained g \<longleftrightarrow> bg_used g = 0"

definition set_lease :: "nat \<Rightarrow> body_lease \<Rightarrow> body_gate \<Rightarrow> body_gate" where
  "set_lease l s g = g\<lparr>bg_leases := (bg_leases g)[l := s]\<rparr>"

definition checkPlan :: "nat \<Rightarrow> request_plan \<Rightarrow> body_gate \<Rightarrow> body_error option" where
  "checkPlan l plan g =
     (let s = bg_leases g ! l in
      case planReservation plan g of
        Inl e \<Rightarrow> Some e
      | Inr (_, _, retained) \<Rightarrow>
          if retained \<noteq> bl_transformBytes s
             \<or> bl_planBound s \<and> (bl_planDigest s \<noteq> pl_EnvironmentDigest plan \<or> bl_protocolID s \<noteq> pl_ProtocolID plan)
          then Some BodyWrongPlan else None)"

definition reserveConstructor :: "nat \<Rightarrow> uint64 \<Rightarrow> body_gate \<Rightarrow> body_gate \<times> body_error option" where
  "reserveConstructor l n g =
     (let s = bg_leases g ! l in
      if bl_constructed s \<or> bl_claimed s \<or> bl_released s \<or> bl_requestBytes s < n then (g, Some BodyCannotConstruct)
      else (set_lease l (s\<lparr>bl_constructed := True, bl_requestUsed := n\<rparr>) g, None))"

definition claim :: "nat \<Rightarrow> nat \<Rightarrow> body_gate \<Rightarrow> body_gate \<times> body_error option" where
  "claim gate_id l g =
     (let s = bg_leases g ! l in
      if bl_gate s \<noteq> gate_id then (g, Some BodyForeign)
      else if \<not> bl_constructed s \<or> bl_claimed s \<or> bl_released s then (g, Some BodyUsed)
      else (set_lease l (s\<lparr>bl_claimed := True, bl_executing := True\<rparr>) g, None))"

definition refund :: "nat \<Rightarrow> body_gate \<Rightarrow> body_gate" where
  "refund l g =
     (let s = bg_leases g ! l in
      if bl_released s \<and> \<not> bl_executing s \<and> \<not> bl_refunded s
      then notify ((set_lease l (s\<lparr>bl_refunded := True\<rparr>) g)\<lparr>bg_used := bg_used g - bl_reserved s\<rparr>)
      else g)"

definition finish :: "nat \<Rightarrow> body_gate \<Rightarrow> body_gate" where
  "finish l g = refund l (set_lease l ((bg_leases g ! l)\<lparr>bl_executing := False\<rparr>) g)"

definition Body_Release :: "nat \<Rightarrow> body_gate \<Rightarrow> body_gate" where
  "Body_Release l g = refund l (set_lease l ((bg_leases g ! l)\<lparr>bl_released := True\<rparr>) g)"

section \<open>Checked sums are exact\<close>

lemma maxCredit_nat [simp]: "unat maxCredit = 2 ^ 63 - 1"
  by (simp add: maxCredit_def unat_word_ariths)

definition term_sum :: "(uint64 \<times> uint64) list \<Rightarrow> nat" where
  "term_sum terms = (\<Sum>(a, b) \<leftarrow> terms. unat a * unat b)"

lemma checked_from_exact:
  "acc \<le> maxCredit \<Longrightarrow> checked_from acc terms =
     (if unat acc + term_sum terms \<le> 2 ^ 63 - 1 then Some (of_nat (unat acc + term_sum terms)) else None)"
proof (induction terms arbitrary: acc)
  case Nil
  then show ?case by (simp add: term_sum_def word_le_nat_alt)
next
  case (Cons x terms)
  obtain a b where x: "x = (a, b)" by (cases x)
  from Cons(2) have le: "unat acc \<le> 2 ^ 63 - 1" by (simp add: word_le_nat_alt)
  have room: "unat (maxCredit - acc) = 2 ^ 63 - 1 - unat acc"
    using Cons(2) by (simp add: unat_sub)
  have guard: "b \<noteq> 0 \<and> (maxCredit - acc) div b < a \<longleftrightarrow> 2 ^ 63 - 1 < unat acc + unat a * unat b"
  proof (cases "b = 0")
    case True
    with le show ?thesis by simp
  next
    case False
    then have pos: "0 < unat b" by (simp add: unat_gt_0)
    have "(maxCredit - acc) div b < a \<longleftrightarrow> (2 ^ 63 - 1 - unat acc) div unat b < unat a"
      by (simp add: word_less_nat_alt unat_div room)
    also have "\<dots> \<longleftrightarrow> 2 ^ 63 - 1 - unat acc < unat a * unat b"
      using pos by (simp add: div_less_iff_less_mult)
    finally show ?thesis using False le by linarith
  qed
  show ?case
  proof (cases "2 ^ 63 - 1 < unat acc + unat a * unat b")
    case True
    with guard show ?thesis by (simp add: x term_sum_def)
  next
    case False
    then have small: "unat (acc + a * b) = unat acc + unat a * unat b"
      by (simp add: unat_word_ariths)
    then have "acc + a * b \<le> maxCredit" using False by (simp add: word_le_nat_alt)
    note rest = Cons(1) [OF this]
    have run: "checked_from acc (x # terms) = checked_from (acc + a * b) terms"
      using guard False by (simp only: x checked_from.simps if_False)
    have "unat acc + term_sum (x # terms) = unat (acc + a * b) + term_sum terms"
      by (simp add: x term_sum_def small)
    then show ?thesis unfolding run rest by simp
  qed
qed

text \<open>A checked sum is the exact sum of its products when that fits a signed 64-bit count, and an
  error otherwise; no intermediate product wraps unnoticed.\<close>

lemma checkedEnvelope_exact:
  "checkedEnvelope terms =
     (if (\<Sum>(a, b) \<leftarrow> terms. unat a * unat b) \<le> 2 ^ 63 - 1
      then Some (of_nat (\<Sum>(a, b) \<leftarrow> terms. unat a * unat b)) else None)"
  using checked_from_exact [of 0 terms] by (simp add: checkedEnvelope_def term_sum_def)


lemma checkedEnvelope_Some:
  "checkedEnvelope terms = Some v \<Longrightarrow> unat v = term_sum terms \<and> term_sum terms \<le> 2 ^ 63 - 1"
proof -
  assume "checkedEnvelope terms = Some v"
  then have le: "term_sum terms \<le> 2 ^ 63 - 1" and "v = of_nat (term_sum terms)"
    using checked_from_exact [of 0 terms] by (auto simp: checkedEnvelope_def split: if_splits)
  then show ?thesis by (simp add: unat_of_nat)
qed

lemma unat_max: "unat (max a b) = max (unat a) (unat (b :: 'a :: len word))"
  by (simp add: max_def word_le_nat_alt)

lemma envelope_constants:
  "unat wire_bytes = 16777216" "unat header_bytes = 332800" "unat context_bytes = 606208"
  "unat metadata_bytes = 55936" "unat (896 + metadata_bytes) = 56832"
  by (simp_all add: wire_bytes_def header_bytes_def context_bytes_def metadata_bytes_def)

text \<open>The required envelope is computed without wrap-around: the request phase holds six request
  representations, eight wire buffers and the larger of the script bridge and the decoder; the
  response phase seven response representations and its fixed buffers.\<close>

theorem RequiredExecutionEnvelope_exact:
  assumes "RequiredExecutionEnvelope l = Some (request, response)"
  shows "unat request = 6 * (unat (rc_PayloadBytes (sl_Request l)) + unat (rc_StructureBytes (sl_Request l)))
      + 134217728 + max 343753216 (2 * unat (rc_PayloadBytes (sl_Request l)) + 3 * unat (rc_StructureBytes (sl_Request l)))
    \<and> unat response = 7 * (unat (rc_PayloadBytes (sl_Response l)) + unat (rc_StructureBytes (sl_Response l)))
      + 379617280
    \<and> unat request \<le> 2 ^ 63 - 1 \<and> unat response \<le> 2 ^ 63 - 1"
proof -
  from assms obtain rq rs tm sm sc de ou where
    c: "checkedEnvelope [(rc_PayloadBytes (sl_Request l), 1), (rc_StructureBytes (sl_Request l), 1)] = Some rq"
      "checkedEnvelope [(rc_PayloadBytes (sl_Response l), 1), (rc_StructureBytes (sl_Response l), 1)] = Some rs"
      "checkedEnvelope [(header_bytes, 4), (context_bytes, 1), (metadata_bytes, 2)] = Some tm"
      "checkedEnvelope [(1024, 3 * (6 * (128 + 256) + 64) + 3 * 2 * 16), (header_bytes, 2),
          (metadata_bytes + 6 * 128 + 128, 3)] = Some sm"
      "checkedEnvelope [(wire_bytes, 20), (max tm sm, 1)] = Some sc"
      "checkedEnvelope [(rc_PayloadBytes (sl_Request l), 2), (rc_StructureBytes (sl_Request l), 3)] = Some de"
      "checkedEnvelope [(rq, 6), (wire_bytes, 8), (max sc de, 1)] = Some request"
      "checkedEnvelope [(wire_bytes, 6), (32 * 2 ^ 10 div 2 + 256 + 4, 4096)] = Some ou"
      "checkedEnvelope [(rs, 7), (ou, 2), (wire_bytes, 2), (4 * 2 ^ 20, 2)] = Some response"
    by (auto simp: RequiredExecutionEnvelope_def Option.bind_eq_Some_conv split: if_splits)
  note v = c [THEN checkedEnvelope_Some, unfolded term_sum_def, simplified, unfolded envelope_constants]
  from v show ?thesis by (simp add: unat_max envelope_constants)
qed


section \<open>Credits\<close>

text \<open>The credits still out: the reservations that have not been refunded.\<close>

definition credit :: "body_lease \<Rightarrow> nat" where
  "credit s = (if bl_refunded s then 0 else unat (bl_reserved s))"

definition outstanding :: "body_lease list \<Rightarrow> nat" where
  "outstanding ls = (\<Sum>s \<leftarrow> ls. credit s)"

definition lease_ok :: "body_lease \<Rightarrow> bool" where
  "lease_ok s \<longleftrightarrow> (bl_executing s \<longrightarrow> bl_claimed s) \<and> (bl_claimed s \<longrightarrow> bl_constructed s)
     \<and> (bl_refunded s \<longleftrightarrow> bl_released s \<and> \<not> bl_executing s)
     \<and> (bl_constructed s \<longrightarrow> bl_requestUsed s \<le> bl_requestBytes s)"

definition body_inv :: "body_gate \<Rightarrow> bool" where
  "body_inv g \<longleftrightarrow> unat (bg_used g) = outstanding (bg_leases g) \<and> bg_used g \<le> po_ActiveBytes (bg_policy g)
     \<and> list_all lease_ok (bg_leases g)"

lemma outstanding_simps [simp]:
  "outstanding [] = 0" "outstanding (s # ls) = credit s + outstanding ls"
  "outstanding (ls @ ks) = outstanding ls + outstanding ks"
  by (simp_all add: outstanding_def)

lemma outstanding_update:
  "l < length ls \<Longrightarrow> outstanding (ls[l := s]) + credit (ls ! l) = outstanding ls + credit s"
proof (induction ls arbitrary: l)
  case (Cons x ls)
  then show ?case by (cases l) (auto simp: add.assoc)
qed simp

lemma outstanding_same:
  "l < length ls \<Longrightarrow> bl_refunded s = bl_refunded (ls ! l) \<Longrightarrow> bl_reserved s = bl_reserved (ls ! l) \<Longrightarrow>
   outstanding (ls[l := s]) = outstanding ls"
  using outstanding_update [of l ls s] by (auto simp: credit_def split: if_splits)

lemma list_all_update: "list_all P ls \<Longrightarrow> P s \<Longrightarrow> list_all P (ls[l := s])"
  unfolding list_all_iff using set_update_subset_insert [of ls l s] by auto

lemma New_inv: "NewBodyAdmission self policy = Inr g \<Longrightarrow> body_inv g"
  by (auto simp: NewBodyAdmission_def body_inv_def split: if_splits)

lemma body_acquire_inv:
  assumes inv: "body_inv g" and fresh: "lease_ok s" "\<not> bl_refunded s"
  shows "body_inv (fst (body_acquire c s g))"
proof -
  have "body_inv (g\<lparr>bg_used := bg_used g + bl_reserved s, bg_leases := bg_leases g @ [s]\<rparr>)"
    if fits: "bl_reserved s \<le> po_ActiveBytes (bg_policy g) - bg_used g"
  proof -
    let ?A = "po_ActiveBytes (bg_policy g)"
    from inv have le: "unat (bg_used g) \<le> unat ?A" by (simp add: body_inv_def word_le_nat_alt)
    from fits have "unat (bl_reserved s) \<le> unat ?A - unat (bg_used g)"
      using inv by (simp add: body_inv_def word_le_nat_alt unat_sub)
    with le have sum: "unat (bg_used g) + unat (bl_reserved s) \<le> unat ?A" by simp
    also have "unat ?A < 2 ^ LENGTH(64)" by (rule unsigned_less)
    finally have "unat (bg_used g + bl_reserved s) = unat (bg_used g) + unat (bl_reserved s)"
      by (simp add: unat_word_ariths)
    with sum inv fresh show ?thesis by (simp add: body_inv_def word_le_nat_alt credit_def)
  qed
  with inv show ?thesis by (auto simp: body_acquire_def split: option.splits)
qed

lemma fresh_lease_ok: "lease_ok (fresh_lease g n m)" "\<not> bl_refunded (fresh_lease g n m)"
  by (simp_all add: fresh_lease_def lease_ok_def)

lemma Body_Acquire_inv [runtime_inv]: "body_inv g \<Longrightarrow> body_inv (fst (Body_Acquire c g))"
  by (simp add: Body_Acquire_def body_acquire_inv fresh_lease_ok)

lemma AcquirePlan_inv [runtime_inv]:
  assumes "body_inv g"
  shows "body_inv (fst (AcquirePlan c plan g))"
proof -
  have "lease_ok ((fresh_lease g n m)\<lparr>bl_transformBytes := r, bl_planBound := b, bl_planDigest := d, bl_protocolID := i\<rparr>)"
    "\<not> bl_refunded ((fresh_lease g n m)\<lparr>bl_transformBytes := r, bl_planBound := b, bl_planDigest := d, bl_protocolID := i\<rparr>)"
    for n m r b d i by (simp_all add: fresh_lease_def lease_ok_def)
  with assms show ?thesis
    by (auto simp: AcquirePlan_def split: sum.splits intro!: body_acquire_inv)
qed

lemma set_lease_inv:
  assumes "body_inv g" and "l < length (bg_leases g)" and "lease_ok s"
    and "bl_refunded s = bl_refunded (bg_leases g ! l)" and "bl_reserved s = bl_reserved (bg_leases g ! l)"
  shows "body_inv (set_lease l s g)"
  using assms by (simp add: body_inv_def set_lease_def outstanding_same list_all_update)

lemma lease_okD: "body_inv g \<Longrightarrow> l < length (bg_leases g) \<Longrightarrow> lease_ok (bg_leases g ! l)"
  by (simp add: body_inv_def list_all_length)

lemma reserveConstructor_inv [runtime_inv]:
  "body_inv g \<Longrightarrow> l < length (bg_leases g) \<Longrightarrow> body_inv (fst (reserveConstructor l n g))"
  using lease_okD [of g l] by (auto simp: reserveConstructor_def Let_def lease_ok_def intro!: set_lease_inv)

lemma claim_inv [runtime_inv]:
  "body_inv g \<Longrightarrow> l < length (bg_leases g) \<Longrightarrow> body_inv (fst (claim i l g))"
  using lease_okD [of g l] by (auto simp: claim_def Let_def lease_ok_def intro!: set_lease_inv)

text \<open>Finishing and releasing: the lease takes its final flags, and its credit returns once.\<close>

lemma refund_inv:
  assumes inv: "body_inv g" and l: "l < length (bg_leases g)"
    and s: "bl_refunded s = bl_refunded (bg_leases g ! l)" "bl_reserved s = bl_reserved (bg_leases g ! l)"
      "bl_executing s \<longrightarrow> bl_claimed s" "bl_claimed s \<longrightarrow> bl_constructed s"
      "bl_refunded s \<longrightarrow> bl_released s \<and> \<not> bl_executing s"
      "bl_constructed s \<longrightarrow> bl_requestUsed s \<le> bl_requestBytes s"
  shows "body_inv (refund l (set_lease l s g))"
proof -
  let ?pay = "bl_released s \<and> \<not> bl_executing s \<and> \<not> bl_refunded s"
  let ?r = "s\<lparr>bl_refunded := True\<rparr>"
  show ?thesis
  proof (cases ?pay)
    case True
    have out: "outstanding ((bg_leases g)[l := ?r]) + unat (bl_reserved s) = outstanding (bg_leases g)"
      using outstanding_update [OF l, of ?r] True s by (simp add: credit_def)
    then have "bl_reserved s \<le> bg_used g" using inv by (simp add: body_inv_def word_le_nat_alt)
    then have sub: "unat (bg_used g - bl_reserved s) = unat (bg_used g) - unat (bl_reserved s)" by (simp add: unat_sub)
    then have used: "unat (bg_used g - bl_reserved s) = outstanding ((bg_leases g)[l := ?r])"
      using out inv by (simp add: body_inv_def)
    have "bg_used g - bl_reserved s \<le> po_ActiveBytes (bg_policy g)"
      using inv sub by (auto simp: body_inv_def word_le_nat_alt)
    moreover have "lease_ok ?r" using True s by (simp add: lease_ok_def)
    moreover have "list_all lease_ok (bg_leases g)" using inv by (simp add: body_inv_def)
    ultimately show ?thesis
      using True l used by (simp add: refund_def set_lease_def notify_def body_inv_def list_all_update)
  next
    case False
    then have "lease_ok s" using s by (auto simp: lease_ok_def)
    then have "body_inv (set_lease l s g)" using inv l s by (intro set_lease_inv) auto
    with False l show ?thesis by (auto simp: refund_def set_lease_def)
  qed
qed

lemma finish_inv [runtime_inv]: "body_inv g \<Longrightarrow> l < length (bg_leases g) \<Longrightarrow> body_inv (finish l g)"
  unfolding finish_def using lease_okD [of g l] by (intro refund_inv) (auto simp: lease_ok_def)

lemma Body_Release_inv [runtime_inv]: "body_inv g \<Longrightarrow> l < length (bg_leases g) \<Longrightarrow> body_inv (Body_Release l g)"
  unfolding Body_Release_def using lease_okD [of g l] by (intro refund_inv) (auto simp: lease_ok_def)

lemma shutdown_inv [runtime_inv]: "body_inv g \<Longrightarrow> body_inv (Body_BeginShutdown g)"
  by (simp add: Body_BeginShutdown_def notify_def body_inv_def)


section \<open>Reachable gates\<close>

inductive body_step :: "body_gate \<Rightarrow> body_gate \<Rightarrow> bool" where
  acquire: "body_step g (fst (Body_Acquire c g))"
| acquire_plan: "body_step g (fst (AcquirePlan c plan g))"
| construct: "l < length (bg_leases g) \<Longrightarrow> body_step g (fst (reserveConstructor l n g))"
| claim: "l < length (bg_leases g) \<Longrightarrow> body_step g (fst (claim i l g))"
| finish: "l < length (bg_leases g) \<Longrightarrow> body_step g (finish l g)"
| release: "l < length (bg_leases g) \<Longrightarrow> body_step g (Body_Release l g)"
| shutdown: "body_step g (Body_BeginShutdown g)"

inductive body_reach :: "body_gate \<Rightarrow> bool" where
  new: "NewBodyAdmission self policy = Inr g \<Longrightarrow> body_reach g"
| step: "body_reach g \<Longrightarrow> body_step g h \<Longrightarrow> body_reach h"

lemma body_step_inv: "body_step g h \<Longrightarrow> body_inv g \<Longrightarrow> body_inv h"
  by (induction rule: body_step.induct) (auto intro: runtime_inv)

lemma body_reach_inv: "body_reach g \<Longrightarrow> body_inv g"
  by (induction rule: body_reach.induct) (auto intro: New_inv body_step_inv)

lemma policy_frame [simp]:
  "bg_policy (set_lease l s g) = bg_policy g" "bg_policy (refund l g) = bg_policy g"
  "bg_policy (notify g) = bg_policy g"
  by (simp_all add: set_lease_def refund_def notify_def Let_def)

lemma body_step_policy: "body_step g h \<Longrightarrow> bg_policy h = bg_policy g"
  by (induction rule: body_step.induct)
     (auto simp: Body_Acquire_def AcquirePlan_def body_acquire_def reserveConstructor_def claim_def finish_def
       Body_Release_def Body_BeginShutdown_def Let_def split: option.splits sum.splits)

lemma body_reach_policy: "body_reach g \<Longrightarrow> Policy_Validate (bg_policy g)"
  by (induction rule: body_reach.induct)
     (auto simp: NewBodyAdmission_def body_step_policy split: if_splits)

text \<open>C12: the credits in use are exactly the reservations not yet refunded and never exceed the active
  budget; a lease is refunded exactly when it has been released and is not executing, so an
  execution keeps its credit until it has finished.\<close>

theorem credits_never_overcommitted:
  assumes "body_reach g"
  shows "unat (bg_used g) = (\<Sum>s \<leftarrow> filter (\<lambda>s. \<not> (bl_released s \<and> \<not> bl_executing s)) (bg_leases g). unat (bl_reserved s))
    \<and> bg_used g \<le> po_ActiveBytes (bg_policy g)
    \<and> list_all (\<lambda>s. bl_refunded s = (bl_released s \<and> \<not> bl_executing s)) (bg_leases g)"
proof -
  from body_reach_inv [OF assms] have inv: "unat (bg_used g) = outstanding (bg_leases g)"
      "bg_used g \<le> po_ActiveBytes (bg_policy g)"
    and flags: "list_all (\<lambda>s. bl_refunded s = (bl_released s \<and> \<not> bl_executing s)) (bg_leases g)"
    by (auto simp: body_inv_def lease_ok_def list_all_iff)
  have "outstanding ls = (\<Sum>s \<leftarrow> filter (\<lambda>s. \<not> (bl_released s \<and> \<not> bl_executing s)) ls. unat (bl_reserved s))"
    if "list_all (\<lambda>s. bl_refunded s = (bl_released s \<and> \<not> bl_executing s)) ls" for ls
    using that by (induction ls) (auto simp: credit_def)
  with inv flags show ?thesis by simp
qed

lemma Body_Release_used:
  assumes inv: "body_inv g" and l: "l < length (bg_leases g)"
  shows "unat (bg_used (Body_Release l g)) = unat (bg_used g)
      - (if bl_executing (bg_leases g ! l) \<or> bl_refunded (bg_leases g ! l) then 0 else unat (bl_reserved (bg_leases g ! l)))"
proof (cases "bl_executing (bg_leases g ! l) \<or> bl_refunded (bg_leases g ! l)")
  case True
  with l show ?thesis by (auto simp: Body_Release_def refund_def set_lease_def)
next
  case False
  let ?s = "bg_leases g ! l"
  have "outstanding ((bg_leases g)[l := ?s\<lparr>bl_refunded := True\<rparr>]) + unat (bl_reserved ?s) = outstanding (bg_leases g)"
    using outstanding_update [OF l, of "?s\<lparr>bl_refunded := True\<rparr>"] False by (simp add: credit_def)
  then have "bl_reserved ?s \<le> bg_used g" using inv by (simp add: body_inv_def word_le_nat_alt)
  then have "unat (bg_used g - bl_reserved ?s) = unat (bg_used g) - unat (bl_reserved ?s)" by (simp add: unat_sub)
  with False l show ?thesis by (simp add: Body_Release_def refund_def set_lease_def notify_def)
qed

lemma Body_Release_again:
  assumes "bl_released (bg_leases h ! l) \<and> (bl_refunded (bg_leases h ! l) \<or> bl_executing (bg_leases h ! l))"
  shows "Body_Release l h = h"
proof -
  have "(bg_leases h ! l)\<lparr>bl_released := True\<rparr> = bg_leases h ! l"
    using assms by (cases "bg_leases h ! l") simp
  then have "set_lease l ((bg_leases h ! l)\<lparr>bl_released := True\<rparr>) h = h" by (simp add: set_lease_def)
  with assms show ?thesis by (auto simp: Body_Release_def refund_def Let_def)
qed

text \<open>Releasing a lease returns its credit at most once: a second \<open>Release\<close> changes nothing, and
  the first takes off exactly the reservation, unless the lease still executes.\<close>

theorem body_lease_released_once:
  assumes "body_reach g" and "l < length (bg_leases g)"
  shows "Body_Release l (Body_Release l g) = Body_Release l g
    \<and> unat (bg_used (Body_Release l g)) = unat (bg_used g)
        - (if bl_executing (bg_leases g ! l) \<or> bl_refunded (bg_leases g ! l) then 0
           else unat (bl_reserved (bg_leases g ! l)))"
proof
  let ?h = "Body_Release l g"
  have "bl_released (bg_leases ?h ! l) \<and> (bl_refunded (bg_leases ?h ! l) \<or> bl_executing (bg_leases ?h ! l))"
    using assms(2) by (auto simp: Body_Release_def refund_def set_lease_def notify_def Let_def)
  then show "Body_Release l ?h = ?h" by (rule Body_Release_again)
qed (rule Body_Release_used [OF body_reach_inv [OF assms(1)] assms(2)])

lemma planReservation_Inr:
  assumes "planReservation plan g = Inr (cost, request, retained)"
  obtains base response request0 where "RequiredExecutionEnvelope (po_Content (bg_policy g)) = Some (base, response)"
    "pl_RetainedRequestBytes plan = Some retained" "unat request0 = unat base + unat retained"
    "request = max request0 (po_RequestBytes (bg_policy g))"
    "unat cost = unat (po_SlotBytes (bg_policy g)) + unat (request - po_RequestBytes (bg_policy g))"
    "cost \<le> po_ActiveBytes (bg_policy g)"
proof -
  from assms obtain base response request0 where
    *: "RequiredExecutionEnvelope (po_Content (bg_policy g)) = Some (base, response)"
      "pl_RetainedRequestBytes plan = Some retained" "checkedEnvelope [(base, 1), (retained, 1)] = Some request0"
      "request = max request0 (po_RequestBytes (bg_policy g))"
      "checkedEnvelope [(po_SlotBytes (bg_policy g), 1), (request - po_RequestBytes (bg_policy g), 1)] = Some cost"
      "\<not> po_ActiveBytes (bg_policy g) < cost"
    by (auto simp: planReservation_def Let_def split: option.splits if_splits)
  with * (3,5) [THEN checkedEnvelope_Some] show thesis
    by (intro that [of base response request0]) (auto simp: term_sum_def)
qed

text \<open>A plan's reservation covers its phases separately: the request part holds the base envelope and
  everything the transform chain retains, the whole reservation the request part and the full
  response part, and it fits the active budget.\<close>

theorem plan_reservation_covers:
  assumes "body_reach g" and "planReservation plan g = Inr (cost, request, retained)"
    and "RequiredExecutionEnvelope (po_Content (bg_policy g)) = Some (base, response)"
  shows "unat base + unat retained \<le> unat request
    \<and> unat request + unat (po_ResponseBytes (bg_policy g)) \<le> unat cost \<and> unat response \<le> unat (po_ResponseBytes (bg_policy g))
    \<and> cost \<le> po_ActiveBytes (bg_policy g)"
proof -
  let ?p = "bg_policy g"
  from planReservation_Inr [OF assms(2)] assms(3) obtain request0 where
    r: "unat request0 = unat base + unat retained" "request = max request0 (po_RequestBytes ?p)"
      "unat cost = unat (po_SlotBytes ?p) + unat (request - po_RequestBytes ?p)" "cost \<le> po_ActiveBytes ?p"
    by auto
  from body_reach_policy [OF assms(1)] assms(3) have slot: "po_RequestBytes ?p \<le> po_SlotBytes ?p"
      "po_ResponseBytes ?p \<le> po_SlotBytes ?p - po_RequestBytes ?p" "response \<le> po_ResponseBytes ?p"
    by (auto simp: Policy_Validate_def not_less)
  have "unat (request - po_RequestBytes ?p) = unat request - unat (po_RequestBytes ?p)"
    "unat (po_RequestBytes ?p) \<le> unat request" "unat request0 \<le> unat request"
    using r(2) by (simp_all add: unat_sub unat_max)
  moreover have "unat (po_ResponseBytes ?p) \<le> unat (po_SlotBytes ?p) - unat (po_RequestBytes ?p)"
      "unat (po_RequestBytes ?p) \<le> unat (po_SlotBytes ?p)" "unat response \<le> unat (po_ResponseBytes ?p)"
    using slot by (simp_all add: word_le_nat_alt unat_sub)
  ultimately have "unat base + unat retained \<le> unat request"
      "unat request + unat (po_ResponseBytes ?p) \<le> unat cost" "unat response \<le> unat (po_ResponseBytes ?p)"
    using r(1,3) by arith+
  with r(4) show ?thesis by blast
qed

text \<open>An acquisition waits only for credits that are out: a plan that cannot fit is refused, never
  queued, so with no credit in use and no shutdown every feasible plan is admitted at once.\<close>

theorem plan_waits_only_for_credits:
  assumes "body_reach g" and "snd (AcquirePlan c plan g) = BodyWait n"
  shows "bg_used g \<noteq> 0 \<and> \<not> bg_closing g \<and> n = bg_changed g
    \<and> (\<exists>cost request retained. planReservation plan g = Inr (cost, request, retained)
         \<and> unat (po_ActiveBytes (bg_policy g)) < unat (bg_used g) + unat cost)"
proof -
  from assms(2) obtain cost request retained where
    plan: "planReservation plan g = Inr (cost, request, retained)" and
    full: "\<not> cost \<le> po_ActiveBytes (bg_policy g) - bg_used g" and rest: "\<not> bg_closing g" "n = bg_changed g"
    by (auto simp: AcquirePlan_def body_acquire_def fresh_lease_def split: if_splits sum.splits option.splits)
  have "cost \<le> po_ActiveBytes (bg_policy g)" by (rule planReservation_Inr [OF plan])
  with full have "bg_used g \<noteq> 0" by auto
  moreover have "bg_used g \<le> po_ActiveBytes (bg_policy g)" using body_reach_inv [OF assms(1)] by (simp add: body_inv_def)
  with full have "unat (po_ActiveBytes (bg_policy g)) < unat (bg_used g) + unat cost"
    by (simp add: word_le_nat_alt unat_sub)
  ultimately show ?thesis using plan rest by blast
qed


section \<open>Shutdown\<close>

definition unrefunded :: "body_gate \<Rightarrow> nat set" where
  "unrefunded g = {l. l < length (bg_leases g) \<and> \<not> bl_refunded (bg_leases g ! l)}"

text \<open>Reservations of a reachable gate are positive: a slot holds at least one byte.\<close>

definition body_ok :: "body_gate \<Rightarrow> bool" where
  "body_ok g \<longleftrightarrow> body_inv g \<and> Policy_Validate (bg_policy g) \<and> list_all (\<lambda>s. bl_reserved s \<noteq> 0) (bg_leases g)"

definition let_body_go :: "nat \<Rightarrow> body_gate \<Rightarrow> body_gate" where
  "let_body_go l g = Body_Release l (finish l g)"

lemma outstanding_zero:
  "list_all (\<lambda>s. bl_reserved s \<noteq> 0) ls \<Longrightarrow> outstanding ls = 0 \<longleftrightarrow> list_all bl_refunded ls"
  by (induction ls) (auto simp: credit_def unat_eq_0)

lemma refund_frame:
  assumes "l < length (bg_leases g)"
  shows "length (bg_leases (refund l (set_lease l s g))) = length (bg_leases g)"
    and "bg_closing (refund l (set_lease l s g)) = bg_closing g"
    and "k < length (bg_leases g) \<Longrightarrow> bl_refunded (bg_leases (refund l (set_lease l s g)) ! k)
       = (if k = l then bl_refunded s \<or> bl_released s \<and> \<not> bl_executing s else bl_refunded (bg_leases g ! k))"
    and "k < length (bg_leases g) \<Longrightarrow> bl_reserved (bg_leases (refund l (set_lease l s g)) ! k)
       = (if k = l then bl_reserved s else bl_reserved (bg_leases g ! k))"
  using assms by (auto simp: refund_def set_lease_def notify_def Let_def nth_list_update)

lemma slot_positive: "Policy_Validate p \<Longrightarrow> po_SlotBytes p \<noteq> 0"
  by (auto simp: Policy_Validate_def word_gt_0)

lemma plan_cost_positive:
  assumes "Policy_Validate (bg_policy g)" and "planReservation plan g = Inr (cost, request, retained)"
  shows "cost \<noteq> 0"
proof -
  have "unat (po_SlotBytes (bg_policy g)) \<le> unat cost" by (rule planReservation_Inr [OF assms(2)]) simp
  moreover have "0 < unat (po_SlotBytes (bg_policy g))"
    using slot_positive [OF assms(1)] by (simp add: unat_gt_0)
  ultimately show ?thesis by auto
qed

lemma lease_update_positive:
  "list_all (\<lambda>s. bl_reserved s \<noteq> 0) ls \<Longrightarrow> l < length ls \<Longrightarrow> bl_reserved x = bl_reserved (ls ! l) \<Longrightarrow>
   list_all (\<lambda>s. bl_reserved s \<noteq> 0) (ls[l := x])"
  by (simp add: list_all_length nth_list_update)

lemma body_acquire_positive:
  assumes "list_all (\<lambda>s. bl_reserved s \<noteq> 0) (bg_leases g)" and "bl_reserved s \<noteq> 0"
  shows "list_all (\<lambda>s. bl_reserved s \<noteq> 0) (bg_leases (fst (body_acquire c s g)))"
  using assms by (simp add: body_acquire_def split: option.splits)

lemma refund_positive:
  assumes "list_all (\<lambda>s. bl_reserved s \<noteq> 0) (bg_leases g)" and "l < length (bg_leases g)"
    and "bl_reserved s = bl_reserved (bg_leases g ! l)"
  shows "list_all (\<lambda>s. bl_reserved s \<noteq> 0) (bg_leases (refund l (set_lease l s g)))"
  using assms refund_frame [OF assms(2)] by (auto simp: list_all_length)

lemma body_step_ok: "body_step g h \<Longrightarrow> body_ok g \<Longrightarrow> body_ok h"
proof -
  assume step: "body_step g h" and ok: "body_ok g"
  from ok have pos: "list_all (\<lambda>s. bl_reserved s \<noteq> 0) (bg_leases g)" and pol: "Policy_Validate (bg_policy g)"
    by (simp_all add: body_ok_def)
  from step have "list_all (\<lambda>s. bl_reserved s \<noteq> 0) (bg_leases h)"
  proof cases
    case (acquire c)
    moreover note slot_positive [OF pol]
    ultimately show ?thesis
      using pos by (auto simp: Body_Acquire_def fresh_lease_def intro!: body_acquire_positive)
  next
    case (acquire_plan c plan)
    with pos plan_cost_positive [OF pol] show ?thesis
      by (auto simp: AcquirePlan_def fresh_lease_def split: sum.splits intro!: body_acquire_positive)
  next
    case (construct l n)
    with pos show ?thesis
      by (auto simp: reserveConstructor_def Let_def set_lease_def intro!: lease_update_positive)
  next
    case (claim l i)
    with pos show ?thesis by (auto simp: claim_def Let_def set_lease_def intro!: lease_update_positive)
  next
    case (finish l)
    with pos show ?thesis by (simp add: finish_def refund_positive)
  next
    case (release l)
    with pos show ?thesis by (simp add: Body_Release_def refund_positive)
  qed (use pos in \<open>simp add: Body_BeginShutdown_def notify_def\<close>)
  with step ok show ?thesis by (auto simp: body_ok_def body_step_inv body_step_policy)
qed

lemma body_reach_ok: "body_reach g \<Longrightarrow> body_ok g"
proof (induction rule: body_reach.induct)
  case (new self policy g)
  then show ?case using New_inv [OF new] by (auto simp: body_ok_def NewBodyAdmission_def split: if_splits)
qed (blast intro: body_step_ok)

lemma body_step_closed:
  "body_step g h \<Longrightarrow> bg_closing g \<Longrightarrow> bg_closing h \<and> unrefunded h \<subseteq> unrefunded g"
proof (induction rule: body_step.induct)
  case (finish l g)
  then show ?case by (auto simp: finish_def unrefunded_def refund_frame split: if_splits)
next
  case (release l g)
  then show ?case by (auto simp: Body_Release_def unrefunded_def refund_frame split: if_splits)
qed (auto simp: Body_Acquire_def AcquirePlan_def body_acquire_def reserveConstructor_def claim_def set_lease_def
    Body_BeginShutdown_def notify_def unrefunded_def nth_list_update Let_def
    split: option.splits sum.splits if_splits)

lemma let_body_go_removes:
  assumes "l < length (bg_leases g)"
  shows "unrefunded (let_body_go l g) = unrefunded g - {l}"
proof -
  let ?h = "finish l g"
  have len: "length (bg_leases ?h) = length (bg_leases g)" using assms by (simp add: finish_def refund_frame)
  have "\<not> bl_executing (bg_leases ?h ! l)"
    using assms by (simp add: finish_def refund_def set_lease_def notify_def Let_def)
  moreover have "bl_refunded (bg_leases ?h ! k) = bl_refunded (bg_leases g ! k)" if "k < length (bg_leases g)" "k \<noteq> l" for k
    using that assms by (simp add: finish_def refund_frame)
  ultimately show ?thesis
    using assms by (auto simp: let_body_go_def Body_Release_def unrefunded_def refund_frame len split: if_splits)
qed

interpretation body_gate: releasing_gate body_step body_ok bg_closing unrefunded Body_Drained let_body_go
proof (unfold_locales, goal_cases)
  case (1 s t) then show ?case by (blast intro: body_step_ok)
next
  case (2 s t) then show ?case by (blast dest: body_step_closed)
next
  case (3 s t) then show ?case by (blast dest: body_step_closed)
next
  case (4 s)
  then have "bg_used s = 0 \<longleftrightarrow> list_all bl_refunded (bg_leases s)"
    using outstanding_zero [of "bg_leases s"] by (simp add: body_ok_def body_inv_def flip: unat_eq_0)
  then show ?case by (auto simp: Body_Drained_def unrefunded_def list_all_length)
next
  case (5 s h)
  then have h: "h < length (bg_leases s)" by (simp add: unrefunded_def)
  then have "h < length (bg_leases (finish h s))" by (simp add: finish_def refund_frame)
  from body_step.finish [OF h] body_step.release [OF this] show ?case by (simp add: let_body_go_def)
next
  case (6 s h)
  then have "h < length (bg_leases s)" by (simp add: unrefunded_def)
  then show ?case by (rule let_body_go_removes)
qed

text \<open>After shutdown the body gate admits nobody, and it drains: \<open>Drain\<close> is over exactly when every
  lease has been refunded, which finishing and releasing the open leases in any order brings
  about.\<close>

theorem body_shutdown_drains:
  assumes "body_reach g" and "bg_closing g" and "body_step\<^sup>*\<^sup>* g h"
    and "distinct order" and "set order = unrefunded h"
  shows "unrefunded h \<subseteq> unrefunded g \<and> (Body_Drained h \<longleftrightarrow> unrefunded h = {})
    \<and> Body_Drained (fold (\<lambda>l g. Body_Release l (finish l g)) order h)"
proof -
  note h = body_gate.closed_run [OF assms(3) body_reach_ok [OF assms(1)] assms(2)]
  have "let_body_go = (\<lambda>l g. Body_Release l (finish l g))" by (simp add: fun_eq_iff let_body_go_def)
  with h body_gate.drains [of h order] assms(4,5) body_gate.drained_iff [of h] show ?thesis by simp
qed

section \<open>Witnesses\<close>

definition small_limits :: source_limits where
  "small_limits = \<lparr>sl_Request = \<lparr>rc_PayloadBytes = 1, rc_StructureBytes = 1\<rparr>,
     sl_Response = \<lparr>rc_PayloadBytes = 1, rc_StructureBytes = 1\<rparr>,
     sl_Scratch = \<lparr>rc_PayloadBytes = 1, rc_StructureBytes = 1\<rparr>,
     sl_CanonicalBytes = 1, sl_RetainedBytes = 1, sl_StructureBytes = 1\<rparr>"

definition small_policy :: resource_policy where
  "small_policy = \<lparr>po_Content = small_limits, po_RequestBytes = 477970956, po_ResponseBytes = 379617294,
     po_SlotBytes = 857588250, po_ActiveBytes = 857588350\<rparr>"

definition small_plan :: request_plan where
  "small_plan = \<lparr>pl_RetainedRequestBytes = Some 100, pl_EnvironmentDigest = ''d'', pl_ProtocolID = ''p''\<rparr>"

lemma small_envelope: "RequiredExecutionEnvelope small_limits = Some (477970956, 379617294)"
  by (simp add: RequiredExecutionEnvelope_def small_limits_def SourceLimits_Validate_def ResourceLimits_Validate_def
      maxCredit_def checkedEnvelope_def wire_bytes_def header_bytes_def context_bytes_def metadata_bytes_def
      word_less_nat_alt)

definition small_gate :: body_gate where
  "small_gate = \<lparr>bg_self = 0, bg_policy = small_policy, bg_used = 0, bg_closing = False, bg_changed = 0, bg_leases = []\<rparr>"

lemma small_gate_reach: "body_reach small_gate"
proof (rule body_reach.new)
  show "NewBodyAdmission 0 small_policy = Inr small_gate"
    using small_envelope
    by (simp add: NewBodyAdmission_def Policy_Validate_def small_gate_def small_policy_def small_limits_def
        SourceLimits_Validate_def ResourceLimits_Validate_def maxCredit_def word_less_nat_alt)
qed

lemma small_reservation: "planReservation small_plan small_gate = Inr (857588350, 477971056, 100)"
  by (simp add: planReservation_def small_plan_def small_gate_def small_policy_def small_envelope
      checkedEnvelope_def maxCredit_def Let_def max_def word_less_nat_alt word_le_nat_alt)

definition small_lease :: body_lease where
  "small_lease = (fresh_lease small_gate 857588350 477971056)\<lparr>bl_transformBytes := 100, bl_planBound := True,
     bl_planDigest := ''d'', bl_protocolID := ''p''\<rparr>"

definition busy_gate :: body_gate where
  "busy_gate = small_gate\<lparr>bg_used := 857588350, bg_leases := [small_lease]\<rparr>"

lemma busy_run: "AcquirePlan CtxLive small_plan small_gate = (busy_gate, BodyGranted 0)"
  by (simp add: AcquirePlan_def small_reservation body_acquire_def busy_gate_def small_lease_def)
     (simp add: small_plan_def small_gate_def small_policy_def fresh_lease_def)

lemma busy_reach: "body_reach busy_gate"
  using body_reach.step [OF small_gate_reach body_step.acquire_plan, of CtxLive small_plan] by (simp add: busy_run)

lemma busy_reservation: "planReservation small_plan busy_gate = Inr (857588350, 477971056, 100)"
proof -
  have same: "bg_policy busy_gate = bg_policy small_gate" by (simp add: busy_gate_def)
  show ?thesis using small_reservation unfolding planReservation_def same .
qed

theorem RequiredExecutionEnvelope_exact_witness:
  "unat (fst (the (RequiredExecutionEnvelope small_limits))) = 6 * (1 + 1) + 134217728 + max 343753216 5"
proof -
  have "rc_PayloadBytes (sl_Request small_limits) = 1" "rc_StructureBytes (sl_Request small_limits) = 1"
    by (simp_all add: small_limits_def)
  with RequiredExecutionEnvelope_exact [OF small_envelope] show ?thesis by (simp add: small_envelope)
qed

theorem credits_never_overcommitted_witness:
  "unat (bg_used busy_gate) = 857588350 \<and> bg_used busy_gate \<le> po_ActiveBytes (bg_policy busy_gate)"
  using credits_never_overcommitted [OF busy_reach]
  by (simp add: busy_gate_def small_lease_def fresh_lease_def)

theorem body_lease_released_once_witness:
  "unat (bg_used (Body_Release 0 busy_gate)) = 0 \<and> Body_Release 0 (Body_Release 0 busy_gate) = Body_Release 0 busy_gate"
  using body_lease_released_once [OF busy_reach, of 0]
  by (simp add: busy_gate_def small_lease_def fresh_lease_def)

theorem plan_reservation_covers_witness:
  "unat (477970956 :: uint64) + unat (100 :: uint64) \<le> unat (477971056 :: uint64)
   \<and> planReservation small_plan small_gate = Inr (857588350, 477971056, 100)"
  using plan_reservation_covers [OF small_gate_reach small_reservation] small_reservation small_envelope
  by (simp add: small_gate_def small_policy_def)

theorem plan_waits_only_for_credits_witness:
  "snd (AcquirePlan CtxLive small_plan busy_gate) = BodyWait 0 \<and> bg_used busy_gate \<noteq> 0"
proof -
  have "snd (AcquirePlan CtxLive small_plan busy_gate) = BodyWait 0"
    by (simp add: AcquirePlan_def busy_reservation body_acquire_def)
       (simp add: busy_gate_def small_gate_def small_policy_def fresh_lease_def word_le_nat_alt)
  with plan_waits_only_for_credits [OF busy_reach] show ?thesis by blast
qed


theorem body_shutdown_drains_witness:
  "Body_Drained (Body_Release 0 (finish 0 (Body_BeginShutdown busy_gate)))"
proof -
  have "unrefunded (Body_BeginShutdown busy_gate) = {0}" "bg_closing (Body_BeginShutdown busy_gate)"
    by (auto simp: unrefunded_def Body_BeginShutdown_def notify_def busy_gate_def small_lease_def fresh_lease_def)
  with body_shutdown_drains [OF body_reach.step [OF busy_reach body_step.shutdown],
      of "Body_BeginShutdown busy_gate" "[0]"] show ?thesis by simp
qed

end
