(* ===== verification/Lifecycle_Gates.thy ===== *)
theory Lifecycle_Gates
  imports Go_Prelude Shutdown_Contract
begin

text \<open>
  The two counting gates that admit a manager's operations until shutdown
  (\<open>src/internal/lifecyclegate/gate.go\<close>, \<open>src/internal/captureassignment/lifecycle.go\<close>).
  A panic (closing a closed channel, a negative count) is the result \<open>None\<close>.  Operations are
  numbered in the order of admission; each carries the state of its \<open>sync.Once\<close> and the cause its
  context was canceled with.
\<close>

section \<open>The manager gate\<close>

datatype gate_error = GateInvalid | GateStopping | GateContext ctx_error

datatype cancel_cause = CauseStopping | CauseFinished | CauseCaller ctx_error

record operation =
  op_finished :: bool
  op_cause :: "cancel_cause option"

record lifecycle_gate =
  lg_accepting :: bool
  lg_active :: int
  lg_drained :: bool
  lg_owner_canceled :: bool
  lg_ops :: "operation list"

definition New_lifecycle :: lifecycle_gate where
  "New_lifecycle = \<lparr>lg_accepting = True, lg_active = 0, lg_drained = False, lg_owner_canceled = False, lg_ops = []\<rparr>"

definition Begin :: "ctx \<Rightarrow> lifecycle_gate \<Rightarrow> lifecycle_gate \<times> (gate_error + nat)" where
  "Begin caller g =
     (if caller = CtxNil then (g, Inl GateInvalid)
      else (case ctx_err caller of
         Some e \<Rightarrow> (g, Inl (GateContext e))
       | None \<Rightarrow>
           if \<not> lg_accepting g then (g, Inl GateStopping)
           else (g\<lparr>lg_active := lg_active g + 1, lg_ops := lg_ops g @ [\<lparr>op_finished = False, op_cause = None\<rparr>]\<rparr>,
                 Inr (length (lg_ops g)))))"

definition close_drained :: "lifecycle_gate \<Rightarrow> lifecycle_gate option" where
  "close_drained g = (if lg_drained g then None else Some (g\<lparr>lg_drained := True\<rparr>))"

definition finish_locked :: "lifecycle_gate \<Rightarrow> lifecycle_gate option" where
  "finish_locked g =
     (let g1 = g\<lparr>lg_active := lg_active g - 1\<rparr> in
      if lg_active g1 < 0 then None
      else if \<not> lg_accepting g1 \<and> lg_active g1 = 0 then close_drained g1
      else Some g1)"

definition cancel_with :: "cancel_cause \<Rightarrow> operation \<Rightarrow> operation" where
  "cancel_with cause op = (case op_cause op of None \<Rightarrow> op\<lparr>op_cause := Some cause\<rparr> | Some _ \<Rightarrow> op)"

text \<open>The function \<open>Begin\<close> returns: once, it stops the propagation of the owner's cancellation,
  cancels the operation and leaves the gate.\<close>

definition Finish :: "nat \<Rightarrow> lifecycle_gate \<Rightarrow> lifecycle_gate option" where
  "Finish i g =
     (if op_finished (lg_ops g ! i) then Some g
      else finish_locked (g\<lparr>lg_ops := (lg_ops g)[i := (cancel_with CauseFinished (lg_ops g ! i))\<lparr>op_finished := True\<rparr>]\<rparr>))"

definition CloseAdmission :: "lifecycle_gate \<Rightarrow> lifecycle_gate option" where
  "CloseAdmission g =
     (if \<not> lg_accepting g then Some g
      else
        let g1 = g\<lparr>lg_accepting := False, lg_owner_canceled := True\<rparr> in
        if lg_active g1 = 0 then close_drained g1 else Some g1)"

text \<open>The callback of \<open>context.AfterFunc\<close>, and the end of a caller's own context.\<close>

definition owner_cancels :: "nat \<Rightarrow> lifecycle_gate \<Rightarrow> lifecycle_gate" where
  "owner_cancels i g =
     (if lg_owner_canceled g \<and> \<not> op_finished (lg_ops g ! i)
      then g\<lparr>lg_ops := (lg_ops g)[i := cancel_with CauseStopping (lg_ops g ! i)]\<rparr> else g)"

definition caller_ends :: "nat \<Rightarrow> ctx_error \<Rightarrow> lifecycle_gate \<Rightarrow> lifecycle_gate" where
  "caller_ends i e g = g\<lparr>lg_ops := (lg_ops g)[i := cancel_with (CauseCaller e) (lg_ops g ! i)]\<rparr>"

text \<open>\<open>Drain\<close> returns at once or when the channel it read is closed.\<close>

definition Drain_now :: "lifecycle_gate \<Rightarrow> bool" where
  "Drain_now g \<longleftrightarrow> \<not> lg_accepting g \<and> lg_active g = 0 \<or> lg_drained g"

section \<open>The assignment gate\<close>

text \<open>\<open>zero\<close> is a channel that is replaced when the gate stops being idle; channels are numbered,
  and the set of closed ones is kept.\<close>

record assignment_gate =
  ag_open :: bool
  ag_active :: int
  ag_zero :: nat
  ag_closed :: "nat set"
  ag_ops :: "bool list"

definition newLifecycleGate :: assignment_gate where
  "newLifecycleGate = \<lparr>ag_open = True, ag_active = 0, ag_zero = 0, ag_closed = {0}, ag_ops = []\<rparr>"

definition begin_assignment :: "ctx \<Rightarrow> assignment_gate \<Rightarrow> assignment_gate \<times> (gate_error + nat)" where
  "begin_assignment c g =
     (if c = CtxNil then (g, Inl GateInvalid)
      else (case ctx_err c of
         Some e \<Rightarrow> (g, Inl (GateContext e))
       | None \<Rightarrow>
           if \<not> ag_open g then (g, Inl GateStopping)
           else (g\<lparr>ag_zero := (if ag_active g = 0 then Suc (ag_zero g) else ag_zero g),
                   ag_active := ag_active g + 1, ag_ops := ag_ops g @ [False]\<rparr>,
                 Inr (length (ag_ops g)))))"

definition finish_assignment :: "nat \<Rightarrow> assignment_gate \<Rightarrow> assignment_gate option" where
  "finish_assignment i g =
     (if ag_ops g ! i then Some g
      else
        let g1 = g\<lparr>ag_ops := (ag_ops g)[i := True], ag_active := ag_active g - 1\<rparr> in
        if ag_active g1 = 0
        then (if ag_zero g1 \<in> ag_closed g1 then None else Some (g1\<lparr>ag_closed := insert (ag_zero g1) (ag_closed g1)\<rparr>))
        else Some g1)"

definition close_assignment :: "assignment_gate \<Rightarrow> assignment_gate" where
  "close_assignment g = g\<lparr>ag_open := False\<rparr>"

text \<open>A call of \<open>drain\<close> that read channel \<open>z\<close> returns when \<open>z\<close> is closed.\<close>

definition drain_returns :: "nat \<Rightarrow> assignment_gate \<Rightarrow> bool" where
  "drain_returns z g \<longleftrightarrow> z \<in> ag_closed g"

section \<open>Steps\<close>

inductive lifecycle_step :: "lifecycle_gate \<Rightarrow> lifecycle_gate \<Rightarrow> bool" where
  begins: "lifecycle_step g (fst (Begin c g))"
| finishes: "i < length (lg_ops g) \<Longrightarrow> Finish i g = Some h \<Longrightarrow> lifecycle_step g h"
| closes: "CloseAdmission g = Some h \<Longrightarrow> lifecycle_step g h"
| cancels: "i < length (lg_ops g) \<Longrightarrow> lifecycle_step g (owner_cancels i g)"
| ends: "i < length (lg_ops g) \<Longrightarrow> lifecycle_step g (caller_ends i e g)"

inductive assignment_step :: "assignment_gate \<Rightarrow> assignment_gate \<Rightarrow> bool" where
  begins: "assignment_step g (fst (begin_assignment c g))"
| finishes: "i < length (ag_ops g) \<Longrightarrow> finish_assignment i g = Some h \<Longrightarrow> assignment_step g h"
| closes: "assignment_step g (close_assignment g)"

definition open_ops :: "lifecycle_gate \<Rightarrow> nat set" where
  "open_ops g = {i. i < length (lg_ops g) \<and> \<not> op_finished (lg_ops g ! i)}"

definition lifecycle_inv :: "lifecycle_gate \<Rightarrow> bool" where
  "lifecycle_inv g \<longleftrightarrow> lg_active g = int (card (open_ops g)) \<and> lg_drained g = (\<not> lg_accepting g \<and> lg_active g = 0)
     \<and> lg_owner_canceled g = (\<not> lg_accepting g)"

definition running :: "assignment_gate \<Rightarrow> nat set" where
  "running g = {i. i < length (ag_ops g) \<and> \<not> ag_ops g ! i}"

definition assignment_inv :: "assignment_gate \<Rightarrow> bool" where
  "assignment_inv g \<longleftrightarrow> ag_active g = int (card (running g))
     \<and> (ag_zero g \<in> ag_closed g \<longleftrightarrow> ag_active g = 0) \<and> (\<forall>z \<in> ag_closed g. z \<le> ag_zero g)"

lemma open_ops_finite [simp]: "finite (open_ops g)"
  by (simp add: open_ops_def)

lemma running_finite [simp]: "finite (running g)"
  by (simp add: running_def)

lemma open_ops_append:
  "open_ops (g\<lparr>lg_active := n, lg_ops := lg_ops g @ [\<lparr>op_finished = False, op_cause = None\<rparr>]\<rparr>)
     = insert (length (lg_ops g)) (open_ops g)"
  by (auto simp: open_ops_def nth_append less_Suc_eq)

lemma open_ops_finish:
  "i < length (lg_ops g) \<Longrightarrow> op_finished x \<Longrightarrow> open_ops (g\<lparr>lg_ops := (lg_ops g)[i := x]\<rparr>) = open_ops g - {i}"
  by (auto simp: open_ops_def nth_list_update)

lemma open_ops_keep:
  "op_finished x = op_finished (lg_ops g ! i) \<Longrightarrow> open_ops (g\<lparr>lg_ops := (lg_ops g)[i := x]\<rparr>) = open_ops g"
  using nth_update_proj [of op_finished x "lg_ops g" i] by (auto simp: open_ops_def)

lemma cancel_with_finished [simp]: "op_finished (cancel_with c op) = op_finished op"
  by (simp add: cancel_with_def split: option.splits)


section \<open>The manager gate keeps its contract\<close>

lemma card_open_drop: "i \<in> open_ops g \<Longrightarrow> card (open_ops g) = Suc (card (open_ops g - {i}))"
  by (rule card.remove) simp_all

lemma Begin_inv: "lifecycle_inv g \<Longrightarrow> lifecycle_inv (fst (Begin c g))"
proof -
  assume inv: "lifecycle_inv g"
  have "length (lg_ops g) \<notin> open_ops g" by (simp add: open_ops_def)
  then have "lifecycle_inv (g\<lparr>lg_active := lg_active g + 1, lg_ops := lg_ops g @ [\<lparr>op_finished = False, op_cause = None\<rparr>]\<rparr>)"
    if "lg_accepting g"
    using inv that by (simp add: lifecycle_inv_def open_ops_append)
  with inv show ?thesis by (auto simp: Begin_def split: option.splits)
qed

lemma Finish_total:
  assumes inv: "lifecycle_inv g" and i: "i < length (lg_ops g)"
  shows "\<exists>h. Finish i g = Some h \<and> lifecycle_inv h \<and> open_ops h = open_ops g - {i}
    \<and> lg_accepting h = lg_accepting g"
proof (cases "op_finished (lg_ops g ! i)")
  case True
  then have "open_ops g - {i} = open_ops g" by (auto simp: open_ops_def)
  with True inv show ?thesis by (simp add: Finish_def)
next
  case False
  let ?x = "(cancel_with CauseFinished (lg_ops g ! i))\<lparr>op_finished := True\<rparr>"
  let ?h = "g\<lparr>lg_ops := (lg_ops g)[i := ?x], lg_active := lg_active g - 1\<rparr>"
  have mem: "i \<in> open_ops g" using False i by (simp add: open_ops_def)
  have ops: "open_ops ?h = open_ops g - {i}"
    using open_ops_finish [OF i, of ?x] by (simp add: open_ops_def)
  have active: "lg_active g - 1 = int (card (open_ops g - {i}))" "lg_active g \<noteq> 0"
    using inv card_open_drop [OF mem] by (simp_all add: lifecycle_inv_def)
  have drop: "open_ops (?h\<lparr>lg_drained := True\<rparr>) = open_ops g - {i}" using ops by (simp add: open_ops_def)
  show ?thesis
    using inv active False ops drop
    by (auto simp: Finish_def finish_locked_def Let_def close_drained_def lifecycle_inv_def)
qed

lemma Close_total:
  assumes "lifecycle_inv g"
  shows "\<exists>h. CloseAdmission g = Some h \<and> lifecycle_inv h \<and> open_ops h = open_ops g \<and> \<not> lg_accepting h"
  using assms by (auto simp: CloseAdmission_def Let_def close_drained_def lifecycle_inv_def open_ops_def)

lemma cancel_inv:
  "lifecycle_inv g \<Longrightarrow> lifecycle_inv (owner_cancels i g)" "lifecycle_inv g \<Longrightarrow> lifecycle_inv (caller_ends i e g)"
  "open_ops (owner_cancels i g) = open_ops g" "open_ops (caller_ends i e g) = open_ops g"
  by (auto simp: owner_cancels_def caller_ends_def lifecycle_inv_def open_ops_keep)

lemma lifecycle_step_inv: "lifecycle_step g h \<Longrightarrow> lifecycle_inv g \<Longrightarrow> lifecycle_inv h"
proof (induction rule: lifecycle_step.induct)
  case (finishes i g h)
  then show ?case using Finish_total by fastforce
next
  case (closes g h)
  then show ?case using Close_total by fastforce
qed (simp_all add: Begin_inv cancel_inv)

lemma lifecycle_step_closed:
  "lifecycle_step g h \<Longrightarrow> lifecycle_inv g \<Longrightarrow> \<not> lg_accepting g \<Longrightarrow> \<not> lg_accepting h \<and> open_ops h \<subseteq> open_ops g"
proof (induction rule: lifecycle_step.induct)
  case (begins g c)
  then show ?case by (simp add: Begin_def split: option.splits)
next
  case (finishes i g h)
  then show ?case using Finish_total by fastforce
next
  case (closes g h)
  then show ?case using Close_total by fastforce
qed (simp_all add: cancel_inv, simp_all add: owner_cancels_def caller_ends_def)

definition finish_op :: "nat \<Rightarrow> lifecycle_gate \<Rightarrow> lifecycle_gate" where
  "finish_op i g = (case Finish i g of None \<Rightarrow> g | Some h \<Rightarrow> h)"

interpretation manager_gate: releasing_gate lifecycle_step lifecycle_inv "\<lambda>g. \<not> lg_accepting g" open_ops Drain_now finish_op
proof (unfold_locales, goal_cases)
  case (1 s t) then show ?case by (blast intro: lifecycle_step_inv)
next
  case (2 s t) then show ?case by (blast dest: lifecycle_step_closed)
next
  case (3 s t) then show ?case by (blast dest: lifecycle_step_closed)
next
  case (4 s) then show ?case by (auto simp: Drain_now_def lifecycle_inv_def)
next
  case (5 s h)
  then have h: "h < length (lg_ops s)" by (simp add: open_ops_def)
  from Finish_total [OF 5(1) h] obtain t where t: "Finish h s = Some t" by blast
  from lifecycle_step.finishes [OF h t] show ?case by (simp add: finish_op_def t)
next
  case (6 s h)
  then have "h < length (lg_ops s)" by (simp add: open_ops_def)
  from Finish_total [OF 6(1) this] obtain t where "Finish h s = Some t" "open_ops t = open_ops s - {h}" by blast
  then show ?case by (simp only: finish_op_def option.case)
qed

section \<open>The assignment gate keeps its contract\<close>

lemma begin_assignment_inv: "assignment_inv g \<Longrightarrow> assignment_inv (fst (begin_assignment c g))"
proof -
  assume inv: "assignment_inv g"
  let ?h = "g\<lparr>ag_zero := (if ag_active g = 0 then Suc (ag_zero g) else ag_zero g), ag_active := ag_active g + 1,
    ag_ops := ag_ops g @ [False]\<rparr>"
  have "running ?h = insert (length (ag_ops g)) (running g)" by (auto simp: running_def nth_append less_Suc_eq)
  moreover have "length (ag_ops g) \<notin> running g" by (simp add: running_def)
  ultimately have "assignment_inv ?h" using inv by (auto simp: assignment_inv_def)
  with inv show ?thesis by (auto simp: begin_assignment_def split: option.splits)
qed

lemma finish_assignment_total:
  assumes inv: "assignment_inv g" and i: "i < length (ag_ops g)"
  shows "\<exists>h. finish_assignment i g = Some h \<and> assignment_inv h \<and> running h = running g - {i} \<and> ag_open h = ag_open g
    \<and> ag_zero h = ag_zero g"
proof (cases "ag_ops g ! i")
  case True
  then have "running g - {i} = running g" by (auto simp: running_def)
  with True inv show ?thesis by (simp add: finish_assignment_def)
next
  case False
  let ?h = "g\<lparr>ag_ops := (ag_ops g)[i := True], ag_active := ag_active g - 1\<rparr>"
  have mem: "i \<in> running g" using False i by (simp add: running_def)
  have ops: "running ?h = running g - {i}" using i by (auto simp: running_def nth_list_update)
  have active: "ag_active g - 1 = int (card (running g - {i}))" "ag_active g \<noteq> 0"
    using inv card.remove [OF running_finite mem] by (simp_all add: assignment_inv_def)
  have drop: "running (?h\<lparr>ag_closed := z\<rparr>) = running g - {i}" for z using ops by (simp add: running_def)
  show ?thesis
    using inv active False ops drop by (auto simp: finish_assignment_def Let_def assignment_inv_def)
qed

lemma close_assignment_inv:
  "assignment_inv g \<Longrightarrow> assignment_inv (close_assignment g)" "running (close_assignment g) = running g"
  by (simp_all add: close_assignment_def assignment_inv_def running_def)

lemma assignment_step_inv: "assignment_step g h \<Longrightarrow> assignment_inv g \<Longrightarrow> assignment_inv h"
proof (induction rule: assignment_step.induct)
  case (finishes i g h)
  then show ?case using finish_assignment_total by fastforce
qed (simp_all add: begin_assignment_inv close_assignment_inv)

lemma assignment_step_closed:
  "assignment_step g h \<Longrightarrow> assignment_inv g \<Longrightarrow> \<not> ag_open g \<Longrightarrow>
   \<not> ag_open h \<and> running h \<subseteq> running g \<and> ag_zero h = ag_zero g"
proof (induction rule: assignment_step.induct)
  case (begins g c)
  then show ?case by (simp add: begin_assignment_def split: option.splits)
next
  case (finishes i g h)
  then show ?case using finish_assignment_total by fastforce
qed (simp_all add: close_assignment_inv, simp_all add: close_assignment_def)

definition finish_run :: "nat \<Rightarrow> assignment_gate \<Rightarrow> assignment_gate" where
  "finish_run i g = (case finish_assignment i g of None \<Rightarrow> g | Some h \<Rightarrow> h)"

interpretation assignment_gate: releasing_gate assignment_step assignment_inv "\<lambda>g. \<not> ag_open g" running
    "\<lambda>g. drain_returns (ag_zero g) g" finish_run
proof (unfold_locales, goal_cases)
  case (1 s t) then show ?case by (blast intro: assignment_step_inv)
next
  case (2 s t) then show ?case by (blast dest: assignment_step_closed)
next
  case (3 s t) then show ?case by (blast dest: assignment_step_closed)
next
  case (4 s) then show ?case by (auto simp: drain_returns_def assignment_inv_def)
next
  case (5 s h)
  then have h: "h < length (ag_ops s)" by (simp add: running_def)
  from finish_assignment_total [OF 5(1) h] obtain t where t: "finish_assignment h s = Some t" by blast
  from assignment_step.finishes [OF h t] show ?case by (simp add: finish_run_def t)
next
  case (6 s h)
  then have "h < length (ag_ops s)" by (simp add: running_def)
  from finish_assignment_total [OF 6(1) this] obtain t
    where "finish_assignment h s = Some t" "running t = running s - {h}" by blast
  then show ?case by (simp only: finish_run_def option.case)
qed


section \<open>Properties\<close>

lemma lifecycle_reach_inv: "lifecycle_step\<^sup>*\<^sup>* New_lifecycle g \<Longrightarrow> lifecycle_inv g"
proof (induction rule: rtranclp_induct)
  case base
  show ?case by (simp add: New_lifecycle_def lifecycle_inv_def open_ops_def)
qed (blast intro: lifecycle_step_inv)

lemma assignment_reach_inv: "assignment_step\<^sup>*\<^sup>* newLifecycleGate g \<Longrightarrow> assignment_inv g"
proof (induction rule: rtranclp_induct)
  case base
  show ?case by (simp add: newLifecycleGate_def assignment_inv_def running_def)
qed (blast intro: assignment_step_inv)

lemma open_ops_empty: "open_ops g = {} \<longleftrightarrow> list_all op_finished (lg_ops g)"
  by (auto simp: open_ops_def list_all_length)

lemma running_empty: "running g = {} \<longleftrightarrow> list_all id (ag_ops g)"
  by (auto simp: running_def list_all_length)

text \<open>The manager gate never panics: in every reachable state finishing any operation, again or for
  the first time, and closing admission, again or for the first time, return; and the count is
  the number of unfinished operations.\<close>

theorem lifecycle_never_panics:
  assumes "lifecycle_step\<^sup>*\<^sup>* New_lifecycle g" and "i < length (lg_ops g)"
  shows "(\<exists>h. Finish i g = Some h) \<and> (\<exists>h. CloseAdmission g = Some h)
    \<and> lg_active g = int (card {i. i < length (lg_ops g) \<and> \<not> op_finished (lg_ops g ! i)})"
  using lifecycle_reach_inv [OF assms(1)] Finish_total [OF _ assms(2)] Close_total [of g]
  by (auto simp: lifecycle_inv_def open_ops_def)

text \<open>A closed manager gate drains exactly when its admitted operations have finished: \<open>Drain\<close>
  returns iff none is left, stays that way whatever the callers do, and is reached by finishing
  the open operations in any order.\<close>

theorem lifecycle_drains:
  assumes "lifecycle_step\<^sup>*\<^sup>* New_lifecycle g" and "\<not> lg_accepting g" and "lifecycle_step\<^sup>*\<^sup>* g h"
    and "distinct order" and "set order = open_ops h"
  shows "(Drain_now h \<longleftrightarrow> list_all op_finished (lg_ops h)) \<and> open_ops h \<subseteq> open_ops g
    \<and> Drain_now (fold finish_op order h)"
proof -
  note h = manager_gate.closed_run [OF assms(3) lifecycle_reach_inv [OF assms(1)] assms(2)]
  with manager_gate.drains [of h order] assms(4,5) manager_gate.drained_iff [of h] show ?thesis
    by (simp add: open_ops_empty)
qed

text \<open>A \<open>drain\<close> of a closed assignment gate waits for exactly the operations admitted before: the
  channel it read is closed, whatever happens later, iff all of them have finished.\<close>

theorem assignment_drain_exact:
  assumes "assignment_step\<^sup>*\<^sup>* newLifecycleGate g" and "\<not> ag_open g" and "assignment_step\<^sup>*\<^sup>* g h"
  shows "(drain_returns (ag_zero g) h \<longleftrightarrow> list_all id (ag_ops h)) \<and> running h \<subseteq> running g"
proof -
  note inv = assignment_reach_inv [OF assms(1)]
  have "ag_zero h = ag_zero g"
    using assms(3)
  proof (induction rule: rtranclp_induct)
    case (step t u)
    with assignment_gate.closed_run [OF step(1) inv assms(2)] show ?case by (auto dest: assignment_step_closed)
  qed simp
  with assignment_gate.closed_run [OF assms(3) inv assms(2)] assignment_gate.drained_iff [of h] show ?thesis
    by (simp add: running_empty)
qed

section \<open>Witnesses\<close>

definition one_op :: lifecycle_gate where
  "one_op = \<lparr>lg_accepting = True, lg_active = 1, lg_drained = False, lg_owner_canceled = False,
     lg_ops = [\<lparr>op_finished = False, op_cause = None\<rparr>]\<rparr>"

lemma one_op_reach: "lifecycle_step\<^sup>*\<^sup>* New_lifecycle one_op"
  using lifecycle_step.begins [of New_lifecycle CtxLive]
  by (simp add: Begin_def New_lifecycle_def one_op_def r_into_rtranclp)

definition closed_op :: lifecycle_gate where
  "closed_op = one_op\<lparr>lg_accepting := False, lg_owner_canceled := True\<rparr>"

lemma closed_op_reach: "lifecycle_step\<^sup>*\<^sup>* New_lifecycle closed_op"
proof -
  have "lifecycle_step one_op closed_op"
    by (rule lifecycle_step.closes) (simp add: CloseAdmission_def one_op_def closed_op_def)
  with one_op_reach show ?thesis by simp
qed

theorem lifecycle_never_panics_witness: "(\<exists>h. Finish 0 one_op = Some h) \<and> lg_active one_op = 1"
  using lifecycle_never_panics [OF one_op_reach, of 0] by (simp add: one_op_def)

theorem lifecycle_drains_witness: "\<not> Drain_now closed_op \<and> Drain_now (finish_op 0 closed_op)"
proof -
  have "open_ops closed_op = {0}" "\<not> lg_accepting closed_op" "\<not> list_all op_finished (lg_ops closed_op)"
    by (auto simp: open_ops_def closed_op_def one_op_def)
  with lifecycle_drains [OF closed_op_reach, of closed_op "[0]"] show ?thesis by simp
qed

definition one_run :: assignment_gate where
  "one_run = \<lparr>ag_open = False, ag_active = 1, ag_zero = 1, ag_closed = {0}, ag_ops = [False]\<rparr>"

theorem assignment_drain_exact_witness:
  "assignment_step\<^sup>*\<^sup>* newLifecycleGate one_run \<and> \<not> drain_returns (ag_zero one_run) one_run"
proof -
  have "assignment_step newLifecycleGate (fst (begin_assignment CtxLive newLifecycleGate))"
    by (rule assignment_step.begins)
  moreover have "assignment_step (fst (begin_assignment CtxLive newLifecycleGate)) one_run"
    using assignment_step.closes [of "fst (begin_assignment CtxLive newLifecycleGate)"]
    by (simp add: close_assignment_def begin_assignment_def newLifecycleGate_def one_run_def)
  ultimately have reach: "assignment_step\<^sup>*\<^sup>* newLifecycleGate one_run" by simp
  with assignment_drain_exact [OF reach, of one_run] show ?thesis by (simp add: one_run_def)
qed

end
