(* ===== verification/Sse_Wire.thy ===== *)
theory Sse_Wire
  imports Go_Prelude
begin

text \<open>
  The server-sent-event codec of \<open>internal/ssewire\<close>: the incremental \<open>Decoder\<close> with its limits,
  its \<open>Feed\<close> loop and \<open>Finish\<close>, and \<open>Encode\<close>.  Lengths and counters are mathematical integers;
  the limits keep them far below the width of Go's \<open>int\<close>.

  \<open>sse_run\<close> is the specification the decoder is compared with: a machine that reads one byte at a
  time and never looks ahead.  \<open>Feed\<close> computes the same result for every fragment, hence the result
  does not depend on how the network fragments a stream, and what \<open>Encode\<close> writes is read back.
\<close>

section \<open>Data\<close>

datatype sse_error =
    ErrMalformed string
  | ErrLimitExceeded string
  | ErrTruncated
  | ErrSseClosed
  | ErrSseOptions string
  | ErrEncode string

record sse_options =
  MaxLineBytes :: int
  MaxEventBytes :: int
  MaxPendingBytes :: int
  MaxEvents :: int

record sse_event =
  ev_Name :: string
  ev_Data :: string
  ev_ID :: string
  ev_Retry :: "int option"

record sse_decoder =
  sd_options :: sse_options
  sd_pending :: string
  sd_swallowLeadingLF :: bool
  sd_eventName :: string
  sd_dataLines :: "string list"
  sd_eventBytes :: int
  sd_lastID :: string
  sd_retry :: "int option"
  sd_eventCount :: int
  sd_closed :: bool

abbreviation LF :: char where "LF \<equiv> CHR 0x0A"
abbreviation CR :: char where "CR \<equiv> CHR 0x0D"

section \<open>Operations\<close>

definition DefaultOptions :: sse_options where
  "DefaultOptions =
     \<lparr> MaxLineBytes = 1048576, MaxEventBytes = 4194304, MaxPendingBytes = 4194304, MaxEvents = 1048576 \<rparr>"

definition validate_options :: "sse_options \<Rightarrow> sse_error option" where
  "validate_options o' =
     (if MaxLineBytes o' \<le> 0 \<or> MaxEventBytes o' \<le> 0 \<or> MaxPendingBytes o' \<le> 0 \<or> MaxEvents o' \<le> 0
      then Some (ErrSseOptions ''SSE limits must be positive'')
      else if MaxPendingBytes o' < MaxLineBytes o'
      then Some (ErrSseOptions ''SSE pending byte limit is smaller than the line limit'')
      else None)"

definition NewDecoder :: "sse_options \<Rightarrow> sse_error + sse_decoder" where
  "NewDecoder o' = (case validate_options o' of
      Some e \<Rightarrow> Inl e
    | None \<Rightarrow> Inr \<lparr> sd_options = o', sd_pending = [], sd_swallowLeadingLF = False, sd_eventName = [],
        sd_dataLines = [], sd_eventBytes = 0, sd_lastID = [], sd_retry = None, sd_eventCount = 0,
        sd_closed = False \<rparr>)"

text \<open>\<open>strings.ContainsAny(value, "\x00\r\n")\<close>.\<close>

definition has_framing :: "string \<Rightarrow> bool" where
  "has_framing s \<longleftrightarrow> list_ex (\<lambda>c. c = CHR 0x00 \<or> c = CR \<or> c = LF) s"

text \<open>\<open>strconv.Atoi\<close> on a non-empty string of digits: 64-bit range.\<close>

definition atoi_digits :: "string \<Rightarrow> int option" where
  "atoi_digits s = (if digits_value s < 2 ^ 63 then Some (int (digits_value s)) else None)"

definition sse_dispatch :: "sse_decoder \<Rightarrow> sse_decoder \<times> (sse_error + sse_event option)" where
  "sse_dispatch d =
     (if sd_dataLines d = []
      then (d\<lparr>sd_eventName := [], sd_eventBytes := 0, sd_retry := None\<rparr>, Inr None)
      else if sd_eventCount d + 1 > MaxEvents (sd_options d)
      then (d\<lparr>sd_eventCount := sd_eventCount d + 1\<rparr>, Inl (ErrLimitExceeded ''event count''))
      else (d\<lparr>sd_eventCount := sd_eventCount d + 1, sd_eventName := [], sd_dataLines := [],
              sd_eventBytes := 0, sd_retry := None\<rparr>,
            Inr (Some \<lparr> ev_Name = (if sd_eventName d = [] then ''message'' else sd_eventName d),
                        ev_Data = join [LF] (sd_dataLines d), ev_ID = sd_lastID d,
                        ev_Retry = sd_retry d \<rparr>)))"

text \<open>The field and the value of a line.\<close>

definition line_field :: "string \<Rightarrow> string \<times> string" where
  "line_field line =
     (case cut_char (CHR '':'') line of
        None \<Rightarrow> (line, [])
      | Some (f, v) \<Rightarrow> (f, if prefix '' '' v then tl v else v))"

definition apply_field ::
  "sse_decoder \<Rightarrow> string \<Rightarrow> string \<Rightarrow> sse_decoder \<times> (sse_error + sse_event option)" where
  "apply_field d field v =
     (if field = ''data'' then
        (let n = sd_eventBytes d + int (length v) + (if sd_dataLines d \<noteq> [] then 1 else 0);
             d1 = d\<lparr>sd_eventBytes := n\<rparr>
         in if n > MaxEventBytes (sd_options d) then (d1, Inl (ErrLimitExceeded ''event data bytes''))
            else (d1\<lparr>sd_dataLines := sd_dataLines d @ [v]\<rparr>, Inr None))
      else if field = ''event'' then
        (if has_framing v then (d, Inl (ErrMalformed ''event name''))
         else (d\<lparr>sd_eventName := v\<rparr>, Inr None))
      else if field = ''id'' then
        (if has_framing v then (d, Inl (ErrMalformed ''event ID''))
         else (d\<lparr>sd_lastID := v\<rparr>, Inr None))
      else if field = ''retry'' then
        (if v = [] then (d, Inl (ErrMalformed ''empty retry''))
         else if \<not> list_all is_digit v then (d, Inl (ErrMalformed ''retry is not an integer''))
         else (case atoi_digits v of
             None \<Rightarrow> (d, Inl (ErrMalformed ''retry value''))
           | Some n \<Rightarrow> (d\<lparr>sd_retry := Some n\<rparr>, Inr None)))
      else (d, Inr None))"

definition consumeLine :: "sse_decoder \<Rightarrow> string \<Rightarrow> sse_decoder \<times> (sse_error + sse_event option)" where
  "consumeLine d line =
     (if line = [] then sse_dispatch d
      else if prefix '':'' line then (d, Inr None)
      else (case line_field line of (field, v) \<Rightarrow> apply_field d field v))"

text \<open>
  One turn of the \<open>Feed\<close> loop cuts the first line off \<open>pending\<close>: the line, the bytes after its
  terminator, and whether the terminator is a CR at the very end.
\<close>

definition is_nl :: "char \<Rightarrow> bool" where
  "is_nl c \<longleftrightarrow> c = CR \<or> c = LF"

definition cut_line :: "string \<Rightarrow> (string \<times> string \<times> bool) option" where
  "cut_line p =
     (case dropWhile (\<lambda>c. \<not> is_nl c) p of
        [] \<Rightarrow> None
      | c # r \<Rightarrow> Some (takeWhile (\<lambda>c. \<not> is_nl c) p,
                   if c = CR \<and> prefix [LF] r then tl r else r,
                   c = CR \<and> r = []))"

lemma cut_line_shorter: "cut_line p = Some (l, r, w) \<Longrightarrow> length r < length p"
proof -
  assume cut: "cut_line p = Some (l, r, w)"
  then obtain c r0 where d: "dropWhile (\<lambda>c. \<not> is_nl c) p = c # r0"
    by (auto simp: cut_line_def split: list.splits)
  then have "length r0 < length p"
    using length_dropWhile_le [of "\<lambda>c. \<not> is_nl c" p] by simp
  with cut d show ?thesis by (auto simp: cut_line_def split: if_splits)
qed

lemma consumeLine_frame:
  "sd_pending (fst (consumeLine d l)) = sd_pending d"
  "sd_swallowLeadingLF (fst (consumeLine d l)) = sd_swallowLeadingLF d"
  "sd_options (fst (consumeLine d l)) = sd_options d"
  "sd_closed (fst (consumeLine d l)) = sd_closed d"
  by (simp_all add: consumeLine_def sse_dispatch_def apply_field_def Let_def
      split: prod.splits option.splits)

lemma consumeLine_pending: "consumeLine d l = (d', r) \<Longrightarrow> sd_pending d' = sd_pending d"
  using consumeLine_frame(1) [of d l] by simp

function feed_loop :: "sse_decoder \<Rightarrow> sse_decoder \<times> (sse_error + sse_event list)" where
  "feed_loop d =
     (case cut_line (sd_pending d) of
        None \<Rightarrow>
          if int (length (sd_pending d)) > MaxLineBytes (sd_options d)
          then (d, Inl (ErrLimitExceeded ''line bytes'')) else (d, Inr [])
      | Some (line, rest, cr_last) \<Rightarrow>
          (let d1 = d\<lparr>sd_pending := rest,
                      sd_swallowLeadingLF := sd_swallowLeadingLF d \<or> cr_last\<rparr> in
           if int (length line) > MaxLineBytes (sd_options d)
           then (d1, Inl (ErrLimitExceeded ''line bytes''))
           else if \<not> valid_utf8 line
           then (d1, Inl (ErrMalformed ''line is not valid UTF-8''))
           else (case consumeLine d1 line of
               (d2, Inl e) \<Rightarrow> (d2, Inl e)
             | (d2, Inr ev) \<Rightarrow>
                 (case feed_loop d2 of
                    (d3, Inl e) \<Rightarrow> (d3, Inl e)
                  | (d3, Inr evs) \<Rightarrow>
                      (d3, Inr ((case ev of None \<Rightarrow> [] | Some x \<Rightarrow> [x]) @ evs))))))"
  by pat_completeness auto
termination
  by (relation "measure (\<lambda>d. length (sd_pending d))")
    (auto dest!: cut_line_shorter consumeLine_pending [OF sym])

declare feed_loop.simps [simp del]

definition Feed :: "sse_decoder \<Rightarrow> string \<Rightarrow> sse_decoder \<times> (sse_error + sse_event list)" where
  "Feed d fragment =
     (if sd_closed d then (d, Inl ErrSseClosed)
      else if fragment = [] then (d, Inr [])
      else
        (let f = (if sd_swallowLeadingLF d \<and> hd fragment = LF then tl fragment else fragment);
             d1 = d\<lparr>sd_swallowLeadingLF := False\<rparr>
         in if f = [] then (d1, Inr [])
            else if int (length (sd_pending d1) + length f) > MaxPendingBytes (sd_options d1)
            then (d1, Inl (ErrLimitExceeded ''pending bytes''))
            else feed_loop (d1\<lparr>sd_pending := sd_pending d1 @ f\<rparr>)))"

definition sse_Finish :: "sse_decoder \<Rightarrow> sse_decoder \<times> sse_error option" where
  "sse_Finish d =
     (if sd_closed d then (d, Some ErrSseClosed)
      else (d\<lparr>sd_closed := True\<rparr>,
            if sd_pending d \<noteq> [] \<or> sd_dataLines d \<noteq> [] \<or> sd_eventName d \<noteq> [] \<or> sd_retry d \<noteq> None
            then Some ErrTruncated else None))"

definition Encode :: "sse_event \<Rightarrow> sse_error + string" where
  "Encode ev =
     (if ev_Name ev = [] then Inl (ErrEncode ''SSE event name is empty'')
      else if has_framing (ev_Name ev) then Inl (ErrEncode ''SSE event name is invalid'')
      else if has_framing (ev_ID ev) then Inl (ErrEncode ''SSE event ID is invalid'')
      else if \<not> valid_utf8 (ev_Data ev) then Inl (ErrEncode ''SSE event data is not valid UTF-8'')
      else if (case ev_Retry ev of Some r \<Rightarrow> r < 0 | None \<Rightarrow> False)
      then Inl (ErrEncode ''SSE retry is negative'')
      else Inr
        ((if ev_Name ev \<noteq> ''message'' then ''event: '' @ ev_Name ev @ [LF] else [])
         @ (if ev_ID ev \<noteq> [] then ''id: '' @ ev_ID ev @ [LF] else [])
         @ (case ev_Retry ev of Some r \<Rightarrow> ''retry: '' @ decimal (nat r) @ [LF] | None \<Rightarrow> [])
         @ concat (map (\<lambda>l. ''data: '' @ l @ [LF]) (split_char LF (ev_Data ev)))
         @ [LF]))"

section \<open>The byte machine\<close>

text \<open>
  One byte of the stream: an LF right after a CR ends nothing, any other CR or LF ends the line in
  \<open>pending\<close>, every other byte extends it.
\<close>

definition sse_byte :: "sse_decoder \<Rightarrow> char \<Rightarrow> sse_error + sse_decoder \<times> sse_event list" where
  "sse_byte d c =
     (if sd_swallowLeadingLF d \<and> c = LF then Inr (d\<lparr>sd_swallowLeadingLF := False\<rparr>, [])
      else if is_nl c then
        (if \<not> valid_utf8 (sd_pending d) then Inl (ErrMalformed ''line is not valid UTF-8'')
         else (case consumeLine (d\<lparr>sd_pending := [], sd_swallowLeadingLF := (c = CR)\<rparr>) (sd_pending d) of
             (d1, Inl e) \<Rightarrow> Inl e
           | (d1, Inr ev) \<Rightarrow> Inr (d1, case ev of None \<Rightarrow> [] | Some x \<Rightarrow> [x])))
      else if int (length (sd_pending d)) + 1 > MaxLineBytes (sd_options d)
        then Inl (ErrLimitExceeded ''line bytes'')
      else Inr (d\<lparr>sd_pending := sd_pending d @ [c], sd_swallowLeadingLF := False\<rparr>, []))"

fun sse_run :: "sse_decoder \<Rightarrow> string \<Rightarrow> sse_error + sse_decoder \<times> sse_event list" where
  "sse_run d [] = Inr (d, [])"
| "sse_run d (c # s) =
     (case sse_byte d c of
        Inl e \<Rightarrow> Inl e
      | Inr (d1, evs) \<Rightarrow> (case sse_run d1 s of
            Inl e \<Rightarrow> Inl e
          | Inr (d2, evs2) \<Rightarrow> Inr (d2, evs @ evs2)))"

text \<open>What a caller sees of a call: the error, or the decoder and the events.\<close>

fun feed_outcome :: "sse_decoder \<times> (sse_error + sse_event list) \<Rightarrow> sse_error + sse_decoder \<times> sse_event list" where
  "feed_outcome (d, Inl e) = Inl e"
| "feed_outcome (d, Inr evs) = Inr (d, evs)"

lemma sse_run_append:
  "sse_run d (s @ t) =
     (case sse_run d s of
        Inl e \<Rightarrow> Inl e
      | Inr (d1, evs) \<Rightarrow> (case sse_run d1 t of
            Inl e \<Rightarrow> Inl e
          | Inr (d2, evs2) \<Rightarrow> Inr (d2, evs @ evs2)))"
  by (induction s arbitrary: d) (auto split: sum.splits prod.splits)

lemma sse_byte_not_lf:
  "c \<noteq> LF \<Longrightarrow> sse_byte (d\<lparr>sd_swallowLeadingLF := w\<rparr>) c = sse_byte d c"
  by (auto simp: sse_byte_def)

text \<open>Bytes that end no line only extend \<open>pending\<close>.\<close>

lemma sse_run_plain:
  assumes "\<not> sd_swallowLeadingLF d" and "list_all (\<lambda>c. \<not> is_nl c) t"
    and "int (length (sd_pending d)) \<le> MaxLineBytes (sd_options d)"
  shows "sse_run d (t @ s) =
     (if int (length (sd_pending d) + length t) > MaxLineBytes (sd_options d)
      then Inl (ErrLimitExceeded ''line bytes'')
      else sse_run (d\<lparr>sd_pending := sd_pending d @ t\<rparr>) s)"
  using assms
proof (induction t arbitrary: d)
  case (Cons c t)
  show ?case
  proof (cases "int (length (sd_pending d)) + 1 > MaxLineBytes (sd_options d)")
    case True
    with Cons.prems show ?thesis by (simp add: sse_byte_def is_nl_def)
  next
    case False
    have "sd_swallowLeadingLF d = False" using Cons.prems by simp
    then have same: "d\<lparr>sd_pending := sd_pending d @ [c], sd_swallowLeadingLF := False\<rparr>
        = d\<lparr>sd_pending := sd_pending d @ [c]\<rparr>" by (cases d) simp
    then have "sse_byte d c = Inr (d\<lparr>sd_pending := sd_pending d @ [c]\<rparr>, [])"
      using Cons.prems False by (simp add: sse_byte_def is_nl_def)
    then show ?thesis
      using Cons.IH [of "d\<lparr>sd_pending := sd_pending d @ [c]\<rparr>"] Cons.prems False
      by (simp split: sum.splits prod.splits)
  qed
qed simp

lemma cut_line_none: "cut_line p = None \<longleftrightarrow> list_all (\<lambda>c. \<not> is_nl c) p"
  by (cases "dropWhile (\<lambda>c. \<not> is_nl c) p")
    (simp_all add: cut_line_def list_all_iff flip: dropWhile_eq_Nil_conv)

lemma cut_line_some:
  assumes "list_all (\<lambda>c. \<not> is_nl c) t" and "is_nl c"
  shows "cut_line (t @ c # r) =
    Some (t, if c = CR \<and> prefix [LF] r then tl r else r, c = CR \<and> r = [])"
proof -
  have "takeWhile (\<lambda>c. \<not> is_nl c) (t @ c # r) = t" "dropWhile (\<lambda>c. \<not> is_nl c) (t @ c # r) = c # r"
    using assms by (induction t) auto
  then show ?thesis by (simp add: cut_line_def)
qed

lemma split_first_nl:
  assumes "\<not> list_all (\<lambda>c. \<not> is_nl c) s"
  obtains t c r where "s = t @ c # r" "list_all (\<lambda>c. \<not> is_nl c) t" "is_nl c"
proof -
  have "\<exists>x\<in>set s. is_nl x" using assms by (auto simp: list_all_iff)
  from split_list_first_prop [OF this] show thesis
    using that by (metis list_all_iff)
qed

lemma consumeLine_same:
  assumes "consumeLine d l = (d', r)"
  shows "sd_pending d' = sd_pending d" "sd_swallowLeadingLF d' = sd_swallowLeadingLF d"
    "sd_options d' = sd_options d" "sd_closed d' = sd_closed d"
  using consumeLine_frame [of d l] assms by simp_all

text \<open>The line's terminator: what is left for the loop, and the state of the byte machine there.\<close>

lemma terminator_run:
  assumes "sd_pending d = []" and "sd_swallowLeadingLF d = (c = CR)" and "is_nl c"
    and rest: "rest = (if c = CR \<and> prefix [LF] r then tl r else r)"
  shows "sse_run d r = sse_run (d\<lparr>sd_swallowLeadingLF := (c = CR \<and> r = [])\<rparr>) rest"
proof (cases r)
  case Nil
  then show ?thesis using rest assms(2) by (cases d) simp
next
  case (Cons x r')
  show ?thesis
  proof (cases "x = LF")
    case False
    then show ?thesis using Cons rest sse_byte_not_lf [where c = x and d = d] by (simp split: sum.splits prod.splits)
  next
    case lf: True
    show ?thesis
    proof (cases "c = CR")
      case True
      then show ?thesis using Cons lf rest assms(2)
        by (simp add: sse_byte_def split: sum.splits prod.splits)
    next
      case False
      then have "d\<lparr>sd_swallowLeadingLF := False\<rparr> = d" using assms(2) by (cases d) simp
      then show ?thesis using Cons False rest by simp
    qed
  qed
qed

lemma consumeLine_upd:
  "consumeLine (d\<lparr>sd_pending := p, sd_swallowLeadingLF := w\<rparr>) l =
     ((fst (consumeLine d l))\<lparr>sd_pending := p, sd_swallowLeadingLF := w\<rparr>, snd (consumeLine d l))"
  by (cases d) (simp add: consumeLine_def sse_dispatch_def apply_field_def Let_def split: prod.splits option.splits)

lemma pending_swallow_swap:
  "d\<lparr>sd_swallowLeadingLF := w, sd_pending := p\<rparr> = d\<lparr>sd_pending := p, sd_swallowLeadingLF := w\<rparr>"
  by (cases d) simp

lemma feed_loop_none:
  "cut_line (sd_pending d) = None \<Longrightarrow> feed_loop d =
     (if int (length (sd_pending d)) > MaxLineBytes (sd_options d)
      then (d, Inl (ErrLimitExceeded ''line bytes'')) else (d, Inr []))"
  by (subst feed_loop.simps) simp

lemma feed_loop_some:
  assumes "cut_line (sd_pending d) = Some (line, rest, w)"
  shows "feed_loop d =
     (let d1 = d\<lparr>sd_pending := rest, sd_swallowLeadingLF := sd_swallowLeadingLF d \<or> w\<rparr> in
      if int (length line) > MaxLineBytes (sd_options d) then (d1, Inl (ErrLimitExceeded ''line bytes''))
      else if \<not> valid_utf8 line then (d1, Inl (ErrMalformed ''line is not valid UTF-8''))
      else (case consumeLine d1 line of
          (d2, Inl e) \<Rightarrow> (d2, Inl e)
        | (d2, Inr ev) \<Rightarrow>
            (case feed_loop d2 of
               (d3, Inl e) \<Rightarrow> (d3, Inl e)
             | (d3, Inr evs) \<Rightarrow> (d3, Inr ((case ev of None \<Rightarrow> [] | Some x \<Rightarrow> [x]) @ evs)))))"
  by (subst feed_loop.simps) (simp only: assms option.case prod.case)

lemma feed_loop_run:
  assumes "\<not> sd_swallowLeadingLF d" and "sd_pending d = p @ s"
    and "list_all (\<lambda>c. \<not> is_nl c) p" and "int (length p) \<le> MaxLineBytes (sd_options d)"
  shows "feed_outcome (feed_loop d) = sse_run (d\<lparr>sd_pending := p\<rparr>) s"
  using assms
proof (induction "length s" arbitrary: d p s rule: less_induct)
  case less
  show ?case
  proof (cases "list_all (\<lambda>c. \<not> is_nl c) s")
    case True
    then have cut: "cut_line (sd_pending d) = None" using less.prems by (simp add: cut_line_none)
    have "d\<lparr>sd_pending := p @ s\<rparr> = d" using less.prems(2) by (cases d) simp
    moreover have "sse_run (d\<lparr>sd_pending := p\<rparr>) s =
        (if int (length p + length s) > MaxLineBytes (sd_options d)
         then Inl (ErrLimitExceeded ''line bytes'') else Inr (d\<lparr>sd_pending := p @ s\<rparr>, []))"
      using sse_run_plain [of "d\<lparr>sd_pending := p\<rparr>" s "[]"] less.prems True by simp
    ultimately show ?thesis
      using less.prems(2) feed_loop_none [OF cut] by simp
  next
    case False
    then obtain t c r where s: "s = t @ c # r" and t: "list_all (\<lambda>c. \<not> is_nl c) t" and c: "is_nl c"
      by (rule split_first_nl)
    let ?line = "p @ t" and ?rest = "if c = CR \<and> prefix [LF] r then tl r else r"
    let ?d1 = "d\<lparr>sd_pending := ?rest, sd_swallowLeadingLF := (c = CR \<and> r = [])\<rparr>"
    have cut: "cut_line (sd_pending d) = Some (?line, ?rest, c = CR \<and> r = [])"
      using cut_line_some [of ?line c r] t c less.prems(2,3) s by simp
    have run: "sse_run (d\<lparr>sd_pending := p\<rparr>) s =
        (if int (length p + length t) > MaxLineBytes (sd_options d)
         then Inl (ErrLimitExceeded ''line bytes'') else sse_run (d\<lparr>sd_pending := ?line\<rparr>) (c # r))"
      using sse_run_plain [of "d\<lparr>sd_pending := p\<rparr>" t "c # r"] less.prems t s by simp
    show ?thesis
    proof (cases "int (length p + length t) > MaxLineBytes (sd_options d) \<or> \<not> valid_utf8 ?line")
      case True
      then show ?thesis using run less.prems(1) c feed_loop_some [OF cut]
        by (auto simp: sse_byte_def)
    next
      case ok: False
      obtain d0 res where d0: "consumeLine d ?line = (d0, res)" by fastforce
      have loop: "consumeLine (d\<lparr>sd_pending := q, sd_swallowLeadingLF := w\<rparr>) ?line
          = (d0\<lparr>sd_pending := q, sd_swallowLeadingLF := w\<rparr>, res)" for q w
        by (simp add: consumeLine_upd d0)
      show ?thesis
      proof (cases res)
        case (Inl e)
        then show ?thesis using run ok c loop feed_loop_some [OF cut] less.prems(1)
          by (simp add: sse_byte_def)
      next
        case (Inr ev)
        let ?e = "d0\<lparr>sd_pending := ?rest, sd_swallowLeadingLF := (c = CR \<and> r = [])\<rparr>"
        let ?b = "d0\<lparr>sd_pending := [], sd_swallowLeadingLF := (c = CR)\<rparr>"
        let ?one = "case ev of None \<Rightarrow> [] | Some x \<Rightarrow> [x]"
        have opts: "sd_options d0 = sd_options d" using consumeLine_same(3) [OF d0] .
        have "feed_outcome (feed_loop ?e) = sse_run (?e\<lparr>sd_pending := []\<rparr>) ?rest"
        proof (cases "c = CR \<and> r = []")
          case True
          then show ?thesis
            using opts less.prems(4) feed_loop_none [of ?e] by (simp add: cut_line_none)
        next
          case False
          then show ?thesis
            using opts less.prems(4) s by (intro less.hyps) auto
        qed
        also have "\<dots> = sse_run ?b r"
          using terminator_run [of ?b c ?rest r] c unfolding pending_swallow_swap by simp
        finally have tail: "feed_outcome (feed_loop ?e) = sse_run ?b r" .
        have byte: "sse_byte (d\<lparr>sd_pending := ?line\<rparr>) c = Inr (?b, ?one)"
          using ok c loop less.prems(1) Inr by (simp add: sse_byte_def)
        have "feed_outcome (feed_loop d) = (case feed_outcome (feed_loop ?e) of Inl e \<Rightarrow> Inl e
            | Inr (d3, evs) \<Rightarrow> Inr (d3, ?one @ evs))"
          using ok loop feed_loop_some [OF cut] less.prems(1) Inr
          by (cases "feed_loop ?e"; cases "snd (feed_loop ?e)") simp_all
        then show ?thesis unfolding tail run using ok byte by simp
      qed
    qed
  qed
qed


section \<open>Feed\<close>

text \<open>The frame of the decoder between two calls of \<open>Feed\<close>.\<close>

definition frame_ok :: "sse_decoder \<Rightarrow> bool" where
  "frame_ok d \<longleftrightarrow> list_all (\<lambda>c. \<not> is_nl c) (sd_pending d)
     \<and> int (length (sd_pending d)) \<le> MaxLineBytes (sd_options d)
     \<and> (sd_swallowLeadingLF d \<longrightarrow> sd_pending d = [])"

definition fed_part :: "sse_decoder \<Rightarrow> string \<Rightarrow> string" where
  "fed_part d s = (if sd_swallowLeadingLF d \<and> s \<noteq> [] \<and> hd s = LF then tl s else s)"

lemma no_swallow: "\<not> sd_swallowLeadingLF d \<Longrightarrow> d\<lparr>sd_swallowLeadingLF := False\<rparr> = d"
  by (cases d) simp

lemma fed_part_run:
  "s \<noteq> [] \<Longrightarrow> sse_run d s = sse_run (d\<lparr>sd_swallowLeadingLF := False\<rparr>) (fed_part d s)"
proof (cases s)
  case (Cons c t)
  show ?thesis
  proof (cases "c = LF")
    case True
    show ?thesis
    proof (cases "sd_swallowLeadingLF d")
      case True
      then show ?thesis using Cons \<open>c = LF\<close>
        by (simp add: fed_part_def sse_byte_def split: sum.splits prod.splits)
    next
      case False
      then show ?thesis by (simp add: fed_part_def no_swallow)
    qed
  next
    case False
    then show ?thesis using Cons sse_byte_not_lf [where c = c and d = d] by (simp add: fed_part_def)
  qed
qed simp

lemma Feed_outcome:
  assumes "\<not> sd_closed d" and "frame_ok d"
  shows "feed_outcome (Feed d s) =
    (if fed_part d s \<noteq> [] \<and> int (length (sd_pending d) + length (fed_part d s)) > MaxPendingBytes (sd_options d)
     then Inl (ErrLimitExceeded ''pending bytes'') else sse_run d s)"
proof (cases "s = []")
  case True
  then show ?thesis using assms by (simp add: Feed_def fed_part_def)
next
  case False
  let ?d = "d\<lparr>sd_swallowLeadingLF := False\<rparr>" and ?f = "fed_part d s"
  have f: "(if sd_swallowLeadingLF d \<and> hd s = LF then tl s else s) = ?f"
    using False by (simp add: fed_part_def)
  have "feed_outcome (feed_loop (?d\<lparr>sd_pending := sd_pending d @ ?f\<rparr>)) = sse_run ?d ?f"
  proof -
    have "?d\<lparr>sd_pending := sd_pending d @ ?f, sd_pending := sd_pending d\<rparr> = ?d" by (cases d) simp
    then show ?thesis
      using feed_loop_run [of "?d\<lparr>sd_pending := sd_pending d @ ?f\<rparr>" "sd_pending d" ?f] assms(2)
      by (simp add: frame_ok_def)
  qed
  then show ?thesis
    unfolding Feed_def Let_def f using False assms fed_part_run [OF False, of d] by simp
qed

text \<open>Successive calls, stopping at the first error.\<close>

fun feed_all :: "sse_decoder \<Rightarrow> string list \<Rightarrow> sse_error + sse_decoder \<times> sse_event list" where
  "feed_all d [] = Inr (d, [])"
| "feed_all d (f # fs) =
     (case Feed d f of
        (d1, Inl e) \<Rightarrow> Inl e
      | (d1, Inr evs) \<Rightarrow> (case feed_all d1 fs of
            Inl e \<Rightarrow> Inl e
          | Inr (d2, evs2) \<Rightarrow> Inr (d2, evs @ evs2)))"

lemma feed_all_Cons:
  "feed_all d (f # fs) =
     (case feed_outcome (Feed d f) of
        Inl e \<Rightarrow> Inl e
      | Inr (d1, evs) \<Rightarrow> (case feed_all d1 fs of Inl e \<Rightarrow> Inl e | Inr (d2, evs2) \<Rightarrow> Inr (d2, evs @ evs2)))"
  by (cases "Feed d f"; cases "snd (Feed d f)") simp_all

lemma length_join_snoc:
  "length (join [c] (ls @ [l])) = length (join [c] ls) + length l + (if ls = [] then 0 else 1)"
  by (induction "[c]" ls rule: join.induct) auto

text \<open>The invariant of a decoder that has reported no error.\<close>

definition decoder_ok :: "sse_decoder \<Rightarrow> bool" where
  "decoder_ok d \<longleftrightarrow> frame_ok d
     \<and> sd_eventBytes d = int (length (join [LF] (sd_dataLines d)))
     \<and> sd_eventBytes d \<le> MaxEventBytes (sd_options d)
     \<and> sd_eventCount d \<le> MaxEvents (sd_options d)"

definition event_ok :: "sse_options \<Rightarrow> sse_event \<Rightarrow> bool" where
  "event_ok o' ev \<longleftrightarrow> ev_Name ev \<noteq> [] \<and> int (length (ev_Data ev)) \<le> MaxEventBytes o'"

lemma consumeLine_content:
  assumes "consumeLine d l = (d', Inr ev)"
    and "sd_eventBytes d = int (length (join [LF] (sd_dataLines d)))"
    and "sd_eventBytes d \<le> MaxEventBytes (sd_options d)" "sd_eventCount d \<le> MaxEvents (sd_options d)"
  shows "sd_eventBytes d' = int (length (join [LF] (sd_dataLines d')))
    \<and> sd_eventBytes d' \<le> MaxEventBytes (sd_options d') \<and> sd_eventCount d' \<le> MaxEvents (sd_options d')
    \<and> sd_eventCount d' = sd_eventCount d + (if ev = None then 0 else 1)
    \<and> (\<forall>e. ev = Some e \<longrightarrow> event_ok (sd_options d) e)"
  using assms
  by (auto simp: consumeLine_def sse_dispatch_def apply_field_def Let_def length_join_snoc event_ok_def
      split: prod.splits if_splits option.splits)

lemma sse_byte_ok:
  assumes byte: "sse_byte d c = Inr (d', evs)" and ok: "decoder_ok d"
  shows "decoder_ok d' \<and> sd_options d' = sd_options d \<and> sd_closed d' = sd_closed d
    \<and> sd_eventCount d' = sd_eventCount d + int (length evs) \<and> list_all (event_ok (sd_options d)) evs
    \<and> length (sd_pending d') \<le> Suc (length (sd_pending d))"
proof (cases "\<not> (sd_swallowLeadingLF d \<and> c = LF) \<and> is_nl c")
  case True
  let ?d = "d\<lparr>sd_pending := [], sd_swallowLeadingLF := (c = CR)\<rparr>"
  obtain ev where line: "consumeLine ?d (sd_pending d) = (d', Inr ev)"
      and evs: "evs = (case ev of None \<Rightarrow> [] | Some x \<Rightarrow> [x])"
    using byte True by (auto simp: sse_byte_def split: if_splits prod.splits sum.splits)
  show ?thesis
    using consumeLine_content [OF line] consumeLine_same [OF line] ok evs
    by (auto simp: decoder_ok_def frame_ok_def event_ok_def split: option.splits)
next
  case False
  then show ?thesis
    using byte ok by (auto simp: sse_byte_def decoder_ok_def frame_ok_def split: if_splits)
qed

lemma sse_run_ok:
  assumes "sse_run d s = Inr (d', evs)" and "decoder_ok d"
  shows "decoder_ok d' \<and> sd_options d' = sd_options d \<and> sd_closed d' = sd_closed d
    \<and> sd_eventCount d' = sd_eventCount d + int (length evs) \<and> list_all (event_ok (sd_options d)) evs
    \<and> length (sd_pending d') \<le> length (sd_pending d) + length s"
  using assms
proof (induction s arbitrary: d evs)
  case (Cons c s)
  then obtain d1 e1 e2 where byte: "sse_byte d c = Inr (d1, e1)"
      and run: "sse_run d1 s = Inr (d', e2)" and evs: "evs = e1 @ e2"
    by (auto split: sum.splits prod.splits)
  show ?case
    using sse_byte_ok [OF byte Cons.prems(2)] Cons.IH [OF run] evs by auto
qed simp

lemma Feed_run:
  "Feed d s = (d', Inr evs) \<Longrightarrow> decoder_ok d \<Longrightarrow> sse_run d s = Inr (d', evs) \<and> \<not> sd_closed d"
proof -
  assume feed: "Feed d s = (d', Inr evs)" and ok: "decoder_ok d"
  then have live: "\<not> sd_closed d" by (auto simp: Feed_def)
  have "feed_outcome (Feed d s) = Inr (d', evs)" using feed by simp
  then have "sse_run d s = Inr (d', evs)"
    unfolding Feed_outcome [OF live, of s] using ok Feed_outcome [OF live, of s]
    by (auto simp: decoder_ok_def split: if_splits)
  with live show ?thesis by simp
qed

lemma NewDecoder_ok: "NewDecoder o' = Inr d \<Longrightarrow> decoder_ok d \<and> \<not> sd_closed d \<and> sd_options d = o' \<and> sd_eventCount d = 0"
  by (auto simp: NewDecoder_def validate_options_def decoder_ok_def frame_ok_def split: if_splits)

lemma feed_all_ok:
  assumes "feed_all d fs = Inr (d', evs)" and "decoder_ok d"
  shows "decoder_ok d' \<and> sd_options d' = sd_options d
    \<and> sd_eventCount d' = sd_eventCount d + int (length evs) \<and> list_all (event_ok (sd_options d)) evs"
  using assms
proof (induction fs arbitrary: d evs)
  case (Cons f fs)
  then obtain d1 e1 e2 where feed: "Feed d f = (d1, Inr e1)"
      and all: "feed_all d1 fs = Inr (d', e2)" and evs: "evs = e1 @ e2"
    by (auto split: sum.splits prod.splits)
  show ?case
    using sse_run_ok [of d f d1 e1] Feed_run [OF feed Cons.prems(2)] Cons.IH [OF all] evs Cons.prems(2) by auto
qed simp

abbreviation pending_limit :: "sse_error + 'a" where
  "pending_limit \<equiv> Inl (ErrLimitExceeded ''pending bytes'')"

lemma consumeLine_limit: "snd (consumeLine d l) \<noteq> pending_limit"
  by (auto simp: consumeLine_def sse_dispatch_def apply_field_def Let_def split: prod.split option.split)

lemma sse_run_limit: "sse_run d s \<noteq> pending_limit"
proof (induction s arbitrary: d)
  case (Cons c s)
  have "sse_byte d c \<noteq> pending_limit"
    using consumeLine_limit [of "d\<lparr>sd_pending := [], sd_swallowLeadingLF := c = CR\<rparr>" "sd_pending d"]
    by (auto simp: sse_byte_def split: prod.splits sum.splits)
  then show ?case using Cons by (auto split: sum.splits prod.splits)
qed simp

text \<open>A fragment for which there is always room.\<close>

definition fits :: "sse_options \<Rightarrow> string \<Rightarrow> bool" where
  "fits o' f \<longleftrightarrow> MaxLineBytes o' + int (length f) \<le> MaxPendingBytes o'"

lemma feed_first:
  assumes "\<not> sd_closed d" and "decoder_ok d"
  shows "feed_outcome (Feed d f) = pending_limit \<or> feed_outcome (Feed d f) = sse_run d f"
    and "int (length (sd_pending d) + length f) \<le> MaxPendingBytes (sd_options d) \<Longrightarrow> feed_outcome (Feed d f) = sse_run d f"
    and "fits (sd_options d) f \<Longrightarrow> feed_outcome (Feed d f) = sse_run d f"
proof -
  have "length (fed_part d f) \<le> length f" by (simp add: fed_part_def)
  moreover have "frame_ok d" "int (length (sd_pending d)) \<le> MaxLineBytes (sd_options d)"
    using assms(2) by (simp_all add: decoder_ok_def frame_ok_def)
  ultimately show "feed_outcome (Feed d f) = pending_limit \<or> feed_outcome (Feed d f) = sse_run d f"
    and "int (length (sd_pending d) + length f) \<le> MaxPendingBytes (sd_options d) \<Longrightarrow> feed_outcome (Feed d f) = sse_run d f"
    and "fits (sd_options d) f \<Longrightarrow> feed_outcome (Feed d f) = sse_run d f"
    using Feed_outcome [OF assms(1), of f] by (auto simp: fits_def)
qed

text \<open>Feeding fragments is running their concatenation, unless one of them finds no room.\<close>

lemma feed_all_step:
  assumes "feed_outcome (Feed d f) = sse_run d f"
    and "\<And>d1 e1. sse_run d f = Inr (d1, e1) \<Longrightarrow> feed_all d1 fs = sse_run d1 (concat fs)"
  shows "feed_all d (f # fs) = sse_run d (concat (f # fs))"
proof (cases "sse_run d f")
  case (Inr de)
  then obtain d1 e1 where run: "sse_run d f = Inr (d1, e1)" by (cases de) simp
  then show ?thesis using assms(1) assms(2) [OF run] by (simp add: feed_all_Cons sse_run_append del: feed_all.simps)
qed (use assms(1) in \<open>simp add: feed_all_Cons sse_run_append del: feed_all.simps\<close>)

lemma feed_all_cases:
  assumes "\<not> sd_closed d" and "decoder_ok d"
  shows "feed_all d fs = pending_limit \<or> feed_all d fs = sse_run d (concat fs)"
  using assms
proof (induction fs arbitrary: d)
  case (Cons f fs)
  from feed_first(1) [OF Cons.prems] show ?case
  proof
    assume "feed_outcome (Feed d f) = pending_limit"
    then show ?thesis by (simp add: feed_all_Cons del: feed_all.simps)
  next
    assume first: "feed_outcome (Feed d f) = sse_run d f"
    show ?thesis
    proof (cases "\<exists>d1 e1. sse_run d f = Inr (d1, e1) \<and> feed_all d1 fs = pending_limit")
      case True
      then show ?thesis using first by (auto simp: feed_all_Cons simp del: feed_all.simps)
    next
      case False
      have "feed_all d1 fs = sse_run d1 (concat fs)" if run: "sse_run d f = Inr (d1, e1)" for d1 e1
        using Cons.IH [of d1] sse_run_ok [OF run Cons.prems(2)] Cons.prems(1) False run by auto
      then show ?thesis using feed_all_step [OF first] by blast
    qed
  qed
qed simp

lemma feed_all_fits:
  assumes "\<not> sd_closed d" and "decoder_ok d" and "list_all (fits (sd_options d)) fs"
  shows "feed_all d fs = sse_run d (concat fs)"
  using assms
proof (induction fs arbitrary: d)
  case (Cons f fs)
  show ?case
  proof (rule feed_all_step)
    show "feed_outcome (Feed d f) = sse_run d f" using feed_first(3) [OF Cons.prems(1,2)] Cons.prems(3) by simp
  next
    fix d1 e1 assume "sse_run d f = Inr (d1, e1)"
    from sse_run_ok [OF this Cons.prems(2)] show "feed_all d1 fs = sse_run d1 (concat fs)"
      using Cons.prems by (intro Cons.IH) auto
  qed
qed simp

lemma feed_all_concat:
  assumes "\<not> sd_closed d" and "decoder_ok d"
    and "int (length (sd_pending d) + length (concat fs)) \<le> MaxPendingBytes (sd_options d)"
  shows "feed_all d fs = sse_run d (concat fs)"
  using assms
proof (induction fs arbitrary: d)
  case (Cons f fs)
  show ?case
  proof (rule feed_all_step)
    show "feed_outcome (Feed d f) = sse_run d f" using feed_first(2) [OF Cons.prems(1,2)] Cons.prems(3) by simp
  next
    fix d1 e1 assume "sse_run d f = Inr (d1, e1)"
    from sse_run_ok [OF this Cons.prems(2)] show "feed_all d1 fs = sse_run d1 (concat fs)"
      using Cons.prems by (intro Cons.IH) auto
  qed
qed simp

section \<open>Reading back an encoded event\<close>

lemma sse_run_line:
  assumes "\<not> sd_swallowLeadingLF d" "sd_pending d = []" and "list_all (\<lambda>c. \<not> is_nl c) l"
    and "int (length l) \<le> MaxLineBytes (sd_options d)" and "valid_utf8 l"
    and "consumeLine d l = (d1, Inr ev)"
  shows "sse_run d (l @ LF # s) =
    (case sse_run d1 s of Inl e \<Rightarrow> Inl e
     | Inr (d2, evs) \<Rightarrow> Inr (d2, (case ev of None \<Rightarrow> [] | Some x \<Rightarrow> [x]) @ evs))"
proof -
  have same: "d\<lparr>sd_pending := [], sd_swallowLeadingLF := False\<rparr> = d" using assms(1,2) by (cases d) simp
  have "sse_byte (d\<lparr>sd_pending := l\<rparr>) LF = Inr (d1, case ev of None \<Rightarrow> [] | Some x \<Rightarrow> [x])"
    using assms(1,5,6) same by (simp add: sse_byte_def is_nl_def)
  then show ?thesis
    using sse_run_plain [of d l "LF # s"] assms(1-4) by simp
qed

lemma sse_run_silent_line:
  assumes "\<not> sd_swallowLeadingLF d" "sd_pending d = []" and "list_all (\<lambda>c. \<not> is_nl c) l"
    and "int (length l) \<le> MaxLineBytes (sd_options d)" and "valid_utf8 l"
    and "consumeLine d l = (d1, Inr None)"
  shows "sse_run d (l @ LF # s) = sse_run d1 s"
  using sse_run_line [OF assms, of s] by (simp split: sum.splits prod.splits)

lemma line_field_colon:
  "CHR '':'' \<notin> set f \<Longrightarrow> line_field (f @ '': '' @ v) = (f, v)"
  using cut_char_append [of "CHR '':''" f "CHR '' '' # v"] by (simp add: line_field_def)

lemma consumeLine_field:
  "f \<noteq> [] \<Longrightarrow> CHR '':'' \<notin> set f \<Longrightarrow> consumeLine d (f @ '': '' @ v) = apply_field d f v"
  using line_field_colon [of f v] by (cases f) (auto simp: consumeLine_def)

lemma framing_free_line: "\<not> has_framing s \<Longrightarrow> list_all (\<lambda>c. \<not> is_nl c) s"
  by (auto simp: has_framing_def is_nl_def list_all_iff list_ex_iff)

lemma digits_framing_free: "list_all is_digit s \<Longrightarrow> list_all (\<lambda>c. \<not> is_nl c) s \<and> is_ascii s"
  by (auto simp: is_digit_def is_nl_def is_ascii_def list_all_iff)

lemma valid_utf8_split: "valid_utf8 s \<Longrightarrow> l \<in> set (split_char LF s) \<Longrightarrow> valid_utf8 l"
proof (induction "split_char LF s" arbitrary: s l)
  case Nil
  then show ?case by simp
next
  case (Cons x xs)
  show ?case
  proof (cases "LF \<in> set s")
    case False
    then have "split_char LF s = [s]" by (induction s) auto
    with Cons show ?thesis by simp
  next
    case True
    then obtain u v where s: "s = u @ LF # v" and u: "LF \<notin> set u" by (meson split_list_first)
    have "split_char LF s = u # split_char LF v" unfolding s using u by (induction u) auto
    moreover have "valid_utf8 u \<and> valid_utf8 v" using Cons.prems(1) s valid_utf8_cut [of LF u v] by simp
    ultimately show ?thesis using Cons by auto
  qed
qed

lemma length_join_append: "length (join [c] ls) \<le> length (join [c] (ls @ ms))"
proof (induction ms rule: rev_induct)
  case (snoc m ms)
  then show ?case using length_join_snoc [of c "ls @ ms" m] by simp
qed simp

text \<open>The data lines of an event.\<close>

lemma sse_run_data:
  assumes "\<not> sd_swallowLeadingLF d" "sd_pending d = []"
    and "sd_eventBytes d = int (length (join [LF] (sd_dataLines d)))"
    and "int (length (join [LF] (sd_dataLines d @ ls))) \<le> MaxEventBytes (sd_options d)"
    and "list_all (\<lambda>l. list_all (\<lambda>c. \<not> is_nl c) l \<and> valid_utf8 l
           \<and> 6 + int (length l) \<le> MaxLineBytes (sd_options d)) ls"
  shows "sse_run d (concat (map (\<lambda>l. ''data: '' @ l @ [LF]) ls) @ s) =
    sse_run (d\<lparr>sd_dataLines := sd_dataLines d @ ls,
               sd_eventBytes := int (length (join [LF] (sd_dataLines d @ ls)))\<rparr>) s"
  using assms
proof (induction ls arbitrary: d)
  case Nil
  have "d\<lparr>sd_eventBytes := int (length (join [LF] (sd_dataLines d)))\<rparr> = d" using Nil by (cases d) simp
  then show ?case by simp
next
  case (Cons l ls)
  let ?d = "d\<lparr>sd_eventBytes := int (length (join [LF] (sd_dataLines d @ [l]))), sd_dataLines := sd_dataLines d @ [l]\<rparr>"
  have room: "int (length (join [LF] (sd_dataLines d @ [l]))) \<le> MaxEventBytes (sd_options d)"
    using length_join_append [of LF "sd_dataLines d @ [l]" ls] Cons.prems(4) by simp
  have bytes: "sd_eventBytes d + int (length l) + (if sd_dataLines d \<noteq> [] then 1 else 0)
      = int (length (join [LF] (sd_dataLines d @ [l])))"
    using Cons.prems(3) by (simp add: length_join_snoc)
  have "consumeLine d (''data'' @ '': '' @ l) = apply_field d ''data'' l"
    by (rule consumeLine_field) simp_all
  then have "consumeLine d (''data: '' @ l) = apply_field d ''data'' l" by simp
  also have "\<dots> = (?d, Inr None)" unfolding apply_field_def bytes using room by simp
  finally have line: "consumeLine d (''data: '' @ l) = (?d, Inr None)" .
  have "sse_run d ((''data: '' @ l) @ LF # (concat (map (\<lambda>l. ''data: '' @ l @ [LF]) ls) @ s))
      = sse_run ?d (concat (map (\<lambda>l. ''data: '' @ l @ [LF]) ls) @ s)"
    using Cons.prems line
    by (intro sse_run_silent_line) (auto simp: is_nl_def valid_utf8_ascii_prefix [of "''data: ''", simplified] is_ascii_def)
  also have "\<dots> = sse_run (?d\<lparr>sd_dataLines := sd_dataLines ?d @ ls,
               sd_eventBytes := int (length (join [LF] (sd_dataLines ?d @ ls)))\<rparr>) s"
    using Cons.prems room by (intro Cons.IH) auto
  finally show ?case by (cases d) simp
qed

text \<open>A header line of an event, and the blank line that dispatches it.\<close>

lemma sse_run_header:
  assumes "\<not> sd_swallowLeadingLF d" "sd_pending d = []"
    and "f \<noteq> []" "list_all (\<lambda>c. \<not> is_nl c \<and> c \<noteq> CHR '':'') f" "is_ascii f"
    and "list_all (\<lambda>c. \<not> is_nl c) v" "valid_utf8 v"
    and "int (length f + length v) + 2 \<le> MaxLineBytes (sd_options d)"
    and "apply_field d f v = (d1, Inr None)"
  shows "sse_run d (f @ '': '' @ v @ LF # s) = sse_run d1 s"
proof -
  have "CHR '':'' \<notin> set f" using assms(4) by (auto simp: list_all_iff)
  then have line: "consumeLine d (f @ '': '' @ v) = (d1, Inr None)"
    using consumeLine_field assms(3,9) by simp
  have "is_ascii (f @ '': '')" using assms(5) by (simp add: is_ascii_def)
  then have "valid_utf8 (f @ '': '' @ v)" using valid_utf8_ascii_prefix assms(7) by fastforce
  moreover have "list_all (\<lambda>c. \<not> is_nl c) (f @ '': '' @ v)"
    using assms(4,6) by (auto simp: list_all_iff is_nl_def)
  ultimately have "sse_run d ((f @ '': '' @ v) @ LF # s) = sse_run d1 s"
    using assms(1,2,8) line by (intro sse_run_silent_line) simp_all
  then show ?thesis by simp
qed

lemma sse_run_dispatch:
  assumes "\<not> sd_swallowLeadingLF d" "sd_pending d = []" "sd_dataLines d \<noteq> []"
    and "sd_eventCount d < MaxEvents (sd_options d)"
  shows "sse_run d [LF] =
    Inr (d\<lparr>sd_eventCount := sd_eventCount d + 1, sd_eventName := [], sd_dataLines := [],
            sd_eventBytes := 0, sd_retry := None\<rparr>,
         [\<lparr> ev_Name = (if sd_eventName d = [] then ''message'' else sd_eventName d),
            ev_Data = join [LF] (sd_dataLines d), ev_ID = sd_lastID d, ev_Retry = sd_retry d \<rparr>])"
proof -
  have same: "d\<lparr>sd_pending := [], sd_swallowLeadingLF := False\<rparr> = d" using assms(1,2) by (cases d) simp
  have "valid_utf8 []" by (simp add: valid_utf8_def bytes_of_def)
  then show ?thesis
    using assms same by (simp add: sse_byte_def is_nl_def consumeLine_def sse_dispatch_def)
qed

text \<open>A decoder between two events, with room for one more of the given size.\<close>

definition idle_with_room :: "sse_decoder \<Rightarrow> sse_event \<Rightarrow> string \<Rightarrow> bool" where
  "idle_with_room d ev bs \<longleftrightarrow>
     \<not> sd_closed d \<and> \<not> sd_swallowLeadingLF d \<and> sd_pending d = [] \<and> sd_eventName d = []
     \<and> sd_dataLines d = [] \<and> sd_eventBytes d = 0 \<and> sd_retry d = None
     \<and> sd_eventCount d < MaxEvents (sd_options d)
     \<and> int (length bs) \<le> MaxLineBytes (sd_options d)
     \<and> MaxLineBytes (sd_options d) \<le> MaxPendingBytes (sd_options d)
     \<and> int (length (ev_Data ev)) \<le> MaxEventBytes (sd_options d)"

text \<open>What \<open>Encode\<close> does not check: no CR in the data, valid UTF-8 in name and ID, a 64-bit retry.\<close>

definition encodable :: "sse_event \<Rightarrow> bool" where
  "encodable ev \<longleftrightarrow> CR \<notin> set (ev_Data ev) \<and> valid_utf8 (ev_Name ev) \<and> valid_utf8 (ev_ID ev)
     \<and> (case ev_Retry ev of Some r \<Rightarrow> r < 2 ^ 63 | None \<Rightarrow> True)"

text \<open>The four parts of an encoded event.\<close>

definition name_part :: "sse_event \<Rightarrow> string" where
  "name_part ev = (if ev_Name ev \<noteq> ''message'' then ''event'' @ '': '' @ ev_Name ev @ [LF] else [])"

definition id_part :: "sse_event \<Rightarrow> string" where
  "id_part ev = (if ev_ID ev \<noteq> [] then ''id'' @ '': '' @ ev_ID ev @ [LF] else [])"

definition retry_part :: "sse_event \<Rightarrow> string" where
  "retry_part ev =
     (case ev_Retry ev of Some r \<Rightarrow> ''retry'' @ '': '' @ decimal (nat r) @ [LF] | None \<Rightarrow> [])"

definition data_part :: "sse_event \<Rightarrow> string" where
  "data_part ev = concat (map (\<lambda>l. ''data: '' @ l @ [LF]) (split_char LF (ev_Data ev)))"

lemma Encode_parts:
  assumes "Encode ev = Inr bs"
  shows "bs = name_part ev @ id_part ev @ retry_part ev @ data_part ev @ [LF]"
    and "\<not> has_framing (ev_Name ev)" "\<not> has_framing (ev_ID ev)" "ev_Name ev \<noteq> []" "valid_utf8 (ev_Data ev)"
    and "ev_Retry ev = Some r \<Longrightarrow> 0 \<le> r"
  using assms
  by (auto simp: Encode_def name_part_def id_part_def retry_part_def data_part_def
      split: if_splits option.splits)

lemma name_part_run:
  assumes "\<not> sd_swallowLeadingLF d" "sd_pending d = []" "sd_eventName d = []"
    and "\<not> has_framing (ev_Name ev)" "valid_utf8 (ev_Name ev)"
    and "int (length (name_part ev)) \<le> MaxLineBytes (sd_options d)"
  shows "sse_run d (name_part ev @ s)
    = sse_run (d\<lparr>sd_eventName := (if ev_Name ev = ''message'' then [] else ev_Name ev)\<rparr>) s"
proof (cases "ev_Name ev = ''message''")
  case True
  moreover have "d\<lparr>sd_eventName := []\<rparr> = d" using assms(3) by (cases d) simp
  ultimately show ?thesis by (simp add: name_part_def)
next
  case False
  have "sse_run d (''event'' @ '': '' @ ev_Name ev @ LF # s) = sse_run (d\<lparr>sd_eventName := ev_Name ev\<rparr>) s"
    using assms False framing_free_line [of "ev_Name ev"] framing_free_line [of "ev_ID ev"]
    by (intro sse_run_header)
      (auto simp: apply_field_def is_nl_def is_ascii_def name_part_def)
  with False show ?thesis by (simp add: name_part_def)
qed

lemma id_part_run:
  assumes "\<not> sd_swallowLeadingLF d" "sd_pending d = []"
    and "\<not> has_framing (ev_ID ev)" "valid_utf8 (ev_ID ev)"
    and "int (length (id_part ev)) \<le> MaxLineBytes (sd_options d)"
  shows "sse_run d (id_part ev @ s)
    = sse_run (d\<lparr>sd_lastID := (if ev_ID ev = [] then sd_lastID d else ev_ID ev)\<rparr>) s"
proof (cases "ev_ID ev = []")
  case False
  have "sse_run d (''id'' @ '': '' @ ev_ID ev @ LF # s) = sse_run (d\<lparr>sd_lastID := ev_ID ev\<rparr>) s"
    using assms False framing_free_line [of "ev_Name ev"] framing_free_line [of "ev_ID ev"]
    by (intro sse_run_header)
      (auto simp: apply_field_def is_nl_def is_ascii_def id_part_def)
  with False show ?thesis by (simp add: id_part_def)
qed (simp add: id_part_def)

lemma retry_part_run:
  assumes "\<not> sd_swallowLeadingLF d" "sd_pending d = []" "sd_retry d = None"
    and "\<And>r. ev_Retry ev = Some r \<Longrightarrow> 0 \<le> r \<and> r < 2 ^ 63"
    and "int (length (retry_part ev)) \<le> MaxLineBytes (sd_options d)"
  shows "sse_run d (retry_part ev @ s) = sse_run (d\<lparr>sd_retry := ev_Retry ev\<rparr>) s"
proof (cases "ev_Retry ev")
  case None
  moreover have "d\<lparr>sd_retry := None\<rparr> = d" using assms(3) by (cases d) simp
  ultimately show ?thesis by (simp add: retry_part_def)
next
  case (Some r)
  then have "atoi_digits (decimal (nat r)) = Some r"
    using assms(4) [of r] by (simp add: atoi_digits_def digits_value_decimal nat_less_iff)
  then have "apply_field d ''retry'' (decimal (nat r)) = (d\<lparr>sd_retry := Some r\<rparr>, Inr None)"
    by (simp add: apply_field_def decimal_digits)
  moreover have "list_all (\<lambda>c. \<not> is_nl c) (decimal (nat r))" "valid_utf8 (decimal (nat r))"
    using digits_framing_free [OF decimal_digits] valid_utf8_ascii by auto
  ultimately have "sse_run d (''retry'' @ '': '' @ decimal (nat r) @ LF # s)
      = sse_run (d\<lparr>sd_retry := Some r\<rparr>) s"
    using assms Some
    by (intro sse_run_header) (auto simp: is_nl_def is_ascii_def retry_part_def)
  with Some show ?thesis by (simp add: retry_part_def)
qed

lemma data_line_length: "l \<in> set ls \<Longrightarrow>
    6 + length l \<le> length (concat (map (\<lambda>l. ''data: '' @ l @ [LF]) ls))"
  by (induction ls) auto

lemma data_part_run:
  assumes "\<not> sd_swallowLeadingLF d" "sd_pending d = []" "sd_dataLines d = []" "sd_eventBytes d = 0"
    and "valid_utf8 (ev_Data ev)" "CR \<notin> set (ev_Data ev)"
    and "int (length (ev_Data ev)) \<le> MaxEventBytes (sd_options d)"
    and "int (length (data_part ev)) \<le> MaxLineBytes (sd_options d)"
  shows "sse_run d (data_part ev @ s) =
    sse_run (d\<lparr>sd_dataLines := split_char LF (ev_Data ev), sd_eventBytes := int (length (ev_Data ev))\<rparr>) s"
proof -
  let ?ls = "split_char LF (ev_Data ev)"
  have "list_all (\<lambda>c. \<not> is_nl c) l \<and> valid_utf8 l \<and> 6 + int (length l) \<le> MaxLineBytes (sd_options d)"
    if "l \<in> set ?ls" for l
  proof -
    have "list_all (\<lambda>c. \<not> is_nl c) l"
      using split_char_free [OF that] split_char_subset [OF that] assms(6)
      by (auto simp: is_nl_def list_all_iff)
    moreover have "6 + int (length l) \<le> MaxLineBytes (sd_options d)"
      using data_line_length [OF that] assms(8) by (simp add: data_part_def)
    ultimately show ?thesis using valid_utf8_split [OF assms(5) that] by simp
  qed
  then show ?thesis
    using sse_run_data [of d ?ls s] assms by (simp add: data_part_def list_all_iff)
qed

lemma Encode_run:
  assumes enc: "Encode ev = Inr bs" and idle: "idle_with_room d ev bs" and good: "encodable ev"
    and i: "i = (if ev_ID ev = [] then sd_lastID d else ev_ID ev)"
  shows "sse_run d bs =
    Inr (d\<lparr>sd_lastID := i, sd_eventCount := sd_eventCount d + 1\<rparr>, [ev\<lparr>ev_ID := i\<rparr>])"
proof -
  note parts = Encode_parts [OF enc]
  define d1 where "d1 = d\<lparr>sd_eventName := (if ev_Name ev = ''message'' then [] else ev_Name ev)\<rparr>"
  define d2 where "d2 = d1\<lparr>sd_lastID := i\<rparr>"
  define d3 where "d3 = d2\<lparr>sd_retry := ev_Retry ev\<rparr>"
  define d4 where
    "d4 = d3\<lparr>sd_dataLines := split_char LF (ev_Data ev), sd_eventBytes := int (length (ev_Data ev))\<rparr>"
  have "sse_run d bs = sse_run d1 (id_part ev @ retry_part ev @ data_part ev @ [LF])"
    unfolding parts(1) d1_def using parts(1,2) idle good
    by (intro name_part_run) (auto simp: idle_with_room_def encodable_def)
  also have "\<dots> = sse_run (d1\<lparr>sd_lastID := (if ev_ID ev = [] then sd_lastID d1 else ev_ID ev)\<rparr>)
      (retry_part ev @ data_part ev @ [LF])"
    using parts(1,3) idle good
    by (intro id_part_run) (auto simp: idle_with_room_def encodable_def d1_def)
  also have "d1\<lparr>sd_lastID := (if ev_ID ev = [] then sd_lastID d1 else ev_ID ev)\<rparr> = d2"
    by (simp add: d2_def d1_def i)
  also have "sse_run d2 (retry_part ev @ data_part ev @ [LF]) = sse_run d3 (data_part ev @ [LF])"
    unfolding d3_def using parts(1,6) idle good
    by (intro retry_part_run) (auto simp: idle_with_room_def encodable_def d1_def d2_def)
  also have "\<dots> = sse_run d4 [LF]"
    unfolding d4_def using parts(1,5) idle good
    by (intro data_part_run) (auto simp: idle_with_room_def encodable_def d1_def d2_def d3_def)
  also have "\<dots> = Inr (d\<lparr>sd_lastID := i, sd_eventCount := sd_eventCount d + 1\<rparr>, [ev\<lparr>ev_ID := i\<rparr>])"
    using idle parts(4) sse_run_dispatch [of d4]
    by (cases d; cases ev) (simp add: idle_with_room_def d1_def d2_def d3_def d4_def)
  finally show ?thesis .
qed

section \<open>Properties\<close>

text \<open>C13: fragmentation.  However one stream is cut into fragments, of any length: if no call finds the buffer full, the
  decoder reports the same events in the same order, ends in the same state, or fails with the same error; in particular
  a CR LF pair that is split over two fragments ends one line.  A call can find the buffer full
  only with a fragment longer than what \<open>MaxPendingBytes\<close> leaves beside a line, and never while the whole stream is within
  \<open>MaxPendingBytes\<close>.\<close>

theorem fragmentation_irrelevant:
  assumes "\<not> sd_closed d" and "decoder_ok d" and "concat fs = concat gs"
  shows "(feed_all d fs = pending_limit \<or> feed_all d gs = pending_limit \<or> feed_all d fs = feed_all d gs)
    \<and> (list_all (fits (sd_options d)) fs
        \<or> int (length (sd_pending d) + length (concat fs)) \<le> MaxPendingBytes (sd_options d) \<longrightarrow> feed_all d fs \<noteq> pending_limit)"
  using feed_all_cases [OF assms(1,2), of fs] feed_all_cases [OF assms(1,2), of gs] assms(3)
    feed_all_fits [OF assms(1,2), of fs] feed_all_concat [OF assms(1,2), of fs] sse_run_limit [of d "concat fs"] by auto

text \<open>Limits.  As long as a decoder made by \<open>NewDecoder\<close> has reported no error, what it buffers of
  a line, the event data it holds and the number of events it has dispatched stay within the
  options; every event it dispatched is named and within the event limit, and is counted once.\<close>

theorem decoder_stays_within_limits:
  assumes "NewDecoder o' = Inr d" and "feed_all d fs = Inr (d', evs)"
  shows "int (length (sd_pending d')) \<le> MaxLineBytes o'
    \<and> int (length (join [LF] (sd_dataLines d'))) \<le> MaxEventBytes o'
    \<and> int (length evs) = sd_eventCount d' \<and> int (length evs) \<le> MaxEvents o'
    \<and> list_all (\<lambda>ev. ev_Name ev \<noteq> [] \<and> int (length (ev_Data ev)) \<le> MaxEventBytes o') evs"
  using NewDecoder_ok [OF assms(1)] feed_all_ok [OF assms(2)]
  by (auto simp: decoder_ok_def frame_ok_def event_ok_def list_all_iff)

text \<open>C14: what \<open>Encode\<close> writes is read back.  Let \<open>Encode\<close> accept an event whose data has no CR, whose name and ID
  are valid UTF-8 and whose retry is below 2 to the 63, let its encoding be no longer than \<open>MaxLineBytes\<close> and its data no
  longer than \<open>MaxEventBytes\<close>.  A decoder between two events that has not reached \<open>MaxEvents\<close> decodes it, in whatever fragments
  it arrives, to that event; only an empty ID is replaced by the last ID of the stream.  The decoder is between two events again and
  the stream may end there.\<close>

theorem encoded_event_is_read_back:
  assumes "Encode ev = Inr (concat fs)" and "encodable ev" and "idle_with_room d ev (concat fs)"
  shows "\<exists>d'. feed_all d fs =
      Inr (d', [ev\<lparr>ev_ID := (if ev_ID ev = [] then sd_lastID d else ev_ID ev)\<rparr>])
    \<and> d' = d\<lparr>sd_lastID := (if ev_ID ev = [] then sd_lastID d else ev_ID ev),
             sd_eventCount := sd_eventCount d + 1\<rparr>
    \<and> snd (sse_Finish d') = None"
proof -
  have "decoder_ok d" and "\<not> sd_closed d"
    and "int (length (sd_pending d) + length (concat fs)) \<le> MaxPendingBytes (sd_options d)"
    using assms(3) by (auto simp: idle_with_room_def decoder_ok_def frame_ok_def)
  then have "feed_all d fs = sse_run d (concat fs)" by (intro feed_all_concat)
  then show ?thesis
    using Encode_run [OF assms(1,3,2) refl] assms(3) by (simp add: sse_Finish_def idle_with_room_def)
qed

text \<open>Encoding an event and feeding it to a new decoder.\<close>

definition read_back :: "sse_options \<Rightarrow> sse_event \<Rightarrow> sse_error + sse_event list" where
  "read_back o' ev = (case NewDecoder o' of
      Inl e \<Rightarrow> Inl e
    | Inr d \<Rightarrow> (case Encode ev of Inl e \<Rightarrow> Inl e | Inr bs \<Rightarrow> snd (Feed d bs)))"

lemmas sse_evaluation =
  Encode_def NewDecoder_def validate_options_def DefaultOptions_def Feed_def feed_loop.simps Let_def
  cut_line_def is_nl_def consumeLine_def sse_dispatch_def line_field_def cut_char_def apply_field_def
  has_framing_def valid_utf8_ascii is_ascii_def decimal.simps byte_char_eq_iff is_digit_def
  atoi_digits_def digits_value_def

text \<open>\<open>Encode\<close> accepts data with a CR although the decoder ends a line there: the event it
  writes for the three bytes \<open>a CR b\<close> is read back with the data \<open>a\<close>, and no error is reported.\<close>

theorem encode_loses_data_after_cr:
  "read_back DefaultOptions
     \<lparr> ev_Name = ''message'', ev_Data = ''a'' @ [CR] @ ''b'', ev_ID = [], ev_Retry = None \<rparr>
   = Inr [\<lparr> ev_Name = ''message'', ev_Data = ''a'', ev_ID = [], ev_Retry = None \<rparr>]"
  by (simp add: read_back_def sse_evaluation)

section \<open>Witnesses\<close>

definition demo_decoder :: sse_decoder where
  "demo_decoder =
     \<lparr> sd_options = DefaultOptions, sd_pending = [], sd_swallowLeadingLF = False, sd_eventName = [],
       sd_dataLines = [], sd_eventBytes = 0, sd_lastID = ''7'', sd_retry = None, sd_eventCount = 0,
       sd_closed = False \<rparr>"

definition demo_event :: sse_event where
  "demo_event = \<lparr> ev_Name = ''delta'', ev_Data = ''a'' @ [LF] @ ''b'', ev_ID = [], ev_Retry = Some 15 \<rparr>"

definition demo_fragments :: "string list" where
  "demo_fragments = [''event: del'', ''ta'' @ [LF] @ ''retry: 15'' @ [LF], ''data: a'' @ [LF] @ ''data: '',
     ''b'' @ [LF], [LF]]"

theorem fragmentation_irrelevant_witness:
  "feed_all demo_decoder [''data: a'' @ [CR], [LF] @ ''data: b'' @ [CR, LF], [CR], [LF]]
   = feed_all demo_decoder [''data: a'' @ [CR, LF] @ ''data: b'' @ [CR, LF, CR, LF]]"
proof -
  let ?fs = "[''data: a'' @ [CR], [LF] @ ''data: b'' @ [CR, LF], [CR], [LF]]"
  let ?gs = "[''data: a'' @ [CR, LF] @ ''data: b'' @ [CR, LF, CR, LF]]"
  have d: "\<not> sd_closed demo_decoder" "decoder_ok demo_decoder" and eq: "concat ?fs = concat ?gs"
    and fit: "list_all (fits (sd_options demo_decoder)) ?fs" "list_all (fits (sd_options demo_decoder)) ?gs"
    by (simp_all add: demo_decoder_def DefaultOptions_def decoder_ok_def frame_ok_def fits_def)
  show ?thesis using fragmentation_irrelevant [OF d eq] fragmentation_irrelevant [OF d eq [symmetric]] fit by blast
qed

lemma demo_new: "NewDecoder DefaultOptions = Inr (demo_decoder\<lparr>sd_lastID := []\<rparr>)"
  by (simp add: NewDecoder_def validate_options_def DefaultOptions_def demo_decoder_def)

lemma demo_feed:
  "feed_all (demo_decoder\<lparr>sd_lastID := []\<rparr>) [''data: a'', [LF, LF]]
   = Inr (demo_decoder\<lparr>sd_lastID := [], sd_eventCount := 1\<rparr>,
          [\<lparr> ev_Name = ''message'', ev_Data = ''a'', ev_ID = [], ev_Retry = None \<rparr>])"
  by (simp add: demo_decoder_def sse_evaluation)

theorem decoder_stays_within_limits_witness:
  "int (length (sd_pending (demo_decoder\<lparr>sd_lastID := [], sd_eventCount := 1\<rparr>))) \<le> MaxLineBytes DefaultOptions"
  using decoder_stays_within_limits [OF demo_new demo_feed] by (simp only:)

lemma demo_encode: "Encode demo_event = Inr (concat demo_fragments)"
  by (simp add: demo_event_def demo_fragments_def sse_evaluation)

theorem encoded_event_is_read_back_witness:
  "\<exists>d'. feed_all demo_decoder demo_fragments = Inr (d', [demo_event\<lparr>ev_ID := ''7''\<rparr>])"
proof -
  have "encodable demo_event" "idle_with_room demo_decoder demo_event (concat demo_fragments)"
    by (simp_all add: encodable_def idle_with_room_def demo_event_def demo_decoder_def demo_fragments_def sse_evaluation)
  from encoded_event_is_read_back [OF demo_encode this] show ?thesis
    by (auto simp: demo_event_def demo_decoder_def)
qed

end
