(* ===== verification/Go_Base64.thy ===== *)
theory Go_Base64
  imports Go_Prelude
begin

text \<open>
  The encodings of Go's standard library the identities are written in: \<open>base64.RawURLEncoding\<close>
  with its lenient and its \<open>Strict\<close> decoder, and \<open>hex\<close>.  A byte slice is a list of characters.
\<close>

section \<open>The URL alphabet\<close>

definition b64_char :: "nat \<Rightarrow> char" where
  "b64_char n = byte_char
     (if n < 26 then 65 + n else if n < 52 then 71 + n else if n < 62 then n - 4
      else if n = 62 then 45 else 95)"

definition b64_value :: "char \<Rightarrow> nat option" where
  "b64_value c =
     (let n = of_char c :: nat in
      if 65 \<le> n \<and> n \<le> 90 then Some (n - 65)
      else if 97 \<le> n \<and> n \<le> 122 then Some (n - 71)
      else if 48 \<le> n \<and> n \<le> 57 then Some (n + 4)
      else if n = 45 then Some 62
      else if n = 95 then Some 63
      else None)"

lemma b64_value_char [simp]: "n < 64 \<Longrightarrow> b64_value (b64_char n) = Some n"
  by (auto simp: b64_value_def b64_char_def Let_def)

lemma b64_char_plain: "plain_text [b64_char n]"
  by (auto simp: b64_char_def plain_text_def)

section \<open>Encoding and decoding\<close>

fun b64_encode :: "nat list \<Rightarrow> nat list" where
  "b64_encode [] = []"
| "b64_encode [a] = [a div 4, a mod 4 * 16]"
| "b64_encode [a, b] = [a div 4, a mod 4 * 16 + b div 16, b mod 16 * 4]"
| "b64_encode (a # b # c # r) =
     [a div 4, a mod 4 * 16 + b div 16, b mod 16 * 4 + c div 64, c mod 64] @ b64_encode r"

text \<open>
  One sextet left over is an error; the unused low bits of a short last group are an error for the
  strict decoder only.
\<close>

fun b64_decode :: "bool \<Rightarrow> nat list \<Rightarrow> nat list option" where
  "b64_decode strict [] = Some []"
| "b64_decode strict [p] = None"
| "b64_decode strict [p, q] = (if strict \<and> q mod 16 \<noteq> 0 then None else Some [p * 4 + q div 16])"
| "b64_decode strict [p, q, r] =
     (if strict \<and> r mod 4 \<noteq> 0 then None
      else Some [p * 4 + q div 16, q mod 16 * 16 + r div 4])"
| "b64_decode strict (p # q # r # s # t) =
     map_option (\<lambda>u. [p * 4 + q div 16, q mod 16 * 16 + r div 4, r mod 4 * 64 + s] @ u)
       (b64_decode strict t)"

definition EncodeToString :: "string \<Rightarrow> string" where
  "EncodeToString s = map b64_char (b64_encode (bytes_of s))"

text \<open>\<open>DecodeString\<close> skips CR and LF; every other character must be of the alphabet.\<close>

fun b64_values :: "string \<Rightarrow> nat list option" where
  "b64_values [] = Some []"
| "b64_values (c # s) =
     (if c = CHR 0x0A \<or> c = CHR 0x0D then b64_values s
      else (case b64_value c of
          None \<Rightarrow> None
        | Some v \<Rightarrow> map_option (\<lambda>vs. v # vs) (b64_values s)))"

definition DecodeString :: "bool \<Rightarrow> string \<Rightarrow> string option" where
  "DecodeString strict s =
     (case b64_values s of
        None \<Rightarrow> None
      | Some vs \<Rightarrow> map_option (map byte_char) (b64_decode strict vs))"

lemma b64_decode_encode: "list_all (\<lambda>b. b < 256) bs \<Longrightarrow> b64_decode strict (b64_encode bs) = Some bs"
  by (induction bs rule: b64_encode.induct) auto

lemma b64_encode_range: "list_all (\<lambda>b. b < 256) bs \<Longrightarrow> list_all (\<lambda>n. n < 64) (b64_encode bs)"
  by (induction bs rule: b64_encode.induct) auto

lemma b64_values_encode:
  assumes "list_all (\<lambda>n. n < 64) ns"
  shows "b64_values (map b64_char ns) = Some ns"
  using assms
proof (induction ns)
  case (Cons n ns)
  have "b64_char n \<noteq> CHR 0x0A \<and> b64_char n \<noteq> CHR 0x0D"
    using b64_char_plain [of n] by (auto simp: plain_text_def)
  with Cons show ?case by simp
qed simp

lemma bytes_of_range: "list_all (\<lambda>b. b < 256) (bytes_of s)"
  by (simp add: bytes_of_def list_all_iff)

lemma DecodeString_EncodeToString [simp]: "DecodeString strict (EncodeToString s) = Some s"
proof -
  have "map byte_char (bytes_of s) = s"
    by (simp add: bytes_of_def byte_char_def map_idI)
  then show ?thesis
    by (simp add: DecodeString_def EncodeToString_def b64_values_encode b64_encode_range
        bytes_of_range b64_decode_encode)
qed

lemma EncodeToString_plain: "plain_text (EncodeToString s)"
  using b64_char_plain by (auto simp: EncodeToString_def plain_text_def list_all_iff)

lemma length_b64_encode: "length (b64_encode bs) = (4 * length bs + 2) div 3"
  by (induction bs rule: b64_encode.induct) auto

lemma length_EncodeToString: "length (EncodeToString s) = (4 * length s + 2) div 3"
  by (simp add: EncodeToString_def length_b64_encode bytes_of_def)

text \<open>The canonical form of a value of a given size: how the code tests an encoded identity.\<close>

definition canonical64 :: "bool \<Rightarrow> nat \<Rightarrow> string \<Rightarrow> bool" where
  "canonical64 strict n s \<longleftrightarrow>
     (case DecodeString strict s of
        None \<Rightarrow> False
      | Some d \<Rightarrow> length d = n \<and> EncodeToString d = s)"

lemma canonical64_iff: "canonical64 strict n s \<longleftrightarrow> (\<exists>d. length d = n \<and> s = EncodeToString d)"
  by (auto simp: canonical64_def split: option.splits)

section \<open>Hexadecimal\<close>

definition hex_value :: "char \<Rightarrow> nat option" where
  "hex_value c =
     (let n = of_char c :: nat in
      if 48 \<le> n \<and> n \<le> 57 then Some (n - 48)
      else if 97 \<le> n \<and> n \<le> 102 then Some (n - 87)
      else if 65 \<le> n \<and> n \<le> 70 then Some (n - 55)
      else None)"

fun hex_DecodeString :: "string \<Rightarrow> nat list option" where
  "hex_DecodeString [] = Some []"
| "hex_DecodeString [c] = None"
| "hex_DecodeString (c # d # s) =
     (case (hex_value c, hex_value d, hex_DecodeString s) of
        (Some h, Some l, Some r) \<Rightarrow> Some ((16 * h + l) # r)
      | _ \<Rightarrow> None)"

definition hex_lower :: "nat \<Rightarrow> char" where
  "hex_lower n = byte_char (if n < 10 then 48 + n else 87 + n)"

definition hex_EncodeToString :: "nat list \<Rightarrow> string" where
  "hex_EncodeToString bs = concat (map (\<lambda>b. [hex_lower (b div 16), hex_lower (b mod 16)]) bs)"

lemma hex_lower_value: "n < 16 \<Longrightarrow> hex_value (hex_lower n) = Some n"
  by (auto simp: hex_value_def hex_lower_def)

end
