(* ===== verification/Capture_Credential.thy ===== *)
theory Capture_Credential
  imports Go_Base64
begin

text \<open>
  The wire shape of proxy capabilities (\<open>src/internal/capturecredential/credential.go\<close>): a prefix
  that names the authority and 32 bytes in canonical base64.
\<close>

section \<open>Credentials\<close>

definition EntropyBytes :: nat where
  "EntropyBytes = 32"

definition cred_KindManagedRun :: string where
  "cred_KindManagedRun = ''managed_run''"

definition cred_KindManualCapture :: string where
  "cred_KindManualCapture = ''manual_capture''"

definition cred_Kind_Valid :: "string \<Rightarrow> bool" where
  "cred_Kind_Valid kind \<longleftrightarrow> kind = cred_KindManagedRun \<or> kind = cred_KindManualCapture"

record credential =
  cred_kind :: string
  cred_value :: string

datatype credential_error = ErrInvalidCredential

definition cred_prefix :: "string \<Rightarrow> string" where
  "cred_prefix kind =
     (if kind = cred_KindManagedRun then ''run_''
      else if kind = cred_KindManualCapture then ''manual_''
      else [])"

definition New_credential :: "string \<Rightarrow> string \<Rightarrow> credential_error + credential" where
  "New_credential kind entropy =
     (if \<not> cred_Kind_Valid kind \<or> length entropy \<noteq> EntropyBytes then Inl ErrInvalidCredential
      else Inr \<lparr> cred_kind = kind, cred_value = cred_prefix kind @ EncodeToString entropy \<rparr>)"

fun split_from :: "string list \<Rightarrow> string \<Rightarrow> (string \<times> string) option" where
  "split_from [] v = None"
| "split_from (candidate # rest) v =
     (let p = cred_prefix candidate in
      if length v > length p \<and> take (length p) v = p then Some (candidate, drop (length p) v)
      else split_from rest v)"

definition cred_split :: "string \<Rightarrow> (string \<times> string) option" where
  "cred_split v = split_from [cred_KindManagedRun, cred_KindManualCapture] v"

definition Parse_credential :: "string \<Rightarrow> credential_error + credential" where
  "Parse_credential v =
     (case cred_split v of
        None \<Rightarrow> Inl ErrInvalidCredential
      | Some (kind, encoded) \<Rightarrow>
          (case DecodeString False encoded of
             None \<Rightarrow> Inl ErrInvalidCredential
           | Some entropy \<Rightarrow>
               if length entropy \<noteq> EntropyBytes \<or> EncodeToString entropy \<noteq> encoded
               then Inl ErrInvalidCredential
               else Inr \<lparr> cred_kind = kind, cred_value = v \<rparr>))"

definition Credential_Valid :: "credential \<Rightarrow> bool" where
  "Credential_Valid c \<longleftrightarrow>
     (case Parse_credential (cred_value c) of
        Inl e \<Rightarrow> False
      | Inr parsed \<Rightarrow> cred_kind parsed = cred_kind c)"

section \<open>Parsing reads exactly what New writes\<close>

lemmas cred_kind_defs = cred_KindManagedRun_def cred_KindManualCapture_def

lemma cred_split_prefix:
  assumes "cred_Kind_Valid kind" and "enc \<noteq> []"
  shows "cred_split (cred_prefix kind @ enc) = Some (kind, enc)"
  using assms by (auto simp: cred_split_def cred_prefix_def cred_Kind_Valid_def cred_kind_defs Let_def)

lemma cred_split_SomeD:
  "cred_split v = Some (kind, enc) \<Longrightarrow> cred_Kind_Valid kind \<and> v = cred_prefix kind @ enc \<and> enc \<noteq> []"
proof -
  assume split: "cred_split v = Some (kind, enc)"
  have cut: "take (length p) v = p \<Longrightarrow> length v > length p \<Longrightarrow> v = p @ drop (length p) v \<and> drop (length p) v \<noteq> []" for p
    by (metis append_take_drop_id drop_eq_Nil not_less)
  from split show ?thesis
    using cut [of "cred_prefix cred_KindManagedRun"] cut [of "cred_prefix cred_KindManualCapture"]
    by (auto simp: cred_split_def cred_Kind_Valid_def Let_def split: if_splits)
qed

lemma encoded_nonempty: "length s = EntropyBytes \<Longrightarrow> EncodeToString s \<noteq> []"
  using length_EncodeToString [of s] by (auto simp: EntropyBytes_def)

lemma Parse_credential_iff:
  "Parse_credential v = Inr c \<longleftrightarrow> (\<exists>entropy. New_credential (cred_kind c) entropy = Inr c \<and> cred_value c = v)"
proof
  assume "Parse_credential v = Inr c"
  then obtain kind enc entropy where "cred_split v = Some (kind, enc)" "length entropy = EntropyBytes"
      "EncodeToString entropy = enc" "c = \<lparr> cred_kind = kind, cred_value = v \<rparr>"
    by (auto simp: Parse_credential_def split: option.splits if_splits)
  with cred_split_SomeD show "\<exists>entropy. New_credential (cred_kind c) entropy = Inr c \<and> cred_value c = v"
    by (intro exI [of _ entropy]) (auto simp: New_credential_def)
next
  assume "\<exists>entropy. New_credential (cred_kind c) entropy = Inr c \<and> cred_value c = v"
  then obtain entropy where "cred_Kind_Valid (cred_kind c)" "length entropy = EntropyBytes"
      "v = cred_prefix (cred_kind c) @ EncodeToString entropy" "c = \<lparr> cred_kind = cred_kind c, cred_value = v \<rparr>"
    by (cases c) (auto simp: New_credential_def split: if_splits)
  then show "Parse_credential v = Inr c"
    by (simp add: Parse_credential_def cred_split_prefix encoded_nonempty)
qed

lemma New_credential_valid: "New_credential kind entropy = Inr c \<Longrightarrow> Credential_Valid c \<and> cred_kind c = kind"
proof -
  assume new: "New_credential kind entropy = Inr c"
  then have "cred_kind c = kind" by (auto simp: New_credential_def split: if_splits)
  with new have "Parse_credential (cred_value c) = Inr c" using Parse_credential_iff by blast
  with \<open>cred_kind c = kind\<close> show ?thesis by (simp add: Credential_Valid_def)
qed

end
