(* ===== verification/Go_Path.thy ===== *)
theory Go_Path
  imports Go_Prelude
begin

text \<open>
  \<open>path/filepath\<close> on Unix: cleaning and relating paths as text, and paths in a file system with symbolic links
  (\<open>os.Lstat\<close>, \<open>filepath.EvalSymlinks\<close>).
\<close>

section \<open>Paths as text\<close>

text \<open>\<open>filepath.IsAbs\<close> and \<open>filepath.Clean\<close> on Unix.\<close>

definition IsAbs :: "string \<Rightarrow> bool" where
  "IsAbs p \<longleftrightarrow> prefix ''/'' p"

fun clean_elements :: "bool \<Rightarrow> string list \<Rightarrow> string list \<Rightarrow> string list" where
  "clean_elements rooted acc [] = rev acc"
| "clean_elements rooted acc (e # es) =
     (if e = [] \<or> e = ''.'' then clean_elements rooted acc es
      else if e = ''..'' then
        (case acc of
           [] \<Rightarrow> clean_elements rooted (if rooted then [] else [e]) es
         | a # as \<Rightarrow> if a = ''..'' then clean_elements rooted (e # acc) es
                     else clean_elements rooted as es)
      else clean_elements rooted (e # acc) es)"

definition Clean :: "string \<Rightarrow> string" where
  "Clean p =
     (let s = (if IsAbs p then ''/'' else []) @ join ''/'' (clean_elements (IsAbs p) [] (split_char (CHR ''/'') p))
      in if s = [] then ''.'' else s)"

text \<open>\<open>filepath.Join\<close> of two elements, neither of them empty, and \<open>filepath.Rel\<close>.\<close>

definition Join :: "string \<Rightarrow> string \<Rightarrow> string" where
  "Join a b = Clean (a @ ''/'' @ b)"

definition elements :: "string \<Rightarrow> string list" where
  "elements p = filter (\<lambda>e. e \<noteq> [] \<and> e \<noteq> ''.'') (split_char (CHR ''/'') p)"

fun strip_common :: "string list \<Rightarrow> string list \<Rightarrow> string list \<times> string list" where
  "strip_common (b # bs) (t # ts) = (if b = t then strip_common bs ts else (b # bs, t # ts))"
| "strip_common bs ts = (bs, ts)"

definition Rel :: "string \<Rightarrow> string \<Rightarrow> string option" where
  "Rel base targ =
     (let base = Clean base; targ = Clean targ in
      if IsAbs base \<noteq> IsAbs targ then None
      else (case strip_common (elements base) (elements targ) of (bs, ts) \<Rightarrow>
        if bs = [] \<and> ts = [] then Some ''.''
        else if bs \<noteq> [] \<and> hd bs = ''..'' then None
        else Some (join ''/'' (replicate (length bs) ''..'' @ ts))))"

section \<open>Paths in a file system\<close>

text \<open>What is stored under a location, the elements of a path without links.\<close>

datatype fs_node = FsDir | FsFile | FsLink string

type_synonym file_system = "string list \<Rightarrow> fs_node option"

datatype walked = Found "string list" | ErrNotExist | ErrNotDir | ErrTooManyLinks

text \<open>Following a path from a directory, with at most \<open>n\<close> links.  With \<open>create\<close>, what is missing is created.\<close>

function walk :: "file_system \<Rightarrow> bool \<Rightarrow> nat \<Rightarrow> string list \<Rightarrow> string list \<Rightarrow> walked" where
  "walk fs create n dir [] = Found dir"
| "walk fs create n dir (e # es) =
     (if e = [] \<or> e = ''.'' then walk fs create n dir es
      else if e = ''..'' then walk fs create n (butlast dir) es
      else (case fs (dir @ [e]) of
          None \<Rightarrow>
            if create \<and> ''..'' \<notin> set es then Found (dir @ filter (\<lambda>e. e \<noteq> [] \<and> e \<noteq> ''.'') (e # es)) else ErrNotExist
        | Some FsDir \<Rightarrow> walk fs create n (dir @ [e]) es
        | Some FsFile \<Rightarrow> if es = [] then Found (dir @ [e]) else ErrNotDir
        | Some (FsLink t) \<Rightarrow>
            if n = 0 then ErrTooManyLinks
            else walk fs create (n - 1) (if IsAbs t then [] else dir) (split_char (CHR ''/'') t @ es)))"
  by pat_completeness auto
termination by (relation "measures [\<lambda>(fs, create, n, dir, es). n, \<lambda>(fs, create, n, dir, es). length es]") auto

text \<open>\<open>filepath.EvalSymlinks\<close> and \<open>os.Lstat\<close> of an absolute path; the operating system has a limit of its own
  for links.  A location as a path has no links, and \<open>os.Stat\<close> of a path says whether it is a directory.\<close>

definition maxLinks :: nat where
  "maxLinks = 255"

definition EvalSymlinks :: "file_system \<Rightarrow> string \<Rightarrow> walked" where
  "EvalSymlinks fs p = walk fs False maxLinks [] (split_char (CHR ''/'') p)"

definition is_dir :: "file_system \<Rightarrow> string list \<Rightarrow> bool" where
  "is_dir fs l \<longleftrightarrow> l = [] \<or> fs l = Some FsDir"

definition Lstat :: "file_system \<Rightarrow> nat \<Rightarrow> string \<Rightarrow> walked" where
  "Lstat fs limit p =
     (let es = elements p in
      if es = [] then Found []
      else (case walk fs False limit [] (butlast es) of
          Found d \<Rightarrow>
            if \<not> is_dir fs d then ErrNotDir
            else if fs (d @ [last es]) = None then ErrNotExist else Found (d @ [last es])
        | r \<Rightarrow> r))"

definition Stat_IsDir :: "file_system \<Rightarrow> nat \<Rightarrow> string \<Rightarrow> bool" where
  "Stat_IsDir fs limit p =
     (case walk fs False limit [] (split_char (CHR ''/'') p) of Found l \<Rightarrow> is_dir fs l | _ \<Rightarrow> False)"

text \<open>A location as a path, and \<open>filepath.Dir\<close> of an absolute clean path.\<close>

definition abs_path :: "string list \<Rightarrow> string" where
  "abs_path l = ''/'' @ join ''/'' l"

definition Dir :: "string \<Rightarrow> string" where
  "Dir p = abs_path (butlast (elements p))"

section \<open>Cleaned paths\<close>

abbreviation proper :: "string \<Rightarrow> bool" where
  "proper e \<equiv> e \<noteq> [] \<and> e \<noteq> ''.''"

definition plain_name :: "string \<Rightarrow> bool" where
  "plain_name e \<longleftrightarrow> proper e \<and> e \<noteq> ''..'' \<and> CHR ''/'' \<notin> set e"

lemma clean_elements_plain:
  "''..'' \<notin> set es \<Longrightarrow> clean_elements rooted acc es = rev acc @ filter proper es"
  by (induction rooted acc es rule: clean_elements.induct) (auto split: list.splits)

lemma clean_elements_names:
  "list_all (\<lambda>e. CHR ''/'' \<notin> set e) es \<Longrightarrow> list_all plain_name acc \<Longrightarrow> list_all plain_name (clean_elements True acc es)"
proof (induction True acc es rule: clean_elements.induct)
  case (2 acc e es)
  then show ?case by (cases acc) (auto simp: plain_name_def)
qed (simp add: list_all_iff)

lemma split_slash_free: "list_all (\<lambda>e. CHR ''/'' \<notin> set e) (split_char (CHR ''/'') p)"
  by (auto simp: list_all_iff dest: split_char_free)

lemma elements_abs_path [simp]:
  assumes "list_all plain_name l"
  shows "elements (abs_path l) = l"
proof (cases "l = []")
  case False
  have "list_all (\<lambda>f. CHR ''/'' \<notin> set f) l" using assms by (auto simp: list_all_iff plain_name_def)
  then have "split_char (CHR ''/'') (abs_path l) = [] # l" using False by (simp add: abs_path_def split_join)
  moreover have "filter proper l = l" using assms by (auto simp: filter_id_conv list_all_iff plain_name_def)
  ultimately show ?thesis by (simp add: elements_def)
qed (simp add: elements_def abs_path_def)

lemma IsAbs_abs_path [simp]: "IsAbs (abs_path l)"
  by (simp add: IsAbs_def abs_path_def)

lemma Clean_abs:
  assumes "IsAbs p"
  shows "Clean p = abs_path (clean_elements True [] (split_char (CHR ''/'') p))"
  using assms by (simp add: Clean_def abs_path_def Let_def)

lemma Clean_names: "list_all plain_name (clean_elements True [] (split_char (CHR ''/'') p))"
  by (rule clean_elements_names [OF split_slash_free]) simp

lemma elements_Clean: "IsAbs p \<Longrightarrow> elements (Clean p) = clean_elements True [] (split_char (CHR ''/'') p)"
  by (simp add: Clean_abs Clean_names)

lemma elements_Clean_plain: "IsAbs p \<Longrightarrow> ''..'' \<notin> set (split_char (CHR ''/'') p) \<Longrightarrow> elements (Clean p) = elements p"
  by (simp add: elements_Clean clean_elements_plain) (simp add: elements_def)

lemma Clean_abs_path [simp]: "list_all plain_name l \<Longrightarrow> Clean (abs_path l) = abs_path l"
proof -
  assume l: "list_all plain_name l"
  have "set (split_char (CHR ''/'') (abs_path l)) \<subseteq> insert [] (set l)"
    using l by (cases "l = []") (auto simp: abs_path_def split_join list_all_iff plain_name_def)
  moreover have "''..'' \<notin> set l" using l by (auto simp: list_all_iff plain_name_def)
  ultimately have "''..'' \<notin> set (split_char (CHR ''/'') (abs_path l))" by auto
  then show ?thesis using l elements_abs_path [OF l] by (simp add: Clean_abs clean_elements_plain elements_def)
qed

lemma strip_common_prefix: "fst (strip_common bs ts) = [] \<longleftrightarrow> prefix bs ts"
  by (induction bs ts rule: strip_common.induct) auto

lemma strip_common_suffix: "set (snd (strip_common bs ts)) \<subseteq> set ts" "set (fst (strip_common bs ts)) \<subseteq> set bs"
  by (induction bs ts rule: strip_common.induct) auto

section \<open>Locations\<close>

declare walk.simps(2) [simp del]

lemma walk_skip [simp]: "walk fs create n dir ([] # es) = walk fs create n dir es" "walk fs create n dir (''.'' # es) = walk fs create n dir es"
  and walk_up [simp]: "walk fs create n dir (''..'' # es) = walk fs create n (butlast dir) es"
  by (simp_all add: walk.simps(2))

lemma walk_enter:
  assumes "proper e" "e \<noteq> ''..''"
  shows "fs (dir @ [e]) = None \<Longrightarrow> walk fs create n dir (e # es) =
      (if create \<and> ''..'' \<notin> set es then Found (dir @ filter proper (e # es)) else ErrNotExist)"
    and "fs (dir @ [e]) = Some FsDir \<Longrightarrow> walk fs create n dir (e # es) = walk fs create n (dir @ [e]) es"
    and "fs (dir @ [e]) = Some FsFile \<Longrightarrow> walk fs create n dir (e # es) = (if es = [] then Found (dir @ [e]) else ErrNotDir)"
    and "fs (dir @ [e]) = Some (FsLink t) \<Longrightarrow> walk fs create n dir (e # es) =
      (if n = 0 then ErrTooManyLinks else walk fs create (n - 1) (if IsAbs t then [] else dir) (split_char (CHR ''/'') t @ es))"
  using assms by (simp_all add: walk.simps(2))

text \<open>Induction along a walk, with one case for each kind of element.\<close>

lemma walk_induct [case_names Nil Skip Up Missing Dir File Link]:
  fixes fs :: file_system and n :: nat
  assumes "\<And>n dir. P n dir []"
    and "\<And>n dir e es. \<not> proper e \<Longrightarrow> P n dir es \<Longrightarrow> P n dir (e # es)"
    and "\<And>n dir es. P n (butlast dir) es \<Longrightarrow> P n dir (''..'' # es)"
    and "\<And>n dir e es. proper e \<Longrightarrow> e \<noteq> ''..'' \<Longrightarrow> fs (dir @ [e]) = None \<Longrightarrow> P n dir (e # es)"
    and "\<And>n dir e es. proper e \<Longrightarrow> e \<noteq> ''..'' \<Longrightarrow> fs (dir @ [e]) = Some FsDir \<Longrightarrow> P n (dir @ [e]) es \<Longrightarrow> P n dir (e # es)"
    and "\<And>n dir e es. proper e \<Longrightarrow> e \<noteq> ''..'' \<Longrightarrow> fs (dir @ [e]) = Some FsFile \<Longrightarrow> P n dir (e # es)"
    and "\<And>n dir e es t. proper e \<Longrightarrow> e \<noteq> ''..'' \<Longrightarrow> fs (dir @ [e]) = Some (FsLink t) \<Longrightarrow>
      (0 < n \<Longrightarrow> P (n - 1) (if IsAbs t then [] else dir) (split_char (CHR ''/'') t @ es)) \<Longrightarrow> P n dir (e # es)"
  shows "P n dir es"
proof (induction n arbitrary: dir es rule: less_induct)
  case (less n dir es)
  show ?case
  proof (induction es arbitrary: dir)
    case (Cons e es)
    consider "\<not> proper e" | "e = ''..''" | "proper e" "e \<noteq> ''..''" by blast
    then show ?case
    proof cases
      case 3
      consider "fs (dir @ [e]) = None" | "fs (dir @ [e]) = Some FsDir" | "fs (dir @ [e]) = Some FsFile" | t where "fs (dir @ [e]) = Some (FsLink t)"
        by (metis fs_node.exhaust not_None_eq)
      then show ?thesis by cases (use assms(4-7) 3 Cons less in auto)
    qed (use assms(2,3) Cons in auto)
  qed (rule assms(1))
qed

lemma walk_names:
  "list_all (\<lambda>e. CHR ''/'' \<notin> set e) es \<Longrightarrow> list_all plain_name dir \<Longrightarrow> walk fs create n dir es = Found l \<Longrightarrow> list_all plain_name l"
proof (induction n dir es rule: walk_induct [where fs = fs])
  case (Up n dir es)
  then show ?case by (auto simp: list_all_iff dest: in_set_butlastD)
next
  case (Missing n dir e es)
  then show ?case by (auto simp: walk_enter plain_name_def list_all_iff split: if_splits)
next
  case (Link n dir e es t)
  then show ?case using split_slash_free [of t] by (auto simp: walk_enter split: if_splits)
qed (auto simp: walk_enter plain_name_def split: if_splits)

text \<open>More links allowed, or the creation of what is missing, changes an outcome only if it was an error.\<close>

lemma walk_add_links: "walk fs create n dir es \<noteq> ErrTooManyLinks \<Longrightarrow> walk fs create (n + k) dir es = walk fs create n dir es"
proof (induction n dir es rule: walk_induct [where fs = fs])
  case (Link n dir e es t)
  note enter = walk_enter(4) [of e fs dir t, OF Link(1-3)]
  have "0 < n" using Link(5) by (simp add: enter split: if_splits)
  then show ?case using Link(4,5) unfolding enter by simp
qed (auto simp: walk_enter)

lemma walk_more_links:
  "walk fs create n dir es \<noteq> ErrTooManyLinks \<Longrightarrow> n \<le> m \<Longrightarrow> walk fs create m dir es = walk fs create n dir es"
  using walk_add_links [of fs create n dir es "m - n"] by simp

lemma walk_create: "walk fs False n dir es = Found l \<Longrightarrow> walk fs True n dir es = Found l"
  by (induction n dir es rule: walk_induct [where fs = fs]) (auto simp: walk_enter split: if_splits)

lemma walk_agree:
  assumes "walk fs create n dir es = Found l" and "walk fs create m dir es = r" and "r \<noteq> ErrTooManyLinks"
  shows "r = Found l"
  using assms walk_more_links [of fs create n dir es m] walk_more_links [of fs create m dir es n] by (cases "n \<le> m") auto

text \<open>A walk goes on from the directory that its first part leads to.\<close>

lemma walk_append:
  "walk fs False n dir xs = Found r \<Longrightarrow> is_dir fs r \<Longrightarrow> walk fs create n dir (xs @ ys) = Found l \<Longrightarrow> \<exists>m. walk fs create m r ys = Found l"
proof (induction n dir xs rule: walk_induct [where fs = fs])
  case (Skip n dir e es)
  then show ?case by auto
next
  case (File n dir e es)
  then show ?case by (auto simp: walk_enter is_dir_def split: if_splits)
qed (auto simp: walk_enter split: if_splits)

lemma walk_prefix:
  assumes "walk fs False m dir xs = Found r" and "is_dir fs r" and "walk fs create n dir (xs @ ys) = Found l"
  obtains k where "walk fs create k r ys = Found l"
proof -
  have "walk fs False (max m n) dir xs = Found r" "walk fs create (max m n) dir (xs @ ys) = Found l"
    using walk_more_links [of fs False m dir xs "max m n"] walk_more_links [of fs create n dir "xs @ ys" "max m n"] assms by auto
  then show thesis using walk_append [OF _ assms(2)] that by blast
qed

text \<open>Empty elements and dots may be left out of a path that leads somewhere.\<close>

lemma subseq_proper:
  assumes "proper e" and sub: "subseq xs (e # es)" and eq: "filter proper xs = filter proper (e # es)"
  obtains ys where "xs = e # ys" "subseq ys es" "filter proper ys = filter proper es"
proof (cases "subseq xs es")
  case True
  then have "length (filter proper xs) \<le> length (filter proper es)" by (intro list_emb_length [of "(=)"] subseq_filter)
  then show thesis using assms(1) eq by simp
next
  case False
  then obtain ys where "xs = e # ys" "subseq ys es" using sub by (cases xs) (auto split: if_splits)
  then show thesis using that eq assms(1) by simp
qed

lemma walk_filter:
  "walk fs create n dir es = Found l \<Longrightarrow> subseq xs es \<Longrightarrow> filter proper xs = filter proper es \<Longrightarrow> walk fs create n dir xs = Found l"
proof (induction n dir es arbitrary: xs rule: walk_induct [where fs = fs])
  case (Skip n dir e es)
  show ?case
  proof (cases "subseq xs es")
    case False
    then obtain ys where "xs = e # ys" "subseq ys es" using Skip(4) by (cases xs) (auto split: if_splits)
    then show ?thesis using Skip by auto
  qed (use Skip in auto)
next
  case (Up n dir es)
  from Up.prems obtain ys where "xs = ''..'' # ys" "subseq ys es" "filter proper ys = filter proper es" by (elim subseq_proper [rotated]) auto
  then show ?case using Up by simp
next
  case (Missing n dir e es)
  have dots: "''..'' \<in> set (filter proper zs) \<longleftrightarrow> ''..'' \<in> set zs" for zs by simp
  from Missing(1,5,6) obtain ys where "xs = e # ys" "subseq ys es" "filter proper ys = filter proper es" by (rule subseq_proper)
  moreover from this(3) have "''..'' \<in> set ys \<longleftrightarrow> ''..'' \<in> set es" using dots [of ys] dots [of es] by simp
  ultimately show ?case using Missing by (simp add: walk_enter split: if_splits)
next
  case (Dir n dir e es)
  from Dir(1,6,7) obtain ys where "xs = e # ys" "subseq ys es" "filter proper ys = filter proper es" by (rule subseq_proper)
  then show ?case using Dir by (simp add: walk_enter)
next
  case (File n dir e es)
  from File(1,5,6) obtain ys where "xs = e # ys" "subseq ys es" "filter proper ys = filter proper es" by (rule subseq_proper)
  then show ?case using File by (auto simp: walk_enter split: if_splits)
next
  case (Link n dir e es t)
  from Link(1,6,7) obtain ys where "xs = e # ys" "subseq ys es" "filter proper ys = filter proper es" by (rule subseq_proper)
  moreover from this(2) have "subseq (split_char (CHR ''/'') t @ ys) (split_char (CHR ''/'') t @ es)"
    by (intro list_emb_append_mono) simp_all
  ultimately show ?case using Link by (auto simp: walk_enter split: if_splits)
qed (auto dest: list_emb_Nil2)

end
