(* ===== verification/Capture_Admission.thy ===== *)
theory Capture_Admission
  imports Capture_Identity Capture_Credential Go_Path
begin

text \<open>
  The result of authenticating a proxy credential (\<open>src/internal/captureadmission\<close>: \<open>admission.go\<close>,
  \<open>managed_run.go\<close>, \<open>authorizer.go\<close>) and the evidence it carries (\<open>workspaceidentity.Scope\<close>,
  \<open>clientadapter.Evidence\<close>, \<open>capturerun.RuntimeMetadata\<close>, \<open>runtimeuser\<close> names).

  The authorities behind \<open>Authorize\<close> are interface values in the source, here functions.  A receipt
  is a heap object: its identity is \<open>rcpt_ptr\<close>, its mutable \<open>withdrawn\<close> flag is kept by the caller,
  and its closure \<open>read\<close> is the value of the capability it closes over.
\<close>

section \<open>Evidence\<close>

subsection \<open>Workspace scope\<close>

record scope =
  sc_machineID :: string
  sc_workspaceID :: string
  sc_workspaceLabel :: string
  sc_evidence :: string
  sc_registrationRevision :: uint64
  sc_derivationRevision :: uint64

definition zero_scope :: scope where
  "zero_scope = \<lparr> sc_machineID = [], sc_workspaceID = [], sc_workspaceLabel = [], sc_evidence = [],
     sc_registrationRevision = 0, sc_derivationRevision = 0 \<rparr>"

definition EvidenceLocalLauncher :: string where
  "EvidenceLocalLauncher = ''local_launcher''"

definition EvidenceRegisteredCompanion :: string where
  "EvidenceRegisteredCompanion = ''registered_companion''"

definition Evidence_Valid :: "string \<Rightarrow> bool" where
  "Evidence_Valid e \<longleftrightarrow> e = EvidenceLocalLauncher \<or> e = EvidenceRegisteredCompanion"

definition workspace_validOpaqueIdentity :: "string \<Rightarrow> bool" where
  "workspace_validOpaqueIdentity v \<longleftrightarrow>
     (if v = [] \<or> length v > 128 \<or> \<not> valid_utf8 v then False else canonical64 True 32 v)"

text \<open>\<open>strings.ContainsAny(value, "\x00\r\n")\<close>.\<close>

definition has_break :: "string \<Rightarrow> bool" where
  "has_break s \<longleftrightarrow> list_ex (\<lambda>c. c = CHR 0x00 \<or> c = CHR 0x0D \<or> c = CHR 0x0A) s"

definition workspace_validLabel :: "string \<Rightarrow> bool" where
  "workspace_validLabel v \<longleftrightarrow>
     v \<noteq> [] \<and> length v \<le> 120 \<and> valid_utf8 v \<and> trim_space v = v \<and> \<not> has_break v"

definition Scope_Validate :: "scope \<Rightarrow> bool" where
  "Scope_Validate s \<longleftrightarrow>
     \<not> (\<not> workspace_validOpaqueIdentity (sc_machineID s) \<or> \<not> workspace_validOpaqueIdentity (sc_workspaceID s)
        \<or> \<not> workspace_validLabel (sc_workspaceLabel s) \<or> \<not> Evidence_Valid (sc_evidence s)
        \<or> sc_registrationRevision s = 0 \<or> sc_derivationRevision s = 0)"

subsection \<open>Client adapter\<close>

record adapter_evidence =
  ad_ID :: string
  ad_Revision :: uint64
  ad_Version :: string
  ad_CatalogRevision :: uint64
  ad_InstallShape :: string
  ad_ReleaseSHA256 :: string
  ad_LaunchRecipe :: string
  ad_Features :: uint64

definition Revision_Valid :: "uint64 \<Rightarrow> bool" where
  "Revision_Valid r \<longleftrightarrow> r > 0 \<and> unat r \<le> 2 ^ 63 - 1"

definition LaunchGeneric :: string where
  "LaunchGeneric = ''generic_http_proxy''"

definition LaunchRecipe_Valid :: "string \<Rightarrow> bool" where
  "LaunchRecipe_Valid r \<longleftrightarrow>
     r = LaunchGeneric \<or> r = ''node_env_proxy'' \<or> r = ''codex_responses_http''"

definition InstallShape_Valid :: "string \<Rightarrow> bool" where
  "InstallShape_Valid s \<longleftrightarrow> s = ''native_single_binary'' \<or> s = ''npm_wrapper_native_child''"

text \<open>The four feature bits, and \<open>features &^ knownFeatures == 0\<close>.\<close>

definition knownFeatures :: uint64 where
  "knownFeatures = 15"

definition Feature_valid :: "uint64 \<Rightarrow> bool" where
  "Feature_valid f \<longleftrightarrow> and f (not knownFeatures) = 0"

text \<open>A string that decodes as hexadecimal is ASCII: \<open>ToLower\<close> needs no Unicode table here.\<close>

definition validDigest :: "string \<Rightarrow> bool" where
  "validDigest v \<longleftrightarrow>
     (case hex_DecodeString v of None \<Rightarrow> False | Some d \<Rightarrow> length d = 32 \<and> to_lower (\<lambda>r. r) v = v)"

definition Adapter_Validate :: "adapter_evidence \<Rightarrow> bool" where
  "Adapter_Validate e \<longleftrightarrow>
     \<not> (trim_space (ad_ID e) \<noteq> ad_ID e \<or> ad_ID e = [] \<or> \<not> Revision_Valid (ad_Revision e)
        \<or> trim_space (ad_Version e) \<noteq> ad_Version e \<or> ad_Version e = []
        \<or> \<not> Revision_Valid (ad_CatalogRevision e) \<or> \<not> InstallShape_Valid (ad_InstallShape e)
        \<or> \<not> LaunchRecipe_Valid (ad_LaunchRecipe e) \<or> ad_LaunchRecipe e = LaunchGeneric
        \<or> \<not> Feature_valid (ad_Features e) \<or> \<not> validDigest (ad_ReleaseSHA256 e))"

definition Adapter_Supports :: "adapter_evidence \<Rightarrow> uint64 \<Rightarrow> bool" where
  "Adapter_Supports e f \<longleftrightarrow>
     f \<noteq> 0 \<and> and f (not knownFeatures) = 0 \<and> and (ad_Features e) f = f"

subsection \<open>Launcher metadata\<close>

definition validateTextContent :: "string \<Rightarrow> nat \<Rightarrow> bool" where
  "validateTextContent v limit \<longleftrightarrow>
     (if v = [] \<or> length v > limit \<or> \<not> valid_utf8 v then False else \<not> has_control v)"

definition validateText :: "string \<Rightarrow> nat \<Rightarrow> bool" where
  "validateText v limit \<longleftrightarrow> (if trim_space v \<noteq> v then False else validateTextContent v limit)"

definition run_validateID :: "string \<Rightarrow> bool" where
  "run_validateID v \<longleftrightarrow> validateText v 128"

record git_snapshot =
  git_RepositorySource :: string
  git_RepositoryKey :: string
  git_RepositoryName :: string
  git_Branch :: string
  git_Detached :: bool

definition Git_Validate :: "git_snapshot \<Rightarrow> bool" where
  "Git_Validate g \<longleftrightarrow>
     \<not> ((git_RepositorySource g \<noteq> ''remote'' \<and> git_RepositorySource g \<noteq> ''local'')
        \<or> (case hex_DecodeString (git_RepositoryKey g) of
             None \<Rightarrow> True
           | Some key \<Rightarrow> length key \<noteq> 32 \<or> hex_EncodeToString key \<noteq> git_RepositoryKey g)
        \<or> \<not> validateText (git_RepositoryName g) 256
        \<or> (git_Detached g \<and> git_Branch g \<noteq> [])
        \<or> (\<not> git_Detached g \<and> \<not> validateText (git_Branch g) 256))"

record runtime_metadata =
  md_GitAtLaunch :: "git_snapshot option"
  md_LocalUserName :: string
  md_HomeDirectory :: string
  md_OperatingSystem :: string
  md_OperatingSystemVersion :: string
  md_Architecture :: string
  md_TimeZone :: string

definition zero_metadata :: runtime_metadata where
  "zero_metadata = \<lparr> md_GitAtLaunch = None, md_LocalUserName = [], md_HomeDirectory = [],
     md_OperatingSystem = [], md_OperatingSystemVersion = [], md_Architecture = [], md_TimeZone = [] \<rparr>"

definition metadata_item_ok :: "string \<times> nat \<Rightarrow> bool" where
  "metadata_item_ok = (\<lambda>(v, limit).
     \<not> (length v > limit \<or> \<not> valid_utf8 v \<or> trim_space v \<noteq> v \<or> has_break v) \<and> \<not> has_control v)"

definition Metadata_Validate :: "runtime_metadata \<Rightarrow> bool" where
  "Metadata_Validate m \<longleftrightarrow>
     (case md_GitAtLaunch m of None \<Rightarrow> True | Some g \<Rightarrow> Git_Validate g)
     \<and> list_all metadata_item_ok
         [(md_LocalUserName m, 128), (md_HomeDirectory m, 4096), (md_OperatingSystem m, 64),
          (md_OperatingSystemVersion m, 256), (md_Architecture m, 64), (md_TimeZone m, 128)]"

subsection \<open>Runtime users\<close>

definition validIdentifier :: "string \<Rightarrow> string \<Rightarrow> bool" where
  "validIdentifier v p \<longleftrightarrow> (if \<not> prefix p v then False else canonical64 True 20 (drop (length p) v))"

definition UserID_Valid :: "string \<Rightarrow> bool" where
  "UserID_Valid v \<longleftrightarrow> validIdentifier v ''user.''"

text \<open>The switch on one character; \<open>None\<close> is the default branch, which returns the empty name.\<close>

definition username_rune :: "nat \<Rightarrow> string option" where
  "username_rune r =
     (if 0x41 \<le> r \<and> r \<le> 0x5A then Some (encode_rune (r + 0x20))
      else if (0x61 \<le> r \<and> r \<le> 0x7A) \<or> (0x30 \<le> r \<and> r \<le> 0x39) \<or> r = 0x2E \<or> r = 0x5F \<or> r = 0x2D
      then Some (encode_rune r)
      else None)"

fun username_runes :: "nat list \<Rightarrow> string option" where
  "username_runes [] = Some []"
| "username_runes (r # rs) =
     (case username_rune r of
        None \<Rightarrow> None
      | Some c \<Rightarrow> map_option (\<lambda>s. c @ s) (username_runes rs))"

definition canonicalUsername :: "string \<Rightarrow> string" where
  "canonicalUsername v =
     (if length v < 3 \<or> length v > 64 \<or> trim_space v \<noteq> v then []
      else (case username_runes (go_runes v) of None \<Rightarrow> [] | Some s \<Rightarrow> s))"

definition ValidUsername :: "string \<Rightarrow> bool" where
  "ValidUsername v \<longleftrightarrow> v \<noteq> [] \<and> canonicalUsername v = v"

section \<open>Admissions\<close>

datatype admission_error = ErrCredentialRejected | ErrInvalidAdmission string

definition adm_KindManagedRun :: string where
  "adm_KindManagedRun = ''managed_run''"

definition adm_KindManual :: string where
  "adm_KindManual = ''manual''"

definition adm_Kind_valid :: "string \<Rightarrow> bool" where
  "adm_Kind_valid k \<longleftrightarrow> k = adm_KindManagedRun \<or> k = adm_KindManual"

definition AttributionVerified :: string where
  "AttributionVerified = ''verified''"

definition AttributionConfigured :: string where
  "AttributionConfigured = ''configured''"

definition AttributionUnknown :: string where
  "AttributionUnknown = ''unknown''"

definition confidence_valid :: "string \<Rightarrow> bool" where
  "confidence_valid c \<longleftrightarrow> c = AttributionVerified \<or> c = AttributionConfigured \<or> c = AttributionUnknown"

record fence =
  fence_ArchiveEpoch :: uint64
  fence_CaptureGeneration :: uint64

record recording_scope =
  rec_Capture :: reference
  rec_Fence :: fence

definition zero_recording_scope :: recording_scope where
  "zero_recording_scope =
     \<lparr> rec_Capture = zero_reference, rec_Fence = \<lparr> fence_ArchiveEpoch = 0, fence_CaptureGeneration = 0 \<rparr> \<rparr>"

text \<open>What the closure of a receipt reads: the run or the manual capability it was issued for.\<close>

datatype receipt_read = ReadRun string | ReadManual string

record receipt =
  rcpt_ptr :: nat
  rcpt_issuer :: "nat option"
  rcpt_read :: "receipt_read option"

record admission =
  adm_recordingScope :: recording_scope
  adm_receipt :: "receipt option"
  adm_kind :: string
  adm_admissionRef :: string
  adm_captureRunID :: string
  adm_manualCaptureID :: string
  adm_credentialRevision :: uint64
  adm_machineID :: string
  adm_workspaceID :: string
  adm_confidence :: string
  adm_sourceLabel :: string
  adm_workspace :: scope
  adm_workspaceRoot :: string
  adm_adapter :: "adapter_evidence option"
  adm_runtime :: runtime_metadata
  adm_runtimeUsername :: string
  adm_runtimeUserID :: string

definition zero_admission :: admission where
  "zero_admission = \<lparr> adm_recordingScope = zero_recording_scope, adm_receipt = None, adm_kind = [],
     adm_admissionRef = [], adm_captureRunID = [], adm_manualCaptureID = [], adm_credentialRevision = 0,
     adm_machineID = [], adm_workspaceID = [], adm_confidence = [], adm_sourceLabel = [],
     adm_workspace = zero_scope, adm_workspaceRoot = [], adm_adapter = None, adm_runtime = zero_metadata,
     adm_runtimeUsername = [], adm_runtimeUserID = [] \<rparr>"

definition identity_rune :: "bool \<Rightarrow> nat \<Rightarrow> bool" where
  "identity_rune allowSlash r \<longleftrightarrow>
     (0x61 \<le> r \<and> r \<le> 0x7A) \<or> (0x41 \<le> r \<and> r \<le> 0x5A) \<or> (0x30 \<le> r \<and> r \<le> 0x39)
     \<or> r = 0x2D \<or> r = 0x5F \<or> r = 0x2E \<or> (allowSlash \<and> r = 0x2F)"

definition validIdentity :: "string \<Rightarrow> nat \<Rightarrow> bool \<Rightarrow> bool" where
  "validIdentity v maxBytes allowSlash \<longleftrightarrow>
     (if v = [] \<or> length v > maxBytes \<or> \<not> valid_utf8 v \<or> trim_space v \<noteq> v then False
      else list_all (identity_rune allowSlash) (go_runes v))"

definition validOpaqueID :: "string \<Rightarrow> bool" where
  "validOpaqueID v \<longleftrightarrow> validIdentity v 128 False"

definition validAdmissionRef :: "string \<Rightarrow> bool" where
  "validAdmissionRef v \<longleftrightarrow> validIdentity v 256 True"

definition validLabel :: "string \<Rightarrow> bool" where
  "validLabel v \<longleftrightarrow>
     (if v = [] \<or> length v > 256 \<or> \<not> valid_utf8 v \<or> trim_space v \<noteq> v then False
      else \<not> has_control v)"

text \<open>The two branches of the final switch of \<open>Validate\<close>.\<close>

definition validate_managed :: "admission \<Rightarrow> admission_error option" where
  "validate_managed a =
     (if \<not> validOpaqueID (adm_captureRunID a)
         \<or> adm_admissionRef a \<noteq> ''capture-run/'' @ adm_captureRunID a
         \<or> adm_manualCaptureID a \<noteq> [] \<or> adm_credentialRevision a \<noteq> 1
      then Some (ErrInvalidAdmission ''managed-run evidence is invalid'')
      else if adm_confidence a \<noteq> AttributionConfigured \<and> adm_confidence a \<noteq> AttributionVerified
      then Some (ErrInvalidAdmission ''managed-run confidence is invalid'')
      else if (adm_adapter a \<noteq> None) \<noteq> (adm_confidence a = AttributionVerified)
      then Some (ErrInvalidAdmission ''adapter confidence is inconsistent'')
      else if (case adm_adapter a of None \<Rightarrow> False | Some e \<Rightarrow> \<not> Adapter_Validate e)
      then Some (ErrInvalidAdmission ''client adapter evidence is invalid'')
      else if \<not> Metadata_Validate (adm_runtime a)
      then Some (ErrInvalidAdmission ''managed runtime metadata is invalid'')
      else if adm_runtimeUserID a \<noteq> [] \<and> \<not> UserID_Valid (adm_runtimeUserID a)
      then Some (ErrInvalidAdmission [])
      else if adm_runtimeUsername a \<noteq> [] \<and> \<not> ValidUsername (adm_runtimeUsername a)
      then Some (ErrInvalidAdmission ''Runtime username is invalid'')
      else None)"

definition validate_manual :: "admission \<Rightarrow> admission_error option" where
  "validate_manual a =
     (if \<not> validOpaqueID (adm_manualCaptureID a)
         \<or> adm_admissionRef a \<noteq> ''manual-capture/'' @ adm_manualCaptureID a
         \<or> adm_captureRunID a \<noteq> [] \<or> adm_adapter a \<noteq> None
         \<or> adm_workspace a \<noteq> zero_scope \<or> adm_workspaceRoot a \<noteq> []
         \<or> adm_runtime a \<noteq> zero_metadata
         \<or> adm_runtimeUsername a \<noteq> [] \<or> adm_runtimeUserID a \<noteq> []
         \<or> adm_confidence a \<noteq> AttributionConfigured
      then Some (ErrInvalidAdmission ''manual-capture evidence is invalid'')
      else None)"

definition Admission_Validate :: "admission \<Rightarrow> admission_error option" where
  "Admission_Validate a =
     (if \<not> adm_Kind_valid (adm_kind a) \<or> \<not> validAdmissionRef (adm_admissionRef a)
         \<or> adm_credentialRevision a = 0 \<or> \<not> confidence_valid (adm_confidence a)
         \<or> \<not> validLabel (adm_sourceLabel a)
      then Some (ErrInvalidAdmission [])
      else
       (let hasWorkspace = (adm_workspace a \<noteq> zero_scope);
            hasMachineID = (adm_machineID a \<noteq> []);
            hasWorkspaceID = (adm_workspaceID a \<noteq> []) in
        if hasWorkspace \<noteq> (hasMachineID \<and> hasWorkspaceID)
        then Some (ErrInvalidAdmission ''workspace identity is incomplete'')
        else if hasWorkspace \<and> (\<not> Scope_Validate (adm_workspace a)
            \<or> sc_machineID (adm_workspace a) \<noteq> adm_machineID a
            \<or> sc_workspaceID (adm_workspace a) \<noteq> adm_workspaceID a)
        then Some (ErrInvalidAdmission ''workspace evidence is invalid'')
        else if adm_workspaceRoot a \<noteq> []
            \<and> (\<not> IsAbs (adm_workspaceRoot a) \<or> Clean (adm_workspaceRoot a) \<noteq> adm_workspaceRoot a)
        then Some (ErrInvalidAdmission ''workspace root is invalid'')
        else if adm_kind a = adm_KindManagedRun then validate_managed a
        else validate_manual a))"

definition NewManual :: "string \<Rightarrow> uint64 \<Rightarrow> string \<Rightarrow> admission_error + admission" where
  "NewManual manualCaptureID credentialRevision sourceLabel =
     (let a = zero_admission\<lparr> adm_kind := adm_KindManual,
            adm_admissionRef := ''manual-capture/'' @ manualCaptureID,
            adm_manualCaptureID := manualCaptureID,
            adm_credentialRevision := credentialRevision,
            adm_confidence := AttributionConfigured,
            adm_sourceLabel := sourceLabel \<rparr>
      in case Admission_Validate a of Some e \<Rightarrow> Inl e | None \<Rightarrow> Inr a)"

record managed_run_evidence =
  mre_RuntimeUserID :: string
  mre_CaptureRunID :: string
  mre_SourceLabel :: string
  mre_WorkspaceRoot :: string
  mre_Workspace :: scope
  mre_Adapter :: "adapter_evidence option"
  mre_Runtime :: runtime_metadata
  mre_RuntimeUsername :: string

definition run_AdmissionRef :: "string \<Rightarrow> string option" where
  "run_AdmissionRef runID = (if run_validateID runID then Some (''capture-run/'' @ runID) else None)"

definition NewManagedRun :: "managed_run_evidence \<Rightarrow> admission_error + admission" where
  "NewManagedRun e =
     (case run_AdmissionRef (mre_CaptureRunID e) of
        None \<Rightarrow> Inl (ErrInvalidAdmission ''run ID'')
      | Some ref \<Rightarrow>
         (let a = zero_admission\<lparr> adm_kind := adm_KindManagedRun, adm_admissionRef := ref,
                adm_captureRunID := mre_CaptureRunID e, adm_credentialRevision := 1,
                adm_confidence := (if mre_Adapter e \<noteq> None then AttributionVerified else AttributionConfigured),
                adm_sourceLabel := mre_SourceLabel e, adm_workspaceRoot := mre_WorkspaceRoot e,
                adm_adapter := mre_Adapter e, adm_runtime := mre_Runtime e,
                adm_runtimeUsername := mre_RuntimeUsername e, adm_runtimeUserID := mre_RuntimeUserID e \<rparr>
          in if mre_Workspace e \<noteq> zero_scope \<and> \<not> Scope_Validate (mre_Workspace e)
             then Inl (ErrInvalidAdmission ''workspace'')
             else
               (let b = (if mre_Workspace e \<noteq> zero_scope
                         then a\<lparr> adm_workspace := mre_Workspace e,
                                 adm_machineID := sc_machineID (mre_Workspace e),
                                 adm_workspaceID := sc_workspaceID (mre_Workspace e) \<rparr>
                         else a)
                in case Admission_Validate b of Some err \<Rightarrow> Inl err | None \<Rightarrow> Inr b)))"

definition CaptureReference :: "admission \<Rightarrow> admission_error + reference" where
  "CaptureReference a =
     (if adm_kind a = adm_KindManagedRun then
        (case New_Reference KindManagedRun (adm_captureRunID a) of
           Inl e \<Rightarrow> Inl (ErrInvalidAdmission ''reference'') | Inr r \<Rightarrow> Inr r)
      else if adm_kind a = adm_KindManual then
        (case New_Reference KindManualCapture (adm_manualCaptureID a) of
           Inl e \<Rightarrow> Inl (ErrInvalidAdmission ''reference'') | Inr r \<Rightarrow> Inr r)
      else Inl (ErrInvalidAdmission ''kind''))"

definition WorkspaceScope :: "admission \<Rightarrow> scope \<times> bool" where
  "WorkspaceScope a = (adm_workspace a, adm_workspace a \<noteq> zero_scope)"

definition WorkspaceRoot :: "admission \<Rightarrow> string \<times> bool" where
  "WorkspaceRoot a = (adm_workspaceRoot a, adm_workspaceRoot a \<noteq> [])"

definition LocalWorkspaceRoot :: "admission \<Rightarrow> string \<times> bool" where
  "LocalWorkspaceRoot a =
     (case WorkspaceScope a of (s, available) \<Rightarrow>
        if \<not> available \<or> sc_evidence s \<noteq> EvidenceLocalLauncher then ([], False)
        else WorkspaceRoot a)"

definition RuntimeMetadata_of :: "admission \<Rightarrow> runtime_metadata \<times> bool" where
  "RuntimeMetadata_of a = (adm_runtime a, adm_kind a = adm_KindManagedRun)"

definition Admission_Supports :: "admission \<Rightarrow> uint64 \<Rightarrow> bool" where
  "Admission_Supports a feature \<longleftrightarrow>
     (case adm_adapter a of None \<Rightarrow> False | Some e \<Rightarrow> Adapter_Supports e feature)"

section \<open>The authorizer\<close>

record run_evidence =
  re_RecordingScope :: recording_scope
  re_RunID :: string
  re_Observed :: bool
  re_FirstObservedAt :: go_time
  re_CWD :: string
  re_ExecutableLabel :: string
  re_CatalogRevision :: uint64
  re_Adapter :: "adapter_evidence option"
  re_ProcessID :: int
  re_ExpiresAt :: go_time
  re_Workspace :: scope
  re_Runtime :: runtime_metadata
  re_RuntimeUserID :: string
  re_RuntimeUsername :: string
  re_LoginSessionID :: string
  re_DeviceName :: string

record manual_evidence =
  me_RecordingScope :: recording_scope
  me_ManualCaptureID :: string
  me_CredentialRevision :: uint64
  me_DisplayName :: string

text \<open>
  The composite authorizer: its identity, its two authorities, and whether each of them also offers
  \<open>ProxyValidity\<close>.
\<close>

record authorizer =
  au_ptr :: nat
  au_runs :: "string \<Rightarrow> run_evidence option"
  au_manuals :: "string \<Rightarrow> manual_evidence option"
  au_runs_reader :: bool
  au_manuals_reader :: bool

definition NewProxyCapability :: "string \<Rightarrow> string option" where
  "NewProxyCapability v = (case Parse_credential v of
      Inl e \<Rightarrow> None
    | Inr c \<Rightarrow> if cred_kind c \<noteq> cred_KindManagedRun then None else Some v)"

definition manual_NewProxyCredential :: "string \<Rightarrow> string option" where
  "manual_NewProxyCredential v = (case Parse_credential v of
      Inl e \<Rightarrow> None
    | Inr c \<Rightarrow> if cred_kind c \<noteq> cred_KindManualCapture then None else Some v)"

definition NewProxyCredential :: "string \<Rightarrow> admission_error + credential" where
  "NewProxyCredential v = (case Parse_credential v of Inl e \<Rightarrow> Inl ErrCredentialRejected | Inr c \<Rightarrow> Inr c)"

text \<open>\<open>fresh\<close> is the address of the receipt the call allocates.\<close>

definition authorizeManaged :: "authorizer \<Rightarrow> nat \<Rightarrow> string \<Rightarrow> admission_error + admission" where
  "authorizeManaged au fresh v =
     (case NewProxyCapability v of
        None \<Rightarrow> Inl ErrCredentialRejected
      | Some capability \<Rightarrow>
         (case au_runs au capability of
            None \<Rightarrow> Inl ErrCredentialRejected
          | Some e \<Rightarrow>
             (case NewManagedRun \<lparr> mre_RuntimeUserID = re_RuntimeUserID e, mre_CaptureRunID = re_RunID e,
                 mre_SourceLabel = re_ExecutableLabel e, mre_WorkspaceRoot = re_CWD e,
                 mre_Workspace = re_Workspace e, mre_Adapter = re_Adapter e, mre_Runtime = re_Runtime e,
                 mre_RuntimeUsername = re_RuntimeUsername e \<rparr> of
                Inl err \<Rightarrow> Inl err
              | Inr a \<Rightarrow>
                 (let b = a\<lparr>adm_recordingScope := re_RecordingScope e\<rparr> in
                  Inr (if au_runs_reader au
                       then b\<lparr>adm_receipt := Some \<lparr> rcpt_ptr = fresh, rcpt_issuer = Some (au_ptr au),
                              rcpt_read = Some (ReadRun capability) \<rparr>\<rparr>
                       else b)))))"

definition authorizeManual :: "authorizer \<Rightarrow> nat \<Rightarrow> string \<Rightarrow> admission_error + admission" where
  "authorizeManual au fresh v =
     (case manual_NewProxyCredential v of
        None \<Rightarrow> Inl ErrCredentialRejected
      | Some credential \<Rightarrow>
         (case au_manuals au credential of
            None \<Rightarrow> Inl ErrCredentialRejected
          | Some e \<Rightarrow>
             (case NewManual (me_ManualCaptureID e) (me_CredentialRevision e) (me_DisplayName e) of
                Inl err \<Rightarrow> Inl err
              | Inr a \<Rightarrow>
                 (let b = a\<lparr>adm_recordingScope := me_RecordingScope e\<rparr> in
                  Inr (if au_manuals_reader au
                       then b\<lparr>adm_receipt := Some \<lparr> rcpt_ptr = fresh, rcpt_issuer = Some (au_ptr au),
                              rcpt_read = Some (ReadManual credential) \<rparr>\<rparr>
                       else b)))))"

definition Authorize :: "authorizer \<Rightarrow> nat \<Rightarrow> credential \<Rightarrow> admission_error + admission" where
  "Authorize au fresh c =
     (if \<not> Credential_Valid c then Inl ErrCredentialRejected
      else if cred_kind c = cred_KindManagedRun then authorizeManaged au fresh (cred_value c)
      else if cred_kind c = cred_KindManualCapture then authorizeManual au fresh (cred_value c)
      else Inl ErrCredentialRejected)"

text \<open>A session digest is 32 bytes; the all-zero array is \<open>None\<close>, as is the zero time.\<close>

record validity =
  val_Capture :: reference
  val_CredentialRevision :: uint64
  val_ExpiresAt :: "go_time option"
  val_UserID :: string
  val_SessionDigest :: "string option"

text \<open>
  \<open>Revalidate\<close>: \<open>withdrawn\<close> is the receipt's flag and \<open>source\<close> the answer of its \<open>read\<close> closure
  (\<open>None\<close> for an error).
\<close>

definition Authorizer_Revalidate ::
  "nat \<Rightarrow> (nat \<Rightarrow> bool) \<Rightarrow> (receipt_read option \<Rightarrow> validity option) \<Rightarrow> admission \<Rightarrow> admission_error + validity" where
  "Authorizer_Revalidate ptr withdrawn source a =
     (case adm_receipt a of
        None \<Rightarrow> Inl ErrCredentialRejected
      | Some r \<Rightarrow>
          if rcpt_issuer r \<noteq> Some ptr \<or> withdrawn (rcpt_ptr r) then Inl ErrCredentialRejected
          else (case (source (rcpt_read r), CaptureReference a) of
              (Some v, Inr capture) \<Rightarrow>
                if val_Capture v \<noteq> capture \<or> val_CredentialRevision v \<noteq> adm_credentialRevision a
                then Inl ErrCredentialRejected else Inr v
            | _ \<Rightarrow> Inl ErrCredentialRejected))"

section \<open>A valid admission and its Capture\<close>

lemma identity_rune_reference: "identity_rune False r \<Longrightarrow> reference_rune r"
  by (auto simp: identity_rune_def reference_rune_def is_control_def)

lemma validOpaqueID_reference:
  assumes "validOpaqueID v" and "k = KindManagedRun \<or> k = KindManualCapture"
  shows "New_Reference k v = Inr \<lparr>ref_Kind = k, ref_ID = v\<rparr>"
  using assms identity_rune_reference
  by (auto simp: New_Reference_def Let_def Reference_Validate_def validOpaqueID_def
      validIdentity_def MaxIDBytes_def list_all_iff split: if_splits)

lemma validate_managed_none:
  assumes "validate_managed a = None"
  shows "validOpaqueID (adm_captureRunID a)" "adm_admissionRef a = ''capture-run/'' @ adm_captureRunID a"
    "adm_manualCaptureID a = []" "adm_credentialRevision a = 1"
    "(adm_adapter a \<noteq> None) = (adm_confidence a = AttributionVerified)"
    "adm_adapter a = Some e \<Longrightarrow> Adapter_Validate e"
  using assms by (auto simp: validate_managed_def split: if_splits)

lemma validate_manual_none:
  assumes "validate_manual a = None"
  shows "validOpaqueID (adm_manualCaptureID a)"
    "adm_admissionRef a = ''manual-capture/'' @ adm_manualCaptureID a"
    "adm_captureRunID a = []" "adm_adapter a = None" "adm_workspace a = zero_scope"
    "adm_workspaceRoot a = []" "adm_confidence a = AttributionConfigured"
  using assms by (auto simp: validate_manual_def split: if_splits)

lemma Admission_Validate_none:
  assumes "Admission_Validate a = None"
  shows "adm_kind a = adm_KindManagedRun \<and> validate_managed a = None
      \<or> adm_kind a = adm_KindManual \<and> validate_manual a = None"
    "adm_workspace a \<noteq> zero_scope \<Longrightarrow> Scope_Validate (adm_workspace a)"
    "adm_workspaceRoot a \<noteq> [] \<Longrightarrow> IsAbs (adm_workspaceRoot a) \<and> Clean (adm_workspaceRoot a) = adm_workspaceRoot a"
    "adm_credentialRevision a \<noteq> 0"
  using assms
  by (auto simp: Admission_Validate_def adm_Kind_valid_def Let_def adm_KindManagedRun_def adm_KindManual_def
      split: if_splits)

lemma CaptureReference_cases:
  assumes "Admission_Validate a = None"
  obtains "CaptureReference a = Inr \<lparr>ref_Kind = KindManagedRun, ref_ID = adm_captureRunID a\<rparr>"
      "adm_admissionRef a = ''capture-run/'' @ adm_captureRunID a"
    | "CaptureReference a = Inr \<lparr>ref_Kind = KindManualCapture, ref_ID = adm_manualCaptureID a\<rparr>"
      "adm_admissionRef a = ''manual-capture/'' @ adm_manualCaptureID a"
  using Admission_Validate_none(1) [OF assms]
proof
  assume "adm_kind a = adm_KindManagedRun \<and> validate_managed a = None"
  then show thesis
    using that(1) validate_managed_none(1,2) [of a] by (simp add: CaptureReference_def validOpaqueID_reference)
next
  assume "adm_kind a = adm_KindManual \<and> validate_manual a = None"
  then show thesis
    using that(2) validate_manual_none(1,2) [of a]
    by (simp add: CaptureReference_def validOpaqueID_reference adm_KindManagedRun_def adm_KindManual_def)
qed

lemma CaptureReference_valid:
  assumes "Admission_Validate a = None"
  obtains r where "CaptureReference a = Inr r" "Reference_Validate r"
proof -
  obtain r where r: "CaptureReference a = Inr r" using CaptureReference_cases [OF assms] by metis
  then have "Reference_Validate r"
    by (auto simp: CaptureReference_def New_Reference_Inr split: if_splits sum.splits)
  with r show thesis by (rule that)
qed

lemma admission_ref_capture:
  assumes "Admission_Validate a = None" and "Admission_Validate b = None"
  shows "adm_admissionRef a = adm_admissionRef b \<longleftrightarrow> CaptureReference a = CaptureReference b"
  by (rule CaptureReference_cases [OF assms(1)]; rule CaptureReference_cases [OF assms(2)])
    (auto simp: KindManagedRun_def KindManualCapture_def)

lemma NewManual_valid: "NewManual i r l = Inr a \<Longrightarrow> Admission_Validate a = None \<and> adm_kind a = adm_KindManual
    \<and> adm_manualCaptureID a = i \<and> adm_credentialRevision a = r \<and> adm_receipt a = None"
  by (auto simp: NewManual_def Let_def zero_admission_def split: option.splits)

lemma NewManagedRun_valid: "NewManagedRun e = Inr a \<Longrightarrow> Admission_Validate a = None
    \<and> adm_kind a = adm_KindManagedRun \<and> adm_captureRunID a = mre_CaptureRunID e \<and> adm_receipt a = None"
  by (auto simp: NewManagedRun_def Let_def zero_admission_def split: option.splits if_splits)

text \<open>Validation reads neither the recording scope nor the receipt.\<close>

lemma Admission_Validate_frame [simp]:
  "Admission_Validate (a\<lparr>adm_recordingScope := s\<rparr>) = Admission_Validate a"
  "Admission_Validate (a\<lparr>adm_receipt := r\<rparr>) = Admission_Validate a"
  by (cases a, simp only: Admission_Validate_def validate_managed_def validate_manual_def
      admission.simps)+

lemma authorizeManaged_InrE:
  assumes "authorizeManaged au fresh v = Inr a"
  obtains e b where "NewProxyCapability v = Some v" "au_runs au v = Some e"
    "Admission_Validate b = None" "adm_captureRunID b = re_RunID e" "adm_receipt b = None"
    "a = (if au_runs_reader au
          then b\<lparr>adm_receipt := Some \<lparr> rcpt_ptr = fresh, rcpt_issuer = Some (au_ptr au),
                 rcpt_read = Some (ReadRun v) \<rparr>\<rparr> else b)"
proof -
  from assms obtain w e where w: "NewProxyCapability v = Some w" and e: "au_runs au w = Some e"
    unfolding authorizeManaged_def by (auto split: option.splits)
  moreover have "w = v" using w by (auto simp: NewProxyCapability_def split: sum.splits if_splits)
  moreover obtain b0 where b0: "NewManagedRun \<lparr> mre_RuntimeUserID = re_RuntimeUserID e,
      mre_CaptureRunID = re_RunID e, mre_SourceLabel = re_ExecutableLabel e, mre_WorkspaceRoot = re_CWD e,
      mre_Workspace = re_Workspace e, mre_Adapter = re_Adapter e, mre_Runtime = re_Runtime e,
      mre_RuntimeUsername = re_RuntimeUsername e \<rparr> = Inr b0"
    using assms w e by (auto simp: authorizeManaged_def split: sum.splits)
  ultimately show thesis
    using assms NewManagedRun_valid [OF b0] that [of e "b0\<lparr>adm_recordingScope := re_RecordingScope e\<rparr>"]
    by (simp add: authorizeManaged_def Let_def)
qed

lemma authorizeManual_InrE:
  assumes "authorizeManual au fresh v = Inr a"
  obtains e b where "manual_NewProxyCredential v = Some v" "au_manuals au v = Some e"
    "Admission_Validate b = None" "adm_manualCaptureID b = me_ManualCaptureID e" "adm_receipt b = None"
    "a = (if au_manuals_reader au
          then b\<lparr>adm_receipt := Some \<lparr> rcpt_ptr = fresh, rcpt_issuer = Some (au_ptr au),
                 rcpt_read = Some (ReadManual v) \<rparr>\<rparr> else b)"
proof -
  from assms obtain w e where w: "manual_NewProxyCredential v = Some w" and e: "au_manuals au w = Some e"
    unfolding authorizeManual_def by (auto split: option.splits)
  moreover have "w = v" using w by (auto simp: manual_NewProxyCredential_def split: sum.splits if_splits)
  moreover obtain b0 where b0:
      "NewManual (me_ManualCaptureID e) (me_CredentialRevision e) (me_DisplayName e) = Inr b0"
    using assms w e by (auto simp: authorizeManual_def split: sum.splits)
  ultimately show thesis
    using assms NewManual_valid [OF b0] that [of e "b0\<lparr>adm_recordingScope := me_RecordingScope e\<rparr>"]
    by (simp add: authorizeManual_def Let_def)
qed

lemma authorize_other_authority [simp]:
  "authorizeManaged (au\<lparr>au_manuals := m\<rparr>) fresh v = authorizeManaged au fresh v"
  "authorizeManual (au\<lparr>au_runs := n\<rparr>) fresh v = authorizeManual au fresh v"
  by (cases au, simp only: authorizeManaged_def authorizeManual_def authorizer.simps)+

section \<open>Properties\<close>

text \<open>The reference of an admission is a name of its Capture.  A valid admission has a valid
  Capture reference, and two valid admissions have the same admission reference exactly when they
  belong to the same Capture: a table keyed by admission reference never mixes Captures.\<close>

theorem admission_ref_names_capture:
  assumes "Admission_Validate a = None" and "Admission_Validate b = None"
  shows "(\<exists>r. CaptureReference a = Inr r \<and> Reference_Validate r)
    \<and> (adm_admissionRef a = adm_admissionRef b \<longleftrightarrow> CaptureReference a = CaptureReference b)"
  using CaptureReference_valid [OF assms(1)] admission_ref_capture [OF assms] by blast

text \<open>Filesystem authority.  A local workspace root is handed out only for a managed run whose
  workspace scope is valid and was proved by the local launcher, and it is a clean absolute path;
  compatibility features are granted only with validated adapter evidence of a managed run.\<close>

theorem local_root_needs_launcher_proof:
  assumes "Admission_Validate a = None"
  shows "(\<forall>root. LocalWorkspaceRoot a = (root, True) \<longrightarrow>
      adm_kind a = adm_KindManagedRun \<and> Scope_Validate (adm_workspace a)
      \<and> sc_evidence (adm_workspace a) = EvidenceLocalLauncher \<and> IsAbs root \<and> Clean root = root)
    \<and> (\<forall>f. Admission_Supports a f \<longrightarrow>
      adm_kind a = adm_KindManagedRun \<and> adm_confidence a = AttributionVerified
      \<and> (\<exists>e. adm_adapter a = Some e \<and> Adapter_Validate e \<and> and (ad_Features e) f = f))"
proof (intro conjI allI impI)
  fix root
  assume root: "LocalWorkspaceRoot a = (root, True)"
  then have ws: "adm_workspace a \<noteq> zero_scope" "adm_workspaceRoot a = root" "root \<noteq> []"
      "sc_evidence (adm_workspace a) = EvidenceLocalLauncher"
    by (auto simp: LocalWorkspaceRoot_def WorkspaceScope_def WorkspaceRoot_def split: if_splits)
  show "Scope_Validate (adm_workspace a)" using Admission_Validate_none(2) [OF assms ws(1)] .
  show "adm_kind a = adm_KindManagedRun"
    using Admission_Validate_none(1) [OF assms] validate_manual_none(5) ws(1) by blast
  show "sc_evidence (adm_workspace a) = EvidenceLocalLauncher" by (rule ws)
  show "IsAbs root" "Clean root = root" using Admission_Validate_none(3) [OF assms] ws by auto
next
  fix f
  assume "Admission_Supports a f"
  then obtain e where e: "adm_adapter a = Some e" "and (ad_Features e) f = f"
    by (auto simp: Admission_Supports_def Adapter_Supports_def split: option.splits)
  then have managed: "adm_kind a = adm_KindManagedRun" "validate_managed a = None"
    using Admission_Validate_none(1) [OF assms] validate_manual_none(4) by auto
  show "adm_kind a = adm_KindManagedRun" by (rule managed)
  show "adm_confidence a = AttributionVerified"
    using validate_managed_none(5) [OF managed(2)] e by simp
  show "\<exists>e. adm_adapter a = Some e \<and> Adapter_Validate e \<and> and (ad_Features e) f = f"
    using validate_managed_none(6) [OF managed(2)] e by blast
qed

text \<open>C15: authentication.  An admission is given only to a credential that \<open>New\<close> can have issued; the
  tag of the credential selects one authority, which must have accepted it, and the other one has no
  influence: a rejection never falls through.  The admission is valid, names the Capture that
  authority reported, and its receipt can only be read back through this authorizer.\<close>

theorem authorize_selects_one_authority:
  assumes "Authorize au fresh c = Inr a"
  shows "(\<exists>entropy. New_credential (cred_kind c) entropy = Inr c)
    \<and> Admission_Validate a = None
    \<and> (case adm_receipt a of None \<Rightarrow> True
       | Some r \<Rightarrow> rcpt_ptr r = fresh \<and> rcpt_issuer r = Some (au_ptr au))
    \<and> (cred_kind c = cred_KindManagedRun
         \<and> (\<exists>e. au_runs au (cred_value c) = Some e \<and> adm_captureRunID a = re_RunID e)
         \<and> (\<forall>m. Authorize (au\<lparr>au_manuals := m\<rparr>) fresh c = Inr a)
       \<or> cred_kind c = cred_KindManualCapture
         \<and> (\<exists>e. au_manuals au (cred_value c) = Some e \<and> adm_manualCaptureID a = me_ManualCaptureID e)
         \<and> (\<forall>m. Authorize (au\<lparr>au_runs := m\<rparr>) fresh c = Inr a))"
proof -
  have valid: "Credential_Valid c" using assms by (auto simp: Authorize_def split: if_splits)
  then obtain p where p: "Parse_credential (cred_value c) = Inr p" "cred_kind p = cred_kind c"
    by (auto simp: Credential_Valid_def split: sum.splits)
  then obtain entropy where "New_credential (cred_kind p) entropy = Inr p" "cred_value p = cred_value c"
    using Parse_credential_iff by blast
  moreover from this p have "p = c" by (cases p; cases c) simp
  ultimately have issued: "\<exists>entropy. New_credential (cred_kind c) entropy = Inr c" by blast
  consider (run) "cred_kind c = cred_KindManagedRun" "authorizeManaged au fresh (cred_value c) = Inr a"
    | (manual) "cred_kind c = cred_KindManualCapture" "authorizeManual au fresh (cred_value c) = Inr a"
    using assms by (auto simp: Authorize_def split: if_splits)
  then show ?thesis
  proof cases
    case run
    from run(2) show ?thesis
      by (rule authorizeManaged_InrE) (use issued valid run in \<open>auto simp: Authorize_def\<close>)
  next
    case manual
    from manual(2) show ?thesis
      by (rule authorizeManual_InrE)
        (use issued valid manual in \<open>auto simp: Authorize_def cred_kind_defs\<close>)
  qed
qed

section \<open>Witnesses\<close>

lemma plain_label: "plain_text v \<Longrightarrow> v \<noteq> [] \<Longrightarrow> length v \<le> 120 \<Longrightarrow> validLabel v \<and> workspace_validLabel v"
  by (auto simp: validLabel_def workspace_validLabel_def plain_text_facts has_break_def list_ex_iff
      plain_text_def list_all_iff)

lemma demo_labels:
  "validLabel ''desk''" "workspace_validLabel ''desk''" "validOpaqueID ''m1''" "validOpaqueID ''r1''"
  "validAdmissionRef ''manual-capture/m1''" "validAdmissionRef ''capture-run/r1''" "run_validateID ''r1''"
  using plain_label [of "''desk''"]
  by (simp_all add: validOpaqueID_def validAdmissionRef_def validIdentity_def run_validateID_def
      validateText_def validateTextContent_def plain_text_facts plain_text_def identity_rune_def)

definition demo_manual :: admission where
  "demo_manual = zero_admission\<lparr> adm_kind := adm_KindManual, adm_admissionRef := ''manual-capture/m1'',
     adm_manualCaptureID := ''m1'', adm_credentialRevision := 1, adm_confidence := AttributionConfigured,
     adm_sourceLabel := ''desk'' \<rparr>"

lemma demo_manual_valid: "Admission_Validate demo_manual = None"
  by (simp add: demo_manual_def Admission_Validate_def validate_manual_def demo_labels adm_Kind_valid_def
      confidence_valid_def zero_admission_def adm_KindManagedRun_def adm_KindManual_def Let_def)

lemma demo_manual_new: "NewManual ''m1'' 1 ''desk'' = Inr demo_manual"
proof -
  have "demo_manual = zero_admission\<lparr> adm_kind := adm_KindManual,
     adm_admissionRef := ''manual-capture/'' @ ''m1'', adm_manualCaptureID := ''m1'',
     adm_credentialRevision := 1, adm_confidence := AttributionConfigured, adm_sourceLabel := ''desk'' \<rparr>"
    by (simp add: demo_manual_def)
  then show ?thesis
    unfolding NewManual_def Let_def by (simp only: demo_manual_valid option.case flip: \<open>demo_manual = _\<close>)
qed

definition demo_id :: string where
  "demo_id = EncodeToString (replicate 32 (CHR ''a''))"

lemma demo_id_valid: "workspace_validOpaqueIdentity demo_id" "demo_id \<noteq> []"
proof -
  have plain: "plain_text demo_id" and len: "length demo_id = 43"
    by (simp_all add: demo_id_def EncodeToString_plain length_EncodeToString)
  then show "demo_id \<noteq> []" by auto
  moreover have "canonical64 True 32 demo_id" unfolding canonical64_iff demo_id_def
    by (intro exI [of _ "replicate 32 (CHR ''a'')"]) simp
  ultimately show "workspace_validOpaqueIdentity demo_id"
    using plain len by (simp add: workspace_validOpaqueIdentity_def plain_text_facts)
qed

definition demo_run :: admission where
  "demo_run = zero_admission\<lparr> adm_kind := adm_KindManagedRun, adm_admissionRef := ''capture-run/r1'',
     adm_captureRunID := ''r1'', adm_credentialRevision := 1, adm_confidence := AttributionConfigured,
     adm_sourceLabel := ''desk'', adm_workspaceRoot := ''/w'', adm_machineID := demo_id,
     adm_workspaceID := demo_id,
     adm_workspace := \<lparr> sc_machineID = demo_id, sc_workspaceID = demo_id, sc_workspaceLabel = ''desk'',
       sc_evidence = EvidenceLocalLauncher, sc_registrationRevision = 1, sc_derivationRevision = 1 \<rparr> \<rparr>"

lemma zero_metadata_valid: "Metadata_Validate zero_metadata"
  by (simp add: Metadata_Validate_def zero_metadata_def metadata_item_ok_def has_break_def
      plain_text_facts plain_text_def)

lemma demo_run_valid: "Admission_Validate demo_run = None"
proof -
  have ws: "adm_workspace demo_run \<noteq> zero_scope" "Scope_Validate (adm_workspace demo_run)"
    using demo_id_valid
    by (simp_all add: demo_run_def zero_scope_def Scope_Validate_def demo_labels Evidence_Valid_def)
  have root: "IsAbs ''/w''" "Clean ''/w'' = ''/w''" by (simp_all add: IsAbs_def Clean_def)
  have "validate_managed demo_run = None"
    by (simp add: demo_run_def validate_managed_def demo_labels zero_admission_def zero_metadata_valid
        AttributionConfigured_def AttributionVerified_def)
  then show ?thesis
    unfolding Admission_Validate_def using ws root demo_id_valid(2)
    by (simp add: demo_run_def demo_labels adm_Kind_valid_def confidence_valid_def)
qed

theorem admission_ref_names_capture_witness:
  "adm_admissionRef demo_manual = adm_admissionRef demo_run \<longleftrightarrow> CaptureReference demo_manual = CaptureReference demo_run"
  using admission_ref_names_capture [OF demo_manual_valid demo_run_valid] by blast

theorem local_root_needs_launcher_proof_witness:
  "LocalWorkspaceRoot demo_run = (''/w'', True) \<and> Clean ''/w'' = ''/w''
   \<and> sc_evidence (adm_workspace demo_run) = EvidenceLocalLauncher"
proof -
  have "LocalWorkspaceRoot demo_run = (''/w'', True)"
    by (simp add: LocalWorkspaceRoot_def WorkspaceScope_def WorkspaceRoot_def demo_run_def zero_scope_def)
  with local_root_needs_launcher_proof [OF demo_run_valid] show ?thesis by blast
qed

definition demo_credential :: credential where
  "demo_credential = \<lparr> cred_kind = cred_KindManualCapture,
     cred_value = cred_prefix cred_KindManualCapture @ EncodeToString (replicate 32 (CHR ''a'')) \<rparr>"

lemma demo_credential_new:
  "New_credential cred_KindManualCapture (replicate 32 (CHR ''a'')) = Inr demo_credential"
  by (simp add: New_credential_def cred_Kind_Valid_def EntropyBytes_def demo_credential_def)

definition demo_authorizer :: authorizer where
  "demo_authorizer = \<lparr> au_ptr = 0, au_runs = (\<lambda>_. None),
     au_manuals = (\<lambda>_. Some \<lparr> me_RecordingScope = zero_recording_scope, me_ManualCaptureID = ''m1'',
        me_CredentialRevision = 1, me_DisplayName = ''desk'' \<rparr>),
     au_runs_reader = True, au_manuals_reader = False \<rparr>"

lemma demo_authorize: "Authorize demo_authorizer 0 demo_credential = Inr demo_manual"
proof -
  have valid: "Credential_Valid demo_credential" using New_credential_valid [OF demo_credential_new] ..
  then have "manual_NewProxyCredential (cred_value demo_credential) = Some (cred_value demo_credential)"
    by (auto simp: manual_NewProxyCredential_def Credential_Valid_def demo_credential_def split: sum.splits)
  moreover have "demo_manual\<lparr>adm_recordingScope := zero_recording_scope\<rparr> = demo_manual"
    by (simp add: demo_manual_def zero_admission_def)
  ultimately have "authorizeManual demo_authorizer 0 (cred_value demo_credential) = Inr demo_manual"
    by (simp add: authorizeManual_def demo_authorizer_def demo_manual_new Let_def)
  then show ?thesis
    using valid by (simp add: Authorize_def demo_credential_def cred_kind_defs)
qed

theorem authorize_selects_one_authority_witness:
  "(\<exists>entropy. New_credential (cred_kind demo_credential) entropy = Inr demo_credential)
   \<and> Admission_Validate demo_manual = None"
  using authorize_selects_one_authority [OF demo_authorize] by blast

end
