(* ===== verification/Retained_Authority.thy ===== *)
theory Retained_Authority
  imports Capture_Admission
begin

text \<open>
  The owner of retained connections (\<open>src/internal/captureadmission/retained.go\<close>).  A connection
  that outlives its authentication subscribes here; change hints only make the owner read the
  authority again, and a failed read withdraws the subscriptions of the entry it was made for.

  Entries and subscriptions are heap objects, addressed by their index in \<open>rt_heap\<close> and \<open>rt_subs\<close>;
  \<open>rt_entries\<close> is the map from keys to live entries.  Every critical section of the source is one
  definition.  The worker goroutine is the field \<open>rt_worker\<close>: between its two critical sections it
  reads the authority without the lock.  Versions count marks; they are natural numbers here, since
  no run marks an entry \<open>2 ^ 64\<close> times.
\<close>

section \<open>State\<close>

type_synonym retained_key = "string \<times> uint64"

definition zero_validity :: validity where
  "zero_validity = \<lparr> val_Capture = zero_reference, val_CredentialRevision = 0, val_ExpiresAt = None,
     val_UserID = [], val_SessionDigest = None \<rparr>"

record retained_entry =
  en_admission :: admission
  en_validity :: validity
  en_validityKnown :: bool
  en_version :: nat
  en_checked :: nat
  en_dirty :: bool
  en_reading :: "nat option"
  en_subscribers :: "nat list"

text \<open>
  \<open>su_admission\<close> is the admission the closure \<open>release\<close> captures, \<open>su_done\<close> whether the channel is
  closed (which the \<open>sync.Once\<close> of \<open>release\<close> does), \<open>su_canceled\<close> whether \<open>cancel\<close> is called.
\<close>

record subscription =
  su_entry :: nat
  su_admission :: admission
  su_withdrawn :: bool
  su_done :: bool
  su_canceled :: bool

datatype worker =
    WorkerIdle
  | WorkerReading retained_key nat nat nat
  | WorkerStopped

record retained =
  rt_entries :: "(retained_key \<times> nat) list"
  rt_heap :: "retained_entry list"
  rt_subs :: "subscription list"
  rt_subscriptions :: "nat list"
  rt_accepting :: bool
  rt_changed :: nat
  rt_wake :: bool
  rt_withdrawnReceipts :: "nat set"
  rt_canceledReads :: "nat set"
  rt_readCount :: nat
  rt_worker :: worker

definition NewRetained :: retained where
  "NewRetained = \<lparr> rt_entries = [], rt_heap = [], rt_subs = [], rt_subscriptions = [], rt_accepting = True,
     rt_changed = 0, rt_wake = False, rt_withdrawnReceipts = {}, rt_canceledReads = {}, rt_readCount = 0,
     rt_worker = WorkerIdle \<rparr>"

definition upd_entry :: "nat \<Rightarrow> (retained_entry \<Rightarrow> retained_entry) \<Rightarrow> retained \<Rightarrow> retained" where
  "upd_entry i f r = r\<lparr>rt_heap := (rt_heap r)[i := f (rt_heap r ! i)]\<rparr>"

definition upd_sub :: "nat \<Rightarrow> (subscription \<Rightarrow> subscription) \<Rightarrow> retained \<Rightarrow> retained" where
  "upd_sub j f r = r\<lparr>rt_subs := (rt_subs r)[j := f (rt_subs r ! j)]\<rparr>"

section \<open>Operations\<close>

definition signalLocked :: "retained \<Rightarrow> retained" where
  "signalLocked r = r\<lparr>rt_changed := Suc (rt_changed r), rt_wake := True\<rparr>"

definition keyOf :: "admission \<Rightarrow> retained_key" where
  "keyOf a = (adm_admissionRef a, adm_credentialRevision a)"

definition cancel_read :: "nat \<Rightarrow> retained \<Rightarrow> retained" where
  "cancel_read i r =
     (case en_reading (rt_heap r ! i) of
        None \<Rightarrow> r
      | Some n \<Rightarrow> r\<lparr>rt_canceledReads := insert n (rt_canceledReads r)\<rparr>)"

definition markLocked :: "nat \<Rightarrow> retained \<Rightarrow> retained" where
  "markLocked i r =
     signalLocked (cancel_read i
       (upd_entry i (\<lambda>e. e\<lparr>en_version := Suc (en_version e), en_dirty := True\<rparr>) r))"

definition Retained_Revalidate ::
  "retained \<Rightarrow> (admission \<Rightarrow> admission_error + validity) \<Rightarrow> admission \<Rightarrow> admission_error + validity" where
  "Retained_Revalidate r authority a =
     (if \<not> rt_accepting r
         \<or> (case adm_receipt a of None \<Rightarrow> True | Some p \<Rightarrow> rcpt_ptr p \<in> rt_withdrawnReceipts r)
      then Inl ErrCredentialRejected
      else authority a)"

datatype retain_error = RetainRejected | RetainCtx ctx_error

text \<open>The issuer of an admission's receipt; \<open>None\<close> when there is no receipt or no issuer.\<close>

definition issuer_of :: "admission \<Rightarrow> nat option" where
  "issuer_of a = (case adm_receipt a of None \<Rightarrow> None | Some p \<Rightarrow> rcpt_issuer p)"

definition receipt_withdrawn :: "retained \<Rightarrow> admission \<Rightarrow> bool" where
  "receipt_withdrawn r a \<longleftrightarrow>
     (case adm_receipt a of None \<Rightarrow> False | Some p \<Rightarrow> rcpt_ptr p \<in> rt_withdrawnReceipts r)"

definition fresh_entry :: "admission \<Rightarrow> retained_entry" where
  "fresh_entry a = \<lparr> en_admission = a, en_validity = zero_validity, en_validityKnown = False,
     en_version = 0, en_checked = 0, en_dirty = False, en_reading = None, en_subscribers = [] \<rparr>"

text \<open>The entry of a key, allocated when there is none.\<close>

definition entry_for :: "admission \<Rightarrow> retained \<Rightarrow> nat \<times> retained" where
  "entry_for a r =
     (case map_of (rt_entries r) (keyOf a) of
        Some i \<Rightarrow> (i, r)
      | None \<Rightarrow> (length (rt_heap r),
          r\<lparr>rt_heap := rt_heap r @ [fresh_entry a],
            rt_entries := (keyOf a, length (rt_heap r)) # rt_entries r\<rparr>))"

text \<open>
  \<open>Retain\<close>: what it checks without the lock, and its first critical section, which gives the subscription and the version its
  admission waits for; the receipt may be withdrawn between the two.  \<open>cancel\<close> is whether a cancel function was given.
\<close>

definition Retain_check :: "retained \<Rightarrow> ctx \<Rightarrow> admission \<Rightarrow> bool \<Rightarrow> retain_error option" where
  "Retain_check r c a cancel =
     (if issuer_of a = None \<or> receipt_withdrawn r a \<or> \<not> cancel \<or> c = CtxNil then Some RetainRejected
      else map_option RetainCtx (ctx_err c))"

definition Retain_register :: "retained \<Rightarrow> admission \<Rightarrow> (retain_error + nat \<times> nat) \<times> retained" where
  "Retain_register r a =
     (if \<not> rt_accepting r then (Inl RetainRejected, r)
      else if (case map_of (rt_entries r) (keyOf a) of
          None \<Rightarrow> False
        | Some i \<Rightarrow> issuer_of (en_admission (rt_heap r ! i)) \<noteq> issuer_of a)
      then (Inl RetainRejected, r)
      else (case entry_for a r of (i, r1) \<Rightarrow>
        (let j = length (rt_subs r1);
             r2 = r1\<lparr>rt_subs := rt_subs r1 @ [\<lparr> su_entry = i, su_admission = a, su_withdrawn = False,
                       su_done = False, su_canceled = False \<rparr>],
                     rt_subscriptions := j # rt_subscriptions r1\<rparr>;
             r3 = markLocked i (upd_entry i (\<lambda>e. e\<lparr>en_subscribers := j # en_subscribers e\<rparr>) r2)
         in (Inr (j, en_version (rt_heap r3 ! i)), r3))))"

text \<open>One turn of the waiting loop of \<open>Retain\<close>.\<close>

datatype poll = PollRejected | PollReady | PollWait

definition Retain_poll :: "retained \<Rightarrow> nat \<Rightarrow> nat \<Rightarrow> poll" where
  "Retain_poll r j version =
     (let e = rt_heap r ! su_entry (rt_subs r ! j) in
      if su_withdrawn (rt_subs r ! j) \<or> \<not> rt_accepting r then PollRejected
      else if en_checked e \<ge> version \<and> \<not> en_dirty e then PollReady
      else PollWait)"

text \<open>Removing a subscription from its entry, and the entry from the map when it was the last one.\<close>

definition unsubscribe :: "nat \<Rightarrow> retained \<Rightarrow> retained" where
  "unsubscribe j r =
     upd_entry (su_entry (rt_subs r ! j))
       (\<lambda>e. e\<lparr>en_subscribers := removeAll j (en_subscribers e)\<rparr>) r"

definition drop_if_empty :: "nat \<Rightarrow> retained \<Rightarrow> retained" where
  "drop_if_empty j r =
     (let i = su_entry (rt_subs r ! j); k = keyOf (su_admission (rt_subs r ! j)) in
      if map_of (rt_entries r) k = Some i \<and> en_subscribers (rt_heap r ! i) = []
      then cancel_read i (r\<lparr>rt_entries := filter (\<lambda>(k', _). k' \<noteq> k) (rt_entries r)\<rparr>)
      else r)"

text \<open>The context of a waiting \<open>Retain\<close> ends.\<close>

definition Retain_canceled :: "nat \<Rightarrow> retained \<Rightarrow> retained" where
  "Retain_canceled j r =
     signalLocked (drop_if_empty j (unsubscribe j (upd_sub j (\<lambda>s. s\<lparr>su_withdrawn := True\<rparr>) r)))"

text \<open>The function \<open>Retain\<close> returns.\<close>

definition retained_release :: "nat \<Rightarrow> retained \<Rightarrow> retained" where
  "retained_release j r =
     (if su_done (rt_subs r ! j) then r
      else (let r1 = unsubscribe j r;
                r2 = r1\<lparr>rt_subscriptions := removeAll j (rt_subscriptions r1)\<rparr>
            in signalLocked (drop_if_empty j (upd_sub j (\<lambda>s. s\<lparr>su_done := True\<rparr>) r2))))"

record change =
  ch_Capture :: reference
  ch_UserID :: string
  ch_SessionDigest :: "string option"

text \<open>\<open>CaptureReference\<close> returns the zero reference with its error, which \<open>matches\<close> ignores.\<close>

definition reference_or_zero :: "admission \<Rightarrow> reference" where
  "reference_or_zero a = (case CaptureReference a of Inl e \<Rightarrow> zero_reference | Inr c \<Rightarrow> c)"

definition matches :: "change \<Rightarrow> retained_entry \<Rightarrow> bool" where
  "matches c e \<longleftrightarrow>
     (if ref_ID (ch_Capture c) \<noteq> [] \<and> reference_or_zero (en_admission e) = ch_Capture c then True
      else if ch_UserID c = [] \<and> ch_SessionDigest c = None then False
      else if \<not> en_validityKnown e then True
      else (ch_UserID c \<noteq> [] \<and> val_UserID (en_validity e) = ch_UserID c)
           \<or> (ch_SessionDigest c \<noteq> None \<and> val_SessionDigest (en_validity e) = ch_SessionDigest c))"

record target =
  tg_entry :: "(nat \<times> nat) option"
  tg_subs :: "nat list"

definition matching_ids :: "change \<Rightarrow> retained \<Rightarrow> nat list" where
  "matching_ids c r = filter (\<lambda>i. matches c (rt_heap r ! i)) (map snd (rt_entries r))"

definition BeginChange :: "change \<Rightarrow> retained \<Rightarrow> target list \<times> retained" where
  "BeginChange c r =
     (let ids = (if rt_accepting r then matching_ids c r else []);
          r1 = fold markLocked ids r;
          retired = filter (\<lambda>j. su_withdrawn (rt_subs r1 ! j) \<and> matches c (rt_heap r1 ! su_entry (rt_subs r1 ! j)))
                      (rt_subscriptions r1)
      in (map (\<lambda>i. \<lparr> tg_entry = Some (i, en_version (rt_heap r1 ! i)),
                     tg_subs = en_subscribers (rt_heap r1 ! i) \<rparr>) ids
          @ (if retired \<noteq> [] then [\<lparr> tg_entry = None, tg_subs = retired \<rparr>] else []), r1))"

text \<open>
  The function \<open>BeginChange\<close> returns is a sequence of waits; \<open>wait_step\<close> makes one turn of the one
  at the head, and the call returns when none is left.
\<close>

datatype obligation = AwaitEntry nat nat | CheckSub nat | AwaitDone nat

definition obligations :: "target list \<Rightarrow> obligation list" where
  "obligations ts = concat (map (\<lambda>t.
     (case tg_entry t of None \<Rightarrow> [] | Some (i, v) \<Rightarrow> [AwaitEntry i v]) @ map CheckSub (tg_subs t)) ts)"

fun wait_step :: "retained \<Rightarrow> obligation list \<Rightarrow> obligation list" where
  "wait_step r [] = []"
| "wait_step r (AwaitEntry i v # os) =
     (if en_checked (rt_heap r ! i) \<ge> v \<or> en_subscribers (rt_heap r ! i) = [] \<or> \<not> rt_accepting r
      then os else AwaitEntry i v # os)"
| "wait_step r (CheckSub j # os) = (if su_withdrawn (rt_subs r ! j) then AwaitDone j # os else os)"
| "wait_step r (AwaitDone j # os) = (if su_done (rt_subs r ! j) then os else AwaitDone j # os)"

section \<open>The worker\<close>

definition expired :: "go_time \<Rightarrow> retained_entry \<Rightarrow> bool" where
  "expired now e \<longleftrightarrow>
     \<not> en_dirty e \<and> (case val_ExpiresAt (en_validity e) of None \<Rightarrow> False | Some t \<Rightarrow> t - now \<le> 0)"

text \<open>
  The first critical section of \<open>run\<close>: stop, or mark what has expired and start to read one dirty
  entry.  Go visits a map in any order: \<open>pick\<close> is the entry met first among the dirty ones.
\<close>

definition run_scan :: "go_time \<Rightarrow> retained \<Rightarrow> retained" where
  "run_scan now r =
     fold markLocked (filter (\<lambda>i. expired now (rt_heap r ! i)) (map snd (rt_entries r))) r"

definition run_begin :: "go_time \<Rightarrow> retained_key \<Rightarrow> retained \<Rightarrow> retained" where
  "run_begin now pick r =
     (if \<not> rt_accepting r then r\<lparr>rt_worker := WorkerStopped\<rparr>
      else (let r1 = run_scan now r in
        (case map_of (rt_entries r1) pick of
           None \<Rightarrow> r1
         | Some i \<Rightarrow>
             if \<not> en_dirty (rt_heap r1 ! i) then r1
             else (let n = rt_readCount r1 in
               (upd_entry i (\<lambda>e. e\<lparr>en_reading := Some n\<rparr>) r1)
                 \<lparr>rt_readCount := Suc n,
                  rt_worker := WorkerReading pick i (en_version (rt_heap r1 ! i)) n\<rparr>))))"

text \<open>With nothing to read the worker waits; receiving from \<open>wake\<close> empties the channel.\<close>

definition run_woken :: "retained \<Rightarrow> retained" where
  "run_woken r = r\<lparr>rt_wake := False\<rparr>"

definition withdraw :: "nat \<Rightarrow> retained \<Rightarrow> retained" where
  "withdraw j r =
     (upd_sub j (\<lambda>s. s\<lparr>su_withdrawn := True, su_canceled := True\<rparr>) r)
       \<lparr>rt_withdrawnReceipts :=
          (case adm_receipt (su_admission (rt_subs r ! j)) of
             None \<Rightarrow> rt_withdrawnReceipts r
           | Some p \<Rightarrow> insert (rcpt_ptr p) (rt_withdrawnReceipts r))\<rparr>"

text \<open>The second critical section, with the result of the read.\<close>

definition run_finish :: "validity option \<Rightarrow> retained \<Rightarrow> retained" where
  "run_finish result r =
     (case rt_worker r of
        WorkerReading k i v n \<Rightarrow>
          (let r0 = r\<lparr>rt_worker := WorkerIdle, rt_canceledReads := insert n (rt_canceledReads r)\<rparr> in
           if map_of (rt_entries r0) k = Some i \<and> en_version (rt_heap r0 ! i) = v \<and> rt_accepting r0
           then
             (let r1 = upd_entry i (\<lambda>e. e\<lparr>en_reading := None, en_checked := v, en_dirty := False\<rparr>) r0 in
              signalLocked
               (case result of
                  None \<Rightarrow> fold withdraw (en_subscribers (rt_heap r1 ! i))
                            (r1\<lparr>rt_entries := filter (\<lambda>(k', _). k' \<noteq> k) (rt_entries r1)\<rparr>)
                | Some val \<Rightarrow> upd_entry i (\<lambda>e. e\<lparr>en_validity := val, en_validityKnown := True\<rparr>) r1))
           else r0)
      | _ \<Rightarrow> r)"

definition Retained_BeginShutdown :: "retained \<Rightarrow> retained" where
  "Retained_BeginShutdown r =
     (if \<not> rt_accepting r then r
      else signalLocked
        (fold withdraw (concat (map (\<lambda>(k, i). en_subscribers (rt_heap r ! i)) (rt_entries r)))
          (r\<lparr>rt_accepting := False\<rparr>)))"

text \<open>\<open>Shutdown\<close> returns when the worker has stopped and every subscription is released.\<close>

definition Retained_drained :: "retained \<Rightarrow> bool" where
  "Retained_drained r \<longleftrightarrow> \<not> rt_accepting r \<and> rt_worker r = WorkerStopped \<and> rt_subscriptions r = []"

end
