(* ===== verification/Retained_Inv.thy ===== *)
theory Retained_Inv
  imports Retained_Authority
begin

text \<open>
  The invariant of the owner of retained connections and its preservation.  First what each
  operation does to each part of the state, then the three parts of the invariant: the heap of
  entries, the subscriptions, and the versions with the reads that justify them.
\<close>

section \<open>Effects\<close>

lemma signalLocked_simps [simp]:
  "rt_entries (signalLocked r) = rt_entries r" "rt_heap (signalLocked r) = rt_heap r"
  "rt_subs (signalLocked r) = rt_subs r" "rt_subscriptions (signalLocked r) = rt_subscriptions r"
  "rt_accepting (signalLocked r) = rt_accepting r" "rt_worker (signalLocked r) = rt_worker r"
  "rt_withdrawnReceipts (signalLocked r) = rt_withdrawnReceipts r" "rt_readCount (signalLocked r) = rt_readCount r"
  by (simp_all add: signalLocked_def)

lemma cancel_read_simps [simp]:
  "rt_entries (cancel_read i r) = rt_entries r" "rt_heap (cancel_read i r) = rt_heap r"
  "rt_subs (cancel_read i r) = rt_subs r" "rt_subscriptions (cancel_read i r) = rt_subscriptions r"
  "rt_accepting (cancel_read i r) = rt_accepting r" "rt_worker (cancel_read i r) = rt_worker r"
  "rt_withdrawnReceipts (cancel_read i r) = rt_withdrawnReceipts r" "rt_readCount (cancel_read i r) = rt_readCount r"
  by (simp_all add: cancel_read_def split: option.splits)

lemma upd_entry_simps [simp]:
  "rt_entries (upd_entry i f r) = rt_entries r" "rt_subs (upd_entry i f r) = rt_subs r"
  "rt_subscriptions (upd_entry i f r) = rt_subscriptions r" "rt_accepting (upd_entry i f r) = rt_accepting r"
  "rt_worker (upd_entry i f r) = rt_worker r" "rt_withdrawnReceipts (upd_entry i f r) = rt_withdrawnReceipts r"
  "rt_readCount (upd_entry i f r) = rt_readCount r"
  "rt_heap (upd_entry i f r) = (rt_heap r)[i := f (rt_heap r ! i)]"
  by (simp_all add: upd_entry_def)

lemma upd_sub_simps [simp]:
  "rt_entries (upd_sub j f r) = rt_entries r" "rt_heap (upd_sub j f r) = rt_heap r"
  "rt_subscriptions (upd_sub j f r) = rt_subscriptions r" "rt_accepting (upd_sub j f r) = rt_accepting r"
  "rt_worker (upd_sub j f r) = rt_worker r" "rt_withdrawnReceipts (upd_sub j f r) = rt_withdrawnReceipts r"
  "rt_readCount (upd_sub j f r) = rt_readCount r"
  "rt_subs (upd_sub j f r) = (rt_subs r)[j := f (rt_subs r ! j)]"
  by (simp_all add: upd_sub_def)

lemma markLocked_simps [simp]:
  "rt_entries (markLocked i r) = rt_entries r" "rt_subs (markLocked i r) = rt_subs r"
  "rt_subscriptions (markLocked i r) = rt_subscriptions r" "rt_accepting (markLocked i r) = rt_accepting r"
  "rt_worker (markLocked i r) = rt_worker r" "rt_withdrawnReceipts (markLocked i r) = rt_withdrawnReceipts r"
  "rt_readCount (markLocked i r) = rt_readCount r"
  "rt_heap (markLocked i r) =
     (rt_heap r)[i := (rt_heap r ! i)\<lparr>en_version := Suc (en_version (rt_heap r ! i)), en_dirty := True\<rparr>]"
  by (simp_all add: markLocked_def)

text \<open>A marked entry, and marking several of them.\<close>

definition marked :: "retained_entry \<Rightarrow> retained_entry" where
  "marked e = e\<lparr>en_version := Suc (en_version e), en_dirty := True\<rparr>"

lemma marked_simps [simp]:
  "en_admission (marked e) = en_admission e" "en_validity (marked e) = en_validity e"
  "en_validityKnown (marked e) = en_validityKnown e" "en_version (marked e) = Suc (en_version e)"
  "en_checked (marked e) = en_checked e" "en_dirty (marked e)" "en_reading (marked e) = en_reading e"
  "en_subscribers (marked e) = en_subscribers e"
  by (simp_all add: marked_def)

lemma fold_markLocked_simps [simp]:
  "rt_entries (fold markLocked is r) = rt_entries r" "rt_subs (fold markLocked is r) = rt_subs r"
  "rt_subscriptions (fold markLocked is r) = rt_subscriptions r"
  "rt_accepting (fold markLocked is r) = rt_accepting r" "rt_worker (fold markLocked is r) = rt_worker r"
  "rt_withdrawnReceipts (fold markLocked is r) = rt_withdrawnReceipts r"
  "length (rt_heap (fold markLocked is r)) = length (rt_heap r)"
  by (induction "is" arbitrary: r) simp_all

lemma fold_markLocked_heap:
  assumes "distinct is" and "\<And>i. i \<in> set is \<Longrightarrow> i < length (rt_heap r)"
  shows "rt_heap (fold markLocked is r) ! i = (if i \<in> set is then marked (rt_heap r ! i) else rt_heap r ! i)"
  using assms
proof (induction "is" arbitrary: r)
  case (Cons a "is")
  then have "rt_heap (fold markLocked is (markLocked a r)) ! i
      = (if i \<in> set is then marked (rt_heap (markLocked a r) ! i) else rt_heap (markLocked a r) ! i)"
    by (intro Cons.IH) auto
  with Cons.prems show ?case by (auto simp: marked_def nth_list_update)
qed simp

lemma withdraw_simps [simp]:
  "rt_entries (withdraw j r) = rt_entries r" "rt_heap (withdraw j r) = rt_heap r"
  "rt_subscriptions (withdraw j r) = rt_subscriptions r" "rt_accepting (withdraw j r) = rt_accepting r"
  "rt_worker (withdraw j r) = rt_worker r"
  "rt_subs (withdraw j r) = (rt_subs r)[j := (rt_subs r ! j)\<lparr>su_withdrawn := True, su_canceled := True\<rparr>]"
  by (simp_all add: withdraw_def)

lemma fold_withdraw_simps [simp]:
  "rt_entries (fold withdraw js r) = rt_entries r" "rt_heap (fold withdraw js r) = rt_heap r"
  "rt_subscriptions (fold withdraw js r) = rt_subscriptions r"
  "rt_accepting (fold withdraw js r) = rt_accepting r" "rt_worker (fold withdraw js r) = rt_worker r"
  "length (rt_subs (fold withdraw js r)) = length (rt_subs r)"
  by (induction js arbitrary: r) simp_all

lemma fold_withdraw_subs:
  assumes "\<And>j. j \<in> set js \<Longrightarrow> j < length (rt_subs r)"
  shows "rt_subs (fold withdraw js r) ! j =
    (if j \<in> set js then (rt_subs r ! j)\<lparr>su_withdrawn := True, su_canceled := True\<rparr> else rt_subs r ! j)"
  using assms
proof (induction js arbitrary: r)
  case (Cons a js)
  then have "rt_subs (fold withdraw js (withdraw a r)) ! j = (if j \<in> set js
      then (rt_subs (withdraw a r) ! j)\<lparr>su_withdrawn := True, su_canceled := True\<rparr> else rt_subs (withdraw a r) ! j)"
    by (intro Cons.IH) auto
  with Cons.prems show ?case by (auto simp: nth_list_update)
qed simp

lemma fold_withdraw_receipts:
  assumes "\<And>j. j \<in> set js \<Longrightarrow> j < length (rt_subs r)"
  shows "rt_withdrawnReceipts (fold withdraw js r) = rt_withdrawnReceipts r
    \<union> {rcpt_ptr p |j p. j \<in> set js \<and> adm_receipt (su_admission (rt_subs r ! j)) = Some p}"
  using assms
proof (induction js arbitrary: r)
  case (Cons a js)
  have same: "su_admission (rt_subs (withdraw a r) ! j) = su_admission (rt_subs r ! j)" for j
    using nth_update_proj [of su_admission _ "rt_subs r" a j] by simp
  have "rt_withdrawnReceipts (fold withdraw js (withdraw a r)) = rt_withdrawnReceipts (withdraw a r)
    \<union> {rcpt_ptr p |j p. j \<in> set js \<and> adm_receipt (su_admission (rt_subs r ! j)) = Some p}"
    using Cons.IH [of "withdraw a r"] Cons.prems unfolding same by simp
  moreover have "rt_withdrawnReceipts (withdraw a r) = rt_withdrawnReceipts r
    \<union> {rcpt_ptr p |p. adm_receipt (su_admission (rt_subs r ! a)) = Some p}"
    by (auto simp: withdraw_def split: option.splits)
  ultimately show ?case by auto
qed simp

lemma unsubscribe_simps [simp]:
  "rt_entries (unsubscribe j r) = rt_entries r" "rt_subs (unsubscribe j r) = rt_subs r"
  "rt_subscriptions (unsubscribe j r) = rt_subscriptions r" "rt_accepting (unsubscribe j r) = rt_accepting r"
  "rt_worker (unsubscribe j r) = rt_worker r" "rt_withdrawnReceipts (unsubscribe j r) = rt_withdrawnReceipts r"
  by (simp_all add: unsubscribe_def)

text \<open>The entry without one of its subscribers.\<close>

definition left_by :: "nat \<Rightarrow> retained_entry \<Rightarrow> retained_entry" where
  "left_by j e = e\<lparr>en_subscribers := removeAll j (en_subscribers e)\<rparr>"

lemma left_by_simps [simp]:
  "en_admission (left_by j e) = en_admission e" "en_validity (left_by j e) = en_validity e"
  "en_validityKnown (left_by j e) = en_validityKnown e" "en_version (left_by j e) = en_version e"
  "en_checked (left_by j e) = en_checked e" "en_dirty (left_by j e) = en_dirty e"
  "en_subscribers (left_by j e) = removeAll j (en_subscribers e)"
  by (simp_all add: left_by_def)

lemma drop_if_empty_simps [simp]:
  "rt_heap (drop_if_empty j r) = rt_heap r" "rt_subs (drop_if_empty j r) = rt_subs r"
  "rt_subscriptions (drop_if_empty j r) = rt_subscriptions r" "rt_accepting (drop_if_empty j r) = rt_accepting r"
  "rt_worker (drop_if_empty j r) = rt_worker r" "rt_withdrawnReceipts (drop_if_empty j r) = rt_withdrawnReceipts r"
  by (simp_all add: drop_if_empty_def Let_def)

text \<open>The live entries after subscription \<open>j\<close> has left its entry.\<close>

definition entries_after :: "nat \<Rightarrow> retained \<Rightarrow> (retained_key \<times> nat) list" where
  "entries_after j r =
     (let i = su_entry (rt_subs r ! j); k = keyOf (su_admission (rt_subs r ! j)) in
      if map_of (rt_entries r) k = Some i \<and> removeAll j (en_subscribers (rt_heap r ! i)) = []
      then filter (\<lambda>(k', _). k' \<noteq> k) (rt_entries r) else rt_entries r)"

lemma unsubscribe_heap [simp]:
  "rt_heap (unsubscribe j r) = (rt_heap r)[su_entry (rt_subs r ! j) := left_by j (rt_heap r ! su_entry (rt_subs r ! j))]"
  by (simp add: unsubscribe_def left_by_def)

lemma drop_entries:
  assumes "su_entry (rt_subs r ! j) < length (rt_heap r)"
    and "rt_entries q = rt_entries r"
    and "rt_heap q = (rt_heap r)[su_entry (rt_subs r ! j) := left_by j (rt_heap r ! su_entry (rt_subs r ! j))]"
    and "su_entry (rt_subs q ! j) = su_entry (rt_subs r ! j)"
    and "su_admission (rt_subs q ! j) = su_admission (rt_subs r ! j)"
  shows "rt_entries (drop_if_empty j q) = entries_after j r"
  using assms by (simp add: drop_if_empty_def entries_after_def Let_def)

lemma Retain_canceled_effect:
  assumes "j < length (rt_subs r)" and "su_entry (rt_subs r ! j) < length (rt_heap r)"
  shows "rt_entries (Retain_canceled j r) = entries_after j r"
    "rt_heap (Retain_canceled j r) = (rt_heap r)[su_entry (rt_subs r ! j) := left_by j (rt_heap r ! su_entry (rt_subs r ! j))]"
    "rt_subs (Retain_canceled j r) = (rt_subs r)[j := (rt_subs r ! j)\<lparr>su_withdrawn := True\<rparr>]"
    "rt_subscriptions (Retain_canceled j r) = rt_subscriptions r"
    "rt_accepting (Retain_canceled j r) = rt_accepting r" "rt_worker (Retain_canceled j r) = rt_worker r"
    "rt_withdrawnReceipts (Retain_canceled j r) = rt_withdrawnReceipts r"
proof -
  show "rt_entries (Retain_canceled j r) = entries_after j r"
    unfolding Retain_canceled_def signalLocked_simps using assms by (intro drop_entries) simp_all
qed (use assms in \<open>simp_all add: Retain_canceled_def\<close>)

lemma retained_release_effect:
  assumes "j < length (rt_subs r)" and "su_entry (rt_subs r ! j) < length (rt_heap r)"
    and "\<not> su_done (rt_subs r ! j)"
  shows "rt_entries (retained_release j r) = entries_after j r"
    "rt_heap (retained_release j r) = (rt_heap r)[su_entry (rt_subs r ! j) := left_by j (rt_heap r ! su_entry (rt_subs r ! j))]"
    "rt_subs (retained_release j r) = (rt_subs r)[j := (rt_subs r ! j)\<lparr>su_done := True\<rparr>]"
    "rt_subscriptions (retained_release j r) = removeAll j (rt_subscriptions r)"
    "rt_accepting (retained_release j r) = rt_accepting r" "rt_worker (retained_release j r) = rt_worker r"
    "rt_withdrawnReceipts (retained_release j r) = rt_withdrawnReceipts r"
proof -
  show "rt_entries (retained_release j r) = entries_after j r"
    unfolding retained_release_def Let_def using assms
    by (simp only: if_False signalLocked_simps) (intro drop_entries, simp_all)
qed (use assms in \<open>simp_all add: retained_release_def Let_def\<close>)

section \<open>The invariant\<close>

text \<open>The map of live entries and the heap.\<close>

definition entry_ok :: "retained \<Rightarrow> nat \<Rightarrow> bool" where
  "entry_ok r i \<longleftrightarrow> distinct (en_subscribers (rt_heap r ! i))
     \<and> (\<forall>j \<in> set (en_subscribers (rt_heap r ! i)). j < length (rt_subs r)
          \<and> su_entry (rt_subs r ! j) = i \<and> \<not> su_done (rt_subs r ! j))
     \<and> Admission_Validate (en_admission (rt_heap r ! i)) = None"

definition sub_ok :: "retained \<Rightarrow> nat \<Rightarrow> bool" where
  "sub_ok r j \<longleftrightarrow>
     (let s = rt_subs r ! j; e = rt_heap r ! su_entry s in
      su_entry s < length (rt_heap r) \<and> keyOf (su_admission s) = keyOf (en_admission e)
      \<and> issuer_of (su_admission s) = issuer_of (en_admission e) \<and> issuer_of (su_admission s) \<noteq> None
      \<and> Admission_Validate (su_admission s) = None)"

definition live_entry_ok :: "retained \<Rightarrow> retained_key \<times> nat \<Rightarrow> bool" where
  "live_entry_ok r ki \<longleftrightarrow> snd ki < length (rt_heap r)
     \<and> keyOf (en_admission (rt_heap r ! snd ki)) = fst ki \<and> en_subscribers (rt_heap r ! snd ki) \<noteq> []"

definition heap_inv :: "retained \<Rightarrow> bool" where
  "heap_inv r \<longleftrightarrow> distinct (map fst (rt_entries r))
     \<and> (\<forall>ki \<in> set (rt_entries r). live_entry_ok r ki)
     \<and> (\<forall>i < length (rt_heap r). entry_ok r i) \<and> (\<forall>j < length (rt_subs r). sub_ok r j)"

text \<open>A subscription is live while it belongs to a live entry.\<close>

definition live_sub :: "retained \<Rightarrow> nat \<Rightarrow> bool" where
  "live_sub r j \<longleftrightarrow> (keyOf (su_admission (rt_subs r ! j)), su_entry (rt_subs r ! j)) \<in> set (rt_entries r)
     \<and> j \<in> set (en_subscribers (rt_heap r ! su_entry (rt_subs r ! j)))"

definition withdrawn_ok :: "retained \<Rightarrow> nat \<Rightarrow> bool" where
  "withdrawn_ok r j \<longleftrightarrow>
     (\<not> su_withdrawn (rt_subs r ! j) \<longrightarrow> \<not> su_done (rt_subs r ! j) \<longrightarrow> rt_accepting r \<and> live_sub r j)
     \<and> (rt_accepting r \<longrightarrow> live_sub r j \<longrightarrow> \<not> su_withdrawn (rt_subs r ! j) \<and> \<not> su_canceled (rt_subs r ! j))
     \<and> (su_canceled (rt_subs r ! j) \<longrightarrow>
          su_withdrawn (rt_subs r ! j) \<and> receipt_withdrawn r (su_admission (rt_subs r ! j)))"

definition subs_inv :: "retained \<Rightarrow> bool" where
  "subs_inv r \<longleftrightarrow> distinct (rt_subscriptions r)
     \<and> set (rt_subscriptions r) = {j. j < length (rt_subs r) \<and> \<not> su_done (rt_subs r ! j)}
     \<and> (\<forall>j < length (rt_subs r). withdrawn_ok r j)"

text \<open>
  Versions: \<open>reads\<close> lists the successful reads as entry, version at the start, and result.
\<close>

definition entry_version_ok :: "(nat \<times> nat \<times> validity) set \<Rightarrow> nat \<Rightarrow> retained_entry \<Rightarrow> bool" where
  "entry_version_ok reads i e \<longleftrightarrow>
     0 < en_version e \<and> en_checked e \<le> en_version e \<and> (en_dirty e \<longleftrightarrow> en_checked e < en_version e)
     \<and> (en_checked e = 0 \<or> en_validityKnown e \<and> (i, en_checked e, en_validity e) \<in> reads)"

definition read_ok :: "retained_entry list \<Rightarrow> nat \<times> nat \<times> validity \<Rightarrow> bool" where
  "read_ok heap = (\<lambda>(i, v, x). i < length heap \<and> v \<le> en_version (heap ! i)
     \<and> CaptureReference (en_admission (heap ! i)) = Inr (val_Capture x)
     \<and> val_CredentialRevision x = adm_credentialRevision (en_admission (heap ! i)))"

fun worker_ok :: "retained_entry list \<Rightarrow> worker \<Rightarrow> bool" where
  "worker_ok heap (WorkerReading k i v n) \<longleftrightarrow>
     i < length heap \<and> keyOf (en_admission (heap ! i)) = k \<and> v \<le> en_version (heap ! i)"
| "worker_ok heap _ \<longleftrightarrow> True"

definition version_inv :: "retained \<Rightarrow> (nat \<times> nat \<times> validity) set \<Rightarrow> bool" where
  "version_inv r reads \<longleftrightarrow>
     (\<forall>ki \<in> set (rt_entries r). entry_version_ok reads (snd ki) (rt_heap r ! snd ki))
     \<and> worker_ok (rt_heap r) (rt_worker r) \<and> (\<forall>x \<in> reads. read_ok (rt_heap r) x)"

definition rt_inv :: "retained \<Rightarrow> (nat \<times> nat \<times> validity) set \<Rightarrow> bool" where
  "rt_inv r reads \<longleftrightarrow> heap_inv r \<and> subs_inv r \<and> version_inv r reads"

lemma map_of_entry:
  "heap_inv r \<Longrightarrow> map_of (rt_entries r) k = Some i \<longleftrightarrow> (k, i) \<in> set (rt_entries r)"
  by (simp add: heap_inv_def)

lemma entry_keys:
  assumes "heap_inv r" and "(k, i) \<in> set (rt_entries r)"
  shows "i < length (rt_heap r)" "keyOf (en_admission (rt_heap r ! i)) = k" "en_subscribers (rt_heap r ! i) \<noteq> []"
  using assms by (auto simp: heap_inv_def live_entry_ok_def)

lemma distinct_entry_ids:
  assumes "heap_inv r" shows "distinct (map snd (rt_entries r))"
proof -
  have "inj_on snd (set (rt_entries r))"
    using entry_keys(2) [OF assms] by (intro inj_onI) (metis prod.collapse)
  moreover have "distinct (rt_entries r)" using assms distinct_map by (auto simp: heap_inv_def)
  ultimately show ?thesis by (simp add: distinct_map)
qed

lemma subscriber_facts:
  assumes "heap_inv r" and "i < length (rt_heap r)" and "j \<in> set (en_subscribers (rt_heap r ! i))"
  shows "j < length (rt_subs r)" "su_entry (rt_subs r ! j) = i" "\<not> su_done (rt_subs r ! j)"
  using assms unfolding heap_inv_def entry_ok_def by blast+

lemma sub_facts:
  assumes "heap_inv r" and "j < length (rt_subs r)"
  shows "su_entry (rt_subs r ! j) < length (rt_heap r)"
    "keyOf (su_admission (rt_subs r ! j)) = keyOf (en_admission (rt_heap r ! su_entry (rt_subs r ! j)))"
    "issuer_of (su_admission (rt_subs r ! j)) \<noteq> None"
    "Admission_Validate (su_admission (rt_subs r ! j)) = None"
    "issuer_of (su_admission (rt_subs r ! j)) = issuer_of (en_admission (rt_heap r ! su_entry (rt_subs r ! j)))"
  using assms unfolding heap_inv_def sub_ok_def Let_def by blast+

lemma subscriptions_iff:
  "subs_inv r \<Longrightarrow> j \<in> set (rt_subscriptions r) \<longleftrightarrow> j < length (rt_subs r) \<and> \<not> su_done (rt_subs r ! j)"
  unfolding subs_inv_def by blast

subsection \<open>Steps that only touch the bookkeeping of entries\<close>

text \<open>
  Marks, reads and withdrawals keep admissions, subscriber lists and the shape of the heap, and may
  only remove live entries.
\<close>

definition same_shape :: "retained \<Rightarrow> retained \<Rightarrow> bool" where
  "same_shape r q \<longleftrightarrow>
     length (rt_heap q) = length (rt_heap r) \<and> length (rt_subs q) = length (rt_subs r)
     \<and> rt_subscriptions q = rt_subscriptions r
     \<and> (\<forall>i. en_admission (rt_heap q ! i) = en_admission (rt_heap r ! i)
            \<and> en_subscribers (rt_heap q ! i) = en_subscribers (rt_heap r ! i))
     \<and> (\<forall>j. su_entry (rt_subs q ! j) = su_entry (rt_subs r ! j)
            \<and> su_admission (rt_subs q ! j) = su_admission (rt_subs r ! j)
            \<and> su_done (rt_subs q ! j) = su_done (rt_subs r ! j))"

lemma same_shape_simps:
  assumes "same_shape r q"
  shows "length (rt_heap q) = length (rt_heap r)" "length (rt_subs q) = length (rt_subs r)"
    "rt_subscriptions q = rt_subscriptions r" "en_admission (rt_heap q ! i) = en_admission (rt_heap r ! i)"
    "en_subscribers (rt_heap q ! i) = en_subscribers (rt_heap r ! i)"
    "su_entry (rt_subs q ! j) = su_entry (rt_subs r ! j)"
    "su_admission (rt_subs q ! j) = su_admission (rt_subs r ! j)" "su_done (rt_subs q ! j) = su_done (rt_subs r ! j)"
  using assms unfolding same_shape_def by blast+

lemma heap_inv_same_shape:
  assumes shape: "same_shape r q" and fewer: "rt_entries q = filter P (rt_entries r)" and inv: "heap_inv r"
  shows "heap_inv q"
proof -
  note eqs = same_shape_simps [OF shape]
  have "entry_ok q i = entry_ok r i" "sub_ok q j = sub_ok r j" "live_entry_ok q ki = live_entry_ok r ki" for i j ki
    unfolding entry_ok_def sub_ok_def live_entry_ok_def Let_def eqs by (rule refl)+
  moreover have "set (rt_entries q) \<subseteq> set (rt_entries r)" "distinct (map fst (rt_entries q))"
    using inv fewer by (auto simp: heap_inv_def distinct_map_filter)
  ultimately show ?thesis using inv unfolding heap_inv_def eqs by blast
qed

lemma same_shape_marks:
  assumes "heap_inv r" and "set is \<subseteq> set (map snd (rt_entries r))" and "distinct is"
  shows "same_shape r (fold markLocked is r)"
proof -
  have "i < length (rt_heap r)" if "i \<in> set is" for i
    using that assms entry_keys(1) [OF assms(1)] by auto
  then show ?thesis
    using fold_markLocked_heap [OF assms(3), of r] by (auto simp: same_shape_def)
qed

lemma same_shape_entry:
  assumes "rt_heap q = (rt_heap r)[i := e]" "rt_subs q = rt_subs r" "rt_subscriptions q = rt_subscriptions r"
    and "en_admission e = en_admission (rt_heap r ! i)" "en_subscribers e = en_subscribers (rt_heap r ! i)"
  shows "same_shape r q"
  using assms by (simp add: same_shape_def nth_update_proj)

lemma same_shape_trans: "same_shape r q \<Longrightarrow> same_shape q p \<Longrightarrow> same_shape r p"
  unfolding same_shape_def by metis

subsection \<open>The subscriptions\<close>

lemma live_sub_same:
  assumes "same_shape r q" and "rt_entries q = rt_entries r"
  shows "live_sub q j = live_sub r j"
  unfolding live_sub_def same_shape_simps [OF assms(1)] assms(2) by (rule refl)

lemma subs_inv_same:
  assumes "same_shape r q" and "rt_entries q = rt_entries r" and "rt_subs q = rt_subs r"
    and "rt_accepting q = rt_accepting r" and "rt_withdrawnReceipts q = rt_withdrawnReceipts r"
    and "subs_inv r"
  shows "subs_inv q"
proof -
  have "withdrawn_ok q j = withdrawn_ok r j" for j
    unfolding withdrawn_ok_def live_sub_same [OF assms(1,2)] receipt_withdrawn_def assms(3-5) by (rule refl)
  then show ?thesis using assms(6) unfolding subs_inv_def assms(3) same_shape_simps [OF assms(1)] by blast
qed

text \<open>Withdrawing all subscribers of the entries that leave the map.\<close>

lemma withdrawn_ok_withdraw:
  assumes heap: "heap_inv r" and subs: "subs_inv r" and j: "j < length (rt_subs r)"
    and nth: "rt_subs q ! j = (if j \<in> set js
      then (rt_subs r ! j)\<lparr>su_withdrawn := True, su_canceled := True\<rparr> else rt_subs r ! j)"
    and receipts: "rt_withdrawnReceipts q = rt_withdrawnReceipts r
      \<union> {rcpt_ptr p |j p. j \<in> set js \<and> adm_receipt (su_admission (rt_subs r ! j)) = Some p}"
    and keep: "live_sub r j \<Longrightarrow> j \<notin> set js \<Longrightarrow> live_sub q j \<and> rt_accepting q = rt_accepting r"
    and gone: "rt_accepting q \<Longrightarrow> live_sub q j \<Longrightarrow> rt_accepting r \<and> live_sub r j \<and> j \<notin> set js"
  shows "withdrawn_ok q j"
proof (cases "j \<in> set js")
  case True
  obtain p where "adm_receipt (su_admission (rt_subs r ! j)) = Some p"
    using sub_facts(3) [OF heap j] by (auto simp: issuer_of_def split: option.splits)
  then have "receipt_withdrawn q (su_admission (rt_subs q ! j))"
    using True unfolding receipt_withdrawn_def receipts nth by auto
  moreover have "\<not> (rt_accepting q \<and> live_sub q j)" using gone True by blast
  ultimately show ?thesis using True unfolding withdrawn_ok_def nth by simp
next
  case False
  then have same: "rt_subs q ! j = rt_subs r ! j" using nth by simp
  have old: "withdrawn_ok r j" using subs j unfolding subs_inv_def by blast
  have mono: "receipt_withdrawn r a \<Longrightarrow> receipt_withdrawn q a" for a
    unfolding receipt_withdrawn_def receipts by (cases "adm_receipt a") auto
  show ?thesis
    using old False keep gone mono [of "su_admission (rt_subs r ! j)"] unfolding withdrawn_ok_def same by blast
qed

lemma subs_inv_withdraw:
  assumes heap: "heap_inv r" and subs: "subs_inv r"
    and q: "same_shape r q" "rt_subs q = rt_subs (fold withdraw js p)"
      "rt_withdrawnReceipts q = rt_withdrawnReceipts (fold withdraw js p)"
    and p: "rt_subs p = rt_subs r" "rt_withdrawnReceipts p = rt_withdrawnReceipts r"
    and js: "\<And>j. j \<in> set js \<Longrightarrow> j < length (rt_subs r)"
    and keep: "\<And>j. live_sub r j \<Longrightarrow> j \<notin> set js \<Longrightarrow> live_sub q j \<and> rt_accepting q = rt_accepting r"
    and gone: "\<And>j. rt_accepting q \<Longrightarrow> live_sub q j \<Longrightarrow> rt_accepting r \<and> live_sub r j \<and> j \<notin> set js"
  shows "subs_inv q"
proof -
  have range: "\<And>j. j \<in> set js \<Longrightarrow> j < length (rt_subs p)" using js p by simp
  have nth: "rt_subs q ! j = (if j \<in> set js
      then (rt_subs r ! j)\<lparr>su_withdrawn := True, su_canceled := True\<rparr> else rt_subs r ! j)" for j
    using fold_withdraw_subs [OF range, where j = j] q(2) p by simp
  have receipts: "rt_withdrawnReceipts q = rt_withdrawnReceipts r
    \<union> {rcpt_ptr p |j p. j \<in> set js \<and> adm_receipt (su_admission (rt_subs r ! j)) = Some p}"
    using fold_withdraw_receipts [OF range] q(3) p by simp
  have "withdrawn_ok q j" if "j < length (rt_subs r)" for j
    using withdrawn_ok_withdraw [OF heap subs that nth receipts] keep gone by blast
  then show ?thesis
    using subs unfolding subs_inv_def same_shape_simps [OF q(1)] by blast
qed

subsection \<open>Versions\<close>

text \<open>A heap that has only grown: admissions stay, versions do not decrease.\<close>

definition heap_le :: "retained_entry list \<Rightarrow> retained_entry list \<Rightarrow> bool" where
  "heap_le h g \<longleftrightarrow> length h \<le> length g \<and> (\<forall>i < length h. en_admission (g ! i) = en_admission (h ! i)
     \<and> en_version (h ! i) \<le> en_version (g ! i))"

lemma read_ok_le: "heap_le h g \<Longrightarrow> read_ok h x \<Longrightarrow> read_ok g x"
  by (cases x) (auto simp: heap_le_def read_ok_def intro: order_trans)

lemma worker_ok_le: "heap_le h g \<Longrightarrow> worker_ok h w \<Longrightarrow> worker_ok g w"
  by (cases w) (auto simp: heap_le_def intro: order_trans)

lemma heap_le_update:
  "en_admission e = en_admission (h ! i) \<Longrightarrow> en_version (h ! i) \<le> en_version e \<Longrightarrow> heap_le h (h[i := e])"
  by (cases "i < length h") (auto simp: heap_le_def nth_list_update list_update_beyond)

lemma heap_le_refl: "heap_le h h"
  by (simp add: heap_le_def)

lemma version_invI:
  assumes "version_inv r reads" and "heap_le (rt_heap r) (rt_heap q)"
    and "\<And>k i. (k, i) \<in> set (rt_entries q) \<Longrightarrow> entry_version_ok reads i (rt_heap q ! i)"
    and "worker_ok (rt_heap r) (rt_worker q) \<or> worker_ok (rt_heap q) (rt_worker q)"
  shows "version_inv q reads"
proof -
  have "\<forall>x \<in> reads. read_ok (rt_heap q) x"
    using assms(1) read_ok_le [OF assms(2)] unfolding version_inv_def by blast
  moreover have "worker_ok (rt_heap q) (rt_worker q)" using assms(4) worker_ok_le [OF assms(2)] by blast
  ultimately show ?thesis unfolding version_inv_def using assms(3) by auto
qed

lemma entry_version:
  "version_inv r reads \<Longrightarrow> (k, i) \<in> set (rt_entries r) \<Longrightarrow> entry_version_ok reads i (rt_heap r ! i)"
  unfolding version_inv_def by auto

lemma entry_version_ok_marked: "entry_version_ok reads i e \<Longrightarrow> entry_version_ok reads i (marked e)"
  by (auto simp: entry_version_ok_def split: if_splits)

section \<open>Preservation\<close>

text \<open>Marking live entries.\<close>

lemma rt_inv_marks:
  assumes inv: "rt_inv r reads" and ids: "set is \<subseteq> set (map snd (rt_entries r))" "distinct is"
  shows "rt_inv (fold markLocked is r) reads"
proof -
  let ?q = "fold markLocked is r"
  have heap: "heap_inv r" and subs: "subs_inv r" and ver: "version_inv r reads"
    using inv by (auto simp: rt_inv_def)
  have range: "i < length (rt_heap r)" if "i \<in> set is" for i
    using that ids entry_keys(1) [OF heap] by auto
  note nth = fold_markLocked_heap [OF ids(2) range]
  note shape = same_shape_marks [OF heap ids]
  have "heap_inv ?q" using heap_inv_same_shape [OF shape _ heap, of "\<lambda>_. True"] by simp
  moreover have "subs_inv ?q" using subs_inv_same [OF shape _ _ _ _ subs] by simp
  moreover have "version_inv ?q reads"
  proof (rule version_invI [OF ver])
    show "heap_le (rt_heap r) (rt_heap ?q)" by (simp add: heap_le_def nth)
    show "entry_version_ok reads i (rt_heap ?q ! i)" if "(k, i) \<in> set (rt_entries ?q)" for k i
      using entry_version [OF ver] that entry_version_ok_marked by (auto simp: nth)
    show "worker_ok (rt_heap r) (rt_worker ?q) \<or> worker_ok (rt_heap ?q) (rt_worker ?q)"
      using ver by (simp add: version_inv_def)
  qed
  ultimately show ?thesis by (simp add: rt_inv_def)
qed

lemma matching_ids_live: "set (matching_ids c r) \<subseteq> set (map snd (rt_entries r))"
  by (auto simp: matching_ids_def)

lemma BeginChange_inv:
  assumes "rt_inv r reads" shows "rt_inv (snd (BeginChange c r)) reads"
proof -
  have "distinct (matching_ids c r)"
    using distinct_entry_ids assms by (auto simp: rt_inv_def matching_ids_def)
  then show ?thesis
    using rt_inv_marks [OF assms matching_ids_live] assms by (simp add: BeginChange_def Let_def)
qed

lemma run_scan_inv: "rt_inv r reads \<Longrightarrow> rt_inv (run_scan now r) reads"
  unfolding run_scan_def using distinct_entry_ids [of r]
  by (intro rt_inv_marks) (auto simp: rt_inv_def)

text \<open>A step that changes one entry, keeping admission, subscribers and version.\<close>

lemma rt_inv_entry:
  assumes inv: "rt_inv r reads"
    and q: "rt_heap q = (rt_heap r)[i := e]" "rt_subs q = rt_subs r" "rt_subscriptions q = rt_subscriptions r"
      "rt_entries q = rt_entries r" "rt_accepting q = rt_accepting r"
      "rt_withdrawnReceipts q = rt_withdrawnReceipts r"
    and e: "en_admission e = en_admission (rt_heap r ! i)" "en_subscribers e = en_subscribers (rt_heap r ! i)"
      "en_version e = en_version (rt_heap r ! i)"
    and ok: "\<And>k. (k, i) \<in> set (rt_entries r) \<Longrightarrow> entry_version_ok reads' i e"
    and worker: "worker_ok (rt_heap r) (rt_worker q)"
    and reads: "reads \<subseteq> reads'" "\<And>x. x \<in> reads' - reads \<Longrightarrow> read_ok (rt_heap r) x"
  shows "rt_inv q reads'"
proof -
  have heap: "heap_inv r" and subs: "subs_inv r" and ver: "version_inv r reads"
    using inv by (auto simp: rt_inv_def)
  have shape: "same_shape r q" using q(1-3) e(1,2) by (rule same_shape_entry)
  have "heap_inv q" using heap_inv_same_shape [OF shape _ heap, of "\<lambda>_. True"] q by simp
  moreover have "subs_inv q" using subs_inv_same [OF shape _ _ _ _ subs] q by simp
  moreover have "version_inv r reads' \<or> (\<forall>x \<in> reads'. read_ok (rt_heap r) x)"
    using ver reads unfolding version_inv_def by blast
  moreover have "version_inv q reads'"
  proof -
    have le: "heap_le (rt_heap r) (rt_heap q)" unfolding q(1) using e by (intro heap_le_update) auto
    have "\<forall>x \<in> reads'. read_ok (rt_heap q) x"
      using ver reads read_ok_le [OF le] unfolding version_inv_def by blast
    moreover have "entry_version_ok reads' i' (rt_heap q ! i')" if "(k, i') \<in> set (rt_entries r)" for k i'
    proof (cases "i' = i")
      case True
      then show ?thesis using ok that entry_keys(1) [OF heap that] q(1) by simp
    next
      case False
      then show ?thesis
        using entry_version [OF ver that] reads(1) q(1) by (auto simp: entry_version_ok_def split: if_splits)
    qed
    ultimately show ?thesis
      using worker_ok_le [OF le worker] unfolding version_inv_def q(4) by auto
  qed
  ultimately show ?thesis by (simp add: rt_inv_def)
qed

lemma run_begin_inv:
  assumes inv: "rt_inv r reads"
  shows "rt_inv (run_begin now pick r) reads"
proof (cases "rt_accepting r")
  case False
  then have "run_begin now pick r = r\<lparr>rt_worker := WorkerStopped\<rparr>" by (simp add: run_begin_def)
  then show ?thesis
    using inv subs_inv_same [of r "r\<lparr>rt_worker := WorkerStopped\<rparr>"]
      heap_inv_same_shape [of r "r\<lparr>rt_worker := WorkerStopped\<rparr>" "\<lambda>_. True"]
    by (simp add: rt_inv_def version_inv_def same_shape_def)
next
  case True
  let ?s = "run_scan now r"
  have s: "rt_inv ?s reads" using inv by (rule run_scan_inv)
  consider (read) i where "map_of (rt_entries ?s) pick = Some i" "en_dirty (rt_heap ?s ! i)"
    | (idle) "run_begin now pick r = ?s"
    using True by (fastforce simp: run_begin_def Let_def split: option.splits)
  then show ?thesis
  proof cases
    case (read i)
    have live: "(pick, i) \<in> set (rt_entries ?s)"
      using read(1) s by (simp add: rt_inv_def map_of_entry)
    have keys: "i < length (rt_heap ?s)" "keyOf (en_admission (rt_heap ?s ! i)) = pick"
      using entry_keys [OF _ live] s by (auto simp: rt_inv_def)
    have "version_inv ?s reads" using s by (simp add: rt_inv_def)
    from entry_version [OF this live] have ok: "entry_version_ok reads i (rt_heap ?s ! i)" .
    show ?thesis
      using s ok keys True read
      by (intro rt_inv_entry [OF s, where i = i and e = "(rt_heap ?s ! i)\<lparr>en_reading := Some (rt_readCount ?s)\<rparr>"])
        (simp_all add: run_begin_def Let_def entry_version_ok_def)
  qed (simp add: s)
qed

text \<open>The result of a read.\<close>

lemma run_finish_ignored:
  assumes "rt_inv r reads" and "rt_worker r = WorkerReading k i v n"
    and "\<not> (map_of (rt_entries r) k = Some i \<and> en_version (rt_heap r ! i) = v \<and> rt_accepting r)"
  shows "rt_inv (run_finish res r) reads"
proof -
  let ?q = "r\<lparr>rt_worker := WorkerIdle, rt_canceledReads := insert n (rt_canceledReads r)\<rparr>"
  have "run_finish res r = ?q" unfolding run_finish_def assms(2) using assms(3) by auto
  moreover have shape: "same_shape r ?q" by (simp add: same_shape_def)
  ultimately show ?thesis
    using assms(1) subs_inv_same [OF shape] heap_inv_same_shape [OF shape, of "\<lambda>_. True"]
    by (simp add: rt_inv_def version_inv_def)
qed

lemma run_finish_ok_inv:
  assumes inv: "rt_inv r reads" and w: "rt_worker r = WorkerReading k i v n"
    and c: "map_of (rt_entries r) k = Some i" "en_version (rt_heap r ! i) = v" "rt_accepting r"
    and x: "read_ok (rt_heap r) (i, v, x)"
  shows "rt_inv (run_finish (Some x) r) (insert (i, v, x) reads)"
proof (rule rt_inv_entry [OF inv])
  let ?e = "(rt_heap r ! i)\<lparr>en_reading := None, en_checked := v, en_dirty := False, en_validity := x,
    en_validityKnown := True\<rparr>"
  have "i < length (rt_heap r)" using inv w by (simp add: rt_inv_def version_inv_def)
  then show "rt_heap (run_finish (Some x) r) = (rt_heap r)[i := ?e]"
    unfolding run_finish_def w using c by simp
  have "(k, i) \<in> set (rt_entries r)" using c(1) inv by (simp add: rt_inv_def map_of_entry)
  then have "entry_version_ok reads i (rt_heap r ! i)" using inv entry_version by (auto simp: rt_inv_def)
  then show "entry_version_ok (insert (i, v, x) reads) i ?e" using c by (simp add: entry_version_ok_def)
qed (use c x in \<open>auto simp: run_finish_def w\<close>)

lemma entry_unique:
  assumes "heap_inv r" and "(k, i) \<in> set (rt_entries r)" and "(k', i') \<in> set (rt_entries r)"
  shows "k' = k \<longleftrightarrow> i' = i"
  using assms entry_keys(2) [OF assms(1)] by (metis map_of_entry option.inject)

lemma live_sub_filter:
  assumes shape: "same_shape r q" and q: "rt_entries q = filter (\<lambda>(k', _). k' \<noteq> k) (rt_entries r)"
    and heap: "heap_inv r" and ki: "(k, i) \<in> set (rt_entries r)"
  shows "live_sub q j \<longleftrightarrow> live_sub r j \<and> j \<notin> set (en_subscribers (rt_heap r ! i))"
proof -
  have "j \<in> set (en_subscribers (rt_heap r ! i)) \<Longrightarrow> su_entry (rt_subs r ! j) = i"
    using subscriber_facts(2) [OF heap entry_keys(1) [OF heap ki]] by blast
  then show ?thesis
    unfolding live_sub_def same_shape_simps [OF shape] q
    using entry_unique [OF heap ki, of "keyOf (su_admission (rt_subs r ! j))" "su_entry (rt_subs r ! j)"] by auto
qed

lemma run_finish_failed:
  assumes w: "rt_worker r = WorkerReading k i v n" and c: "map_of (rt_entries r) k = Some i"
      "en_version (rt_heap r ! i) = v" "rt_accepting r" and i: "i < length (rt_heap r)"
    and p: "p = r\<lparr>rt_worker := WorkerIdle, rt_canceledReads := insert n (rt_canceledReads r),
      rt_heap := (rt_heap r)[i := (rt_heap r ! i)\<lparr>en_reading := None, en_checked := v, en_dirty := False\<rparr>],
      rt_entries := filter (\<lambda>(k', _). k' \<noteq> k) (rt_entries r)\<rparr>"
  shows "run_finish None r = signalLocked (fold withdraw (en_subscribers (rt_heap r ! i)) p)"
proof -
  have "en_subscribers ((rt_heap r)[i := (rt_heap r ! i)\<lparr>en_reading := None, en_checked := v, en_dirty := False\<rparr>] ! i)
      = en_subscribers (rt_heap r ! i)" using i by simp
  then show ?thesis
    unfolding run_finish_def w p using c i by (simp add: upd_entry_def)
qed

lemma run_finish_failed_inv:
  assumes inv: "rt_inv r reads" and w: "rt_worker r = WorkerReading k i v n"
    and c: "map_of (rt_entries r) k = Some i" "en_version (rt_heap r ! i) = v" "rt_accepting r"
  shows "rt_inv (run_finish None r) reads"
proof -
  have heap: "heap_inv r" and subs: "subs_inv r" and ver: "version_inv r reads"
    using inv by (auto simp: rt_inv_def)
  have ki: "(k, i) \<in> set (rt_entries r)" using c(1) map_of_entry [OF heap] by simp
  note i = entry_keys(1) [OF heap ki]
  define e where "e = (rt_heap r ! i)\<lparr>en_reading := None, en_checked := v, en_dirty := False\<rparr>"
  define js where "js = en_subscribers (rt_heap r ! i)"
  define p where "p = r\<lparr>rt_worker := WorkerIdle, rt_canceledReads := insert n (rt_canceledReads r),
      rt_heap := (rt_heap r)[i := e], rt_entries := filter (\<lambda>(k', _). k' \<noteq> k) (rt_entries r)\<rparr>"
  define q where "q = run_finish None r"
  have q: "q = signalLocked (fold withdraw js p)"
    unfolding q_def js_def using run_finish_failed [OF w c i] unfolding p_def e_def by simp
  have range: "\<And>j. j \<in> set js \<Longrightarrow> j < length (rt_subs p)"
    using subscriber_facts(1) [OF heap i] by (simp add: js_def p_def)
  have subs_p: "rt_subs p = rt_subs r" by (simp add: p_def)
  have heap_q: "rt_heap q = (rt_heap r)[i := e]" and ent: "rt_entries q = filter (\<lambda>(k', _). k' \<noteq> k) (rt_entries r)"
    unfolding q by (simp_all add: p_def)
  have shape: "same_shape r q"
  proof -
    have "su_entry (rt_subs q ! j) = su_entry (rt_subs r ! j) \<and> su_admission (rt_subs q ! j) = su_admission (rt_subs r ! j)
        \<and> su_done (rt_subs q ! j) = su_done (rt_subs r ! j)" for j
      unfolding q using fold_withdraw_subs [OF range, where j = j] subs_p by simp
    then show ?thesis
      unfolding same_shape_def heap_q by (simp add: q p_def e_def nth_update_proj)
  qed
  have "subs_inv q"
  proof (rule subs_inv_withdraw [OF heap subs shape, of js p])
    show "j < length (rt_subs r)" if "j \<in> set js" for j using range [OF that] subs_p by simp
    show "live_sub q j \<and> rt_accepting q = rt_accepting r" if "live_sub r j" "j \<notin> set js" for j
      using live_sub_filter [OF shape ent heap ki, of j] that by (simp add: js_def q p_def)
    show "rt_accepting r \<and> live_sub r j \<and> j \<notin> set js" if "rt_accepting q" "live_sub q j" for j
      using live_sub_filter [OF shape ent heap ki, of j] that c(3) by (simp add: js_def)
  qed (simp_all add: q p_def)
  moreover have "heap_inv q" by (rule heap_inv_same_shape [OF shape ent heap])
  moreover have "version_inv q reads"
  proof (rule version_invI [OF ver])
    show "heap_le (rt_heap r) (rt_heap q)" unfolding heap_q by (rule heap_le_update) (simp_all add: e_def)
    show "entry_version_ok reads i' (rt_heap q ! i')" if "(k', i') \<in> set (rt_entries q)" for k' i'
    proof -
      have "(k', i') \<in> set (rt_entries r)" "k' \<noteq> k" using that ent by auto
      then show ?thesis
        using entry_version [OF ver] entry_unique [OF heap ki] heap_q by auto
    qed
  qed (simp add: q p_def)
  ultimately show ?thesis by (simp add: rt_inv_def q_def)
qed

text \<open>Leaving an entry: the end of a wait and the release.\<close>

lemma entries_after_mem:
  assumes heap: "heap_inv r" and j: "j < length (rt_subs r)"
  shows "(k', i') \<in> set (entries_after j r) \<longleftrightarrow> (k', i') \<in> set (rt_entries r)
    \<and> removeAll j (en_subscribers (rt_heap r ! i')) \<noteq> []"
proof (cases "i' = su_entry (rt_subs r ! j)")
  case True
  then show ?thesis
    using map_of_entry [OF heap] sub_facts(2) [OF heap j] entry_keys(2) [OF heap, of k' i']
    by (auto simp: entries_after_def Let_def)
next
  case False
  have "(k', i') \<in> set (rt_entries r) \<Longrightarrow> j \<notin> set (en_subscribers (rt_heap r ! i'))"
    using False subscriber_facts(2) [OF heap entry_keys(1) [OF heap]] by blast
  moreover have "(k', i') \<in> set (rt_entries r) \<Longrightarrow> removeAll j (en_subscribers (rt_heap r ! i')) \<noteq> []"
    using entry_keys(3) [OF heap] calculation by (auto simp: removeAll_id)
  moreover have "map_of (rt_entries r) (keyOf (su_admission (rt_subs r ! j))) = Some (su_entry (rt_subs r ! j))
      \<Longrightarrow> (k', i') \<in> set (rt_entries r) \<Longrightarrow> k' \<noteq> keyOf (su_admission (rt_subs r ! j))"
    using False map_of_entry [OF heap] entry_unique [OF heap] by metis
  ultimately show ?thesis by (auto simp: entries_after_def Let_def)
qed

definition leaves :: "retained \<Rightarrow> nat \<Rightarrow> subscription \<Rightarrow> retained \<Rightarrow> bool" where
  "leaves r j s q \<longleftrightarrow>
     rt_entries q = entries_after j r
     \<and> rt_heap q = (rt_heap r)[su_entry (rt_subs r ! j) := left_by j (rt_heap r ! su_entry (rt_subs r ! j))]
     \<and> rt_subs q = (rt_subs r)[j := s] \<and> rt_accepting q = rt_accepting r \<and> rt_worker q = rt_worker r
     \<and> rt_withdrawnReceipts q = rt_withdrawnReceipts r
     \<and> su_entry s = su_entry (rt_subs r ! j) \<and> su_admission s = su_admission (rt_subs r ! j)
     \<and> su_canceled s = su_canceled (rt_subs r ! j) \<and> (su_withdrawn (rt_subs r ! j) \<longrightarrow> su_withdrawn s)
     \<and> (su_withdrawn s \<or> su_done s)
     \<and> (rt_subscriptions q = rt_subscriptions r \<and> su_done s = su_done (rt_subs r ! j)
        \<or> rt_subscriptions q = removeAll j (rt_subscriptions r) \<and> su_done s)"

lemma leaves_simps:
  assumes heap: "heap_inv r" and j: "j < length (rt_subs r)" and q: "leaves r j s q"
  shows "en_admission (rt_heap q ! i) = en_admission (rt_heap r ! i)"
    "su_entry (rt_subs q ! j') = su_entry (rt_subs r ! j')"
    "su_admission (rt_subs q ! j') = su_admission (rt_subs r ! j')"
    "j' \<noteq> j \<Longrightarrow> rt_subs q ! j' = rt_subs r ! j'" "rt_subs q ! j = s"
    "length (rt_heap q) = length (rt_heap r)" "length (rt_subs q) = length (rt_subs r)"
  using q j unfolding leaves_def by (simp_all add: nth_update_proj)

lemma leaves_subscribers:
  assumes heap: "heap_inv r" and j: "j < length (rt_subs r)" and q: "leaves r j s q" and i: "i < length (rt_heap r)"
  shows "en_subscribers (rt_heap q ! i) = removeAll j (en_subscribers (rt_heap r ! i))"
proof (cases "i = su_entry (rt_subs r ! j)")
  case True
  then show ?thesis using q i unfolding leaves_def by simp
next
  case False
  then have "j \<notin> set (en_subscribers (rt_heap r ! i))" using subscriber_facts(2) [OF heap i] by blast
  with False show ?thesis using q unfolding leaves_def by (simp add: removeAll_id)
qed

lemma leaves_heap_inv:
  assumes heap: "heap_inv r" and j: "j < length (rt_subs r)" and q: "leaves r j s q"
  shows "heap_inv q"
proof -
  note eqs = leaves_simps [OF heap j q] and subscribers = leaves_subscribers [OF heap j q]
  have ent: "rt_entries q = entries_after j r" using q by (simp add: leaves_def)
  have "entry_ok q i" if "i < length (rt_heap r)" for i
  proof -
    have "entry_ok r i" using heap that unfolding heap_inv_def by blast
    then show ?thesis
      unfolding entry_ok_def subscribers [OF that] eqs(1,6,7) using eqs(4) by (auto simp: distinct_removeAll)
  qed
  moreover have "sub_ok q j' = sub_ok r j'" for j'
    unfolding sub_ok_def Let_def eqs(1,2,3,6,7) by (rule refl)
  moreover have "live_entry_ok q ki" if "ki \<in> set (rt_entries q)" for ki
  proof (cases ki)
    case (Pair k' i')
    then have m: "(k', i') \<in> set (rt_entries r)" "removeAll j (en_subscribers (rt_heap r ! i')) \<noteq> []"
      using that entries_after_mem [OF heap j] ent by auto
    then show ?thesis
      unfolding live_entry_ok_def Pair fst_conv snd_conv eqs(1,6,7)
      using entry_keys(1,2) [OF heap m(1)] subscribers by auto
  qed
  moreover have "distinct (map fst (rt_entries q))"
    using heap unfolding ent heap_inv_def entries_after_def Let_def by (auto simp: distinct_map_filter)
  ultimately show ?thesis using heap unfolding heap_inv_def eqs(6,7) by blast
qed

lemma removeAll_witness: "x \<in> set xs \<Longrightarrow> x \<noteq> y \<Longrightarrow> removeAll y xs \<noteq> []"
  by (induction xs) auto

lemma leaves_live:
  assumes heap: "heap_inv r" and j: "j < length (rt_subs r)" and q: "leaves r j s q"
  shows "live_sub q j' \<longleftrightarrow> j' \<noteq> j \<and> live_sub r j'"
proof -
  let ?k = "keyOf (su_admission (rt_subs r ! j'))" and ?i = "su_entry (rt_subs r ! j')"
  have ent: "rt_entries q = entries_after j r" using q by (simp add: leaves_def)
  have live: "live_sub q j' \<longleftrightarrow> (?k, ?i) \<in> set (rt_entries r)
      \<and> removeAll j (en_subscribers (rt_heap r ! ?i)) \<noteq> [] \<and> j' \<in> set (en_subscribers (rt_heap q ! ?i))"
    unfolding live_sub_def leaves_simps [OF heap j q] ent entries_after_mem [OF heap j] by blast
  show ?thesis
  proof (cases "(?k, ?i) \<in> set (rt_entries r)")
    case True
    then have "en_subscribers (rt_heap q ! ?i) = removeAll j (en_subscribers (rt_heap r ! ?i))"
      using leaves_subscribers [OF heap j q] entry_keys(1) [OF heap] by blast
    then show ?thesis
      unfolding live live_sub_def [of r] using True removeAll_witness [of j' _ j] by auto
  next
    case False
    then show ?thesis unfolding live live_sub_def [of r] by blast
  qed
qed

lemma leaves_subs_inv:
  assumes heap: "heap_inv r" and j: "j < length (rt_subs r)" and q: "leaves r j s q" and subs: "subs_inv r"
  shows "subs_inv q"
proof -
  note eqs = leaves_simps [OF heap j q] and live = leaves_live [OF heap j q]
  have acc: "rt_accepting q = rt_accepting r" "rt_withdrawnReceipts q = rt_withdrawnReceipts r"
    and s: "su_admission s = su_admission (rt_subs r ! j)" "su_canceled s = su_canceled (rt_subs r ! j)"
      "su_withdrawn (rt_subs r ! j) \<longrightarrow> su_withdrawn s" "su_withdrawn s \<or> su_done s"
    using q unfolding leaves_def by blast+
  have "withdrawn_ok q j'" if "j' < length (rt_subs r)" for j'
  proof (cases "j' = j")
    case True
    have "withdrawn_ok r j" using subs j unfolding subs_inv_def by blast
    then show ?thesis
      using s unfolding True withdrawn_ok_def live eqs(5) receipt_withdrawn_def acc by metis
  next
    case False
    have "withdrawn_ok r j'" using subs that unfolding subs_inv_def by blast
    with False show ?thesis
      unfolding withdrawn_ok_def live eqs(4) [OF False] receipt_withdrawn_def acc by blast
  qed
  moreover have "j' \<in> set (rt_subscriptions q) \<longleftrightarrow> j' < length (rt_subs r) \<and> \<not> su_done (rt_subs q ! j')" for j'
  proof -
    have "set (rt_subscriptions q) = set (rt_subscriptions r) \<and> su_done s = su_done (rt_subs r ! j)
        \<or> set (rt_subscriptions q) = set (rt_subscriptions r) - {j} \<and> su_done s"
      using q unfolding leaves_def by (metis set_removeAll)
    then show ?thesis
      using subscriptions_iff [OF subs, of j'] eqs(4) [of j'] eqs(5) j by (cases "j' = j") auto
  qed
  moreover have "distinct (rt_subscriptions q)"
  proof -
    have "distinct (rt_subscriptions r)" using subs unfolding subs_inv_def by blast
    then show ?thesis using q unfolding leaves_def by (metis distinct_removeAll)
  qed
  ultimately show ?thesis unfolding subs_inv_def eqs(7) by blast
qed

lemma leave_inv:
  assumes inv: "rt_inv r reads" and j: "j < length (rt_subs r)" and q: "leaves r j s q"
  shows "rt_inv q reads"
proof -
  have heap: "heap_inv r" and subs: "subs_inv r" and ver: "version_inv r reads"
    using inv by (auto simp: rt_inv_def)
  let ?i = "su_entry (rt_subs r ! j)"
  have i: "?i < length (rt_heap r)" using sub_facts(1) [OF heap j] .
  have hq: "rt_heap q = (rt_heap r)[?i := left_by j (rt_heap r ! ?i)]" using q by (simp add: leaves_def)
  have "version_inv q reads"
  proof (rule version_invI [OF ver])
    show "heap_le (rt_heap r) (rt_heap q)" unfolding hq by (rule heap_le_update) simp_all
    show "entry_version_ok reads i' (rt_heap q ! i')" if "(k', i') \<in> set (rt_entries q)" for k' i'
    proof -
      have m: "(k', i') \<in> set (rt_entries r)"
        using that entries_after_mem [OF heap j] q by (auto simp: leaves_def)
      show ?thesis
        using entry_version [OF ver m] unfolding hq
        by (cases "i' = ?i") (auto simp: entry_version_ok_def i)
    qed
    show "worker_ok (rt_heap r) (rt_worker q) \<or> worker_ok (rt_heap q) (rt_worker q)"
      using ver q by (simp add: version_inv_def leaves_def)
  qed
  then show ?thesis
    using leaves_heap_inv [OF heap j q] leaves_subs_inv [OF heap j q subs] by (simp add: rt_inv_def)
qed

lemma Retain_canceled_inv:
  assumes inv: "rt_inv r reads" and j: "j < length (rt_subs r)"
  shows "rt_inv (Retain_canceled j r) reads"
proof (rule leave_inv [OF inv j])
  have "su_entry (rt_subs r ! j) < length (rt_heap r)" using sub_facts(1) j inv by (simp add: rt_inv_def)
  from Retain_canceled_effect [OF j this]
  show "leaves r j ((rt_subs r ! j)\<lparr>su_withdrawn := True\<rparr>) (Retain_canceled j r)"
    unfolding leaves_def by simp
qed

lemma retained_release_inv:
  assumes inv: "rt_inv r reads" and j: "j < length (rt_subs r)"
  shows "rt_inv (retained_release j r) reads"
proof (cases "su_done (rt_subs r ! j)")
  case True
  then show ?thesis using inv by (simp add: retained_release_def)
next
  case False
  have "su_entry (rt_subs r ! j) < length (rt_heap r)" using sub_facts(1) j inv by (simp add: rt_inv_def)
  from retained_release_effect [OF j this False]
  have "leaves r j ((rt_subs r ! j)\<lparr>su_done := True\<rparr>) (retained_release j r)"
    unfolding leaves_def by simp
  then show ?thesis by (rule leave_inv [OF inv j])
qed

text \<open>Shutting down withdraws every live subscription.\<close>

lemma live_subscribers:
  assumes "live_sub r j"
  shows "j \<in> set (concat (map (\<lambda>(k, i). en_subscribers (rt_heap r ! i)) (rt_entries r)))"
proof -
  let ?ki = "(keyOf (su_admission (rt_subs r ! j)), su_entry (rt_subs r ! j))"
  have "?ki \<in> set (rt_entries r)" "j \<in> set (case ?ki of (k, i) \<Rightarrow> en_subscribers (rt_heap r ! i))"
    using assms by (simp_all add: live_sub_def)
  then show ?thesis unfolding set_concat set_map by blast
qed

lemma Retained_BeginShutdown_inv:
  assumes inv: "rt_inv r reads"
  shows "rt_inv (Retained_BeginShutdown r) reads"
proof (cases "rt_accepting r")
  case False
  then show ?thesis using inv by (simp add: Retained_BeginShutdown_def)
next
  case True
  have heap: "heap_inv r" and subs: "subs_inv r" and ver: "version_inv r reads"
    using inv by (auto simp: rt_inv_def)
  define js where "js = concat (map (\<lambda>(k, i). en_subscribers (rt_heap r ! i)) (rt_entries r))"
  define p where "p = r\<lparr>rt_accepting := False\<rparr>"
  define q where "q = Retained_BeginShutdown r"
  have q: "q = signalLocked (fold withdraw js p)"
    using True by (simp add: q_def Retained_BeginShutdown_def js_def p_def)
  have range: "j < length (rt_subs p)" if "j \<in> set js" for j
    using that subscriber_facts(1) [OF heap entry_keys(1) [OF heap]] by (auto simp: js_def p_def)
  have p: "rt_subs p = rt_subs r" "rt_withdrawnReceipts p = rt_withdrawnReceipts r" by (simp_all add: p_def)
  have fields: "rt_heap q = rt_heap r" "rt_entries q = rt_entries r" "rt_worker q = rt_worker r"
      "rt_subscriptions q = rt_subscriptions r" "\<not> rt_accepting q"
    unfolding q by (simp_all add: p_def)
  have shape: "same_shape r q"
  proof -
    have "su_entry (rt_subs q ! j) = su_entry (rt_subs r ! j) \<and> su_admission (rt_subs q ! j) = su_admission (rt_subs r ! j)
        \<and> su_done (rt_subs q ! j) = su_done (rt_subs r ! j)" for j
      unfolding q using fold_withdraw_subs [OF range, where j = j] p by simp
    then show ?thesis unfolding same_shape_def fields by (simp add: q p)
  qed
  have "subs_inv q"
  proof (rule subs_inv_withdraw [OF heap subs shape, of js p])
    show "j < length (rt_subs r)" if "j \<in> set js" for j using range [OF that] p by simp
    show "live_sub q j \<and> rt_accepting q = rt_accepting r" if "live_sub r j" "j \<notin> set js" for j
      using that live_subscribers unfolding js_def by blast
    show "rt_accepting r \<and> live_sub r j \<and> j \<notin> set js" if "rt_accepting q" for j
      using that fields by simp
  qed (simp_all add: q p)
  moreover have "heap_inv q"
    using heap_inv_same_shape [OF shape _ heap, of "\<lambda>_. True"] fields by simp
  moreover have "version_inv q reads"
    using ver unfolding version_inv_def fields by blast
  ultimately show ?thesis by (simp add: rt_inv_def q_def)
qed

text \<open>A new subscription joins the entry of its key.\<close>

definition joins :: "retained \<Rightarrow> admission \<Rightarrow> nat \<Rightarrow> retained_entry \<Rightarrow> retained \<Rightarrow> bool" where
  "joins r a i e q \<longleftrightarrow>
     ((keyOf a, i) \<in> set (rt_entries r) \<and> e = rt_heap r ! i \<and> rt_entries q = rt_entries r
        \<and> rt_heap q = (rt_heap r)[i := marked (e\<lparr>en_subscribers := length (rt_subs r) # en_subscribers e\<rparr>)]
        \<and> issuer_of (en_admission e) = issuer_of a
      \<or> keyOf a \<notin> fst ` set (rt_entries r) \<and> i = length (rt_heap r) \<and> e = fresh_entry a
        \<and> rt_entries q = (keyOf a, i) # rt_entries r
        \<and> rt_heap q = rt_heap r @ [marked (e\<lparr>en_subscribers := length (rt_subs r) # en_subscribers e\<rparr>)])
     \<and> rt_subs q = rt_subs r @ [\<lparr> su_entry = i, su_admission = a, su_withdrawn = False, su_done = False,
         su_canceled = False \<rparr>]
     \<and> rt_subscriptions q = length (rt_subs r) # rt_subscriptions r
     \<and> rt_accepting r \<and> rt_accepting q \<and> rt_worker q = rt_worker r
     \<and> rt_withdrawnReceipts q = rt_withdrawnReceipts r
     \<and> issuer_of a \<noteq> None"

lemma Retain_register_joins:
  assumes heap: "heap_inv r" and issuer: "issuer_of a \<noteq> None" and ret: "Retain_register r a = (Inr (j, v), q)"
  shows "\<exists>i e. joins r a i e q \<and> j = length (rt_subs r) \<and> v = en_version (rt_heap q ! i) \<and> v = Suc (en_version e)"
proof -
  have c: "issuer_of a \<noteq> None" "rt_accepting r"
    using issuer ret by (auto simp: Retain_register_def split: if_splits option.splits)
  have iss: "map_of (rt_entries r) (keyOf a) = Some i \<Longrightarrow> issuer_of (en_admission (rt_heap r ! i)) = issuer_of a" for i
    using ret by (auto simp: Retain_register_def split: if_splits option.splits)
  show ?thesis
  proof (cases "map_of (rt_entries r) (keyOf a)")
    case (Some i)
    have ki: "(keyOf a, i) \<in> set (rt_entries r)" using Some map_of_entry [OF heap] by blast
    have i: "i < length (rt_heap r)" by (rule entry_keys(1) [OF heap ki])
    have "joins r a i (rt_heap r ! i) q \<and> j = length (rt_subs r) \<and> v = en_version (rt_heap q ! i)
        \<and> v = Suc (en_version (rt_heap r ! i))"
      using ret c iss [OF Some] ki i
      by (auto simp: Retain_register_def entry_for_def Some Let_def joins_def marked_def split: if_splits option.splits)
    then show ?thesis by blast
  next
    case None
    have "keyOf a \<notin> fst ` set (rt_entries r)" using None by (simp add: map_of_eq_None_iff)
    then have "joins r a (length (rt_heap r)) (fresh_entry a) q \<and> j = length (rt_subs r)
        \<and> v = en_version (rt_heap q ! length (rt_heap r)) \<and> v = Suc (en_version (fresh_entry a))"
      using ret c
      by (auto simp: Retain_register_def entry_for_def None Let_def joins_def marked_def split: if_splits option.splits)
    then show ?thesis by blast
  qed
qed

lemma joins_effect:
  assumes heap: "heap_inv r" and q: "joins r a i e q" and valid: "Admission_Validate a = None"
  shows "i < length (rt_heap q) \<and> length (rt_heap r) \<le> length (rt_heap q)
    \<and> length (rt_subs q) = Suc (length (rt_subs r))
    \<and> rt_heap q ! i = marked (e\<lparr>en_subscribers := length (rt_subs r) # en_subscribers e\<rparr>)
    \<and> (\<forall>i' < length (rt_heap q). i' \<noteq> i \<longrightarrow> i' < length (rt_heap r) \<and> rt_heap q ! i' = rt_heap r ! i')
    \<and> set (rt_entries q) = insert (keyOf a, i) (set (rt_entries r))
    \<and> keyOf (en_admission e) = keyOf a \<and> issuer_of (en_admission e) = issuer_of a
    \<and> Admission_Validate (en_admission e) = None
    \<and> (i < length (rt_heap r) \<longrightarrow> e = rt_heap r ! i \<and> (keyOf a, i) \<in> set (rt_entries r))
    \<and> (\<not> i < length (rt_heap r) \<longrightarrow> e = fresh_entry a)"
proof (cases "(keyOf a, i) \<in> set (rt_entries r) \<and> e = rt_heap r ! i")
  case True
  note k = entry_keys [OF heap, of "keyOf a" i]
  have "keyOf a \<in> fst ` set (rt_entries r)" using True by force
  then have old: "rt_entries q = rt_entries r" "issuer_of (en_admission e) = issuer_of a"
      "rt_heap q = (rt_heap r)[i := marked (e\<lparr>en_subscribers := length (rt_subs r) # en_subscribers e\<rparr>)]"
      "length (rt_subs q) = Suc (length (rt_subs r))"
    using q unfolding joins_def by auto
  moreover have "Admission_Validate (en_admission (rt_heap r ! i)) = None"
    using heap k(1) True unfolding heap_inv_def entry_ok_def by blast
  ultimately show ?thesis using True k by (auto simp: insert_absorb)
next
  case False
  then have new: "i = length (rt_heap r)" "e = fresh_entry a" "rt_entries q = (keyOf a, i) # rt_entries r"
      "rt_heap q = rt_heap r @ [marked (e\<lparr>en_subscribers := length (rt_subs r) # en_subscribers e\<rparr>)]"
      "length (rt_subs q) = Suc (length (rt_subs r))"
    using q unfolding joins_def by auto
  then show ?thesis using valid by (auto simp: nth_append fresh_entry_def)
qed

lemma joins_facts:
  assumes heap: "heap_inv r" and q: "joins r a i e q" and valid: "Admission_Validate a = None"
  shows "i < length (rt_heap q)" "length (rt_heap r) \<le> length (rt_heap q)"
    "length (rt_subs q) = Suc (length (rt_subs r))"
    "rt_heap q ! i = marked (e\<lparr>en_subscribers := length (rt_subs r) # en_subscribers e\<rparr>)"
    "i' < length (rt_heap q) \<Longrightarrow> i' \<noteq> i \<Longrightarrow> i' < length (rt_heap r) \<and> rt_heap q ! i' = rt_heap r ! i'"
    "set (rt_entries q) = insert (keyOf a, i) (set (rt_entries r))"
    "keyOf (en_admission e) = keyOf a" "issuer_of (en_admission e) = issuer_of a"
    "Admission_Validate (en_admission e) = None"
    "i < length (rt_heap r) \<Longrightarrow> e = rt_heap r ! i \<and> (keyOf a, i) \<in> set (rt_entries r)"
    "\<not> i < length (rt_heap r) \<Longrightarrow> e = fresh_entry a"
  using joins_effect [OF assms] by blast+

lemma joins_subs:
  assumes "joins r a i e q"
  shows "j < length (rt_subs r) \<Longrightarrow> rt_subs q ! j = rt_subs r ! j"
    "rt_subs q ! length (rt_subs r) = \<lparr> su_entry = i, su_admission = a, su_withdrawn = False, su_done = False,
       su_canceled = False \<rparr>"
  using assms by (auto simp: joins_def nth_append)

lemma joins_heap_inv:
  assumes heap: "heap_inv r" and q: "joins r a i e q" and valid: "Admission_Validate a = None"
  shows "heap_inv q"
proof -
  note f = joins_facts [OF heap q valid] and sub = joins_subs [OF q]
  have eq: "entry_ok q i'" if "i' < length (rt_heap q)" for i'
  proof (cases "i' = i")
    case False
    then have "entry_ok r i'" "rt_heap q ! i' = rt_heap r ! i'"
      using heap f(5) [OF that] by (auto simp: heap_inv_def)
    then show ?thesis unfolding entry_ok_def using f(3) sub(1) by auto
  next
    case True
    have "distinct (en_subscribers e) \<and> (\<forall>j \<in> set (en_subscribers e). j < length (rt_subs r)
        \<and> su_entry (rt_subs r ! j) = i \<and> \<not> su_done (rt_subs r ! j))"
      using heap f(10,11) by (cases "i < length (rt_heap r)") (auto simp: heap_inv_def entry_ok_def fresh_entry_def)
    then show ?thesis
      unfolding entry_ok_def True f(3,4) using sub f(9) by auto
  qed
  have admission: "en_admission (rt_heap q ! i') = en_admission (rt_heap r ! i')" if "i' < length (rt_heap r)" for i'
    using f(5) [of i'] f(2,4,10) that by (cases "i' = i") auto
  have "sub_ok q j" if "j < length (rt_subs q)" for j
  proof (cases "j < length (rt_subs r)")
    case True
    then have "sub_ok r j" using heap by (simp add: heap_inv_def)
    then show ?thesis
      unfolding sub_ok_def Let_def sub(1) [OF True] using f(2) admission [of "su_entry (rt_subs r ! j)"]
      by (metis order.strict_trans2)
  next
    case False
    then have "j = length (rt_subs r)" using that f(3) by simp
    then show ?thesis
      unfolding sub_ok_def Let_def using sub(2) f(1,4,7,8) valid q by (simp add: joins_def)
  qed
  moreover have "live_entry_ok q ki" if "ki \<in> set (rt_entries q)" for ki
  proof (cases "ki = (keyOf a, i)")
    case True
    then show ?thesis using f(1,4,7) by (simp add: live_entry_ok_def)
  next
    case False
    then have m: "ki \<in> set (rt_entries r)" using that f(6) by auto
    then have "live_entry_ok r ki" using heap by (simp add: heap_inv_def)
    moreover have "snd ki \<noteq> i" using f(7,10) calculation False by (cases ki) (auto simp: live_entry_ok_def)
    ultimately show ?thesis
      using f(2) f(5) [of "snd ki"] unfolding live_entry_ok_def by auto
  qed
  moreover have "distinct (map fst (rt_entries q))"
    using heap q by (auto simp: heap_inv_def joins_def)
  ultimately show ?thesis using eq unfolding heap_inv_def by blast
qed

lemma joins_live:
  assumes heap: "heap_inv r" and q: "joins r a i e q" and valid: "Admission_Validate a = None"
  shows "live_sub q (length (rt_subs r))" "j < length (rt_subs r) \<Longrightarrow> live_sub q j = live_sub r j"
proof -
  note f = joins_facts [OF heap q valid] and sub = joins_subs [OF q]
  show "live_sub q (length (rt_subs r))" using f(4,6) sub(2) by (simp add: live_sub_def)
  assume j: "j < length (rt_subs r)"
  let ?i = "su_entry (rt_subs r ! j)" and ?k = "keyOf (su_admission (rt_subs r ! j))"
  have i: "?i < length (rt_heap r)" using sub_facts(1) [OF heap j] .
  have "(?k, ?i) \<in> set (rt_entries q) \<longleftrightarrow> (?k, ?i) \<in> set (rt_entries r)"
    using f(6,10) i by auto
  moreover have "j \<in> set (en_subscribers (rt_heap q ! ?i)) \<longleftrightarrow> j \<in> set (en_subscribers (rt_heap r ! ?i))"
    using f(2,4,10) f(5) [of ?i] i j by (cases "?i = i") auto
  ultimately show "live_sub q j = live_sub r j" unfolding live_sub_def sub(1) [OF j] by blast
qed

lemma Retain_register_inv:
  assumes inv: "rt_inv r reads" and issuer: "issuer_of a \<noteq> None" and ret: "Retain_register r a = (Inr (j, v), q)"
    and valid: "Admission_Validate a = None"
  shows "rt_inv q reads"
proof -
  have heap: "heap_inv r" and subs: "subs_inv r" and ver: "version_inv r reads"
    using inv by (auto simp: rt_inv_def)
  obtain i e where q: "joins r a i e q" using Retain_register_joins [OF heap issuer ret] by blast
  note f = joins_facts [OF heap q valid] and sub = joins_subs [OF q] and live = joins_live [OF heap q valid]
  have state: "rt_accepting q = rt_accepting r" "rt_withdrawnReceipts q = rt_withdrawnReceipts r"
      "rt_subscriptions q = length (rt_subs r) # rt_subscriptions r" "rt_worker q = rt_worker r" "rt_accepting r"
    using q by (auto simp: joins_def)
  have "withdrawn_ok q j'" if "j' < length (rt_subs q)" for j'
  proof (cases "j' < length (rt_subs r)")
    case True
    then have "withdrawn_ok r j'" using subs by (simp add: subs_inv_def)
    then show ?thesis
      unfolding withdrawn_ok_def sub(1) [OF True] live(2) [OF True] receipt_withdrawn_def state(1,2) .
  next
    case False
    then have "j' = length (rt_subs r)" using that f(3) by simp
    then show ?thesis using live(1) sub(2) state by (simp add: withdrawn_ok_def)
  qed
  moreover have "distinct (rt_subscriptions q)"
    using subs subscriptions_iff [OF subs] unfolding state(3) by (auto simp: subs_inv_def)
  moreover have "set (rt_subscriptions q) = {j. j < length (rt_subs q) \<and> \<not> su_done (rt_subs q ! j)}"
    unfolding state(3) f(3) using subscriptions_iff [OF subs] sub by (auto simp: less_Suc_eq)
  ultimately have "subs_inv q" by (simp add: subs_inv_def)
  moreover have "version_inv q reads"
  proof (rule version_invI [OF ver])
    have "en_admission (rt_heap q ! i') = en_admission (rt_heap r ! i') \<and> en_version (rt_heap r ! i') \<le> en_version (rt_heap q ! i')"
      if "i' < length (rt_heap r)" for i'
      using that f(2,4,10) f(5) [of i'] by (cases "i' = i") auto
    with f(2) show "heap_le (rt_heap r) (rt_heap q)" by (simp add: heap_le_def)
    show "entry_version_ok reads i' (rt_heap q ! i')" if "(k', i') \<in> set (rt_entries q)" for k' i'
    proof (cases "i' = i")
      case True
      have "en_checked e \<le> en_version e
          \<and> (en_checked e = 0 \<or> en_validityKnown e \<and> (i, en_checked e, en_validity e) \<in> reads)"
        using entry_version [OF ver, of "keyOf a" i] f(10,11)
        by (cases "i < length (rt_heap r)") (auto simp: entry_version_ok_def fresh_entry_def)
      then show ?thesis unfolding True f(4) by (simp add: entry_version_ok_def)
    next
      case False
      then have m: "(k', i') \<in> set (rt_entries r)" using that f(6) by auto
      then show ?thesis
        using entry_version [OF ver m] f(2) f(5) [of i'] entry_keys(1) [OF heap m] False by auto
    qed
    show "worker_ok (rt_heap r) (rt_worker q) \<or> worker_ok (rt_heap q) (rt_worker q)"
      using ver by (simp add: version_inv_def state)
  qed
  ultimately show ?thesis using joins_heap_inv [OF heap q valid] by (simp add: rt_inv_def)
qed

lemma NewRetained_inv: "rt_inv NewRetained {}"
  by (simp add: rt_inv_def heap_inv_def subs_inv_def version_inv_def NewRetained_def)

end
