(* ===== verification/Retained_Safety.thy ===== *)
theory Retained_Safety
  imports Retained_Inv Shutdown_Contract
begin

text \<open>
  The retained connections as a system: calls of \<open>Retain\<close> in progress, change hints, the worker and
  its reads of the authority in any interleaving.  \<open>sy_reads\<close> records every successful read with
  the entry it was made for and the version the entry had when the read began; \<open>sy_pending\<close> holds
  the calls of \<open>Retain\<close> that wait, with the version they wait for.
\<close>

section \<open>What never goes back\<close>

definition grows :: "retained \<Rightarrow> retained \<Rightarrow> bool" where
  "grows r q \<longleftrightarrow>
     length (rt_heap r) \<le> length (rt_heap q) \<and> length (rt_subs r) \<le> length (rt_subs q)
     \<and> (\<forall>i < length (rt_heap r). en_admission (rt_heap q ! i) = en_admission (rt_heap r ! i)
          \<and> en_checked (rt_heap r ! i) \<le> en_checked (rt_heap q ! i)
          \<and> en_version (rt_heap r ! i) \<le> en_version (rt_heap q ! i)
          \<and> (en_subscribers (rt_heap r ! i) = [] \<longrightarrow> en_subscribers (rt_heap q ! i) = []))
     \<and> (\<forall>j < length (rt_subs r). su_entry (rt_subs q ! j) = su_entry (rt_subs r ! j)
          \<and> su_admission (rt_subs q ! j) = su_admission (rt_subs r ! j)
          \<and> (su_withdrawn (rt_subs r ! j) \<longrightarrow> su_withdrawn (rt_subs q ! j))
          \<and> (su_done (rt_subs r ! j) \<longrightarrow> su_done (rt_subs q ! j)))
     \<and> rt_withdrawnReceipts r \<subseteq> rt_withdrawnReceipts q
     \<and> (rt_accepting q \<longrightarrow> rt_accepting r)"

lemma grows_entry:
  assumes "grows r q" and "i < length (rt_heap r)"
  shows "i < length (rt_heap q)" "en_admission (rt_heap q ! i) = en_admission (rt_heap r ! i)"
    "en_checked (rt_heap r ! i) \<le> en_checked (rt_heap q ! i)" "en_version (rt_heap r ! i) \<le> en_version (rt_heap q ! i)"
    "en_subscribers (rt_heap r ! i) = [] \<Longrightarrow> en_subscribers (rt_heap q ! i) = []"
  using assms unfolding grows_def by (auto intro: order.strict_trans2)

lemma grows_sub:
  assumes "grows r q" and "j < length (rt_subs r)"
  shows "j < length (rt_subs q)" "su_entry (rt_subs q ! j) = su_entry (rt_subs r ! j)"
    "su_admission (rt_subs q ! j) = su_admission (rt_subs r ! j)"
    "su_withdrawn (rt_subs r ! j) \<Longrightarrow> su_withdrawn (rt_subs q ! j)" "su_done (rt_subs r ! j) \<Longrightarrow> su_done (rt_subs q ! j)"
  using assms unfolding grows_def by (auto intro: order.strict_trans2)

lemma grows_refl: "grows r r"
  by (simp add: grows_def)

lemma grows_marks:
  assumes inv: "rt_inv r reads" and ids: "set is \<subseteq> set (map snd (rt_entries r))" "distinct is"
  shows "grows r (fold markLocked is r)"
proof -
  have "heap_inv r" using inv by (simp add: rt_inv_def)
  then have "i < length (rt_heap r)" if "i \<in> set is" for i
    using that ids entry_keys(1) by fastforce
  from fold_markLocked_heap [OF ids(2) this] show ?thesis by (simp add: grows_def)
qed

lemma grows_BeginChange: "rt_inv r reads \<Longrightarrow> grows r (snd (BeginChange c r))"
  using grows_marks [of r reads "matching_ids c r"] matching_ids_live [of c r] distinct_entry_ids [of r]
  by (simp add: BeginChange_def Let_def rt_inv_def matching_ids_def grows_refl)

lemma grows_entry_update:
  assumes "en_admission e = en_admission (rt_heap r ! i)" "en_checked (rt_heap r ! i) \<le> en_checked e"
    "en_version (rt_heap r ! i) = en_version e" "en_subscribers e = en_subscribers (rt_heap r ! i)"
    and "rt_heap q = (rt_heap r)[i := e]" "rt_subs q = rt_subs r" "rt_withdrawnReceipts q = rt_withdrawnReceipts r"
    "rt_accepting q = rt_accepting r"
  shows "grows r q"
  unfolding grows_def using assms by (cases "i < length (rt_heap r)") (auto simp: nth_list_update list_update_beyond)

lemma grows_state:
  "grows r q \<Longrightarrow> length (rt_heap r) \<le> length (rt_heap q) \<and> length (rt_subs r) \<le> length (rt_subs q)
     \<and> rt_withdrawnReceipts r \<subseteq> rt_withdrawnReceipts q \<and> (rt_accepting q \<longrightarrow> rt_accepting r)"
  unfolding grows_def by blast

lemma grows_trans:
  assumes rq: "grows r q" and qp: "grows q p"
  shows "grows r p"
proof -
  have "en_admission (rt_heap p ! i) = en_admission (rt_heap r ! i)
      \<and> en_checked (rt_heap r ! i) \<le> en_checked (rt_heap p ! i) \<and> en_version (rt_heap r ! i) \<le> en_version (rt_heap p ! i)
      \<and> (en_subscribers (rt_heap r ! i) = [] \<longrightarrow> en_subscribers (rt_heap p ! i) = [])"
    if "i < length (rt_heap r)" for i
    using grows_entry [OF rq that] grows_entry [OF qp grows_entry(1) [OF rq that]] by auto
  moreover have "su_entry (rt_subs p ! j) = su_entry (rt_subs r ! j)
      \<and> su_admission (rt_subs p ! j) = su_admission (rt_subs r ! j)
      \<and> (su_withdrawn (rt_subs r ! j) \<longrightarrow> su_withdrawn (rt_subs p ! j))
      \<and> (su_done (rt_subs r ! j) \<longrightarrow> su_done (rt_subs p ! j))"
    if "j < length (rt_subs r)" for j
    using grows_sub [OF rq that] grows_sub [OF qp grows_sub(1) [OF rq that]] by auto
  moreover have "length (rt_heap r) \<le> length (rt_heap p) \<and> length (rt_subs r) \<le> length (rt_subs p)
      \<and> rt_withdrawnReceipts r \<subseteq> rt_withdrawnReceipts p \<and> (rt_accepting p \<longrightarrow> rt_accepting r)"
    using grows_state [OF rq] grows_state [OF qp] by auto
  ultimately show ?thesis unfolding grows_def by blast
qed

lemma grows_run_begin:
  assumes inv: "rt_inv r reads"
  shows "grows r (run_begin now pick r)"
proof -
  have scan: "grows r (run_scan now r)"
    unfolding run_scan_def using distinct_entry_ids [of r] inv
    by (intro grows_marks [OF inv]) (auto simp: rt_inv_def)
  have read: "grows q ((upd_entry i (\<lambda>e. e\<lparr>en_reading := n\<rparr>) q)\<lparr>rt_readCount := c, rt_worker := w\<rparr>)" for q i n c w
    by (rule grows_entry_update) simp_all
  have "grows r (r\<lparr>rt_worker := WorkerStopped\<rparr>)" by (simp add: grows_def)
  then show ?thesis
    using scan grows_trans [OF scan read] by (simp add: run_begin_def Let_def split: option.splits)
qed

lemma grows_leaves:
  assumes heap: "heap_inv r" and j: "j < length (rt_subs r)" and q: "leaves r j s q"
    and "su_done (rt_subs r ! j) \<longrightarrow> su_done s"
  shows "grows r q"
proof -
  note eqs = leaves_simps [OF heap j q] and subscribers = leaves_subscribers [OF heap j q]
  have hq: "rt_heap q = (rt_heap r)[su_entry (rt_subs r ! j) := left_by j (rt_heap r ! su_entry (rt_subs r ! j))]"
    using q by (simp add: leaves_def)
  have "en_checked (rt_heap q ! i) = en_checked (rt_heap r ! i)" "en_version (rt_heap q ! i) = en_version (rt_heap r ! i)" for i
    unfolding hq by (simp_all add: nth_update_proj)
  moreover have "(su_withdrawn (rt_subs r ! j') \<longrightarrow> su_withdrawn (rt_subs q ! j'))
      \<and> (su_done (rt_subs r ! j') \<longrightarrow> su_done (rt_subs q ! j'))" for j'
    using eqs(4) [of j'] eqs(5) q assms(4) by (cases "j' = j") (auto simp: leaves_def)
  moreover have "rt_withdrawnReceipts q = rt_withdrawnReceipts r" "rt_accepting q = rt_accepting r"
    using q by (simp_all add: leaves_def)
  ultimately show ?thesis unfolding grows_def eqs(1,2,3,6,7) using subscribers by simp
qed

lemma grows_Retain_canceled:
  assumes inv: "rt_inv r reads" and j: "j < length (rt_subs r)"
  shows "grows r (Retain_canceled j r)"
proof -
  have heap: "heap_inv r" using inv by (simp add: rt_inv_def)
  from Retain_canceled_effect [OF j sub_facts(1) [OF heap j]]
  have "leaves r j ((rt_subs r ! j)\<lparr>su_withdrawn := True\<rparr>) (Retain_canceled j r)"
    unfolding leaves_def by simp
  from grows_leaves [OF heap j this] show ?thesis by simp
qed

lemma grows_release:
  assumes inv: "rt_inv r reads" and j: "j < length (rt_subs r)"
  shows "grows r (retained_release j r)"
proof (cases "su_done (rt_subs r ! j)")
  case True
  then show ?thesis by (simp add: retained_release_def grows_refl)
next
  case False
  have heap: "heap_inv r" using inv by (simp add: rt_inv_def)
  from retained_release_effect [OF j sub_facts(1) [OF heap j] False]
  have "leaves r j ((rt_subs r ! j)\<lparr>su_done := True\<rparr>) (retained_release j r)"
    unfolding leaves_def by simp
  from grows_leaves [OF heap j this] show ?thesis by simp
qed

lemma grows_joins:
  assumes heap: "heap_inv r" and q: "joins r a i e q" and valid: "Admission_Validate a = None"
  shows "grows r q"
proof -
  note f = joins_facts [OF heap q valid]
  have "en_admission (rt_heap q ! i') = en_admission (rt_heap r ! i')
      \<and> en_checked (rt_heap r ! i') \<le> en_checked (rt_heap q ! i') \<and> en_version (rt_heap r ! i') \<le> en_version (rt_heap q ! i')
      \<and> (en_subscribers (rt_heap r ! i') = [] \<longrightarrow> en_subscribers (rt_heap q ! i') = [])"
    if "i' < length (rt_heap r)" for i'
    using that f(2,4,10) f(5) [of i'] entry_keys(3) [OF heap, of "keyOf a" i] by (cases "i' = i") auto
  then show ?thesis
    unfolding grows_def using f(2,3) joins_subs(1) [OF q] q by (simp add: joins_def)
qed

lemma grows_withdraw:
  assumes "\<And>j. j \<in> set js \<Longrightarrow> j < length (rt_subs r)"
  shows "grows r (fold withdraw js r)"
  using fold_withdraw_subs [OF assms] fold_withdraw_receipts [OF assms] by (simp add: grows_def)

lemma grows_shutdown:
  assumes inv: "rt_inv r reads"
  shows "grows r (Retained_BeginShutdown r)"
proof -
  let ?js = "concat (map (\<lambda>(k, i). en_subscribers (rt_heap r ! i)) (rt_entries r))"
  have heap: "heap_inv r" using inv by (simp add: rt_inv_def)
  have "\<And>j. j \<in> set ?js \<Longrightarrow> j < length (rt_subs (r\<lparr>rt_accepting := False\<rparr>))"
    using subscriber_facts(1) [OF heap entry_keys(1) [OF heap]] by auto
  from grows_withdraw [OF this]
  have "grows (r\<lparr>rt_accepting := False\<rparr>) (fold withdraw ?js (r\<lparr>rt_accepting := False\<rparr>))" .
  then show ?thesis
    unfolding Retained_BeginShutdown_def by (auto simp: grows_def)
qed

lemma grows_run_finish:
  assumes inv: "rt_inv r reads" and w: "rt_worker r = WorkerReading k i v n"
  shows "grows r (run_finish res r)"
proof (cases "map_of (rt_entries r) k = Some i \<and> en_version (rt_heap r ! i) = v \<and> rt_accepting r")
  case False
  then have "run_finish res r = r\<lparr>rt_worker := WorkerIdle, rt_canceledReads := insert n (rt_canceledReads r)\<rparr>"
    unfolding run_finish_def w by auto
  then show ?thesis by (simp add: grows_def)
next
  case True
  have heap: "heap_inv r" and ver: "version_inv r reads" using inv by (auto simp: rt_inv_def)
  have ki: "(k, i) \<in> set (rt_entries r)" using True map_of_entry [OF heap] by blast
  note i = entry_keys(1) [OF heap ki]
  have checked: "en_checked (rt_heap r ! i) \<le> v"
    using entry_version [OF ver ki] True by (simp add: entry_version_ok_def)
  define e where "e = (rt_heap r ! i)\<lparr>en_reading := None, en_checked := v, en_dirty := False\<rparr>"
  show ?thesis
  proof (cases res)
    case None
    define p where "p = r\<lparr>rt_worker := WorkerIdle, rt_canceledReads := insert n (rt_canceledReads r),
      rt_heap := (rt_heap r)[i := e], rt_entries := filter (\<lambda>(k', _). k' \<noteq> k) (rt_entries r)\<rparr>"
    have "grows r p" unfolding p_def using checked True
      by (intro grows_entry_update [where e = e and i = i]) (simp_all add: e_def)
    moreover have "\<And>j. j \<in> set (en_subscribers (rt_heap r ! i)) \<Longrightarrow> j < length (rt_subs p)"
      using subscriber_facts(1) [OF heap i] by (simp add: p_def)
    moreover have "run_finish None r = signalLocked (fold withdraw (en_subscribers (rt_heap r ! i)) p)"
      using run_finish_failed [OF w _ _ _ i] True unfolding p_def e_def by simp
    ultimately have "grows r (fold withdraw (en_subscribers (rt_heap r ! i)) p)"
      using grows_trans grows_withdraw by blast
    then show ?thesis
      unfolding None \<open>run_finish None r = _\<close> by (simp add: grows_def)
  next
    case (Some x)
    show ?thesis unfolding Some run_finish_def w using True checked i
      by (intro grows_entry_update [where i = i and e = "e\<lparr>en_validity := x, en_validityKnown := True\<rparr>"])
        (simp_all add: e_def)
  qed
qed

section \<open>The system\<close>

record retained_sys =
  sy_r :: retained
  sy_reads :: "(nat \<times> nat \<times> validity) set"
  sy_pending :: "(nat \<times> nat) list"
  sy_calls :: "admission list"

text \<open>
  \<open>sy_calls\<close> holds the calls of \<open>Retain\<close> that have passed their checks and not yet taken the lock, \<open>sy_pending\<close> those that
  have registered and wait.
  \<open>au\<close> is the authorizer behind the owner.  Its answer to the worker depends on the receipt's flag
  and on the source at some moment during the read: both are arbitrary.
\<close>

inductive retained_step :: "nat \<Rightarrow> retained_sys \<Rightarrow> retained_sys \<Rightarrow> bool" for au where
  Call: "Admission_Validate a = None \<Longrightarrow> Retain_check (sy_r s) CtxLive a True = None
    \<Longrightarrow> retained_step au s (s\<lparr>sy_calls := a # sy_calls s\<rparr>)"
| Retain: "a \<in> set (sy_calls s) \<Longrightarrow> Retain_register (sy_r s) a = (Inr (j, v), q)
    \<Longrightarrow> retained_step au s (s\<lparr>sy_r := q, sy_pending := (j, v) # sy_pending s, sy_calls := remove1 a (sy_calls s)\<rparr>)"
| Refused: "a \<in> set (sy_calls s) \<Longrightarrow> Retain_register (sy_r s) a = (Inl err, q)
    \<Longrightarrow> retained_step au s (s\<lparr>sy_calls := remove1 a (sy_calls s)\<rparr>)"
| Returned: "(j, v) \<in> set (sy_pending s) \<Longrightarrow> Retain_poll (sy_r s) j v \<noteq> PollWait
    \<Longrightarrow> retained_step au s (s\<lparr>sy_pending := removeAll (j, v) (sy_pending s)\<rparr>)"
| Canceled: "(j, v) \<in> set (sy_pending s)
    \<Longrightarrow> retained_step au s (s\<lparr>sy_r := Retain_canceled j (sy_r s), sy_pending := removeAll (j, v) (sy_pending s)\<rparr>)"
| Release: "j < length (rt_subs (sy_r s)) \<Longrightarrow> j \<notin> fst ` set (sy_pending s)
    \<Longrightarrow> retained_step au s (s\<lparr>sy_r := retained_release j (sy_r s)\<rparr>)"
| Change: "retained_step au s (s\<lparr>sy_r := snd (BeginChange c (sy_r s))\<rparr>)"
| Woken: "retained_step au s (s\<lparr>sy_r := run_woken (sy_r s)\<rparr>)"
| Begin: "rt_worker (sy_r s) = WorkerIdle \<Longrightarrow> retained_step au s (s\<lparr>sy_r := run_begin now pick (sy_r s)\<rparr>)"
| ReadFailed: "rt_worker (sy_r s) = WorkerReading k i v n
    \<Longrightarrow> Authorizer_Revalidate au w src (en_admission (rt_heap (sy_r s) ! i)) = Inl err
    \<Longrightarrow> retained_step au s (s\<lparr>sy_r := run_finish None (sy_r s)\<rparr>)"
| ReadOk: "rt_worker (sy_r s) = WorkerReading k i v n
    \<Longrightarrow> Authorizer_Revalidate au w src (en_admission (rt_heap (sy_r s) ! i)) = Inr x
    \<Longrightarrow> retained_step au s (s\<lparr>sy_r := run_finish (Some x) (sy_r s), sy_reads := insert (i, v, x) (sy_reads s)\<rparr>)"
| Shutdown: "retained_step au s (s\<lparr>sy_r := Retained_BeginShutdown (sy_r s)\<rparr>)"

definition retained_start :: retained_sys where
  "retained_start = \<lparr> sy_r = NewRetained, sy_reads = {}, sy_pending = [], sy_calls = [] \<rparr>"

definition retained_reach :: "nat \<Rightarrow> retained_sys \<Rightarrow> bool" where
  "retained_reach au s \<longleftrightarrow> (retained_step au)\<^sup>*\<^sup>* retained_start s"

definition pending_ok :: "retained \<Rightarrow> nat \<times> nat \<Rightarrow> bool" where
  "pending_ok r jv \<longleftrightarrow> fst jv < length (rt_subs r) \<and> \<not> su_done (rt_subs r ! fst jv)
     \<and> snd jv \<le> en_version (rt_heap r ! su_entry (rt_subs r ! fst jv))"

definition sys_inv :: "retained_sys \<Rightarrow> bool" where
  "sys_inv s \<longleftrightarrow> rt_inv (sy_r s) (sy_reads s) \<and> (\<forall>jv \<in> set (sy_pending s). pending_ok (sy_r s) jv)
     \<and> (\<forall>a \<in> set (sy_calls s). Admission_Validate a = None \<and> issuer_of a \<noteq> None)"

lemma Authorizer_Revalidate_Inr:
  "Authorizer_Revalidate au w src a = Inr x \<Longrightarrow>
     CaptureReference a = Inr (val_Capture x) \<and> val_CredentialRevision x = adm_credentialRevision a"
  by (auto simp: Authorizer_Revalidate_def split: option.splits if_splits sum.splits)

lemma rt_inv_more_reads:
  assumes "rt_inv r reads" and "read_ok (rt_heap r) x"
  shows "rt_inv r (insert x reads)"
  using assms unfolding rt_inv_def version_inv_def entry_version_ok_def by auto

lemma run_finish_Some_inv:
  assumes inv: "rt_inv r reads" and w: "rt_worker r = WorkerReading k i v n"
    and x: "Authorizer_Revalidate au f src (en_admission (rt_heap r ! i)) = Inr x"
  shows "rt_inv (run_finish (Some x) r) (insert (i, v, x) reads)"
proof -
  have "worker_ok (rt_heap r) (rt_worker r)" using inv by (simp add: rt_inv_def version_inv_def)
  then have ok: "read_ok (rt_heap r) (i, v, x)"
    using Authorizer_Revalidate_Inr [OF x] w by (simp add: read_ok_def)
  show ?thesis
  proof (cases "map_of (rt_entries r) k = Some i \<and> en_version (rt_heap r ! i) = v \<and> rt_accepting r")
    case True
    then show ?thesis using run_finish_ok_inv [OF inv w _ _ _ ok] by blast
  next
    case False
    from run_finish_ignored [OF rt_inv_more_reads [OF inv ok] w False] show ?thesis .
  qed
qed

lemma run_finish_None_inv:
  assumes inv: "rt_inv r reads" and w: "rt_worker r = WorkerReading k i v n"
  shows "rt_inv (run_finish None r) reads"
  using run_finish_ignored [OF inv w] run_finish_failed_inv [OF inv w] by blast

lemma run_woken_inv: "rt_inv r reads \<Longrightarrow> rt_inv (run_woken r) reads"
proof -
  have shape: "same_shape r (run_woken r)" by (simp add: same_shape_def run_woken_def)
  assume "rt_inv r reads"
  then show ?thesis
    using subs_inv_same [OF shape] heap_inv_same_shape [OF shape, of "\<lambda>_. True"]
    by (simp add: rt_inv_def version_inv_def run_woken_def)
qed

text \<open>Every step keeps the invariant and moves forward.\<close>

lemma step_rt_inv:
  assumes "retained_step au s t" and "sys_inv s"
  shows "rt_inv (sy_r t) (sy_reads t) \<and> grows (sy_r s) (sy_r t) \<and> sy_reads s \<subseteq> sy_reads t"
  using assms(1)
proof cases
  case (Retain a j v q)
  have inv: "rt_inv (sy_r s) (sy_reads s)" using assms(2) by (simp add: sys_inv_def)
  then have heap: "heap_inv (sy_r s)" by (simp add: rt_inv_def)
  have a: "Admission_Validate a = None" "issuer_of a \<noteq> None" using assms(2) Retain(2) by (auto simp: sys_inv_def)
  obtain i e where "joins (sy_r s) a i e q" using Retain_register_joins [OF heap a(2) Retain(3)] by blast
  then show ?thesis
    using Retain(1) a(1) Retain_register_inv [OF inv a(2) Retain(3) a(1)] grows_joins [OF heap] by simp
next
  case (Canceled j v)
  then have "j < length (rt_subs (sy_r s))" using assms(2) by (fastforce simp: sys_inv_def pending_ok_def)
  then show ?thesis
    using Canceled assms(2) Retain_canceled_inv grows_Retain_canceled by (auto simp: sys_inv_def)
next
  case (Release j)
  then show ?thesis
    using assms(2) retained_release_inv grows_release by (auto simp: sys_inv_def)
next
  case (Change c)
  then show ?thesis using assms(2) BeginChange_inv grows_BeginChange by (auto simp: sys_inv_def)
next
  case Woken
  then show ?thesis using assms(2) run_woken_inv by (auto simp: sys_inv_def run_woken_def grows_def)
next
  case (Begin now pick)
  have "rt_inv (sy_r s) (sy_reads s)" using assms(2) by (simp add: sys_inv_def)
  from run_begin_inv [OF this] grows_run_begin [OF this] show ?thesis using Begin(1) by simp
next
  case (ReadFailed k i v n w src err)
  have "rt_inv (sy_r s) (sy_reads s)" using assms(2) by (simp add: sys_inv_def)
  from run_finish_None_inv [OF this ReadFailed(2)] grows_run_finish [OF this ReadFailed(2)]
  show ?thesis using ReadFailed(1) by simp
next
  case (ReadOk k i v n w src x)
  have "rt_inv (sy_r s) (sy_reads s)" using assms(2) by (simp add: sys_inv_def)
  from run_finish_Some_inv [OF this ReadOk(2,3)] grows_run_finish [OF this ReadOk(2)]
  show ?thesis using ReadOk(1) by auto
next
  case Shutdown
  then show ?thesis using assms(2) Retained_BeginShutdown_inv grows_shutdown by (auto simp: sys_inv_def)
qed (use assms(2) grows_refl in \<open>auto simp: sys_inv_def\<close>)

lemma quiet_subs [simp]:
  "rt_subs (run_begin now pick r) = rt_subs r" "rt_subs (run_woken r) = rt_subs r"
  "rt_subs (snd (BeginChange c r)) = rt_subs r"
  by (simp_all add: run_begin_def run_scan_def run_woken_def BeginChange_def Let_def split: option.splits)

lemma fold_withdraw_done: "su_done (rt_subs (fold withdraw js r) ! j) = su_done (rt_subs r ! j)"
proof (induction js arbitrary: r)
  case (Cons a js)
  then show ?case by (simp add: nth_update_proj)
qed simp

lemma run_finish_done: "su_done (rt_subs (run_finish res r) ! j) = su_done (rt_subs r ! j)"
  by (simp add: run_finish_def Let_def fold_withdraw_done split: worker.splits option.splits)

lemma step_done:
  assumes step: "retained_step au s t" and inv: "sys_inv s" and j: "j < length (rt_subs (sy_r s))"
    and pending: "j \<in> fst ` set (sy_pending s)"
  shows "su_done (rt_subs (sy_r t) ! j) = su_done (rt_subs (sy_r s) ! j)"
  using step
proof cases
  case (Retain a i v q)
  have heap: "heap_inv (sy_r s)" "issuer_of a \<noteq> None" using inv Retain(2) by (auto simp: sys_inv_def rt_inv_def)
  from Retain_register_joins [OF heap Retain(3)] obtain i e where "joins (sy_r s) a i e q" by blast
  from joins_subs(1) [OF this j] show ?thesis using Retain(1) by simp
next
  case (Canceled i v)
  then have "i < length (rt_subs (sy_r s))" using inv by (fastforce simp: sys_inv_def pending_ok_def)
  moreover have "su_entry (rt_subs (sy_r s) ! i) < length (rt_heap (sy_r s))"
    using sub_facts(1) calculation inv by (simp add: sys_inv_def rt_inv_def)
  ultimately show ?thesis
    using Canceled(1) Retain_canceled_effect(3) by (simp add: nth_update_proj)
next
  case (Release i)
  then have "i \<noteq> j" using pending by blast
  moreover have "su_entry (rt_subs (sy_r s) ! i) < length (rt_heap (sy_r s))"
    using sub_facts(1) Release(2) inv by (simp add: sys_inv_def rt_inv_def)
  ultimately show ?thesis
    using Release(1,2) retained_release_effect(3) [of i "sy_r s"]
    by (cases "su_done (rt_subs (sy_r s) ! i)") (simp_all add: retained_release_def)
qed (simp_all add: run_finish_done Retained_BeginShutdown_def fold_withdraw_done)

lemma step_sys_inv:
  assumes step: "retained_step au s t" and inv: "sys_inv s"
  shows "sys_inv t"
proof -
  have t: "rt_inv (sy_r t) (sy_reads t)" and grow: "grows (sy_r s) (sy_r t)"
    using step_rt_inv [OF step inv] by auto
  have kept: "pending_ok (sy_r t) jv" if "jv \<in> set (sy_pending s)" for jv
  proof -
    have ok: "pending_ok (sy_r s) jv" using inv that by (simp add: sys_inv_def)
    then have j: "fst jv < length (rt_subs (sy_r s))" by (simp add: pending_ok_def)
    have e: "su_entry (rt_subs (sy_r s) ! fst jv) < length (rt_heap (sy_r s))"
      using sub_facts(1) j inv by (simp add: sys_inv_def rt_inv_def)
    show ?thesis
      using ok step_done [OF step inv j] that grows_sub(1,2) [OF grow j] grows_entry(4) [OF grow e]
      by (auto simp: pending_ok_def)
  qed
  have "pending_ok (sy_r t) jv" if "jv \<in> set (sy_pending t)" for jv
    using step
  proof cases
    case (Retain a j v q)
    have heap: "heap_inv (sy_r s)" using inv by (simp add: sys_inv_def rt_inv_def)
    have "issuer_of a \<noteq> None" using inv Retain(2) by (auto simp: sys_inv_def)
    from Retain_register_joins [OF heap this Retain(3)] obtain i e where q: "joins (sy_r s) a i e q"
        "j = length (rt_subs (sy_r s))" "v = en_version (rt_heap q ! i)" by blast
    then have "pending_ok q (j, v)"
      using joins_subs(2) [OF q(1)] by (simp add: pending_ok_def joins_def)
    then show ?thesis using that kept [of jv] Retain(1) by (cases "jv = (j, v)") simp_all
  qed (use that kept in auto)
  moreover have "Admission_Validate a = None \<and> issuer_of a \<noteq> None" if "a \<in> set (sy_calls t)" for a
    using step
  proof cases
    case (Call b)
    then show ?thesis using that inv by (auto simp: sys_inv_def Retain_check_def split: if_splits)
  qed (use that inv set_remove1_subset in \<open>fastforce simp: sys_inv_def\<close>)+
  ultimately show ?thesis using t by (simp add: sys_inv_def)
qed

lemma start_sys_inv: "sys_inv retained_start"
  by (simp add: sys_inv_def retained_start_def NewRetained_inv)

lemma steps_sys_inv: "(retained_step au)\<^sup>*\<^sup>* s t \<Longrightarrow> sys_inv s \<Longrightarrow> sys_inv t \<and> grows (sy_r s) (sy_r t) \<and> sy_reads s \<subseteq> sy_reads t"
proof (induction rule: rtranclp_induct)
  case (step t u)
  then have "sys_inv t" "grows (sy_r s) (sy_r t)" "sy_reads s \<subseteq> sy_reads t" by auto
  moreover from this have "sys_inv u" "grows (sy_r t) (sy_r u)" "sy_reads t \<subseteq> sy_reads u"
    using step_sys_inv [OF step(2)] step_rt_inv [OF step(2)] by auto
  ultimately show ?case using grows_trans by blast
qed (simp add: grows_refl)

lemma reach_sys_inv: "retained_reach au s \<Longrightarrow> sys_inv s"
  unfolding retained_reach_def using steps_sys_inv start_sys_inv by blast

section \<open>Withdrawal\<close>

text \<open>The subscriptions a step cancels.\<close>

lemma fold_withdraw_canceled:
  "su_canceled (rt_subs (fold withdraw js r) ! j) \<Longrightarrow> su_canceled (rt_subs r ! j) \<or> j \<in> set js"
proof (induction js arbitrary: r)
  case (Cons a js)
  from Cons.IH [of "withdraw a r"] Cons.prems
  have "su_canceled (rt_subs (withdraw a r) ! j) \<or> j \<in> set js" by simp
  moreover have "su_canceled (rt_subs (withdraw a r) ! j) \<Longrightarrow> su_canceled (rt_subs r ! j) \<or> j = a"
    by (cases "j = a") simp_all
  ultimately show ?case by auto
qed simp

lemma run_finish_canceled:
  assumes heap: "heap_inv r" and w: "rt_worker r = WorkerReading k i v n"
    and c: "su_canceled (rt_subs (run_finish res r) ! j)" "\<not> su_canceled (rt_subs r ! j)"
  shows "res = None \<and> (k, i) \<in> set (rt_entries r) \<and> en_version (rt_heap r ! i) = v \<and> rt_accepting r
    \<and> j \<in> set (en_subscribers (rt_heap r ! i))"
proof -
  have cond: "map_of (rt_entries r) k = Some i \<and> en_version (rt_heap r ! i) = v \<and> rt_accepting r"
    by (rule ccontr) (use c in \<open>auto simp: run_finish_def w Let_def split: if_splits\<close>)
  then have ki: "(k, i) \<in> set (rt_entries r)" using map_of_entry [OF heap] by blast
  have none: "res = None" using c cond by (cases res) (auto simp: run_finish_def w Let_def)
  have "run_finish None r = signalLocked (fold withdraw (en_subscribers (rt_heap r ! i))
      (r\<lparr>rt_worker := WorkerIdle, rt_canceledReads := insert n (rt_canceledReads r),
         rt_heap := (rt_heap r)[i := (rt_heap r ! i)\<lparr>en_reading := None, en_checked := v, en_dirty := False\<rparr>],
         rt_entries := filter (\<lambda>(k', _). k' \<noteq> k) (rt_entries r)\<rparr>))"
    using run_finish_failed [OF w _ _ _ entry_keys(1) [OF heap ki]] cond by simp
  then have "j \<in> set (en_subscribers (rt_heap r ! i))"
    using c fold_withdraw_canceled unfolding none by fastforce
  with cond ki none show ?thesis by blast
qed

lemma shutdown_canceled:
  "su_canceled (rt_subs (Retained_BeginShutdown r) ! j) \<Longrightarrow> \<not> su_canceled (rt_subs r ! j)
    \<Longrightarrow> rt_accepting r \<and> \<not> rt_accepting (Retained_BeginShutdown r)"
  by (auto simp: Retained_BeginShutdown_def split: if_splits)

lemma same_entry_capture:
  assumes "Admission_Validate a = None" "Admission_Validate b = None" "keyOf a = keyOf b"
  shows "CaptureReference a = CaptureReference b" "adm_credentialRevision a = adm_credentialRevision b"
  using assms admission_ref_capture [OF assms(1,2)] by (auto simp: keyOf_def)

section \<open>Properties\<close>

text \<open>C16: an admission rests on a current read.  When a waiting \<open>Retain\<close> is let through, the
  authority has confirmed the entry in a read that began after the last change hint, expiry or
  registration for that entry, and so after the call itself registered; the validity it returned
  is for the Capture and the credential revision of the admission that is let through.\<close>

theorem retain_rests_on_current_read:
  assumes "retained_reach au s" and "(j, v) \<in> set (sy_pending s)"
    and "Retain_poll (sy_r s) j v = PollReady"
  shows "\<exists>e x. e = rt_heap (sy_r s) ! su_entry (rt_subs (sy_r s) ! j)
    \<and> (su_entry (rt_subs (sy_r s) ! j), en_version e, x) \<in> sy_reads s \<and> v \<le> en_version e
    \<and> CaptureReference (su_admission (rt_subs (sy_r s) ! j)) = Inr (val_Capture x)
    \<and> val_CredentialRevision x = adm_credentialRevision (su_admission (rt_subs (sy_r s) ! j))"
proof -
  let ?r = "sy_r s" and ?sub = "rt_subs (sy_r s) ! j"
  let ?i = "su_entry ?sub" and ?e = "rt_heap (sy_r s) ! su_entry (rt_subs (sy_r s) ! j)"
  have inv: "sys_inv s" using assms(1) by (rule reach_sys_inv)
  then have heap: "heap_inv ?r" and subs: "subs_inv ?r" and ver: "version_inv ?r (sy_reads s)"
    by (auto simp: sys_inv_def rt_inv_def)
  have "pending_ok ?r (j, v)" using inv assms(2) unfolding sys_inv_def by blast
  then have j: "j < length (rt_subs ?r)" and open_sub: "\<not> su_done ?sub" and v: "v \<le> en_version ?e"
    by (simp_all add: pending_ok_def)
  have poll: "\<not> su_withdrawn ?sub" "rt_accepting ?r" "\<not> en_dirty ?e"
    using assms(3) by (auto simp: Retain_poll_def Let_def split: if_splits)
  have "withdrawn_ok ?r j" using subs j unfolding subs_inv_def by blast
  then have "live_sub ?r j" using open_sub poll unfolding withdrawn_ok_def by blast
  then have ki: "(keyOf (su_admission ?sub), ?i) \<in> set (rt_entries ?r)" by (simp add: live_sub_def)
  have "entry_version_ok (sy_reads s) ?i ?e" using entry_version [OF ver ki] .
  then have read: "(?i, en_version ?e, en_validity ?e) \<in> sy_reads s"
    using poll(3) unfolding entry_version_ok_def by (metis le_neq_implies_less less_numeral_extra(3))
  then have "read_ok (rt_heap ?r) (?i, en_version ?e, en_validity ?e)"
    using ver unfolding version_inv_def by blast
  moreover have "CaptureReference (su_admission ?sub) = CaptureReference (en_admission ?e)"
      "adm_credentialRevision (su_admission ?sub) = adm_credentialRevision (en_admission ?e)"
  proof -
    have "Admission_Validate (en_admission ?e) = None"
      using heap sub_facts(1) [OF heap j] unfolding heap_inv_def entry_ok_def by blast
    from same_entry_capture [OF sub_facts(4) [OF heap j] this sub_facts(2) [OF heap j]]
    show "CaptureReference (su_admission ?sub) = CaptureReference (en_admission ?e)"
      "adm_credentialRevision (su_admission ?sub) = adm_credentialRevision (en_admission ?e)" .
  qed
  ultimately show ?thesis using v read by (simp add: read_ok_def) blast
qed

text \<open>C18: cancellation is final.  Once a connection has been canceled, its subscription is withdrawn and its receipt refused,
  whatever happens afterwards: its \<open>Retain\<close> no longer succeeds, and neither does \<open>Revalidate\<close> or any call of \<open>Retain\<close> that
  begins later and shows the same receipt.  (A call that passed its checks before the cancellation is not among them: the
  receipt is looked at before the lock is taken.)\<close>

theorem canceled_connection_is_final:
  assumes "retained_reach au s" and "j < length (rt_subs (sy_r s))" and "su_canceled (rt_subs (sy_r s) ! j)"
    and "(retained_step au)\<^sup>*\<^sup>* s t" and "adm_receipt a = adm_receipt (su_admission (rt_subs (sy_r s) ! j))"
  shows "Retain_poll (sy_r t) j v = PollRejected
    \<and> Retain_check (sy_r t) c a cancel = Some RetainRejected
    \<and> Retained_Revalidate (sy_r t) authority a = Inl ErrCredentialRejected"
proof -
  have inv: "sys_inv s" by (rule reach_sys_inv [OF assms(1)])
  have grow: "grows (sy_r s) (sy_r t)" using steps_sys_inv [OF assms(4)] inv by blast
  have "withdrawn_ok (sy_r s) j" using inv assms(2) by (simp add: sys_inv_def rt_inv_def subs_inv_def)
  then have w: "su_withdrawn (rt_subs (sy_r s) ! j)" "receipt_withdrawn (sy_r s) (su_admission (rt_subs (sy_r s) ! j))"
    using assms(3) by (auto simp: withdrawn_ok_def)
  have "su_withdrawn (rt_subs (sy_r t) ! j)" using grows_sub [OF grow assms(2)] w(1) by simp
  moreover obtain p where "adm_receipt a = Some p" "rcpt_ptr p \<in> rt_withdrawnReceipts (sy_r t)"
    using w(2) grows_state [OF grow] assms(5) by (auto simp: receipt_withdrawn_def split: option.splits)
  ultimately show ?thesis
    by (simp add: Retain_poll_def Retain_check_def Retained_Revalidate_def receipt_withdrawn_def)
qed

text \<open>C17: who may cancel a connection.  A step cancels a subscription only when it shuts the owner
  down, or when a read fails for the live entry of the subscription and nothing has marked the
  entry since the read began; the admission that was read is for the same Capture and credential
  revision.  Hints, expiry, other entries and superseded reads cancel nothing.\<close>

theorem only_a_current_failed_read_cancels:
  assumes reach: "retained_reach au s" and step: "retained_step au s t" and j: "j < length (rt_subs (sy_r s))"
    and c: "su_canceled (rt_subs (sy_r t) ! j)" "\<not> su_canceled (rt_subs (sy_r s) ! j)"
  shows "rt_accepting (sy_r s) \<and> (\<not> rt_accepting (sy_r t)
    \<or> (\<exists>k i n w src err. rt_worker (sy_r s) = WorkerReading k i (en_version (rt_heap (sy_r s) ! i)) n
        \<and> Authorizer_Revalidate au w src (en_admission (rt_heap (sy_r s) ! i)) = Inl err
        \<and> (k, i) \<in> set (rt_entries (sy_r s)) \<and> j \<in> set (en_subscribers (rt_heap (sy_r s) ! i))
        \<and> CaptureReference (en_admission (rt_heap (sy_r s) ! i)) = CaptureReference (su_admission (rt_subs (sy_r s) ! j))))"
proof -
  have inv: "sys_inv s" using reach by (rule reach_sys_inv)
  then have heap: "heap_inv (sy_r s)" by (simp add: sys_inv_def rt_inv_def)
  from step show ?thesis
  proof cases
    case (Retain a j' v q)
    have "issuer_of a \<noteq> None" using inv Retain(2) by (auto simp: sys_inv_def)
    from Retain_register_joins [OF heap this Retain(3)] obtain i e where "joins (sy_r s) a i e q" by blast
    from joins_subs(1) [OF this j] show ?thesis using Retain(1) c by simp
  next
    case (Canceled j' v)
    then have "j' < length (rt_subs (sy_r s))" using inv by (fastforce simp: sys_inv_def pending_ok_def)
    from Retain_canceled_effect(3) [OF this sub_facts(1) [OF heap this]] show ?thesis
      using Canceled(1) c by (simp add: nth_update_proj)
  next
    case (Release j')
    from retained_release_effect(3) [OF Release(2) sub_facts(1) [OF heap Release(2)]] show ?thesis
      using Release(1) c by (cases "su_done (rt_subs (sy_r s) ! j')") (simp_all add: nth_update_proj retained_release_def)
  next
    case (ReadFailed k i v n w src err)
    have "su_canceled (rt_subs (run_finish None (sy_r s)) ! j)" using c ReadFailed(1) by simp
    from run_finish_canceled [OF heap ReadFailed(2) this c(2)]
    have f: "(k, i) \<in> set (rt_entries (sy_r s))" "en_version (rt_heap (sy_r s) ! i) = v" "rt_accepting (sy_r s)"
      "j \<in> set (en_subscribers (rt_heap (sy_r s) ! i))" by auto
    note i = entry_keys(1) [OF heap f(1)]
    have "Admission_Validate (en_admission (rt_heap (sy_r s) ! i)) = None"
      using heap i by (auto simp: heap_inv_def entry_ok_def)
    then have "CaptureReference (en_admission (rt_heap (sy_r s) ! i)) = CaptureReference (su_admission (rt_subs (sy_r s) ! j))"
      using same_entry_capture(1) sub_facts(2,4) [OF heap j] subscriber_facts(2) [OF heap i f(4)] by metis
    then show ?thesis using ReadFailed f by blast
  next
    case (ReadOk k i v n w src x)
    have "su_canceled (rt_subs (run_finish (Some x) (sy_r s)) ! j)" using c ReadOk(1) by simp
    from run_finish_canceled [OF heap ReadOk(2) this c(2)] show ?thesis by simp
  next
    case Shutdown
    then show ?thesis using c shutdown_canceled by auto
  qed (use c in simp_all)
qed

end
