(* ===== verification/Retained_Joins.thy ===== *)
theory Retained_Joins
  imports Retained_Safety
begin

text \<open>
  What callers of the owner may wait for: the end of a shutdown, through the contract of the
  admission gates, and the wait a change hint returns.
\<close>

section \<open>Shutdown\<close>

text \<open>The worker counts as one holder (\<open>None\<close>), every unreleased subscription as another.\<close>

definition retained_holders :: "retained_sys \<Rightarrow> nat option set" where
  "retained_holders s = Some ` set (rt_subscriptions (sy_r s))
     \<union> (if rt_worker (sy_r s) = WorkerStopped then {} else {None})"

definition retained_stopping :: "retained_sys \<Rightarrow> bool" where
  "retained_stopping s \<longleftrightarrow> \<not> rt_accepting (sy_r s)"

lemma stopped_refuses: "\<not> rt_accepting r \<Longrightarrow> Retain_register r a \<noteq> (Inr jv, q)"
  by (auto simp: Retain_register_def split: if_splits option.splits)

lemma stopping_subs_length:
  assumes step: "retained_step au s t" and inv: "sys_inv s" and stop: "\<not> rt_accepting (sy_r s)"
  shows "length (rt_subs (sy_r t)) = length (rt_subs (sy_r s))"
  using step
proof cases
  case (Canceled j v)
  then show ?thesis by (simp add: Retain_canceled_def)
next
  case (Release j)
  then show ?thesis by (simp add: retained_release_def Let_def)
next
  case (ReadFailed k i v n w src err)
  then show ?thesis by (simp add: run_finish_def stop Let_def)
next
  case (ReadOk k i v n w src x)
  then show ?thesis by (simp add: run_finish_def stop Let_def)
qed (use stop stopped_refuses in \<open>auto simp: Retained_BeginShutdown_def\<close>)

lemma stopping_subscriptions:
  assumes step: "retained_step au s t" and inv: "sys_inv s" and stop: "\<not> rt_accepting (sy_r s)"
  shows "set (rt_subscriptions (sy_r t)) \<subseteq> set (rt_subscriptions (sy_r s))"
proof -
  have "sys_inv t" using step_sys_inv [OF step inv] .
  then have t: "subs_inv (sy_r t)" and s: "subs_inv (sy_r s)" using inv by (auto simp: sys_inv_def rt_inv_def)
  have grow: "grows (sy_r s) (sy_r t)" using step_rt_inv [OF step inv] by blast
  show ?thesis
    using subscriptions_iff [OF t] subscriptions_iff [OF s] stopping_subs_length [OF step inv stop]
      grows_sub(5) [OF grow] by auto
qed

lemma worker_stays_stopped:
  assumes step: "retained_step au s t" and stop: "\<not> rt_accepting (sy_r s)"
    and w: "rt_worker (sy_r s) = WorkerStopped"
  shows "rt_worker (sy_r t) = WorkerStopped"
  using step
  by cases (use stop w stopped_refuses in \<open>auto simp: Retain_canceled_def retained_release_def Let_def
      BeginChange_def run_woken_def Retained_BeginShutdown_def\<close>)

text \<open>How each holder lets go: the worker ends its read and stops; a caller is rejected and releases.\<close>

definition stop_worker :: "retained_sys \<Rightarrow> retained_sys" where
  "stop_worker s =
     (let r = (case rt_worker (sy_r s) of WorkerReading k i v n \<Rightarrow> run_finish None (sy_r s) | _ \<Rightarrow> sy_r s)
      in s\<lparr>sy_r := (if rt_worker r = WorkerIdle then run_begin 0 ([], 0) r else r)\<rparr>)"

definition drop_calls :: "nat \<Rightarrow> retained_sys \<Rightarrow> retained_sys" where
  "drop_calls j s = s\<lparr>sy_pending :=
     fold removeAll (remdups (filter (\<lambda>jv. fst jv = j) (sy_pending s))) (sy_pending s)\<rparr>"

fun retained_let_go :: "nat option \<Rightarrow> retained_sys \<Rightarrow> retained_sys" where
  "retained_let_go None s = stop_worker s"
| "retained_let_go (Some j) s = (drop_calls j s)\<lparr>sy_r := retained_release j (sy_r s)\<rparr>"

lemma set_fold_removeAll: "set (fold removeAll ps xs) = set xs - set ps"
  by (induction ps arbitrary: xs) auto

lemma drop_pending_steps:
  assumes "\<not> rt_accepting (sy_r s)" and "set ps \<subseteq> set (sy_pending s)" and "distinct ps"
  shows "(retained_step au)\<^sup>*\<^sup>* s (s\<lparr>sy_pending := fold removeAll ps (sy_pending s)\<rparr>)"
  using assms
proof (induction ps arbitrary: s)
  case Nil
  have "s\<lparr>sy_pending := sy_pending s\<rparr> = s" by (cases s) simp
  then show ?case by simp
next
  case (Cons p ps)
  let ?t = "s\<lparr>sy_pending := removeAll p (sy_pending s)\<rparr>"
  obtain j v where p: "p = (j, v)" by fastforce
  have "Retain_poll (sy_r s) j v \<noteq> PollWait" using Cons.prems(1) by (simp add: Retain_poll_def Let_def)
  then have "retained_step au s ?t"
    using Cons.prems(2) p by (auto intro: retained_step.Returned)
  moreover have "(retained_step au)\<^sup>*\<^sup>* ?t (?t\<lparr>sy_pending := fold removeAll ps (sy_pending ?t)\<rparr>)"
    using Cons.prems by (intro Cons.IH) auto
  ultimately show ?case by (simp add: converse_rtranclp_into_rtranclp)
qed

lemma failed_read_possible: "\<exists>w src err. Authorizer_Revalidate au w src a = Inl err"
  by (rule exI [of _ "\<lambda>_. True"]) (auto simp: Authorizer_Revalidate_def split: option.splits)

lemma stop_worker_steps:
  assumes "\<not> rt_accepting (sy_r s)"
  shows "(retained_step au)\<^sup>*\<^sup>* s (stop_worker s) \<and> rt_worker (sy_r (stop_worker s)) = WorkerStopped
    \<and> rt_subscriptions (sy_r (stop_worker s)) = rt_subscriptions (sy_r s)"
proof -
  have stopped: "run_begin 0 ([], 0) r = r\<lparr>rt_worker := WorkerStopped\<rparr>" if "\<not> rt_accepting r" for r
    using that by (simp add: run_begin_def)
  have idle: "retained_step au t (t\<lparr>sy_r := run_begin 0 ([], 0) (sy_r t)\<rparr>)"
    if "rt_worker (sy_r t) = WorkerIdle" for t
    using that by (rule retained_step.Begin)
  show ?thesis
  proof (cases "rt_worker (sy_r s)")
    case WorkerIdle
    then have eq: "stop_worker s = s\<lparr>sy_r := run_begin 0 ([], 0) (sy_r s)\<rparr>" by (simp add: stop_worker_def)
    show ?thesis
      using r_into_rtranclp [of "retained_step au" s, OF idle [OF WorkerIdle]] stopped [OF assms] unfolding eq by simp
  next
    case (WorkerReading k i v n)
    let ?t = "s\<lparr>sy_r := run_finish None (sy_r s)\<rparr>"
    have t: "sy_r ?t = (sy_r s)\<lparr>rt_worker := WorkerIdle, rt_canceledReads := insert n (rt_canceledReads (sy_r s))\<rparr>"
      using assms by (simp add: run_finish_def WorkerReading Let_def)
    obtain w src err where "Authorizer_Revalidate au w src (en_admission (rt_heap (sy_r s) ! i)) = Inl err"
      using failed_read_possible by blast
    from retained_step.ReadFailed [OF WorkerReading this] have "retained_step au s ?t" .
    moreover have "stop_worker s = ?t\<lparr>sy_r := run_begin 0 ([], 0) (sy_r ?t)\<rparr>"
      unfolding stop_worker_def WorkerReading using t by simp
    moreover have "retained_step au ?t (?t\<lparr>sy_r := run_begin 0 ([], 0) (sy_r ?t)\<rparr>)" by (rule idle) (simp add: t)
    moreover have "run_begin 0 ([], 0) (sy_r ?t) = (sy_r ?t)\<lparr>rt_worker := WorkerStopped\<rparr>"
      using assms t by (intro stopped) simp
    ultimately show ?thesis using t by (simp add: converse_rtranclp_into_rtranclp r_into_rtranclp)
  next
    case WorkerStopped
    have "s\<lparr>sy_r := sy_r s\<rparr> = s" by (cases s) simp
    then show ?thesis using WorkerStopped by (simp add: stop_worker_def)
  qed
qed

lemma let_go_sub:
  assumes stop: "\<not> rt_accepting (sy_r s)" and inv: "sys_inv s" and j: "j \<in> set (rt_subscriptions (sy_r s))"
  shows "(retained_step au)\<^sup>*\<^sup>* s (retained_let_go (Some j) s)
    \<and> set (rt_subscriptions (sy_r (retained_let_go (Some j) s))) = set (rt_subscriptions (sy_r s)) - {j}
    \<and> rt_worker (sy_r (retained_let_go (Some j) s)) = rt_worker (sy_r s)"
proof -
  have heap: "heap_inv (sy_r s)" and subs: "subs_inv (sy_r s)" using inv by (auto simp: sys_inv_def rt_inv_def)
  have jl: "j < length (rt_subs (sy_r s))" "\<not> su_done (rt_subs (sy_r s) ! j)"
    using j subscriptions_iff [OF subs] by auto
  define ps where "ps = remdups (filter (\<lambda>jv. fst jv = j) (sy_pending s))"
  let ?t = "drop_calls j s"
  have t: "?t = s\<lparr>sy_pending := fold removeAll ps (sy_pending s)\<rparr>"
    by (simp add: drop_calls_def ps_def)
  have "(retained_step au)\<^sup>*\<^sup>* s ?t"
    unfolding t using stop by (intro drop_pending_steps) (auto simp: ps_def)
  moreover have "retained_step au ?t (?t\<lparr>sy_r := retained_release j (sy_r ?t)\<rparr>)"
    using jl(1) by (intro retained_step.Release) (auto simp: t set_fold_removeAll ps_def)
  moreover have "sy_r ?t = sy_r s" by (simp add: t)
  ultimately show ?thesis
    using retained_release_effect(4,6) [OF jl(1) sub_facts(1) [OF heap jl(1)] jl(2)] by simp
qed

interpretation retained_gate: releasing_gate "retained_step au" sys_inv retained_stopping retained_holders
  "\<lambda>s. Retained_drained (sy_r s)" retained_let_go
proof
  fix s t
  assume inv: "sys_inv s"
  show "sys_inv t" if "retained_step au s t" using step_sys_inv [OF that inv] .
  assume stop: "retained_stopping s"
  show "retained_stopping t" if "retained_step au s t"
    using step_rt_inv [OF that inv] grows_state stop by (auto simp: retained_stopping_def)
  show "retained_holders t \<subseteq> retained_holders s" if "retained_step au s t"
    using stopping_subscriptions [OF that inv] worker_stays_stopped [OF that] stop
    by (auto simp: retained_holders_def retained_stopping_def)
  show "Retained_drained (sy_r s) \<longleftrightarrow> retained_holders s = {}"
    using stop by (auto simp: Retained_drained_def retained_holders_def retained_stopping_def)
  fix h
  assume h: "h \<in> retained_holders s"
  show "(retained_step au)\<^sup>*\<^sup>* s (retained_let_go h s)"
  proof (cases h)
    case None
    then show ?thesis using stop stop_worker_steps [of s] by (simp add: retained_stopping_def)
  next
    case (Some j)
    then have "j \<in> set (rt_subscriptions (sy_r s))" using h by (auto simp: retained_holders_def split: if_splits)
    from let_go_sub [OF _ inv this] stop Some show ?thesis by (simp add: retained_stopping_def)
  qed
  show "retained_holders (retained_let_go h s) = retained_holders s - {h}"
  proof (cases h)
    case None
    then show ?thesis
      using stop stop_worker_steps [of s] by (auto simp: retained_holders_def retained_stopping_def)
  next
    case (Some j)
    then have "j \<in> set (rt_subscriptions (sy_r s))" using h by (auto simp: retained_holders_def split: if_splits)
    from let_go_sub [OF _ inv this] stop Some show ?thesis
      by (auto simp: retained_holders_def retained_stopping_def)
  qed
qed

text \<open>C20: shutdown.  After \<open>BeginShutdown\<close> every unreleased subscription is withdrawn, no call of
  \<open>Retain\<close> succeeds any more, and once the worker has seen the end of its read and every holder
  has released, in whatever order, \<open>Shutdown\<close> returns; it never returns earlier.\<close>

theorem retained_shutdown_drains:
  assumes reach: "retained_reach au s" and stop: "\<not> rt_accepting (sy_r s)"
  shows "list_all (\<lambda>j. su_withdrawn (rt_subs (sy_r s) ! j)) (rt_subscriptions (sy_r s))
    \<and> (\<forall>a. fst (Retain_register (sy_r s) a) \<in> range Inl)
    \<and> (Retained_drained (sy_r s) \<longleftrightarrow> rt_subscriptions (sy_r s) = [] \<and> rt_worker (sy_r s) = WorkerStopped)
    \<and> (\<forall>hs. distinct hs \<longrightarrow> set hs = retained_holders s \<longrightarrow>
         (retained_step au)\<^sup>*\<^sup>* s (fold retained_let_go hs s) \<and> Retained_drained (sy_r (fold retained_let_go hs s)))"
proof -
  have inv: "sys_inv s" using reach by (rule reach_sys_inv)
  then have subs: "subs_inv (sy_r s)" by (simp add: sys_inv_def rt_inv_def)
  have "su_withdrawn (rt_subs (sy_r s) ! j)" if "j \<in> set (rt_subscriptions (sy_r s))" for j
    using that subs stop subscriptions_iff [OF subs, of j] unfolding subs_inv_def withdrawn_ok_def by blast
  moreover have "fst (Retain_register (sy_r s) a) \<in> range Inl" for a
    using stop by (auto simp: Retain_register_def split: option.splits)
  ultimately show ?thesis
    using retained_gate.drains [OF inv] stop
    by (auto simp: list_all_iff retained_stopping_def Retained_drained_def)
qed

section \<open>The wait after a change\<close>

text \<open>
  The caller of \<open>Changed\<close> makes the turns of its wait while the system moves; the wait has returned
  when no obligation is left.
\<close>

inductive change_wait :: "nat \<Rightarrow> retained_sys \<times> obligation list \<Rightarrow> retained_sys \<times> obligation list \<Rightarrow> bool" for au where
  system: "retained_step au s t \<Longrightarrow> change_wait au (s, os) (t, os)"
| turn: "change_wait au (s, os) (s, wait_step (sy_r s) os)"

text \<open>
  What a caller learns about a subscription: it has ended, or, when its entry was live and was
  marked to version \<open>v\<close>, a read that began at \<open>v\<close> or later has succeeded.
\<close>

definition settled :: "retained_sys \<Rightarrow> nat \<Rightarrow> nat option \<Rightarrow> bool" where
  "settled s j goal \<longleftrightarrow> su_done (rt_subs (sy_r s) ! j)
     \<or> (\<exists>v w x. goal = Some v \<and> v \<le> w \<and> (su_entry (rt_subs (sy_r s) ! j), w, x) \<in> sy_reads s)"

definition entry_complete :: "retained \<Rightarrow> nat \<Rightarrow> nat \<Rightarrow> bool" where
  "entry_complete r i v \<longleftrightarrow> en_checked (rt_heap r ! i) \<ge> v \<or> en_subscribers (rt_heap r ! i) = [] \<or> \<not> rt_accepting r"

definition check_ready :: "retained \<Rightarrow> obligation list \<Rightarrow> nat \<Rightarrow> nat option \<Rightarrow> bool" where
  "check_ready r os j goal \<longleftrightarrow>
     (case goal of None \<Rightarrow> su_withdrawn (rt_subs r ! j)
      | Some v \<Rightarrow> 0 < v \<and> (AwaitEntry (su_entry (rt_subs r ! j)) v \<in> set os
                          \<or> entry_complete r (su_entry (rt_subs r ! j)) v))"

definition on_course :: "retained_sys \<Rightarrow> obligation list \<Rightarrow> nat \<Rightarrow> nat option \<Rightarrow> bool" where
  "on_course s os j goal \<longleftrightarrow> settled s j goal \<or> AwaitDone j \<in> set os
     \<or> (\<exists>os1 os2. os = os1 @ CheckSub j # os2 \<and> check_ready (sy_r s) os1 j goal)"

lemma settled_step:
  assumes "retained_step au s t" "sys_inv s" "j < length (rt_subs (sy_r s))" "settled s j goal"
  shows "settled t j goal"
  using step_rt_inv [OF assms(1,2)] grows_sub [OF _ assms(3)] assms(4) unfolding settled_def by (metis subsetD)

lemma check_ready_grows:
  assumes grow: "grows r q" and j: "j < length (rt_subs r)" and i: "su_entry (rt_subs r ! j) < length (rt_heap r)"
    and ready: "check_ready r os j goal"
  shows "check_ready q os j goal"
proof (cases goal)
  case None
  then show ?thesis using ready grows_sub(4) [OF grow j] by (simp add: check_ready_def)
next
  case (Some v)
  have "entry_complete q (su_entry (rt_subs r ! j)) v" if "entry_complete r (su_entry (rt_subs r ! j)) v"
    using that grows_entry(3,5) [OF grow i] grow unfolding entry_complete_def grows_def by (meson order_trans)
  then show ?thesis using ready grows_sub(2) [OF grow j] by (auto simp: check_ready_def Some)
qed

lemma on_course_step:
  assumes "retained_step au s t" "sys_inv s" "j < length (rt_subs (sy_r s))" "on_course s os j goal"
  shows "on_course t os j goal"
proof -
  have "grows (sy_r s) (sy_r t)" using step_rt_inv [OF assms(1,2)] by blast
  moreover have "su_entry (rt_subs (sy_r s) ! j) < length (rt_heap (sy_r s))"
    using sub_facts(1) assms(2,3) by (simp add: sys_inv_def rt_inv_def)
  ultimately show ?thesis
    using assms settled_step check_ready_grows unfolding on_course_def by blast
qed

text \<open>A subscription that passes the check unwithdrawn has ended or has been confirmed.\<close>

lemma checked_sub_settled:
  assumes inv: "sys_inv s" and j: "j < length (rt_subs (sy_r s))"
    and ready: "check_ready (sy_r s) [] j goal" and live: "\<not> su_withdrawn (rt_subs (sy_r s) ! j)"
  shows "settled s j goal"
proof (cases goal)
  case None
  then show ?thesis using ready live by (simp add: check_ready_def)
next
  case (Some v)
  let ?i = "su_entry (rt_subs (sy_r s) ! j)"
  have subs: "subs_inv (sy_r s)" and ver: "version_inv (sy_r s) (sy_reads s)"
    using inv by (auto simp: sys_inv_def rt_inv_def)
  have "rt_accepting (sy_r s) \<and> live_sub (sy_r s) j" if "\<not> su_done (rt_subs (sy_r s) ! j)"
    using subs j live that unfolding subs_inv_def withdrawn_ok_def by blast
  moreover have "(?i, en_checked (rt_heap (sy_r s) ! ?i), en_validity (rt_heap (sy_r s) ! ?i)) \<in> sy_reads s
      \<and> v \<le> en_checked (rt_heap (sy_r s) ! ?i)" if "rt_accepting (sy_r s)" "live_sub (sy_r s) j"
  proof -
    have "v \<le> en_checked (rt_heap (sy_r s) ! ?i)" "0 < v"
      using ready that by (auto simp: check_ready_def entry_complete_def live_sub_def Some)
    moreover have "entry_version_ok (sy_reads s) ?i (rt_heap (sy_r s) ! ?i)"
      using entry_version [OF ver] that(2) unfolding live_sub_def by blast
    ultimately show ?thesis unfolding entry_version_ok_def by (metis not_less)
  qed
  ultimately show ?thesis unfolding settled_def Some by blast
qed

lemma on_course_turn:
  assumes inv: "sys_inv s" and j: "j < length (rt_subs (sy_r s))" and course: "on_course s os j goal"
  shows "on_course s (wait_step (sy_r s) os) j goal"
proof (cases os)
  case (Cons ob rest)
  consider "settled s j goal" | "AwaitDone j \<in> set os"
    | os1 os2 where "os = os1 @ CheckSub j # os2" "check_ready (sy_r s) os1 j goal"
    using course unfolding on_course_def by blast
  then show ?thesis
  proof cases
    case 1
    then show ?thesis by (simp add: on_course_def)
  next
    case 2
    then show ?thesis using Cons by (cases ob) (auto simp: on_course_def settled_def)
  next
    case (3 os1 os2)
    show ?thesis
    proof (cases os1)
      case Nil
      then show ?thesis
        using 3 checked_sub_settled [OF inv j] by (auto simp: on_course_def)
    next
      case (Cons ob1 os1')
      have keep: "on_course s (pre @ os1' @ CheckSub j # os2) j goal"
        if "check_ready (sy_r s) (pre @ os1') j goal" for pre
        using that unfolding on_course_def by (metis append.assoc)
      show ?thesis
      proof (cases ob1)
        case (AwaitEntry i w)
        then have "check_ready (sy_r s) os1' j goal" if "entry_complete (sy_r s) i w"
          using 3(2) that Cons by (auto simp: check_ready_def split: option.splits)
        then show ?thesis
          using keep [of "[]"] course unfolding 3(1) Cons AwaitEntry by (auto simp: entry_complete_def)
      next
        case (CheckSub j')
        then have "check_ready (sy_r s) os1' j goal" "check_ready (sy_r s) ([AwaitDone j'] @ os1') j goal"
          using 3(2) Cons by (auto simp: check_ready_def split: option.splits)
        then show ?thesis
          using keep [of "[]"] keep [of "[AwaitDone j']"] unfolding 3(1) Cons CheckSub by auto
      next
        case (AwaitDone j')
        then have "check_ready (sy_r s) os1' j goal"
          using 3(2) Cons by (auto simp: check_ready_def split: option.splits)
        then show ?thesis using keep [of "[]"] course unfolding 3(1) Cons AwaitDone by auto
      qed
    qed
  qed
qed (use course in simp)

lemma on_course_waits:
  assumes "(change_wait au)\<^sup>*\<^sup>* (s, os) (t, ps)" "sys_inv s" "j < length (rt_subs (sy_r s))" "on_course s os j goal"
  shows "sys_inv t \<and> grows (sy_r s) (sy_r t) \<and> on_course t ps j goal"
  using assms
proof (induction "(t, ps)" arbitrary: t ps rule: rtranclp_induct)
  case base
  then show ?case by (simp add: grows_refl)
next
  case (step y)
  obtain u qs where y: "y = (u, qs)" by fastforce
  have u: "sys_inv u" "grows (sy_r s) (sy_r u)" "on_course u qs j goal" using step y by blast+
  note j = grows_sub(1) [OF u(2) step.prems(2)]
  from step(2)[unfolded y] show ?case
  proof cases
    case system
    then show ?thesis
      using step_sys_inv [OF system(2) u(1)] step_rt_inv [OF system(2) u(1)] grows_trans u(2)
        on_course_step [OF system(2) u(1) j u(3)] by blast
  next
    case turn
    then show ?thesis using u on_course_turn [OF u(1) j u(3)] by simp
  qed
qed

text \<open>Where the wait checks the subscriptions of a target.\<close>

lemma obligations_split:
  assumes "t \<in> set ts" and "j \<in> set (tg_subs t)"
  shows "\<exists>os1 os2. obligations ts = os1 @ CheckSub j # os2
    \<and> (\<forall>i v. tg_entry t = Some (i, v) \<longrightarrow> AwaitEntry i v \<in> set os1)"
proof -
  obtain ts1 ts2 where ts: "ts = ts1 @ t # ts2" using assms(1) by (meson split_list)
  obtain js1 js2 where js: "tg_subs t = js1 @ j # js2" using assms(2) by (meson split_list)
  let ?pre = "obligations ts1 @ (case tg_entry t of None \<Rightarrow> [] | Some (i, v) \<Rightarrow> [AwaitEntry i v]) @ map CheckSub js1"
  have "obligations ts = ?pre @ CheckSub j # (map CheckSub js2 @ obligations ts2)"
    by (simp add: obligations_def ts js)
  moreover have "\<forall>i v. tg_entry t = Some (i, v) \<longrightarrow> AwaitEntry i v \<in> set ?pre" by simp
  ultimately show ?thesis by blast
qed

lemma matches_marked [simp]: "matches c (marked e) = matches c e"
  by (simp add: matches_def)

lemma change_on_course:
  assumes inv: "sys_inv s" and q: "BeginChange c (sy_r s) = (ts, q)"
    and j: "j \<in> set (rt_subscriptions (sy_r s))"
    and m: "matches c (rt_heap (sy_r s) ! su_entry (rt_subs (sy_r s) ! j))"
  shows "\<exists>goal. on_course (s\<lparr>sy_r := q\<rparr>) (obligations ts) j goal
    \<and> (\<forall>v. goal = Some v \<longrightarrow> en_version (rt_heap (sy_r s) ! su_entry (rt_subs (sy_r s) ! j)) < v)"
proof -
  let ?r = "sy_r s" and ?i = "su_entry (rt_subs (sy_r s) ! j)"
  let ?ids = "if rt_accepting (sy_r s) then matching_ids c (sy_r s) else []"
  have heap: "heap_inv ?r" and subs: "subs_inv ?r" using inv by (auto simp: sys_inv_def rt_inv_def)
  have jl: "j < length (rt_subs ?r)" "\<not> su_done (rt_subs ?r ! j)" using j subscriptions_iff [OF subs] by auto
  have qeq: "q = fold markLocked ?ids ?r" using q by (auto simp: BeginChange_def Let_def)
  have ids: "distinct ?ids" "\<And>i. i \<in> set ?ids \<Longrightarrow> i < length (rt_heap ?r)"
    using distinct_entry_ids [OF heap] matching_ids_live entry_keys(1) [OF heap]
    by (auto simp: matching_ids_def)
  have qh: "rt_heap q ! i = (if i \<in> set ?ids then marked (rt_heap ?r ! i) else rt_heap ?r ! i)" for i
    unfolding qeq by (rule fold_markLocked_heap [OF ids])
  then have qm: "matches c (rt_heap q ! i) = matches c (rt_heap ?r ! i)" for i by (metis matches_marked)
  define js where "js = filter (\<lambda>j. su_withdrawn (rt_subs q ! j) \<and> matches c (rt_heap q ! su_entry (rt_subs q ! j)))
    (rt_subscriptions q)"
  have ts: "ts = map (\<lambda>i. \<lparr> tg_entry = Some (i, en_version (rt_heap q ! i)), tg_subs = en_subscribers (rt_heap q ! i) \<rparr>) ?ids
      @ (if js \<noteq> [] then [\<lparr> tg_entry = None, tg_subs = js \<rparr>] else [])"
    using q unfolding BeginChange_def Let_def qeq [symmetric] js_def by (rule Pair_inject) (rule sym)
  have qs: "rt_subs q = rt_subs ?r" "rt_subscriptions q = rt_subscriptions ?r" by (simp_all add: qeq)
  show ?thesis
  proof (cases "su_withdrawn (rt_subs ?r ! j)")
    case True
    have "j \<in> set js" using True j m unfolding js_def qs by (simp add: qm)
    moreover have "\<lparr> tg_entry = None, tg_subs = js \<rparr> \<in> set ts"
      using calculation unfolding ts by (auto simp del: set_filter)
    ultimately obtain os1 os2 where "obligations ts = os1 @ CheckSub j # os2"
      using obligations_split by fastforce
    moreover have "check_ready q os1 j None" using True by (simp add: check_ready_def qs)
    ultimately show ?thesis unfolding on_course_def by auto
  next
    case False
    then have acc: "rt_accepting ?r" and live: "live_sub ?r j"
      using subs jl unfolding subs_inv_def withdrawn_ok_def by blast+
    then have i: "?i \<in> set ?ids" using m by (force simp: live_sub_def matching_ids_def)
    then have qi: "rt_heap q ! ?i = marked (rt_heap ?r ! ?i)" unfolding qh [of ?i] by (rule if_P)
    then have version: "en_version (rt_heap q ! ?i) = Suc (en_version (rt_heap ?r ! ?i))" by simp
    define tg where "tg = \<lparr> tg_entry = Some (?i, en_version (rt_heap q ! ?i)), tg_subs = en_subscribers (rt_heap q ! ?i) \<rparr>"
    have "tg \<in> set ts"
      using i unfolding tg_def ts by (simp only: set_append set_map) blast
    moreover have "j \<in> set (tg_subs tg)" using live by (simp add: tg_def qi live_sub_def)
    ultimately obtain os1 os2 where "obligations ts = os1 @ CheckSub j # os2"
        "AwaitEntry ?i (en_version (rt_heap q ! ?i)) \<in> set os1"
      using obligations_split [of tg ts j] by (auto simp: tg_def)
    then have "on_course (s\<lparr>sy_r := q\<rparr>) (obligations ts) j (Some (en_version (rt_heap q ! ?i)))"
      unfolding on_course_def check_ready_def by (auto simp: qs version)
    then show ?thesis using version by (metis lessI option.inject)
  qed
qed

text \<open>C19: what a change waits for.  When the wait that \<open>BeginChange\<close> returns comes to its end, every
  unreleased subscription whose entry matched the change has been released, or the authority has
  confirmed its entry in a read that began after the change was announced.  So no connection that
  the change concerns goes on by an authority read before the change.\<close>

theorem change_joins_or_rereads:
  assumes reach: "retained_reach au s" and q: "BeginChange c (sy_r s) = (ts, q)"
    and wait: "(change_wait au)\<^sup>*\<^sup>* (s\<lparr>sy_r := q\<rparr>, obligations ts) (t, [])"
    and j: "j \<in> set (rt_subscriptions (sy_r s))"
    and m: "matches c (rt_heap (sy_r s) ! su_entry (rt_subs (sy_r s) ! j))"
  shows "su_done (rt_subs (sy_r t) ! j)
    \<or> (\<exists>v x. en_version (rt_heap (sy_r s) ! su_entry (rt_subs (sy_r s) ! j)) < v
         \<and> (su_entry (rt_subs (sy_r s) ! j), v, x) \<in> sy_reads t)"
proof -
  have inv: "sys_inv s" using reach by (rule reach_sys_inv)
  have step: "retained_step au s (s\<lparr>sy_r := q\<rparr>)" using retained_step.Change [of au s c] q by simp
  note q_inv = step_sys_inv [OF step inv]
  have subs: "subs_inv (sy_r s)" using inv by (simp add: sys_inv_def rt_inv_def)
  have jl: "j < length (rt_subs (sy_r s))" using j subscriptions_iff [OF subs] by blast
  have eq: "rt_subs q = rt_subs (sy_r s)" using q quiet_subs(3) [of c "sy_r s"] by simp
  obtain goal where course: "on_course (s\<lparr>sy_r := q\<rparr>) (obligations ts) j goal"
    and goal: "\<forall>v. goal = Some v \<longrightarrow> en_version (rt_heap (sy_r s) ! su_entry (rt_subs (sy_r s) ! j)) < v"
    using change_on_course [OF inv q j m] by blast
  have "j < length (rt_subs (sy_r (s\<lparr>sy_r := q\<rparr>)))" using jl eq by simp
  from on_course_waits [OF wait q_inv this course]
  have "settled t j goal" and grow: "grows q (sy_r t)" by (auto simp: on_course_def)
  then show ?thesis
    using goal grows_sub(2) [OF grow] jl eq unfolding settled_def by (metis order.strict_trans2)
qed

end
