(* ===== verification/Retained_Demo.thy ===== *)
theory Retained_Demo
  imports Retained_Joins
begin

text \<open>
  A run of the owner on concrete inputs, on which the witnesses of its properties evaluate: one
  connection registers, the worker reads its authority, and then the read fails, a change is
  announced, or the owner shuts down.
\<close>

section \<open>The run\<close>

definition demo_admission :: admission where
  "demo_admission = demo_manual\<lparr>adm_receipt := Some \<lparr> rcpt_ptr = 0, rcpt_issuer = Some 0, rcpt_read = None \<rparr>\<rparr>"

definition demo_capture :: reference where
  "demo_capture = \<lparr> ref_Kind = KindManualCapture, ref_ID = ''m1'' \<rparr>"

definition demo_validity :: validity where
  "demo_validity = zero_validity\<lparr> val_Capture := demo_capture, val_CredentialRevision := 1 \<rparr>"

lemma demo_admission_valid: "Admission_Validate demo_admission = None"
  by (simp add: demo_admission_def demo_manual_def Admission_Validate_def validate_manual_def demo_labels
      adm_Kind_valid_def confidence_valid_def zero_admission_def adm_KindManagedRun_def adm_KindManual_def Let_def)

lemma demo_admission_facts [simp]:
  "adm_receipt demo_admission = Some \<lparr> rcpt_ptr = 0, rcpt_issuer = Some 0, rcpt_read = None \<rparr>"
  "adm_credentialRevision demo_admission = 1" "issuer_of demo_admission = Some 0"
  by (simp_all add: demo_admission_def demo_manual_def zero_admission_def issuer_of_def)

definition demo_entry :: "nat \<Rightarrow> nat \<Rightarrow> bool \<Rightarrow> nat option \<Rightarrow> retained_entry" where
  "demo_entry version checked dirty reading =
     \<lparr> en_admission = demo_admission, en_validity = (if checked = 0 then zero_validity else demo_validity),
       en_validityKnown = (checked \<noteq> 0), en_version = version, en_checked = checked, en_dirty = dirty,
       en_reading = reading, en_subscribers = [0] \<rparr>"

definition demo_sub :: "bool \<Rightarrow> subscription" where
  "demo_sub gone = \<lparr> su_entry = 0, su_admission = demo_admission, su_withdrawn = gone, su_done = False,
     su_canceled = gone \<rparr>"

definition demo_state :: "retained_entry \<Rightarrow> nat \<Rightarrow> nat set \<Rightarrow> nat \<Rightarrow> worker \<Rightarrow> retained" where
  "demo_state e changed canceled reads w =
     \<lparr> rt_entries = [(keyOf demo_admission, 0)], rt_heap = [e], rt_subs = [demo_sub False], rt_subscriptions = [0],
       rt_accepting = True, rt_changed = changed, rt_wake = True, rt_withdrawnReceipts = {},
       rt_canceledReads = canceled, rt_readCount = reads, rt_worker = w \<rparr>"

lemmas demo_simps = demo_state_def demo_entry_def demo_sub_def

definition demo_registered :: retained_sys where
  "demo_registered = \<lparr> sy_r = demo_state (demo_entry 1 0 True None) 1 {} 0 WorkerIdle, sy_reads = {},
     sy_pending = [(0, 1)], sy_calls = [] \<rparr>"

definition demo_reading :: retained_sys where
  "demo_reading = \<lparr> sy_r = demo_state (demo_entry 1 0 True (Some 0)) 1 {} 1
     (WorkerReading (keyOf demo_admission) 0 1 0), sy_reads = {}, sy_pending = [(0, 1)], sy_calls = [] \<rparr>"

definition demo_confirmed :: retained_sys where
  "demo_confirmed = \<lparr> sy_r = demo_state (demo_entry 1 1 False None) 2 {0} 1 WorkerIdle,
     sy_reads = {(0, 1, demo_validity)}, sy_pending = [(0, 1)], sy_calls = [] \<rparr>"

definition demo_called :: retained_sys where
  "demo_called = retained_start\<lparr>sy_calls := [demo_admission]\<rparr>"

lemma demo_call: "retained_step 0 retained_start demo_called"
proof -
  have "Retain_check (sy_r retained_start) CtxLive demo_admission True = None"
    by (simp add: Retain_check_def retained_start_def NewRetained_def receipt_withdrawn_def)
  from retained_step.Call [OF demo_admission_valid this] show ?thesis by (simp add: demo_called_def retained_start_def)
qed

lemma demo_register: "retained_step 0 demo_called demo_registered"
proof -
  have "Retain_register (sy_r demo_called) demo_admission
      = (Inr (0, 1), demo_state (demo_entry 1 0 True None) 1 {} 0 WorkerIdle)"
    by (simp add: Retain_register_def demo_called_def retained_start_def NewRetained_def entry_for_def fresh_entry_def
        markLocked_def signalLocked_def cancel_read_def upd_entry_def demo_simps)
  from retained_step.Retain [OF _ this]
  show ?thesis by (simp add: demo_registered_def demo_called_def retained_start_def)
qed

lemma demo_begin: "retained_step 0 demo_registered demo_reading"
proof -
  have "demo_reading = demo_registered\<lparr>sy_r := run_begin 0 (keyOf demo_admission) (sy_r demo_registered)\<rparr>"
    by (simp add: demo_reading_def demo_registered_def run_begin_def run_scan_def expired_def upd_entry_def
        demo_simps zero_validity_def)
  moreover have "rt_worker (sy_r demo_registered) = WorkerIdle" by (simp add: demo_registered_def demo_state_def)
  ultimately show ?thesis using retained_step.Begin [of demo_registered 0 0 "keyOf demo_admission"] by simp
qed

lemma demo_capture_new: "CaptureReference demo_admission = Inr demo_capture"
  by (simp add: CaptureReference_def demo_capture_def demo_admission_def demo_manual_def zero_admission_def
      New_Reference_def Reference_Validate_def MaxIDBytes_def reference_rune_def adm_KindManual_def
      adm_KindManagedRun_def KindManualCapture_def KindManagedRun_def plain_text_facts plain_text_def is_control_def)

lemma demo_answer: "Authorizer_Revalidate 0 (\<lambda>_. False) (\<lambda>_. Some demo_validity) demo_admission = Inr demo_validity"
  by (simp add: Authorizer_Revalidate_def demo_capture_new demo_validity_def)

lemma demo_no_answer: "Authorizer_Revalidate 0 (\<lambda>_. False) (\<lambda>_. None) demo_admission = Inl ErrCredentialRejected"
  by (simp add: Authorizer_Revalidate_def)

lemma demo_confirm: "retained_step 0 demo_reading demo_confirmed"
proof -
  have "rt_worker (sy_r demo_reading) = WorkerReading (keyOf demo_admission) 0 1 0"
      "en_admission (rt_heap (sy_r demo_reading) ! 0) = demo_admission"
    by (simp_all add: demo_reading_def demo_simps)
  from retained_step.ReadOk [OF this(1), of 0 "\<lambda>_. False" "\<lambda>_. Some demo_validity" demo_validity, unfolded this(2),
      OF demo_answer]
  have "retained_step 0 demo_reading (demo_reading\<lparr>sy_r := run_finish (Some demo_validity) (sy_r demo_reading),
      sy_reads := insert (0, 1, demo_validity) (sy_reads demo_reading)\<rparr>)" .
  moreover have "demo_confirmed = demo_reading\<lparr>sy_r := run_finish (Some demo_validity) (sy_r demo_reading),
      sy_reads := insert (0, 1, demo_validity) (sy_reads demo_reading)\<rparr>"
    by (simp add: demo_confirmed_def demo_reading_def demo_simps run_finish_def upd_entry_def signalLocked_def)
  ultimately show ?thesis by simp
qed

definition demo_failed :: retained_sys where
  "demo_failed = demo_reading\<lparr>sy_r := (sy_r demo_reading)\<lparr>rt_entries := [], rt_heap := [demo_entry 1 0 False None\<lparr>en_checked := 1\<rparr>],
     rt_subs := [demo_sub True], rt_changed := 2, rt_withdrawnReceipts := {0}, rt_canceledReads := {0}, rt_worker := WorkerIdle\<rparr>\<rparr>"

lemma demo_fail: "retained_step 0 demo_reading demo_failed"
proof -
  have "rt_worker (sy_r demo_reading) = WorkerReading (keyOf demo_admission) 0 1 0"
      "en_admission (rt_heap (sy_r demo_reading) ! 0) = demo_admission"
    by (simp_all add: demo_reading_def demo_simps)
  from retained_step.ReadFailed [OF this(1), of 0 "\<lambda>_. False" "\<lambda>_. None" ErrCredentialRejected, unfolded this(2),
      OF demo_no_answer]
  have "retained_step 0 demo_reading (demo_reading\<lparr>sy_r := run_finish None (sy_r demo_reading)\<rparr>)" .
  moreover have "demo_failed = demo_reading\<lparr>sy_r := run_finish None (sy_r demo_reading)\<rparr>"
    by (simp add: demo_failed_def demo_reading_def demo_simps run_finish_def upd_entry_def signalLocked_def withdraw_def upd_sub_def)
  ultimately show ?thesis by simp
qed

lemma demo_reach: "retained_reach 0 demo_registered" "retained_reach 0 demo_reading" "retained_reach 0 demo_confirmed"
    "retained_reach 0 demo_failed"
  unfolding retained_reach_def
  by (meson demo_call demo_register demo_begin demo_confirm demo_fail rtranclp.intros)+

section \<open>Witnesses\<close>

theorem retain_rests_on_current_read_witness:
  "Retain_poll (sy_r demo_confirmed) 0 1 = PollReady
   \<and> (\<exists>x. (0, 1, x) \<in> sy_reads demo_confirmed \<and> CaptureReference demo_admission = Inr (val_Capture x))"
proof -
  have "(0, 1) \<in> set (sy_pending demo_confirmed)" by (simp add: demo_confirmed_def)
  moreover have ready: "Retain_poll (sy_r demo_confirmed) 0 1 = PollReady"
    by (simp add: Retain_poll_def demo_confirmed_def demo_simps)
  ultimately show ?thesis
    using retain_rests_on_current_read [OF demo_reach(3)] by (fastforce simp: demo_confirmed_def demo_simps)
qed

theorem canceled_connection_is_final_witness:
  "Retain_poll (sy_r demo_failed) 0 1 = PollRejected
   \<and> Retain_check (sy_r demo_failed) CtxLive demo_admission True = Some RetainRejected
   \<and> Retained_Revalidate (sy_r demo_failed) (\<lambda>_. Inr demo_validity) demo_admission = Inl ErrCredentialRejected"
proof -
  have "0 < length (rt_subs (sy_r demo_failed))" "su_canceled (rt_subs (sy_r demo_failed) ! 0)"
      "adm_receipt demo_admission = adm_receipt (su_admission (rt_subs (sy_r demo_failed) ! 0))"
    by (simp_all add: demo_failed_def demo_sub_def)
  from canceled_connection_is_final [OF demo_reach(4) this(1,2) rtranclp.rtrancl_refl this(3)] show ?thesis by blast
qed

theorem only_a_current_failed_read_cancels_witness:
  "\<not> su_canceled (rt_subs (sy_r demo_reading) ! 0) \<and> su_canceled (rt_subs (sy_r demo_failed) ! 0)
   \<and> (\<exists>k n. rt_worker (sy_r demo_reading) = WorkerReading k 0 1 n)"
proof -
  have c: "\<not> su_canceled (rt_subs (sy_r demo_reading) ! 0)" "su_canceled (rt_subs (sy_r demo_failed) ! 0)"
      "0 < length (rt_subs (sy_r demo_reading))" "rt_accepting (sy_r demo_failed)"
    by (simp_all add: demo_failed_def demo_reading_def demo_simps)
  from only_a_current_failed_read_cancels [OF demo_reach(2) demo_fail c(3,2,1)] c show ?thesis
    by (auto simp: demo_reading_def demo_simps)
qed

definition demo_stopping :: retained_sys where
  "demo_stopping = demo_confirmed\<lparr>sy_r := Retained_BeginShutdown (sy_r demo_confirmed)\<rparr>"

theorem retained_shutdown_drains_witness:
  "rt_subscriptions (sy_r demo_stopping) = [0] \<and> su_withdrawn (rt_subs (sy_r demo_stopping) ! 0)
   \<and> \<not> Retained_drained (sy_r demo_stopping)
   \<and> Retained_drained (sy_r (fold retained_let_go [None, Some 0] demo_stopping))"
proof -
  have stop: "\<not> rt_accepting (sy_r demo_stopping)" "rt_subscriptions (sy_r demo_stopping) = [0]"
      "rt_worker (sy_r demo_stopping) = WorkerIdle"
    by (simp_all add: demo_stopping_def Retained_BeginShutdown_def demo_confirmed_def demo_simps)
  have reach: "retained_reach 0 demo_stopping"
    using demo_reach(3) unfolding retained_reach_def demo_stopping_def
    by (rule rtranclp.rtrancl_into_rtrancl) (rule retained_step.Shutdown)
  have hs: "distinct [None, Some (0::nat)]" "set [None, Some 0] = retained_holders demo_stopping"
    using stop by (auto simp: retained_holders_def)
  note drains = retained_shutdown_drains [OF reach stop(1)]
  have "Retained_drained (sy_r (fold retained_let_go [None, Some 0] demo_stopping))" using drains hs by blast
  moreover have "su_withdrawn (rt_subs (sy_r demo_stopping) ! 0)" using drains stop(2) by simp
  moreover have "\<not> Retained_drained (sy_r demo_stopping)" using stop(2) by (simp add: Retained_drained_def)
  ultimately show ?thesis using stop(2) by blast
qed

definition demo_change :: change where
  "demo_change = \<lparr> ch_Capture = demo_capture, ch_UserID = [], ch_SessionDigest = None \<rparr>"

definition demo_changed :: retained_sys where
  "demo_changed = demo_confirmed\<lparr>sy_r := demo_state (demo_entry 2 1 True None) 3 {0} 1 WorkerIdle\<rparr>"

definition demo_rereading :: retained_sys where
  "demo_rereading = demo_confirmed\<lparr>sy_r := demo_state (demo_entry 2 1 True (Some 1)) 3 {0} 2
     (WorkerReading (keyOf demo_admission) 0 2 1)\<rparr>"

definition demo_reread :: retained_sys where
  "demo_reread = demo_confirmed\<lparr>sy_r := demo_state (demo_entry 2 2 False None) 4 {0, 1} 2 WorkerIdle,
     sy_reads := {(0, 1, demo_validity), (0, 2, demo_validity)}\<rparr>"

lemma demo_announce: "BeginChange demo_change (sy_r demo_confirmed)
    = ([\<lparr> tg_entry = Some (0, 2), tg_subs = [0] \<rparr>], sy_r demo_changed)"
  by (simp add: BeginChange_def matching_ids_def matches_def reference_or_zero_def demo_capture_new demo_change_def
      demo_confirmed_def demo_changed_def demo_simps demo_capture_def markLocked_def upd_entry_def cancel_read_def
      signalLocked_def Let_def)

lemma demo_rebegin: "retained_step 0 demo_changed demo_rereading"
proof -
  have "demo_rereading = demo_changed\<lparr>sy_r := run_begin 0 (keyOf demo_admission) (sy_r demo_changed)\<rparr>"
    by (simp add: demo_rereading_def demo_changed_def run_begin_def run_scan_def expired_def upd_entry_def demo_simps)
  moreover have "rt_worker (sy_r demo_changed) = WorkerIdle" by (simp add: demo_changed_def demo_state_def)
  ultimately show ?thesis using retained_step.Begin [of demo_changed 0 0 "keyOf demo_admission"] by simp
qed

lemma demo_reconfirm: "retained_step 0 demo_rereading demo_reread"
proof -
  have "rt_worker (sy_r demo_rereading) = WorkerReading (keyOf demo_admission) 0 2 1"
      "en_admission (rt_heap (sy_r demo_rereading) ! 0) = demo_admission"
    by (simp_all add: demo_rereading_def demo_simps)
  from retained_step.ReadOk [OF this(1), of 0 "\<lambda>_. False" "\<lambda>_. Some demo_validity" demo_validity, unfolded this(2),
      OF demo_answer]
  have "retained_step 0 demo_rereading (demo_rereading\<lparr>sy_r := run_finish (Some demo_validity) (sy_r demo_rereading),
      sy_reads := insert (0, 2, demo_validity) (sy_reads demo_rereading)\<rparr>)" .
  moreover have "demo_reread = demo_rereading\<lparr>sy_r := run_finish (Some demo_validity) (sy_r demo_rereading),
      sy_reads := insert (0, 2, demo_validity) (sy_reads demo_rereading)\<rparr>"
    by (simp add: demo_reread_def demo_rereading_def demo_confirmed_def demo_simps run_finish_def upd_entry_def
        signalLocked_def insert_commute)
  ultimately show ?thesis by simp
qed

lemma demo_wait:
  "(change_wait 0)\<^sup>*\<^sup>* (demo_changed, obligations [\<lparr> tg_entry = Some (0, 2), tg_subs = [0] \<rparr>]) (demo_reread, [])"
proof -
  let ?os = "[AwaitEntry 0 2, CheckSub 0]"
  have turns: "wait_step (sy_r demo_reread) ?os = [CheckSub 0]" "wait_step (sy_r demo_reread) [CheckSub 0] = []"
    by (simp_all add: demo_reread_def demo_simps)
  have "change_wait 0 (demo_changed, ?os) (demo_rereading, ?os)" "change_wait 0 (demo_rereading, ?os) (demo_reread, ?os)"
    using demo_rebegin demo_reconfirm by (auto intro: change_wait.system)
  moreover have "change_wait 0 (demo_reread, ?os) (demo_reread, [CheckSub 0])"
      "change_wait 0 (demo_reread, [CheckSub 0]) (demo_reread, [])"
    using change_wait.turn [of 0 demo_reread ?os] change_wait.turn [of 0 demo_reread "[CheckSub 0]"] turns by simp_all
  moreover have "obligations [\<lparr> tg_entry = Some (0, 2), tg_subs = [0] \<rparr>] = ?os" by (simp add: obligations_def)
  ultimately show ?thesis by (metis (no_types, lifting) converse_rtranclp_into_rtranclp rtranclp.rtrancl_refl)
qed

theorem change_joins_or_rereads_witness:
  "matches demo_change (rt_heap (sy_r demo_confirmed) ! 0) \<and> \<not> su_done (rt_subs (sy_r demo_reread) ! 0)
   \<and> (\<exists>v x. 1 < v \<and> (0, v, x) \<in> sy_reads demo_reread)"
proof -
  have sub: "su_entry (rt_subs (sy_r demo_confirmed) ! 0) = 0" "en_version (rt_heap (sy_r demo_confirmed) ! 0) = 1"
      "0 \<in> set (rt_subscriptions (sy_r demo_confirmed))" "\<not> su_done (rt_subs (sy_r demo_reread) ! 0)"
    by (simp_all add: demo_confirmed_def demo_reread_def demo_simps)
  have m: "matches demo_change (rt_heap (sy_r demo_confirmed) ! 0)"
    by (simp add: matches_def reference_or_zero_def demo_capture_new demo_change_def demo_confirmed_def demo_simps
        demo_capture_def)
  have "demo_confirmed\<lparr>sy_r := sy_r demo_changed\<rparr> = demo_changed" by (simp add: demo_changed_def)
  from change_joins_or_rereads [OF demo_reach(3) demo_announce, unfolded this, OF demo_wait sub(3), unfolded sub, OF m]
    sub(4) m show ?thesis by blast
qed

end
