(* ===== verification/Connect_Udp.thy ===== *)
theory Connect_Udp
  imports Go_Prelude
begin

unbundle bit_operations_syntax

text \<open>
  UDP over an HTTP connection (\<open>src/internal/connectudp/capsule.go\<close>): QUIC variable-length
  integers, the DATAGRAM capsule, the reader that skips other capsules, and the request path that
  names the target.

  A reader is what is still to come: bytes, and the error after the last of them.  The limits and
  the wrap-around of \<open>uint64\<close> are kept.
\<close>

section \<open>Variable-length integers\<close>

type_synonym byte = "8 word"

datatype udp_error = EOF | UnexpectedEOF | ErrMalformed | ReadError nat

record reader =
  rd_bytes :: "byte list"
  rd_end :: udp_error

definition appendVarint :: "byte list \<Rightarrow> uint64 \<Rightarrow> byte list" where
  "appendVarint b v =
     (if v < push_bit 6 1 then b @ [ucast v]
      else if v < push_bit 14 1 then b @ [ucast (drop_bit 8 v) OR 0x40, ucast v]
      else if v < push_bit 30 1
        then b @ [ucast (drop_bit 24 v) OR 0x80, ucast (drop_bit 16 v), ucast (drop_bit 8 v), ucast v]
      else b @ [ucast (drop_bit 56 v) OR 0xC0, ucast (drop_bit 48 v), ucast (drop_bit 40 v),
                ucast (drop_bit 32 v), ucast (drop_bit 24 v), ucast (drop_bit 16 v), ucast (drop_bit 8 v),
                ucast v])"

definition varint_size :: "byte \<Rightarrow> nat" where
  "varint_size first = 2 ^ unat (drop_bit 6 first)"

definition unexpectedEOF :: "udp_error \<Rightarrow> udp_error" where
  "unexpectedEOF e = (if e = EOF then UnexpectedEOF else e)"

fun ReadByte :: "reader \<Rightarrow> (udp_error + byte) \<times> reader" where
  "ReadByte r = (case rd_bytes r of [] \<Rightarrow> (Inl (rd_end r), r) | b # bs \<Rightarrow> (Inr b, r\<lparr>rd_bytes := bs\<rparr>))"

text \<open>The loop over the remaining bytes of a varint.\<close>

fun read_more :: "nat \<Rightarrow> uint64 \<Rightarrow> reader \<Rightarrow> (udp_error + uint64) \<times> reader" where
  "read_more 0 v r = (Inr v, r)"
| "read_more (Suc n) v r =
     (case ReadByte r of
        (Inl e, r1) \<Rightarrow> (Inl (unexpectedEOF e), r1)
      | (Inr b, r1) \<Rightarrow> read_more n (push_bit 8 v OR ucast b) r1)"

definition readVarint :: "reader \<Rightarrow> (udp_error + uint64) \<times> reader" where
  "readVarint r =
     (case ReadByte r of
        (Inl e, r1) \<Rightarrow> (Inl e, r1)
      | (Inr first, r1) \<Rightarrow> read_more (varint_size first - 1) (ucast (first AND 0x3F)) r1)"

definition decodeVarint :: "byte list \<Rightarrow> uint64 \<times> nat" where
  "decodeVarint b =
     (case b of
        [] \<Rightarrow> (0, 0)
      | first # rest \<Rightarrow>
          (let sz = varint_size first in
           if length b < sz then (0, 0)
           else (foldl (\<lambda>v x. push_bit 8 v OR ucast x) (ucast (first AND 0x3F)) (take (sz - 1) rest), sz)))"

section \<open>Datagrams\<close>

definition datagramCapsule :: uint64 where
  "datagramCapsule = 0"

definition MaxDatagram :: nat where
  "MaxDatagram = 65535"

definition maxCapsule :: uint64 where
  "maxCapsule = 65535 + 16"

text \<open>The bytes \<open>WriteDatagram\<close> writes; \<open>None\<close> when it refuses the payload.\<close>

definition WriteDatagram :: "byte list \<Rightarrow> byte list option" where
  "WriteDatagram payload =
     (if MaxDatagram < length payload then None
      else (let value = appendVarint [] 0;
                frame = appendVarint [] datagramCapsule;
                frame = appendVarint frame (of_nat (length value + length payload))
            in Some (frame @ value @ payload)))"

text \<open>\<open>io.ReadFull\<close>: an end of input before the first byte stays as it is.\<close>

definition ReadFull :: "nat \<Rightarrow> reader \<Rightarrow> (udp_error + byte list) \<times> reader" where
  "ReadFull n r =
     (if n \<le> length (rd_bytes r)
      then (Inr (take n (rd_bytes r)), r\<lparr>rd_bytes := drop n (rd_bytes r)\<rparr>)
      else (Inl (if rd_bytes r \<noteq> [] then unexpectedEOF (rd_end r) else rd_end r), r\<lparr>rd_bytes := []\<rparr>))"

lemma read_more_shorter: "read_more n v r = (x, q) \<Longrightarrow> length (rd_bytes q) \<le> length (rd_bytes r)"
  by (induction n arbitrary: v r) (fastforce split: list.splits sum.splits prod.splits)+

lemma readVarint_shorter: "readVarint r = (Inr v, q) \<Longrightarrow> length (rd_bytes q) < length (rd_bytes r)"
  by (fastforce simp: readVarint_def split: list.splits sum.splits prod.splits dest: read_more_shorter)

lemma ReadFull_shorter: "ReadFull n r = (x, q) \<Longrightarrow> length (rd_bytes q) \<le> length (rd_bytes r)"
  by (auto simp: ReadFull_def split: if_splits)

text \<open>One capsule: its kind and value.\<close>

definition read_capsule :: "reader \<Rightarrow> (udp_error + uint64 \<times> byte list) \<times> reader" where
  "read_capsule r =
     (case readVarint r of
        (Inl e, r1) \<Rightarrow> (Inl e, r1)
      | (Inr kind, r1) \<Rightarrow>
          (case readVarint r1 of
             (Inl e, r2) \<Rightarrow> (Inl (unexpectedEOF e), r2)
           | (Inr len, r2) \<Rightarrow>
               if maxCapsule < len then (Inl ErrMalformed, r2)
               else (case ReadFull (unat len) r2 of
                   (Inl e, r3) \<Rightarrow> (Inl (unexpectedEOF e), r3)
                 | (Inr value, r3) \<Rightarrow> (Inr (kind, value), r3))))"

lemma read_capsule_shorter: "read_capsule r = (Inr x, q) \<Longrightarrow> length (rd_bytes q) < length (rd_bytes r)"
  by (auto simp: read_capsule_def split: prod.splits sum.splits if_splits
      dest!: readVarint_shorter ReadFull_shorter)

function ReadDatagram :: "reader \<Rightarrow> (udp_error + byte list) \<times> reader" where
  "ReadDatagram r =
     (case read_capsule r of
        (Inl e, r1) \<Rightarrow> (Inl e, r1)
      | (Inr (kind, value), r1) \<Rightarrow>
          if kind \<noteq> datagramCapsule then ReadDatagram r1
          else (case decodeVarint value of (context, sz) \<Rightarrow>
            if sz = 0 then (Inl ErrMalformed, r1)
            else if context \<noteq> 0 then ReadDatagram r1
            else (Inr (drop sz value), r1)))"
  by pat_completeness auto
termination
  by (relation "measure (\<lambda>r. length (rd_bytes r))") (auto dest: read_capsule_shorter [OF sym])

declare ReadDatagram.simps [simp del] ReadByte.simps [simp del]

section \<open>Integers are read back\<close>

lemma unat_up: "unat (ucast (b :: byte) :: uint64) = unat b"
proof -
  have "unat b < 256" using unsigned_less [of b, where ?'a = nat] by simp
  then show ?thesis by (simp add: unsigned_ucast_eq take_bit_eq_mod)
qed

lemma shift_or: "unat v < 2 ^ 56 \<Longrightarrow> unat (push_bit 8 v OR ucast (b :: byte) :: uint64) = 256 * unat v + unat b"
proof -
  assume v: "unat v < 2 ^ 56"
  have "push_bit 8 v OR ucast b = push_bit 8 v + (ucast b :: uint64)"
  proof (rule disjunctive_add_eq_or [symmetric], rule bit_eqI)
    fix n
    have "\<not> bit b n" if "8 \<le> n" using that bit_imp_le_length [of b n] by auto
    then show "bit (push_bit 8 v AND ucast b) n = bit (0 :: uint64) n" by (auto simp: bit_simps)
  qed
  moreover have "unat (push_bit 8 v) = 256 * unat v"
    using v by (simp add: push_bit_eq_mult unat_word_ariths mult.commute)
  moreover have "unat (ucast b :: uint64) = unat b" by (rule unat_up)
  moreover have "256 * unat v + unat b < 2 ^ 64"
    using v unsigned_less [of b, where ?'a = nat] by simp
  ultimately show ?thesis by (simp add: unat_word_ariths)
qed

definition be_value :: "nat \<Rightarrow> byte list \<Rightarrow> nat" where
  "be_value n bs = foldl (\<lambda>v b. 256 * v + unat b) n bs"

lemma be_value_simps [simp]: "be_value n [] = n" "be_value n (b # bs) = be_value (256 * n + unat b) bs"
  by (simp_all add: be_value_def)

lemma be_value_ge: "n \<le> be_value n bs"
proof (induction bs arbitrary: n)
  case (Cons b bs)
  have "n \<le> 256 * n + unat b" by simp
  also have "\<dots> \<le> be_value (256 * n + unat b) bs" by (rule Cons.IH)
  finally show ?case by simp
qed simp

lemma fold_shift:
  "be_value (unat v) bs < 2 ^ 64 \<Longrightarrow>
   unat (foldl (\<lambda>v x. push_bit 8 v OR ucast x) (v :: uint64) bs) = be_value (unat v) bs"
proof (induction bs arbitrary: v)
  case (Cons b bs)
  have "256 * unat v + unat b \<le> be_value (256 * unat v + unat b) bs" by (rule be_value_ge)
  with Cons have "unat v < 2 ^ 56" by simp
  then have "unat (push_bit 8 v OR ucast b) = 256 * unat v + unat b" by (rule shift_or)
  with Cons show ?case by simp
qed simp

lemma byte_of_shift: "unat (ucast (drop_bit k v) :: byte) = unat (v :: uint64) div 2 ^ k mod 256"
proof -
  have "unat (drop_bit k v) = unat v div 2 ^ k" using unat_drop_bit_eq [of k v] by (simp only: drop_bit_eq_div [where ?'a = nat])
  then show ?thesis by (simp only: unsigned_ucast_eq take_bit_eq_mod) simp
qed

lemma byte_of: "unat (ucast v :: byte) = unat (v :: uint64) mod 256"
  using byte_of_shift [of 0 v] by simp

text \<open>The low bytes of a number put back, from the most significant one.\<close>

definition low_bytes :: "nat \<Rightarrow> uint64 \<Rightarrow> byte list" where
  "low_bytes m v = map (\<lambda>i. ucast (drop_bit (8 * i) v)) (rev [0..<m])"

lemma be_value_low_bytes: "be_value (unat v div 2 ^ (8 * m)) (low_bytes m v) = unat v"
proof (induction m)
  case (Suc m)
  have "unat v div 2 ^ (8 * Suc m) = unat v div 2 ^ (8 * m) div 256"
    using div_mult2_eq [of "unat v" "2 ^ (8 * m)" 256] by (simp add: power_add mult.commute [of 256])
  then have "256 * (unat v div 2 ^ (8 * Suc m)) + unat v div 2 ^ (8 * m) mod 256 = unat v div 2 ^ (8 * m)"
    by (simp add: mult_div_mod_eq)
  then show ?case using Suc by (simp add: low_bytes_def byte_of_shift)
qed (simp add: low_bytes_def)

lemma fold_low_bytes:
  assumes "unat (ucast h :: uint64) = unat v div 2 ^ (8 * m)"
  shows "foldl (\<lambda>v x. push_bit 8 v OR ucast x) (ucast (h :: byte)) (low_bytes m v) = v"
proof -
  have "be_value (unat (ucast h :: uint64)) (low_bytes m v) = unat v" unfolding assms by (rule be_value_low_bytes)
  moreover have "unat v < 2 ^ 64" using unsigned_less [of v, where ?'a = nat] by simp
  ultimately have "unat (foldl (\<lambda>v x. push_bit 8 v OR ucast x) (ucast h :: uint64) (low_bytes m v)) = unat v"
    by (simp add: fold_shift)
  then show ?thesis by (simp only: word_unat_eq_iff)
qed

text \<open>The two top bits of the first byte name the size.\<close>

lemma small_byte:
  assumes "unat (b :: byte) < 64"
  shows "drop_bit 6 b = 0" "b AND 0x3F = b"
proof -
  have "unat (drop_bit 6 b) = 0" using unat_drop_bit_eq [of 6 b] assms by (simp only: drop_bit_eq_div [where ?'a = nat]) simp
  then show "drop_bit 6 b = 0" by (simp only: unat_eq_0)
  have "unat (take_bit 6 b) = unat b" using assms by (simp only: unsigned_take_bit_eq) (simp add: take_bit_nat_eq_self)
  then have "take_bit 6 b = b" by (simp only: word_unat_eq_iff)
  then show "b AND 0x3F = b" by (simp add: take_bit_eq_mask mask_numeral)
qed

lemma first_byte:
  assumes "unat (b :: byte) < 64"
  shows "varint_size b = 1" "varint_size (b OR 0x40) = 2" "varint_size (b OR 0x80) = 4" "varint_size (b OR 0xC0) = 8"
    "(b OR 0x40) AND 0x3F = b" "(b OR 0x80) AND 0x3F = b" "(b OR 0xC0) AND 0x3F = b"
  using small_byte [OF assms] by (simp_all add: varint_size_def bit.conj_disj_distrib2)

lemma read_more_bytes:
  "length bs = n \<Longrightarrow> read_more n v (r\<lparr>rd_bytes := bs @ rest\<rparr>) =
     (Inr (foldl (\<lambda>v x. push_bit 8 v OR ucast x) v bs), r\<lparr>rd_bytes := rest\<rparr>)"
  by (induction bs arbitrary: n v) (auto simp: ReadByte.simps)

lemma read_more_short:
  "length bs < n \<Longrightarrow> read_more n v (r\<lparr>rd_bytes := bs\<rparr>) = (Inl (unexpectedEOF (rd_end r)), r\<lparr>rd_bytes := []\<rparr>)"
  by (induction n arbitrary: bs v) (auto simp: ReadByte.simps split: list.splits)

text \<open>What an encoding consists of.\<close>

definition varint :: "uint64 \<Rightarrow> byte list" where
  "varint v = appendVarint [] v"

lemma appendVarint_append: "appendVarint b v = b @ varint v"
  by (simp add: appendVarint_def varint_def)

lemma varint_shape:
  assumes "unat v < 2 ^ 62"
  shows "\<exists>first rest. varint v = first # rest \<and> length rest = varint_size first - 1
    \<and> foldl (\<lambda>v x. push_bit 8 v OR ucast x) (ucast (first AND 0x3F)) rest = v"
proof -
  have word: "v < push_bit 6 1 \<longleftrightarrow> unat v < 2 ^ 6" "v < push_bit 14 1 \<longleftrightarrow> unat v < 2 ^ 14"
      "v < push_bit 30 1 \<longleftrightarrow> unat v < 2 ^ 30"
    by (simp_all add: word_less_nat_alt push_bit_eq_mult)
  have low: "low_bytes 0 v = []" "low_bytes 1 v = [ucast v]"
      "low_bytes 3 v = [ucast (drop_bit 16 v), ucast (drop_bit 8 v), ucast v]"
      "low_bytes 7 v = [ucast (drop_bit 48 v), ucast (drop_bit 40 v), ucast (drop_bit 32 v), ucast (drop_bit 24 v),
         ucast (drop_bit 16 v), ucast (drop_bit 8 v), ucast v]"
    by (simp_all add: low_bytes_def numeral_eq_Suc)
  have shape: ?thesis if "varint v = first # low_bytes m v" "first AND 0x3F = h" "varint_size first = Suc m"
      "h = ucast (drop_bit (8 * m) v)" "unat v < 2 ^ (8 * m + 6)" for first h m
  proof -
    have "unat v div 2 ^ (8 * m) < 64" using that(5) by (simp add: div_less_iff_less_mult power_add mult.commute)
    then have "unat (ucast h :: uint64) = unat v div 2 ^ (8 * m)"
      unfolding that(4) by (simp only: unat_up byte_of_shift) simp
    from fold_low_bytes [OF this] that(1-3) show ?thesis by (simp add: low_bytes_def)
  qed
  have head: "unat (ucast (drop_bit (8 * m) v) :: byte) < 64" if "unat v < 2 ^ (8 * m + 6)" for m
  proof -
    have "unat v div 2 ^ (8 * m) < 64" using that by (simp add: div_less_iff_less_mult power_add mult.commute)
    then show ?thesis by (simp only: byte_of_shift)
  qed
  consider "unat v < 2 ^ 6" | "2 ^ 6 \<le> unat v" "unat v < 2 ^ 14" | "2 ^ 14 \<le> unat v" "unat v < 2 ^ 30"
    | "2 ^ 30 \<le> unat v" using linorder_not_le by blast
  then show ?thesis
  proof cases
    case 1
    let ?h = "ucast v :: byte"
    have b: "unat ?h < 64" using head [of 0] 1 by simp
    have v: "varint v = ?h # low_bytes 0 v" using 1 word(1) unfolding low by (simp add: varint_def appendVarint_def)
    show ?thesis by (rule shape [OF v small_byte(2) [OF b]]) (use first_byte(1) [OF b] 1 in simp_all)
  next
    case 2
    let ?h = "ucast (drop_bit 8 v) :: byte"
    have b: "unat ?h < 64" using head [of 1] 2 by simp
    have v: "varint v = (?h OR 0x40) # low_bytes 1 v" using 2 word unfolding low by (simp add: varint_def appendVarint_def)
    show ?thesis by (rule shape [OF v first_byte(5) [OF b]]) (use first_byte(2) [OF b] 2 in simp_all)
  next
    case 3
    let ?h = "ucast (drop_bit 24 v) :: byte"
    have b: "unat ?h < 64" using head [of 3] 3 by simp
    have v: "varint v = (?h OR 0x80) # low_bytes 3 v" using 3 word unfolding low by (simp add: varint_def appendVarint_def)
    show ?thesis by (rule shape [OF v first_byte(6) [OF b]]) (use first_byte(3) [OF b] 3 in simp_all)
  next
    case 4
    let ?h = "ucast (drop_bit 56 v) :: byte"
    have b: "unat ?h < 64" using head [of 7] assms by simp
    have v: "varint v = (?h OR 0xC0) # low_bytes 7 v" using 4 word unfolding low by (simp add: varint_def appendVarint_def)
    show ?thesis by (rule shape [OF v first_byte(7) [OF b]]) (use first_byte(4) [OF b] assms in simp_all)
  qed
qed

lemma readVarint_varint:
  assumes "unat v < 2 ^ 62"
  shows "readVarint (r\<lparr>rd_bytes := varint v @ rest\<rparr>) = (Inr v, r\<lparr>rd_bytes := rest\<rparr>)"
proof -
  obtain first tail where v: "varint v = first # tail" "length tail = varint_size first - 1"
      "foldl (\<lambda>v x. push_bit 8 v OR ucast x) (ucast (first AND 0x3F)) tail = v"
    using varint_shape [OF assms] by blast
  then show ?thesis using read_more_bytes [OF v(2)] by (simp add: readVarint_def ReadByte.simps)
qed

lemma decodeVarint_varint:
  assumes "unat v < 2 ^ 62"
  shows "decodeVarint (varint v @ rest) = (v, length (varint v))"
proof -
  obtain first tail where v: "varint v = first # tail" "length tail = varint_size first - 1"
      "foldl (\<lambda>v x. push_bit 8 v OR ucast x) (ucast (first AND 0x3F)) tail = v"
    using varint_shape [OF assms] by blast
  moreover have "0 < varint_size first" by (simp add: varint_size_def)
  ultimately show ?thesis by (simp add: decodeVarint_def Let_def)
qed

section \<open>Datagrams are read back\<close>

text \<open>
  What may stand in a stream: the frame of a datagram, or a capsule that is to be skipped, of
  another kind or for another context.
\<close>

datatype capsule = Datagram "byte list" | Foreign uint64 "byte list"

definition frame :: "uint64 \<Rightarrow> byte list \<Rightarrow> byte list" where
  "frame kind v = varint kind @ varint (of_nat (length v)) @ v"

fun capsule_bytes :: "capsule \<Rightarrow> byte list" where
  "capsule_bytes (Datagram p) = (case WriteDatagram p of None \<Rightarrow> [] | Some f \<Rightarrow> f)"
| "capsule_bytes (Foreign kind v) = frame kind v"

fun capsule_ok :: "capsule \<Rightarrow> bool" where
  "capsule_ok (Datagram p) \<longleftrightarrow> WriteDatagram p \<noteq> None"
| "capsule_ok (Foreign kind v) \<longleftrightarrow> unat kind < 2 ^ 62 \<and> length v \<le> unat maxCapsule
     \<and> (kind = datagramCapsule \<longrightarrow> fst (decodeVarint v) \<noteq> 0)"

fun payload :: "capsule \<Rightarrow> byte list option" where
  "payload (Datagram p) = Some p"
| "payload (Foreign _ _) = None"

text \<open>A relay that reads until an error: the datagrams it hands on, and the error.\<close>

lemma ReadDatagram_shorter: "ReadDatagram r = (Inr p, q) \<Longrightarrow> length (rd_bytes q) < length (rd_bytes r)"
proof (induction r rule: ReadDatagram.induct)
  case (1 r)
  obtain kind v r1 where c: "read_capsule r = (Inr (kind, v), r1)"
    using 1(3) by (subst (asm) ReadDatagram.simps) (auto split: prod.splits sum.splits)
  obtain ctxid sz where d: "decodeVarint v = (ctxid, sz)" by fastforce
  have less: "length (rd_bytes r1) < length (rd_bytes r)" using read_capsule_shorter [OF c] .
  show ?case
  proof (cases "kind \<noteq> datagramCapsule \<or> sz \<noteq> 0 \<and> ctxid \<noteq> 0")
    case True
    then have "ReadDatagram r1 = (Inr p, q)"
      using 1(3) c d by (subst (asm) ReadDatagram.simps) (auto split: if_splits)
    then have "length (rd_bytes q) < length (rd_bytes r1)" using True 1(1,2) c d by (cases "kind = datagramCapsule") auto
    with less show ?thesis by simp
  next
    case False
    then show ?thesis using 1(3) c d less by (subst (asm) ReadDatagram.simps) (auto split: if_splits)
  qed
qed

function read_all :: "reader \<Rightarrow> byte list list \<times> udp_error" where
  "read_all r = (case ReadDatagram r of (Inl e, _) \<Rightarrow> ([], e)
     | (Inr p, q) \<Rightarrow> (case read_all q of (ps, e) \<Rightarrow> (p # ps, e)))"
  by pat_completeness auto
termination
  by (relation "measure (\<lambda>r. length (rd_bytes r))") (auto dest: ReadDatagram_shorter [OF sym])

declare read_all.simps [simp del]

lemma varint_zero: "varint 0 = [0]"
  by (simp add: varint_def appendVarint_def)

lemma WriteDatagram_frame:
  "WriteDatagram p = (if length p \<le> MaxDatagram then Some (frame datagramCapsule (0 # p)) else None)"
  by (simp add: WriteDatagram_def frame_def appendVarint_append Let_def varint_zero datagramCapsule_def flip: varint_def)

lemma of_nat_len: "n \<le> unat maxCapsule \<Longrightarrow> unat (of_nat n :: uint64) = n"
  by (simp add: maxCapsule_def unat_of_nat)

lemma read_capsule_frame:
  assumes "unat kind < 2 ^ 62" "length v \<le> unat maxCapsule"
  shows "read_capsule (r\<lparr>rd_bytes := frame kind v @ rest\<rparr>) = (Inr (kind, v), r\<lparr>rd_bytes := rest\<rparr>)"
proof -
  let ?n = "of_nat (length v) :: uint64"
  have n: "unat ?n = length v" using of_nat_len [OF assms(2)] .
  then have "unat ?n < 2 ^ 62" using assms(2) by (simp add: maxCapsule_def)
  note head = readVarint_varint [OF assms(1), where r = r and rest = "varint ?n @ v @ rest"]
    readVarint_varint [OF this, where r = r and rest = "v @ rest"]
  have "\<not> maxCapsule < ?n" using assms(2) n by (simp add: word_less_nat_alt not_less)
  then show ?thesis using head n by (simp add: read_capsule_def frame_def ReadFull_def)
qed

lemma ReadDatagram_written:
  assumes "WriteDatagram p = Some f"
  shows "ReadDatagram (r\<lparr>rd_bytes := f @ rest\<rparr>) = (Inr p, r\<lparr>rd_bytes := rest\<rparr>)"
proof -
  have f: "f = frame datagramCapsule (0 # p)" and "length p \<le> MaxDatagram"
    using assms by (auto simp: WriteDatagram_frame split: if_splits)
  then have "length (0 # p) \<le> unat maxCapsule" by (simp add: MaxDatagram_def maxCapsule_def)
  moreover have "decodeVarint (0 # p) = (0, 1)" using decodeVarint_varint [of 0 p] by (simp add: varint_zero)
  ultimately show ?thesis
    using read_capsule_frame [of datagramCapsule "0 # p", where r = r and rest = rest]
    by (subst ReadDatagram.simps) (simp add: f datagramCapsule_def)
qed

lemma decodeVarint_size: "snd (decodeVarint v) = 0 \<Longrightarrow> fst (decodeVarint v) = 0"
  by (auto simp: decodeVarint_def Let_def varint_size_def split: list.splits if_splits)

lemma ReadDatagram_foreign:
  assumes "capsule_ok (Foreign kind v)"
  shows "ReadDatagram (r\<lparr>rd_bytes := frame kind v @ rest\<rparr>) = ReadDatagram (r\<lparr>rd_bytes := rest\<rparr>)"
proof -
  have "read_capsule (r\<lparr>rd_bytes := frame kind v @ rest\<rparr>) = (Inr (kind, v), r\<lparr>rd_bytes := rest\<rparr>)"
    using assms by (intro read_capsule_frame) auto
  then show ?thesis
    using assms decodeVarint_size [of v] by (subst ReadDatagram.simps) (auto split: prod.splits)
qed

lemma read_all_capsules:
  assumes "list_all capsule_ok cs" "read_all (r\<lparr>rd_bytes := rest\<rparr>) = (ps, e)"
  shows "read_all (r\<lparr>rd_bytes := concat (map capsule_bytes cs) @ rest\<rparr>) = (List.map_filter payload cs @ ps, e)"
  using assms
proof (induction cs)
  case (Cons c cs)
  show ?case
  proof (cases c)
    case (Datagram p)
    then obtain f where f: "WriteDatagram p = Some f" using Cons.prems by auto
    from ReadDatagram_written [OF f, where r = r] Cons Datagram f show ?thesis
      by (subst read_all.simps) (simp add: map_filter_simps)
  next
    case (Foreign kind v)
    let ?r = "r\<lparr>rd_bytes := concat (map capsule_bytes cs) @ rest\<rparr>"
    have "ReadDatagram (r\<lparr>rd_bytes := frame kind v @ concat (map capsule_bytes cs) @ rest\<rparr>) = ReadDatagram ?r"
      using Cons.prems Foreign by (intro ReadDatagram_foreign) simp
    then have "read_all (r\<lparr>rd_bytes := frame kind v @ concat (map capsule_bytes cs) @ rest\<rparr>) = read_all ?r"
      by (simp add: read_all.simps)
    then show ?thesis using Cons Foreign by (simp add: map_filter_simps)
  qed
qed (simp add: map_filter_simps)

section \<open>Truncated streams\<close>

lemma readVarint_short:
  assumes v: "unat v < 2 ^ 62" and bs: "prefix bs (varint v)" "bs \<noteq> varint v"
  shows "readVarint (r\<lparr>rd_bytes := bs\<rparr>) =
    (Inl (if bs = [] then rd_end r else unexpectedEOF (rd_end r)), r\<lparr>rd_bytes := []\<rparr>)"
proof -
  obtain first tail where sh: "varint v = first # tail" "length tail = varint_size first - 1"
    using varint_shape [OF v] by blast
  show ?thesis
  proof (cases bs)
    case (Cons b bs')
    then have "b = first" "prefix bs' tail" "bs' \<noteq> tail" using bs sh by auto
    then have "length bs' < varint_size first - 1"
      using sh(2) by (metis prefix_order.less_le_not_le prefix_length_less prefix_order.nless_le)
    then show ?thesis using \<open>b = first\<close> Cons by (simp add: readVarint_def ReadByte.simps read_more_short)
  qed (simp add: readVarint_def ReadByte.simps)
qed

lemma strict_prefix_append:
  assumes "prefix bs (xs @ ys)" "bs \<noteq> xs @ ys"
  shows "prefix bs xs \<and> bs \<noteq> xs \<or> (\<exists>cs. bs = xs @ cs \<and> prefix cs ys \<and> cs \<noteq> ys)"
  using assms unfolding prefix_append by (metis append_Nil2 Nil_prefix)

lemma read_capsule_short:
  assumes kind: "unat kind < 2 ^ 62" and len: "length v \<le> unat maxCapsule"
    and bs: "prefix bs (frame kind v)" "bs \<noteq> frame kind v" "bs \<noteq> []"
  shows "fst (read_capsule (r\<lparr>rd_bytes := bs\<rparr>)) = Inl (unexpectedEOF (rd_end r))"
proof -
  let ?n = "of_nat (length v) :: uint64"
  have n: "unat ?n = length v" using of_nat_len [OF len] .
  then have small: "unat ?n < 2 ^ 62" using len by (simp add: maxCapsule_def)
  have fits: "\<not> maxCapsule < ?n" using len n by (simp add: word_less_nat_alt not_less)
  have twice: "unexpectedEOF (unexpectedEOF e) = unexpectedEOF e" for e by (simp add: unexpectedEOF_def)
  consider "prefix bs (varint kind)" "bs \<noteq> varint kind"
    | cs where "bs = varint kind @ cs" "prefix cs (varint ?n)" "cs \<noteq> varint ?n"
    | cs where "bs = varint kind @ varint ?n @ cs" "prefix cs v" "cs \<noteq> v"
    using strict_prefix_append [OF bs(1,2) [unfolded frame_def]] strict_prefix_append [of _ "varint ?n" v] by metis
  then show ?thesis
  proof cases
    case 1
    then show ?thesis using readVarint_short [OF kind 1] bs(3) by (simp add: read_capsule_def)
  next
    case (2 cs)
    then show ?thesis
      using readVarint_varint [OF kind, where r = r and rest = cs] readVarint_short [OF small 2(2,3)]
      by (simp add: read_capsule_def twice)
  next
    case (3 cs)
    then have "length cs < length v" by (simp add: prefix_length_less prefix_order.less_le)
    then show ?thesis
      using readVarint_varint [OF kind, where r = r and rest = "varint ?n @ cs"]
        readVarint_varint [OF small, where r = r and rest = cs] fits n 3(1)
      by (simp add: read_capsule_def ReadFull_def twice)
  qed
qed

lemma read_all_short:
  assumes c: "capsule_ok c" and bs: "prefix bs (capsule_bytes c)" "bs \<noteq> capsule_bytes c" "bs \<noteq> []"
  shows "read_all (r\<lparr>rd_bytes := bs\<rparr>) = ([], unexpectedEOF (rd_end r))"
proof -
  obtain kind v where kv: "capsule_bytes c = frame kind v" "unat kind < 2 ^ 62" "length v \<le> unat maxCapsule"
  proof (cases c)
    case (Datagram p)
    then have "capsule_bytes c = frame datagramCapsule (0 # p)" "length p \<le> MaxDatagram"
      using c by (auto simp: WriteDatagram_frame split: if_splits)
    then show thesis using that [of datagramCapsule "0 # p"] by (simp add: datagramCapsule_def MaxDatagram_def maxCapsule_def)
  next
    case (Foreign kind v)
    then show thesis using c that [of kind v] by simp
  qed
  from read_capsule_short [OF this(2,3) bs [unfolded this(1)], where r = r]
  obtain q where "read_capsule (r\<lparr>rd_bytes := bs\<rparr>) = (Inl (unexpectedEOF (rd_end r)), q)" by (metis prod.collapse)
  then show ?thesis by (subst read_all.simps, subst ReadDatagram.simps) simp
qed

section \<open>Properties of the stream\<close>

text \<open>C21: round trip.  However datagrams are interleaved with capsules that are to be skipped, a
  reader of the stream gets exactly the payloads that were written, whole and in order, and then
  the error at which the stream ends.\<close>

theorem datagrams_read_back:
  assumes "list_all capsule_ok cs"
  shows "read_all \<lparr> rd_bytes = concat (map capsule_bytes cs), rd_end = e \<rparr> = (List.map_filter payload cs, e)"
proof -
  have "read_all (\<lparr> rd_bytes = [], rd_end = e \<rparr>\<lparr>rd_bytes := []\<rparr>) = ([], e)"
    by (subst read_all.simps, subst ReadDatagram.simps) (simp add: read_capsule_def readVarint_def ReadByte.simps)
  from read_all_capsules [OF assms this] show ?thesis by simp
qed

text \<open>C22: a stream cut off inside a capsule.  The reader gets the payloads of the capsules before
  the cut and then an error that cannot be taken for the end of the stream; no part of the cut
  capsule is handed on as a datagram.\<close>

theorem truncated_stream_detected:
  assumes "list_all capsule_ok cs" and "capsule_ok c"
    and "prefix bs (capsule_bytes c)" and "bs \<noteq> capsule_bytes c" and "bs \<noteq> []"
  shows "read_all \<lparr> rd_bytes = concat (map capsule_bytes cs) @ bs, rd_end = e \<rparr>
      = (List.map_filter payload cs, unexpectedEOF e) \<and> unexpectedEOF e \<noteq> EOF"
  using read_all_capsules [OF assms(1) read_all_short [OF assms(2-5)], where r = "\<lparr> rd_bytes = [], rd_end = e \<rparr>"]
  by (simp add: unexpectedEOF_def)

lemma read_capsule_bound: "read_capsule r = (Inr (kind, v), q) \<Longrightarrow> length v \<le> unat maxCapsule"
  by (auto simp: read_capsule_def ReadFull_def word_less_nat_alt not_less split: prod.splits sum.splits if_splits)

lemma ReadDatagram_bound: "ReadDatagram r = (Inr p, q) \<Longrightarrow> length p < unat maxCapsule"
proof (induction r rule: ReadDatagram.induct)
  case (1 r)
  obtain kind v r1 where c: "read_capsule r = (Inr (kind, v), r1)"
    using 1(3) by (subst (asm) ReadDatagram.simps) (auto split: prod.splits sum.splits)
  obtain ctxid sz where d: "decodeVarint v = (ctxid, sz)" by fastforce
  show ?case
  proof (cases "kind \<noteq> datagramCapsule \<or> sz \<noteq> 0 \<and> ctxid \<noteq> 0")
    case True
    then have "ReadDatagram r1 = (Inr p, q)"
      using 1(3) c d by (subst (asm) ReadDatagram.simps) (auto split: if_splits)
    then show ?thesis using True 1(1,2) c d by (cases "kind = datagramCapsule") auto
  next
    case False
    then have "p = drop sz v" "sz \<noteq> 0" using 1(3) c d by (subst (asm) ReadDatagram.simps; auto split: if_splits)+
    then show ?thesis using read_capsule_bound [OF c] by (simp add: maxCapsule_def)
  qed
qed

lemma ReadDatagram_longest:
  "ReadDatagram \<lparr> rd_bytes = frame datagramCapsule (0 # replicate 65550 x), rd_end = EOF \<rparr>
     = (Inr (replicate 65550 x), \<lparr> rd_bytes = [], rd_end = EOF \<rparr>)"
proof -
  let ?p = "replicate 65550 x"
  have "length (0 # ?p) \<le> unat maxCapsule" by (simp add: maxCapsule_def)
  then have "read_capsule (\<lparr> rd_bytes = [], rd_end = EOF \<rparr>\<lparr>rd_bytes := frame datagramCapsule (0 # ?p) @ []\<rparr>)
      = (Inr (datagramCapsule, 0 # ?p), \<lparr> rd_bytes = [], rd_end = EOF \<rparr>\<lparr>rd_bytes := []\<rparr>)"
    by (intro read_capsule_frame) (simp_all add: datagramCapsule_def)
  moreover have "decodeVarint (0 # ?p) = (0, 1)" using decodeVarint_varint [of 0 ?p] by (simp add: varint_zero)
  ultimately show ?thesis by (subst ReadDatagram.simps) (simp only: append_Nil2 reader.simps prod.case sum.case, simp)
qed

text \<open>What a hostile peer can make the reader hand on.  No datagram is longer than 65,550 bytes,
  whatever the stream holds; the bound is exact, so the reader hands on payloads of up to fifteen
  bytes more than \<open>MaxDatagram\<close>, which \<open>WriteDatagram\<close> would refuse.\<close>

theorem datagram_size_bound:
  "(\<forall>r p q. ReadDatagram r = (Inr p, q) \<longrightarrow> length p \<le> MaxDatagram + 15)
   \<and> (\<exists>r p q. ReadDatagram r = (Inr p, q) \<and> length p = MaxDatagram + 15 \<and> WriteDatagram p = None)"
proof -
  have "length p \<le> MaxDatagram + 15" if "ReadDatagram r = (Inr p, q)" for r p q
    using ReadDatagram_bound [OF that] by (simp add: maxCapsule_def MaxDatagram_def)
  moreover have "WriteDatagram (replicate 65550 0) = None" by (simp add: WriteDatagram_def MaxDatagram_def)
  moreover have "length (replicate 65550 0) = MaxDatagram + 15" by (simp add: MaxDatagram_def)
  ultimately show ?thesis using ReadDatagram_longest [of 0] by blast
qed

lemma read_more_facts:
  "read_more n v r = (x, q) \<Longrightarrow> rd_end q = rd_end r \<and> (x \<in> range Inr \<or> x = Inl (unexpectedEOF (rd_end r)))"
proof (induction n arbitrary: v r)
  case (Suc n)
  then show ?case by (cases "rd_bytes r") (fastforce simp: ReadByte.simps)+
qed auto

lemma readVarint_facts:
  assumes "readVarint r = (x, q)"
  shows "rd_end q = rd_end r \<and> (x \<in> range Inr \<or> x \<in> Inl ` {rd_end r, unexpectedEOF (rd_end r)})"
  using assms read_more_facts by (cases "rd_bytes r") (fastforce simp: readVarint_def ReadByte.simps)+

lemma read_capsule_facts:
  assumes "read_capsule r = (x, q)"
  shows "rd_end q = rd_end r \<and> (\<forall>e. x = Inl e \<longrightarrow> e \<in> {rd_end r, unexpectedEOF (rd_end r), ErrMalformed})"
    and "x = Inr (kind, v) \<Longrightarrow> length (rd_bytes q) + length v + 2 \<le> length (rd_bytes r)"
proof -
  obtain y r1 where y: "readVarint r = (y, r1)" by fastforce
  obtain z r2 where z: "readVarint r1 = (z, r2)" by fastforce
  note facts = readVarint_facts [OF y] readVarint_facts [OF z]
  have twice: "unexpectedEOF (unexpectedEOF e) = unexpectedEOF e" for e by (simp add: unexpectedEOF_def)
  show "rd_end q = rd_end r \<and> (\<forall>e. x = Inl e \<longrightarrow> e \<in> {rd_end r, unexpectedEOF (rd_end r), ErrMalformed})"
    using assms facts twice
    by (auto simp: read_capsule_def y z ReadFull_def split: if_splits sum.splits)
  show "length (rd_bytes q) + length v + 2 \<le> length (rd_bytes r)" if x: "x = Inr (kind, v)"
  proof -
    obtain k n where kn: "y = Inr k" "z = Inr n"
      using assms x by (cases y; cases z) (auto simp: read_capsule_def y z)
    then have "length (rd_bytes q) + length v = length (rd_bytes r2)"
      using assms x by (auto simp: read_capsule_def y z ReadFull_def split: if_splits)
    then show ?thesis using readVarint_shorter [OF y [unfolded kn]] readVarint_shorter [OF z [unfolded kn]] by simp
  qed
qed

lemma ReadDatagram_facts:
  assumes "ReadDatagram r = (x, q)"
  shows "rd_end q = rd_end r \<and> (\<forall>e. x = Inl e \<longrightarrow> e \<in> {rd_end r, unexpectedEOF (rd_end r), ErrMalformed})
    \<and> (\<forall>p. x = Inr p \<longrightarrow> length (rd_bytes q) + 3 \<le> length (rd_bytes r))"
  using assms
proof (induction r rule: ReadDatagram.induct)
  case (1 r)
  obtain y r1 where y: "read_capsule r = (y, r1)" by fastforce
  note facts = read_capsule_facts(1) [OF y]
  show ?case
  proof (cases y)
    case (Inl e)
    then have "x = Inl e \<and> q = r1" using 1(3) y by (subst (asm) ReadDatagram.simps) auto
    then show ?thesis using facts Inl by auto
  next
    case (Inr kv)
    obtain kind v where kv: "kv = (kind, v)" by fastforce
    obtain ctxid sz where d: "decodeVarint v = (ctxid, sz)" by fastforce
    note less = read_capsule_facts(2) [OF y, of kind v, unfolded Inr kv, OF refl]
    show ?thesis
    proof (cases "kind \<noteq> datagramCapsule \<or> sz \<noteq> 0 \<and> ctxid \<noteq> 0")
      case True
      then have "ReadDatagram r1 = (x, q)"
        using 1(3) y Inr kv d by (subst (asm) ReadDatagram.simps) (auto split: if_splits)
      then show ?thesis
        using True 1(1,2) y Inr kv d facts less by (cases "kind = datagramCapsule") force+
    next
      case False
      then have "x = (if sz = 0 then Inl ErrMalformed else Inr (drop sz v)) \<and> q = r1"
        using 1(3) y Inr kv d by (subst (asm) ReadDatagram.simps) (auto split: if_splits)
      moreover have "sz \<noteq> 0 \<Longrightarrow> v \<noteq> []" using d by (auto simp: decodeVarint_def)
      ultimately show ?thesis using less facts by (cases v) auto
    qed
  qed
qed

text \<open>C23: a reader always comes to the end.  Every datagram consumes at least three bytes of the
  stream, so reading a stream to its end returns, with at most a third as many datagrams as bytes,
  and the error at the end is the stream's own, an unexpected end, or a malformed capsule.\<close>

theorem reader_comes_to_an_end:
  "3 * length (fst (read_all r)) \<le> length (rd_bytes r)
   \<and> snd (read_all r) \<in> {rd_end r, unexpectedEOF (rd_end r), ErrMalformed}"
proof (induction r rule: read_all.induct)
  case (1 r)
  obtain x q where x: "ReadDatagram r = (x, q)" by fastforce
  note facts = ReadDatagram_facts [OF x]
  show ?case
  proof (cases x)
    case (Inl e)
    then show ?thesis using facts x by (subst (1 2) read_all.simps) auto
  next
    case (Inr p)
    obtain ps e where a: "read_all q = (ps, e)" by fastforce
    have "3 * length ps \<le> length (rd_bytes q) \<and> e \<in> {rd_end q, unexpectedEOF (rd_end q), ErrMalformed}"
      using 1 [OF x [symmetric] Inr] a by simp
    moreover have "read_all r = (p # ps, e)" using x Inr a by (subst read_all.simps) simp
    ultimately show ?thesis using facts Inr by auto
  qed
qed

section \<open>The request path\<close>

definition pathPrefix :: string where
  "pathPrefix = ''/.well-known/masque/udp/''"

text \<open>\<open>url.PathEscape\<close> and \<open>url.PathUnescape\<close>: the characters a path segment may hold as they are.\<close>

definition path_plain :: "char \<Rightarrow> bool" where
  "path_plain c \<longleftrightarrow>
     (let n = of_char c :: nat in 97 \<le> n \<and> n \<le> 122 \<or> 65 \<le> n \<and> n \<le> 90 \<or> 48 \<le> n \<and> n \<le> 57)
     \<or> c \<in> set ''-_.~$&+=:@''"

definition upper_hex :: "nat \<Rightarrow> char" where
  "upper_hex n = ''0123456789ABCDEF'' ! n"

definition hex_digit :: "char \<Rightarrow> nat option" where
  "hex_digit c =
     (let n = of_char c :: nat in
      if 48 \<le> n \<and> n \<le> 57 then Some (n - 48)
      else if 97 \<le> n \<and> n \<le> 102 then Some (n - 87)
      else if 65 \<le> n \<and> n \<le> 70 then Some (n - 55)
      else None)"

definition PathEscape :: "string \<Rightarrow> string" where
  "PathEscape s = concat (map (\<lambda>c. if path_plain c then [c]
     else [CHR ''%'', upper_hex (of_char c div 16), upper_hex (of_char c mod 16)]) s)"

fun PathUnescape :: "string \<Rightarrow> string option" where
  "PathUnescape [] = Some []"
| "PathUnescape (c # s) =
     (if c = CHR ''%''
      then (case s of
          a # b # t \<Rightarrow>
            (case (hex_digit a, hex_digit b) of
               (Some x, Some y) \<Rightarrow> map_option (Cons (byte_char (16 * x + y))) (PathUnescape t)
             | _ \<Rightarrow> None)
        | _ \<Rightarrow> None)
      else map_option (Cons c) (PathUnescape s))"

definition Path :: "string \<Rightarrow> uint16 \<Rightarrow> string" where
  "Path host port = pathPrefix @ PathEscape host @ ''/'' @ decimal (unat port) @ ''/''"

definition host_forbidden :: "char \<Rightarrow> bool" where
  "host_forbidden c \<longleftrightarrow> c \<in> set (''/ '' @ map byte_char [9, 13, 10])"

definition ParsePath :: "string \<Rightarrow> (string \<times> uint16) option" where
  "ParsePath escapedPath =
     (if \<not> prefix pathPrefix escapedPath then None
      else (let rest = drop (length pathPrefix) escapedPath in
        if rest = [] \<or> last rest \<noteq> CHR ''/'' then None
        else (case split_char (CHR ''/'') (butlast rest) of
            [h, p] \<Rightarrow>
              (case PathUnescape h of
                 None \<Rightarrow> None
               | Some host \<Rightarrow>
                   if host = [] \<or> 253 < length host \<or> list_ex host_forbidden host
                   then None
                   else (case ParseUint16 p of
                       None \<Rightarrow> None
                     | Some port \<Rightarrow> if port = 0 then None else Some (host, of_nat port)))
          | _ \<Rightarrow> None)))"

lemma hex_digit_upper: "n < 16 \<Longrightarrow> hex_digit (upper_hex n) = Some n"
proof -
  have "list_all (\<lambda>n. hex_digit (upper_hex n) = Some n) [0..<16]"
    by (simp add: upt_rec hex_digit_def upper_hex_def)
  then show "n < 16 \<Longrightarrow> hex_digit (upper_hex n) = Some n" by (simp add: list_all_iff)
qed

lemma PathUnescape_PathEscape: "PathUnescape (PathEscape s) = Some s"
proof (induction s)
  case (Cons c s)
  have "(of_char c :: nat) div 16 < 16" using nat_of_char_less_256 [of c] by linarith
  moreover have "byte_char (16 * (of_char c div 16) + of_char c mod 16) = c" by (simp add: byte_char_def)
  moreover have "path_plain c \<Longrightarrow> c \<noteq> CHR ''%''" by (auto simp: path_plain_def)
  ultimately show ?case using Cons by (simp add: PathEscape_def hex_digit_upper)
qed (simp add: PathEscape_def)

lemma upper_hex_no_slash: "n < 16 \<Longrightarrow> upper_hex n \<noteq> CHR ''/''"
  using hex_digit_upper [of n] by (auto simp: hex_digit_def)

lemma PathEscape_no_slash: "CHR ''/'' \<notin> set (PathEscape s)"
proof (induction s)
  case (Cons c s)
  have "(of_char c :: nat) div 16 < 16" using nat_of_char_less_256 [of c] by linarith
  then show ?case
    using Cons upper_hex_no_slash [of "of_char c div 16"] upper_hex_no_slash [of "of_char c mod 16"]
    by (auto simp: PathEscape_def path_plain_def)
qed (simp add: PathEscape_def)

lemma split_char_one: "c \<notin> set s \<Longrightarrow> split_char c s = [s]"
  by (induction s) auto

lemma split_char_two: "c \<notin> set s \<Longrightarrow> split_char c (s @ c # t) = s # split_char c t"
  by (induction s) auto

text \<open>The hosts and ports a path can carry.\<close>

definition target_ok :: "string \<Rightarrow> uint16 \<Rightarrow> bool" where
  "target_ok host port \<longleftrightarrow> host \<noteq> [] \<and> length host \<le> 253 \<and> port \<noteq> 0
     \<and> \<not> list_ex host_forbidden host"

text \<open>The request path.  Parsing the path of a target gives the target back, whatever bytes its
  host holds, and parses no path of a host or port outside the limits.\<close>

theorem path_read_back:
  "ParsePath (Path host port) = (if target_ok host port then Some (host, port) else None)"
proof -
  let ?rest = "PathEscape host @ CHR ''/'' # decimal (unat port)"
  have digits: "list_all is_digit (decimal (unat port))" by (rule decimal_digits)
  then have "CHR ''/'' \<notin> set (decimal (unat port))" by (auto simp: list_all_iff is_digit_def)
  then have split: "split_char (CHR ''/'') ?rest = [PathEscape host, decimal (unat port)]"
    by (simp add: split_char_two [OF PathEscape_no_slash] split_char_one)
  have parts: "prefix pathPrefix (Path host port)" "drop (length pathPrefix) (Path host port) = ?rest @ ''/''"
    by (simp_all add: Path_def)
  have "unat port < 2 ^ 16" using unsigned_less [of port, where ?'a = nat] by simp
  then have port: "ParseUint16 (decimal (unat port)) = Some (unat port)"
    using digits by (simp add: ParseUint16_def digits_value_decimal)
  have ends: "?rest @ ''/'' \<noteq> []" "last (?rest @ ''/'') = CHR ''/''" "butlast (?rest @ ''/'') = ?rest"
    by (simp_all add: butlast_append)
  have zero: "unat port = 0 \<longleftrightarrow> port = 0" by (rule unat_eq_0)
  have parsed: "ParsePath (Path host port) = (if host = [] \<or> 253 < length host \<or> list_ex host_forbidden host then None
      else if port = 0 then None else Some (host, port))"
    unfolding ParsePath_def Let_def parts(2) using parts(1)
    by (simp only: ends split port PathUnescape_PathEscape zero list.case option.case if_False if_True not_True_eq_False
        simp_thms of_nat_unat) simp
  then show ?thesis by (auto simp: target_ok_def)
qed

text \<open>An IPv6 literal keeps its colons.\<close>

lemma colons_not_escaped: "Path ''::1'' 53 = ''/.well-known/masque/udp/::1/53/''"
proof -
  have "decimal 53 = ''53''" by (simp add: decimal.simps byte_char_eq_iff)
  then show ?thesis by (simp add: Path_def pathPrefix_def PathEscape_def path_plain_def)
qed

section \<open>The Upgrade header\<close>

text \<open>
  \<open>HeaderHasToken\<close>.  \<open>strings.EqualFold\<close> compares runes up to \<open>unicode.SimpleFold\<close>; \<open>orbit\<close> names
  the class of a rune, which is data of the Unicode tables.
\<close>

definition EqualFold :: "(nat \<Rightarrow> nat) \<Rightarrow> string \<Rightarrow> string \<Rightarrow> bool" where
  "EqualFold orbit s t \<longleftrightarrow> map orbit (go_runes s) = map orbit (go_runes t)"

definition HeaderHasToken :: "(nat \<Rightarrow> nat) \<Rightarrow> string list \<Rightarrow> string \<Rightarrow> bool" where
  "HeaderHasToken orbit values token \<longleftrightarrow>
     list_ex (\<lambda>value. list_ex (\<lambda>item. EqualFold orbit (trim_space item) token) (split_char (CHR '','') value)) values"

lemma header_lists_token:
  "plain_text token \<Longrightarrow> CHR '','' \<notin> set token \<Longrightarrow> HeaderHasToken orbit (a @ [token] @ b) token"
  by (simp add: HeaderHasToken_def split_char_one EqualFold_def plain_text_trim)

section \<open>Witnesses\<close>

definition demo_stream :: "capsule list" where
  "demo_stream = [Datagram [1, 2], Foreign 5 [9], Datagram []]"

lemma demo_stream_ok: "list_all capsule_ok demo_stream" "capsule_ok (Datagram [7, 8])"
  by (simp_all add: demo_stream_def WriteDatagram_def MaxDatagram_def maxCapsule_def datagramCapsule_def Let_def)

theorem datagrams_read_back_witness:
  "read_all \<lparr> rd_bytes = concat (map capsule_bytes demo_stream), rd_end = EOF \<rparr> = ([[1, 2], []], EOF)"
  using datagrams_read_back [OF demo_stream_ok(1), of EOF] by (simp add: demo_stream_def map_filter_simps)

theorem truncated_stream_detected_witness:
  "read_all \<lparr> rd_bytes = concat (map capsule_bytes demo_stream) @ [0, 3, 0], rd_end = EOF \<rparr> = ([[1, 2], []], UnexpectedEOF)"
proof -
  have "capsule_bytes (Datagram [7, 8]) = [0, 3, 0, 7, 8]"
    by (simp add: WriteDatagram_def MaxDatagram_def appendVarint_def datagramCapsule_def)
  with truncated_stream_detected [OF demo_stream_ok, of "[0, 3, 0]" EOF] show ?thesis
    by (simp add: demo_stream_def map_filter_simps unexpectedEOF_def)
qed

theorem datagram_size_bound_witness:
  "ReadDatagram \<lparr> rd_bytes = [0, 2, 0, 7], rd_end = EOF \<rparr> = (Inr [7], \<lparr> rd_bytes = [], rd_end = EOF \<rparr>)
   \<and> length [7 :: byte] \<le> MaxDatagram + 15"
proof -
  have "WriteDatagram [7] = Some [0, 2, 0, 7]"
    by (simp add: WriteDatagram_def MaxDatagram_def appendVarint_def datagramCapsule_def)
  from ReadDatagram_written [OF this, where r = "\<lparr> rd_bytes = [], rd_end = EOF \<rparr>" and rest = "[]"]
  have "ReadDatagram \<lparr> rd_bytes = [0, 2, 0, 7], rd_end = EOF \<rparr> = (Inr [7], \<lparr> rd_bytes = [], rd_end = EOF \<rparr>)" by simp
  with datagram_size_bound show ?thesis by blast
qed

end
