(* ===== verification/Capture_Run.thy ===== *)
theory Capture_Run
  imports Capture_Admission
begin

text \<open>
  Capture runs (\<open>src/internal/capturerun/types.go\<close>): the durable record of a launched client, its
  validation, the view and the evidence drawn from it, the command that creates one, and its row in
  the table \<open>capture_runs\<close> (\<open>src/internal/runtimepersistence/capture_run_repository.go\<close>,
  \<open>schema.sql\<close>).

  A time is its number of nanoseconds since 1970; \<open>zero_time\<close> is Go's zero value.  A validation error
  is \<open>False\<close>: its text is not used by any caller.  The six columns of the workspace identity and the
  seven of the client adapter are records of their own, and the column \<open>git_json\<close> is the value it
  encodes; its length, which the table checks, is computed as \<open>encoding/json\<close> writes it.
\<close>

section \<open>Values\<close>

definition zero_time :: go_time where
  "zero_time = - 62135596800000000000"

definition StateCreated :: string where
  "StateCreated = ''created''"

definition StateAttached :: string where
  "StateAttached = ''attached''"

definition StateFinished :: string where
  "StateFinished = ''finished''"

definition StateRevoked :: string where
  "StateRevoked = ''revoked''"

definition StateExpired :: string where
  "StateExpired = ''expired''"

lemmas run_state_defs = StateCreated_def StateAttached_def StateFinished_def StateRevoked_def StateExpired_def

lemma run_states_differ [simp]:
  "StateCreated \<noteq> StateAttached" "StateAttached \<noteq> StateCreated" "StateCreated \<noteq> StateFinished" "StateFinished \<noteq> StateCreated"
  "StateCreated \<noteq> StateRevoked" "StateRevoked \<noteq> StateCreated" "StateCreated \<noteq> StateExpired" "StateExpired \<noteq> StateCreated"
  "StateAttached \<noteq> StateFinished" "StateFinished \<noteq> StateAttached" "StateAttached \<noteq> StateRevoked"
  "StateRevoked \<noteq> StateAttached" "StateAttached \<noteq> StateExpired" "StateExpired \<noteq> StateAttached"
  "StateFinished \<noteq> StateRevoked" "StateRevoked \<noteq> StateFinished" "StateFinished \<noteq> StateExpired"
  "StateExpired \<noteq> StateFinished" "StateRevoked \<noteq> StateExpired" "StateExpired \<noteq> StateRevoked"
  by (simp_all add: run_state_defs)

definition State_active :: "string \<Rightarrow> bool" where
  "State_active s \<longleftrightarrow> s = StateCreated \<or> s = StateAttached"

definition ObservationWaitingForTraffic :: string where
  "ObservationWaitingForTraffic = ''waiting_for_traffic''"

definition ObservationObserved :: string where
  "ObservationObserved = ''observed''"

definition Observation_valid :: "string \<Rightarrow> bool" where
  "Observation_valid ob \<longleftrightarrow> ob = ObservationWaitingForTraffic \<or> ob = ObservationObserved"

definition RecognitionUnknown :: string where
  "RecognitionUnknown = ''unknown''"

definition RecognitionVerified :: string where
  "RecognitionVerified = ''verified''"

definition Recognition_Valid :: "string \<Rightarrow> bool" where
  "Recognition_Valid r \<longleftrightarrow> r = RecognitionUnknown \<or> r = ''unverified'' \<or> r = ''recognized'' \<or> r = RecognitionVerified"

definition NormalizedRecognition :: "string \<Rightarrow> string" where
  "NormalizedRecognition r = (if r = [] then RecognitionUnknown else r)"

definition LoginSessionID_Valid :: "string \<Rightarrow> bool" where
  "LoginSessionID_Valid v \<longleftrightarrow> validIdentifier v ''login.''"

definition validDeviceName :: "string \<Rightarrow> bool" where
  "validDeviceName v \<longleftrightarrow>
     (if v = [] \<or> length v > 128 \<or> \<not> valid_utf8 v \<or> trim_space v \<noteq> v then False else \<not> has_control v)"

definition MaxPathBytes :: nat where
  "MaxPathBytes = 4096"

definition validateAbsolutePath :: "string \<Rightarrow> bool" where
  "validateAbsolutePath v \<longleftrightarrow>
     (if v = [] \<or> length v > MaxPathBytes \<or> \<not> IsAbs v \<or> Clean v \<noteq> v then False
      else validateTextContent v MaxPathBytes)"

text \<open>\<open>validateCapability\<close> uses the lenient decoding.\<close>

definition validateCapability :: "string \<Rightarrow> bool" where
  "validateCapability v \<longleftrightarrow> (case DecodeString False v of None \<Rightarrow> False | Some d \<Rightarrow> length d = 32)"

text \<open>The four columns of a remote login: all empty, or all valid.\<close>

definition attribution_ok :: "string \<Rightarrow> string \<Rightarrow> string \<Rightarrow> string \<Rightarrow> bool" where
  "attribution_ok user name session device \<longleftrightarrow>
     \<not> ((user = []) \<noteq> (name = []) \<or> (user = []) \<noteq> (session = []) \<or> (user = []) \<noteq> (device = [])
        \<or> (user \<noteq> [] \<and> (\<not> UserID_Valid user \<or> \<not> ValidUsername name \<or> \<not> LoginSessionID_Valid session
             \<or> \<not> validDeviceName device)))"

text \<open>Adapter evidence and recognition are one fact seen twice.\<close>

definition recognition_ok :: "string \<Rightarrow> adapter_evidence option \<Rightarrow> bool" where
  "recognition_ok r adapter \<longleftrightarrow>
     \<not> (\<not> Recognition_Valid (NormalizedRecognition r)
        \<or> (NormalizedRecognition r = RecognitionVerified) \<noteq> (adapter \<noteq> None))"

definition adapter_ok :: "uint64 \<Rightarrow> adapter_evidence option \<Rightarrow> bool" where
  "adapter_ok catalog adapter \<longleftrightarrow>
     (case adapter of None \<Rightarrow> True | Some e \<Rightarrow> Adapter_Validate e \<and> ad_CatalogRevision e = catalog)"

section \<open>Records\<close>

text \<open>
  A capability digest is a string of 32 bytes; \<open>valid\<close> is that it is not all zero.  The six workspace
  fields of the source's struct are one \<^typ>\<open>scope\<close> here.
\<close>

record durable_record =
  dr_RecordingScope :: recording_scope
  dr_ID :: string
  dr_ProxyCapabilityHash :: string
  dr_ControlCapabilityHash :: string
  dr_CWD :: string
  dr_CanonicalExecutablePath :: string
  dr_Runtime :: runtime_metadata
  dr_RuntimeUserID :: string
  dr_RuntimeUsername :: string
  dr_LoginSessionID :: string
  dr_DeviceName :: string
  dr_ExecutableLabel :: string
  dr_CatalogRevision :: uint64
  dr_Adapter :: "adapter_evidence option"
  dr_Workspace :: scope
  dr_Recognition :: string
  dr_ProcessID :: int
  dr_State :: string
  dr_Observation :: string
  dr_FirstObservedAt :: go_time
  dr_CreatedAt :: go_time
  dr_ExpiresAt :: go_time
  dr_UpdatedAt :: go_time

definition Digest_valid :: "string \<Rightarrow> bool" where
  "Digest_valid d \<longleftrightarrow> d \<noteq> replicate 32 (CHR 0x00)"

definition Observed :: "durable_record \<Rightarrow> bool" where
  "Observed r \<longleftrightarrow> dr_Observation r = ObservationObserved"

definition observation_ok :: "durable_record \<Rightarrow> bool" where
  "observation_ok r \<longleftrightarrow> Observation_valid (dr_Observation r)
     \<and> (if Observed r then dr_FirstObservedAt r \<noteq> zero_time \<and> \<not> dr_FirstObservedAt r < dr_CreatedAt r
        else dr_FirstObservedAt r = zero_time)"

definition process_ok :: "durable_record \<Rightarrow> bool" where
  "process_ok r \<longleftrightarrow> \<not> dr_ProcessID r < 0
     \<and> (if dr_State r = StateCreated then dr_ProcessID r = 0
        else if dr_State r = StateAttached then 0 < dr_ProcessID r
        else dr_State r \<in> {StateFinished, StateRevoked, StateExpired})"

definition times_ok :: "durable_record \<Rightarrow> bool" where
  "times_ok r \<longleftrightarrow> \<not> (dr_CreatedAt r = zero_time \<or> dr_ExpiresAt r = zero_time \<or> dr_UpdatedAt r = zero_time
     \<or> dr_ExpiresAt r < dr_CreatedAt r \<or> dr_UpdatedAt r < dr_CreatedAt r)"

text \<open>What of a record never changes after it is created.\<close>

definition fixed_ok :: "durable_record \<Rightarrow> bool" where
  "fixed_ok r \<longleftrightarrow> run_validateID (dr_ID r)
     \<and> Digest_valid (dr_ProxyCapabilityHash r) \<and> Digest_valid (dr_ControlCapabilityHash r)
     \<and> validateAbsolutePath (dr_CWD r) \<and> validateAbsolutePath (dr_CanonicalExecutablePath r)
     \<and> Metadata_Validate (dr_Runtime r)
     \<and> attribution_ok (dr_RuntimeUserID r) (dr_RuntimeUsername r) (dr_LoginSessionID r) (dr_DeviceName r)
     \<and> validateText (dr_ExecutableLabel r) 256
     \<and> Revision_Valid (dr_CatalogRevision r) \<and> adapter_ok (dr_CatalogRevision r) (dr_Adapter r)
     \<and> (dr_Workspace r = zero_scope \<or> Scope_Validate (dr_Workspace r))
     \<and> recognition_ok (dr_Recognition r) (dr_Adapter r)"

definition Record_Validate :: "durable_record \<Rightarrow> bool" where
  "Record_Validate r \<longleftrightarrow> fixed_ok r \<and> observation_ok r \<and> process_ok r \<and> times_ok r"

definition WithObservedTraffic :: "durable_record \<Rightarrow> go_time \<Rightarrow> durable_record \<times> bool" where
  "WithObservedTraffic r at =
     (if \<not> State_active (dr_State r) \<or> Observed r \<or> at = zero_time then (r, False)
      else (r\<lparr>dr_Observation := ObservationObserved, dr_FirstObservedAt := at\<rparr>, True))"

text \<open>The evidence the authorizer reads (\<open>evidenceOf\<close>); \<open>NewScope\<close> answers an invalid scope with the zero one.\<close>

definition evidenceOf :: "durable_record \<Rightarrow> run_evidence" where
  "evidenceOf r = \<lparr> re_RecordingScope = dr_RecordingScope r, re_RunID = dr_ID r, re_Observed = Observed r,
     re_FirstObservedAt = dr_FirstObservedAt r, re_CWD = dr_CWD r, re_ExecutableLabel = dr_ExecutableLabel r,
     re_CatalogRevision = dr_CatalogRevision r, re_Adapter = dr_Adapter r, re_ProcessID = dr_ProcessID r, re_ExpiresAt = dr_ExpiresAt r,
     re_Workspace = (if Scope_Validate (dr_Workspace r) then dr_Workspace r else zero_scope),
     re_Runtime = dr_Runtime r, re_RuntimeUserID = dr_RuntimeUserID r, re_RuntimeUsername = dr_RuntimeUsername r,
     re_LoginSessionID = dr_LoginSessionID r, re_DeviceName = dr_DeviceName r \<rparr>"

record run_view =
  vw_ID :: string
  vw_ExecutableLabel :: string
  vw_CWD :: string
  vw_CanonicalExecutablePath :: string
  vw_LocalUserLabel :: string
  vw_Runtime :: runtime_metadata
  vw_RuntimeUserID :: string
  vw_RuntimeUsername :: string
  vw_LoginSessionID :: string
  vw_DeviceName :: string
  vw_Workspace :: scope
  vw_ProcessID :: int
  vw_State :: string
  vw_Observation :: string
  vw_FirstObservedAt :: go_time
  vw_Recognition :: string
  vw_CatalogRevision :: uint64
  vw_Adapter :: "adapter_evidence option"
  vw_CreatedAt :: go_time
  vw_ExpiresAt :: go_time
  vw_UpdatedAt :: go_time
  vw_ActivityAt :: go_time

definition ViewOf :: "durable_record \<Rightarrow> run_view" where
  "ViewOf r = \<lparr> vw_ID = dr_ID r, vw_ExecutableLabel = dr_ExecutableLabel r, vw_CWD = dr_CWD r,
     vw_CanonicalExecutablePath = dr_CanonicalExecutablePath r, vw_LocalUserLabel = md_LocalUserName (dr_Runtime r),
     vw_Runtime = dr_Runtime r, vw_RuntimeUserID = dr_RuntimeUserID r, vw_RuntimeUsername = dr_RuntimeUsername r,
     vw_LoginSessionID = dr_LoginSessionID r, vw_DeviceName = dr_DeviceName r, vw_Workspace = dr_Workspace r,
     vw_ProcessID = dr_ProcessID r, vw_State = dr_State r, vw_Observation = dr_Observation r,
     vw_FirstObservedAt = dr_FirstObservedAt r, vw_Recognition = NormalizedRecognition (dr_Recognition r),
     vw_CatalogRevision = dr_CatalogRevision r, vw_Adapter = dr_Adapter r, vw_CreatedAt = dr_CreatedAt r,
     vw_ExpiresAt = dr_ExpiresAt r, vw_UpdatedAt = dr_UpdatedAt r, vw_ActivityAt = zero_time \<rparr>"

definition ActivityTime :: "run_view \<Rightarrow> go_time" where
  "ActivityTime v =
     (if vw_ActivityAt v \<noteq> zero_time then vw_ActivityAt v
      else if vw_FirstObservedAt v \<noteq> zero_time then vw_FirstObservedAt v
      else if vw_State v \<noteq> StateCreated \<and> vw_State v \<noteq> StateAttached \<and> vw_UpdatedAt v \<noteq> zero_time
      then vw_UpdatedAt v
      else vw_CreatedAt v)"

record create_command =
  cc_CWD :: string
  cc_CanonicalExecutablePath :: string
  cc_ExecutableLabel :: string
  cc_Lifetime :: int
  cc_CatalogRevision :: uint64
  cc_Adapter :: "adapter_evidence option"
  cc_Recognition :: string
  cc_Workspace :: scope
  cc_Runtime :: runtime_metadata
  cc_RuntimeUserID :: string
  cc_RuntimeUsername :: string
  cc_LoginSessionID :: string
  cc_DeviceName :: string

definition Command_validate :: "create_command \<Rightarrow> int \<Rightarrow> bool" where
  "Command_validate c maxLifetime \<longleftrightarrow>
     validateAbsolutePath (cc_CWD c) \<and> validateAbsolutePath (cc_CanonicalExecutablePath c)
     \<and> validateText (cc_ExecutableLabel c) 256
     \<and> \<not> (cc_Lifetime c \<le> 0 \<or> cc_Lifetime c > maxLifetime)
     \<and> Revision_Valid (cc_CatalogRevision c)
     \<and> (cc_Workspace c = zero_scope \<or> Scope_Validate (cc_Workspace c))
     \<and> Metadata_Validate (cc_Runtime c)
     \<and> attribution_ok (cc_RuntimeUserID c) (cc_RuntimeUsername c) (cc_LoginSessionID c) (cc_DeviceName c)
     \<and> adapter_ok (cc_CatalogRevision c) (cc_Adapter c)
     \<and> recognition_ok (cc_Recognition c) (cc_Adapter c)"

section \<open>Rows\<close>

definition toUnixMillis :: "go_time \<Rightarrow> int" where
  "toUnixMillis t = t div 1000000"

definition fromUnixMillis :: "int \<Rightarrow> go_time" where
  "fromUnixMillis ms = ms * 1000000"

definition nullableText :: "string \<Rightarrow> string option" where
  "nullableText v = (if v = [] then None else Some v)"

record adapter_columns =
  ac_id :: string
  ac_revision :: int
  ac_version :: string
  ac_install_shape :: string
  ac_release_sha256 :: "nat list"
  ac_launch_recipe :: string
  ac_features :: int

record workspace_columns =
  wc_machine_id :: string
  wc_machine_revision :: int
  wc_workspace_id :: string
  wc_label :: string
  wc_evidence :: string
  wc_derivation_revision :: int

record run_row =
  rw_run_id :: string
  rw_proxy_hash :: string
  rw_control_hash :: string
  rw_cwd :: string
  rw_path :: string
  rw_runtime :: runtime_metadata
  rw_user_id :: "string option"
  rw_username :: "string option"
  rw_session_id :: "string option"
  rw_device_name :: "string option"
  rw_workspace :: workspace_columns
  rw_label :: string
  rw_catalog_revision :: int
  rw_adapter :: adapter_columns
  rw_process_id :: int
  rw_state :: string
  rw_observation :: string
  rw_recognition :: string
  rw_first_observed :: "int option"
  rw_created :: int
  rw_expires :: int
  rw_updated :: int

definition captureRunAdapterColumns :: "adapter_evidence option \<Rightarrow> adapter_columns" where
  "captureRunAdapterColumns adapter =
     (case adapter of
        None \<Rightarrow> \<lparr> ac_id = [], ac_revision = 0, ac_version = [], ac_install_shape = [], ac_release_sha256 = [],
                  ac_launch_recipe = [], ac_features = 0 \<rparr>
      | Some e \<Rightarrow> \<lparr> ac_id = ad_ID e, ac_revision = sint (ad_Revision e), ac_version = ad_Version e,
                    ac_install_shape = ad_InstallShape e,
                    ac_release_sha256 = (case hex_DecodeString (ad_ReleaseSHA256 e) of None \<Rightarrow> [] | Some d \<Rightarrow> d),
                    ac_launch_recipe = ad_LaunchRecipe e, ac_features = sint (ad_Features e) \<rparr>)"

text \<open>The row \<open>Create\<close> inserts; the columns it does not name take their defaults.\<close>

definition inserted_row :: "durable_record \<Rightarrow> run_row" where
  "inserted_row r = \<lparr> rw_run_id = dr_ID r, rw_proxy_hash = dr_ProxyCapabilityHash r,
     rw_control_hash = dr_ControlCapabilityHash r, rw_cwd = dr_CWD r, rw_path = dr_CanonicalExecutablePath r,
     rw_runtime = dr_Runtime r, rw_user_id = nullableText (dr_RuntimeUserID r),
     rw_username = nullableText (dr_RuntimeUsername r), rw_session_id = nullableText (dr_LoginSessionID r),
     rw_device_name = nullableText (dr_DeviceName r),
     rw_workspace = \<lparr> wc_machine_id = sc_machineID (dr_Workspace r),
       wc_machine_revision = sint (sc_registrationRevision (dr_Workspace r)),
       wc_workspace_id = sc_workspaceID (dr_Workspace r), wc_label = sc_workspaceLabel (dr_Workspace r),
       wc_evidence = sc_evidence (dr_Workspace r),
       wc_derivation_revision = sint (sc_derivationRevision (dr_Workspace r)) \<rparr>,
     rw_label = dr_ExecutableLabel r, rw_catalog_revision = sint (dr_CatalogRevision r),
     rw_adapter = captureRunAdapterColumns (dr_Adapter r), rw_process_id = dr_ProcessID r, rw_state = dr_State r,
     rw_observation = ObservationWaitingForTraffic, rw_recognition = NormalizedRecognition (dr_Recognition r),
     rw_first_observed = None, rw_created = toUnixMillis (dr_CreatedAt r), rw_expires = toUnixMillis (dr_ExpiresAt r),
     rw_updated = toUnixMillis (dr_UpdatedAt r) \<rparr>"

text \<open>The length of a string as \<open>encoding/json\<close> writes it, HTML characters escaped.\<close>

definition json_step_length :: "nat \<times> nat \<Rightarrow> nat" where
  "json_step_length = (\<lambda>(r, width).
     if r < 0x80 then
       (if r = 0x22 \<or> r = 0x5C \<or> r = 8 \<or> r = 9 \<or> r = 10 \<or> r = 12 \<or> r = 13 then 2
        else if r < 0x20 \<or> r = 0x3C \<or> r = 0x3E \<or> r = 0x26 then 6
        else 1)
     else if (r = rune_error \<and> width = 1) \<or> r = 0x2028 \<or> r = 0x2029 then 6
     else width)"

definition json_string_length :: "string \<Rightarrow> nat" where
  "json_string_length s = 2 + sum_list (map json_step_length (rune_steps (bytes_of s)))"

definition git_json_length :: "git_snapshot option \<Rightarrow> nat" where
  "git_json_length git =
     (case git of
        None \<Rightarrow> 4
      | Some g \<Rightarrow> length ''{'' + length '',,,,}''
          + length ''\"repositorySource\":'' + json_string_length (git_RepositorySource g)
          + length ''\"repositoryKey\":'' + json_string_length (git_RepositoryKey g)
          + length ''\"repositoryName\":'' + json_string_length (git_RepositoryName g)
          + length ''\"branch\":'' + json_string_length (git_Branch g)
          + length ''\"detached\":'' + (if git_Detached g then 4 else 5))"

definition between :: "int \<Rightarrow> int \<Rightarrow> int \<Rightarrow> bool" where
  "between lo hi v \<longleftrightarrow> lo \<le> v \<and> v \<le> hi"

definition text_between :: "nat \<Rightarrow> nat \<Rightarrow> string \<Rightarrow> bool" where
  "text_between lo hi v \<longleftrightarrow> lo \<le> length v \<and> length v \<le> hi"

definition adapter_check :: "adapter_columns \<Rightarrow> bool" where
  "adapter_check a \<longleftrightarrow> text_between 0 128 (ac_id a) \<and> between 0 maxInt64 (ac_revision a)
     \<and> text_between 0 128 (ac_version a) \<and> text_between 0 64 (ac_install_shape a)
     \<and> (length (ac_release_sha256 a) = 0 \<or> length (ac_release_sha256 a) = 32)
     \<and> text_between 0 64 (ac_launch_recipe a) \<and> between 0 maxInt64 (ac_features a)
     \<and> ((ac_id a = [] \<and> ac_revision a = 0 \<and> ac_version a = [] \<and> ac_install_shape a = []
          \<and> ac_release_sha256 a = [] \<and> ac_launch_recipe a = [] \<and> ac_features a = 0)
        \<or> (ac_id a \<noteq> [] \<and> 0 < ac_revision a \<and> ac_version a \<noteq> [] \<and> ac_install_shape a \<noteq> []
          \<and> length (ac_release_sha256 a) = 32 \<and> ac_launch_recipe a \<noteq> []))"

definition workspace_check :: "workspace_columns \<Rightarrow> bool" where
  "workspace_check w \<longleftrightarrow> text_between 0 128 (wc_machine_id w) \<and> between 0 maxInt64 (wc_machine_revision w)
     \<and> text_between 0 128 (wc_workspace_id w) \<and> text_between 0 120 (wc_label w)
     \<and> wc_evidence w \<in> {[], ''local_launcher'', ''registered_companion''}
     \<and> between 0 maxInt64 (wc_derivation_revision w)"

definition login_check :: "run_row \<Rightarrow> bool" where
  "login_check r \<longleftrightarrow>
     (case rw_user_id r of None \<Rightarrow> True | Some v \<Rightarrow> text_between 1 128 v)
     \<and> (case rw_username r of None \<Rightarrow> True | Some v \<Rightarrow> text_between 3 64 v)
     \<and> (case rw_session_id r of None \<Rightarrow> True | Some v \<Rightarrow> text_between 1 128 v)
     \<and> (case rw_device_name r of None \<Rightarrow> True | Some v \<Rightarrow> text_between 1 128 v)
     \<and> ((rw_user_id r = None \<and> rw_username r = None \<and> rw_session_id r = None \<and> rw_device_name r = None)
        \<or> (rw_user_id r \<noteq> None \<and> rw_username r \<noteq> None \<and> rw_session_id r \<noteq> None \<and> rw_device_name r \<noteq> None))"

definition lease_check :: "run_row \<Rightarrow> bool" where
  "lease_check r \<longleftrightarrow> 0 \<le> rw_process_id r \<and> rw_created r \<le> rw_expires r \<and> rw_created r \<le> rw_updated r
     \<and> ((rw_state r = StateCreated \<and> rw_process_id r = 0) \<or> (rw_state r = StateAttached \<and> 0 < rw_process_id r)
        \<or> rw_state r \<in> {StateFinished, StateRevoked, StateExpired})"

definition run_row_check :: "run_row \<Rightarrow> bool" where
  "run_row_check r \<longleftrightarrow> text_between 1 128 (rw_run_id r)
     \<and> length (rw_proxy_hash r) = 32 \<and> length (rw_control_hash r) = 32
     \<and> text_between 1 4096 (rw_cwd r) \<and> text_between 1 4096 (rw_path r) \<and> text_between 1 256 (rw_label r)
     \<and> between 1 maxInt64 (rw_catalog_revision r) \<and> adapter_check (rw_adapter r)
     \<and> rw_observation r \<in> {ObservationWaitingForTraffic, ObservationObserved}
     \<and> rw_recognition r \<in> {''unknown'', ''unverified'', ''recognized'', ''verified''}
     \<and> text_between 0 128 (md_LocalUserName (rw_runtime r)) \<and> text_between 0 4096 (md_HomeDirectory (rw_runtime r))
     \<and> text_between 0 64 (md_OperatingSystem (rw_runtime r))
     \<and> text_between 0 256 (md_OperatingSystemVersion (rw_runtime r))
     \<and> text_between 0 64 (md_Architecture (rw_runtime r)) \<and> text_between 0 128 (md_TimeZone (rw_runtime r))
     \<and> git_json_length (md_GitAtLaunch (rw_runtime r)) \<le> 2048
     \<and> workspace_check (rw_workspace r) \<and> login_check r \<and> lease_check r"

text \<open>Reading a row back.\<close>

definition scan_adapter :: "uint64 \<Rightarrow> adapter_columns \<Rightarrow> adapter_evidence option option" where
  "scan_adapter catalog a =
     (if ac_id a \<noteq> [] then
        (if length (ac_release_sha256 a) \<noteq> 32 \<or> ac_revision a = 0 then None
         else Some (Some \<lparr> ad_ID = ac_id a, ad_Revision = word_of_int (ac_revision a), ad_Version = ac_version a,
           ad_CatalogRevision = catalog, ad_InstallShape = ac_install_shape a,
           ad_ReleaseSHA256 = hex_EncodeToString (ac_release_sha256 a), ad_LaunchRecipe = ac_launch_recipe a,
           ad_Features = word_of_int (ac_features a) \<rparr>))
      else if ac_revision a \<noteq> 0 \<or> ac_version a \<noteq> [] \<or> ac_install_shape a \<noteq> [] \<or> ac_release_sha256 a \<noteq> []
        \<or> ac_launch_recipe a \<noteq> [] \<or> ac_features a \<noteq> 0 then None
      else Some None)"

definition scan_workspace :: "workspace_columns \<Rightarrow> scope option" where
  "scan_workspace w =
     (if wc_machine_revision w < 0 \<or> wc_derivation_revision w < 0 then None
      else if wc_machine_id w \<noteq> [] \<or> wc_workspace_id w \<noteq> [] \<or> wc_label w \<noteq> [] \<or> wc_evidence w \<noteq> []
        \<or> wc_machine_revision w \<noteq> 0 \<or> wc_derivation_revision w \<noteq> 0 then
        (if \<not> workspace_validOpaqueIdentity (wc_machine_id w) \<or> \<not> workspace_validOpaqueIdentity (wc_workspace_id w)
         then None
         else Some \<lparr> sc_machineID = wc_machine_id w, sc_workspaceID = wc_workspace_id w, sc_workspaceLabel = wc_label w,
           sc_evidence = wc_evidence w, sc_registrationRevision = word_of_int (wc_machine_revision w),
           sc_derivationRevision = word_of_int (wc_derivation_revision w) \<rparr>)
      else Some zero_scope)"

definition text_or_empty :: "string option \<Rightarrow> string" where
  "text_or_empty v = (case v of None \<Rightarrow> [] | Some s \<Rightarrow> s)"

definition scanCaptureRun :: "run_row \<Rightarrow> durable_record option" where
  "scanCaptureRun w =
     (if length (rw_proxy_hash w) \<noteq> 32 \<or> length (rw_control_hash w) \<noteq> 32
        \<or> (rw_user_id w = None) \<noteq> (rw_username w = None) \<or> (rw_user_id w = None) \<noteq> (rw_session_id w = None)
        \<or> (rw_user_id w = None) \<noteq> (rw_device_name w = None)
        \<or> rw_catalog_revision w \<le> 0 \<or> ac_revision (rw_adapter w) < 0 \<or> ac_features (rw_adapter w) < 0
      then None
      else (case (scan_workspace (rw_workspace w), scan_adapter (word_of_int (rw_catalog_revision w)) (rw_adapter w)) of
          (Some ws, Some adapter) \<Rightarrow>
            (let r = \<lparr> dr_RecordingScope = zero_recording_scope, dr_ID = rw_run_id w,
               dr_ProxyCapabilityHash = rw_proxy_hash w, dr_ControlCapabilityHash = rw_control_hash w,
               dr_CWD = rw_cwd w, dr_CanonicalExecutablePath = rw_path w, dr_Runtime = rw_runtime w,
               dr_RuntimeUserID = text_or_empty (rw_user_id w), dr_RuntimeUsername = text_or_empty (rw_username w),
               dr_LoginSessionID = text_or_empty (rw_session_id w), dr_DeviceName = text_or_empty (rw_device_name w),
               dr_ExecutableLabel = rw_label w, dr_CatalogRevision = word_of_int (rw_catalog_revision w),
               dr_Adapter = adapter, dr_Workspace = ws, dr_Recognition = rw_recognition w,
               dr_ProcessID = rw_process_id w, dr_State = rw_state w, dr_Observation = rw_observation w,
               dr_FirstObservedAt = (case rw_first_observed w of None \<Rightarrow> zero_time | Some ms \<Rightarrow> fromUnixMillis ms),
               dr_CreatedAt = fromUnixMillis (rw_created w), dr_ExpiresAt = fromUnixMillis (rw_expires w),
               dr_UpdatedAt = fromUnixMillis (rw_updated w) \<rparr>
             in if Record_Validate r then Some r else None)
        | _ \<Rightarrow> None))"

end
