(* ===== verification/Capture_Run_Store.thy ===== *)
theory Capture_Run_Store
  imports Capture_Run Lifecycle_Gates
begin

text \<open>
  The table of Capture runs and its manager: \<open>captureRunRepository\<close>
  (\<open>src/internal/runtimepersistence/capture_run_repository.go\<close>, \<open>capture_control_authority.go\<close>,
  \<open>retained_authority.go\<close>, \<open>native_stop_commit.go\<close>) and \<open>Manager\<close> (\<open>src/internal/capturerun\<close>).

  A statement is a function on the table; it fails when an updated row violates a constraint.  What
  SQLite may do besides is the argument \<open>run_io\<close>: an operation may not begin, a statement or a read
  may fail, and a failed commit may have been applied.  The native tool scopes a stop revokes belong
  to another component; their part of the transaction is \<open>rio_native\<close>.  The clock, the random bytes
  and the hash function are arguments.
\<close>

section \<open>Tables\<close>

datatype run_error =
    RunInvalid | RunNotFound | RunCapabilityRejected | RunStopping | RunCommitUnknown | RunDatabase
  | RunContext ctx_error | RunRandom | RunArchive | RunEvidence | RunNotify

record login_session =
  ls_id :: string
  ls_user :: string
  ls_token_digest :: string
  ls_expires :: int
  ls_revoked :: "int option"

record run_db =
  rdb_runs :: "run_row list"
  rdb_sessions :: "login_session list"
  rdb_users :: "(string \<times> string) list"

record run_io =
  rio_begin :: bool
  rio_exec :: bool
  rio_native :: bool
  rio_read :: bool
  rio_commit :: commit_result

text \<open>\<open>captureRunIdentityActive\<close>: local runs have no login; remote ones need their user and session.\<close>

definition session_live :: "run_db \<Rightarrow> int \<Rightarrow> string \<Rightarrow> string \<Rightarrow> login_session \<Rightarrow> bool" where
  "session_live db ms user session s \<longleftrightarrow> ls_id s = session \<and> ls_user s = user
     \<and> (user, ''active'') \<in> set (rdb_users db) \<and> ls_revoked s = None \<and> ms < ls_expires s"

definition captureRunIdentityActive :: "run_db \<Rightarrow> int \<Rightarrow> run_row \<Rightarrow> bool" where
  "captureRunIdentityActive db ms r \<longleftrightarrow>
     (case rw_user_id r of
        None \<Rightarrow> True
      | Some user \<Rightarrow>
          (case rw_session_id r of
             None \<Rightarrow> False
           | Some session \<Rightarrow> list_ex (session_live db ms user session) (rdb_sessions db)))"

definition row_admits :: "run_db \<Rightarrow> int \<Rightarrow> run_row \<Rightarrow> bool" where
  "row_admits db ms r \<longleftrightarrow> State_active (rw_state r) \<and> ms < rw_expires r \<and> captureRunIdentityActive db ms r"

text \<open>An UPDATE with its condition and its assignments: the new table and the number of rows changed.\<close>

definition update_runs :: "(run_row \<Rightarrow> bool) \<Rightarrow> (run_row \<Rightarrow> run_row) \<Rightarrow> run_row list \<Rightarrow> (run_row list \<times> nat) option" where
  "update_runs cond assign rows =
     (if list_all (\<lambda>r. cond r \<longrightarrow> run_row_check (assign r)) rows
      then Some (map (\<lambda>r. if cond r then assign r else r) rows, length (filter cond rows))
      else None)"

definition commit_runs :: "run_io \<Rightarrow> run_db \<Rightarrow> run_row list \<Rightarrow> 'a \<Rightarrow> run_db \<times> (run_error + 'a)" where
  "commit_runs io db rows v =
     (case rio_commit io of
        CommitOK \<Rightarrow> (db\<lparr>rdb_runs := rows\<rparr>, Inr v)
      | CommitLost \<Rightarrow> (db, Inl RunDatabase)
      | CommitApplied \<Rightarrow> (db\<lparr>rdb_runs := rows\<rparr>, Inl RunDatabase))"

section \<open>The repository\<close>

definition login_exists :: "run_db \<Rightarrow> int \<Rightarrow> durable_record \<Rightarrow> bool" where
  "login_exists db ms r \<longleftrightarrow>
     nullableText (dr_RuntimeUserID r) = None
     \<or> list_ex (session_live db ms (dr_RuntimeUserID r) (dr_LoginSessionID r)) (rdb_sessions db)"

definition unique_in :: "run_row \<Rightarrow> run_row list \<Rightarrow> bool" where
  "unique_in r rows \<longleftrightarrow> rw_run_id r \<notin> rw_run_id ` set rows \<and> rw_proxy_hash r \<notin> rw_proxy_hash ` set rows
     \<and> rw_control_hash r \<notin> rw_control_hash ` set rows"

definition Repo_Create :: "run_io \<Rightarrow> run_db \<Rightarrow> durable_record \<Rightarrow> run_db \<times> (run_error + unit)" where
  "Repo_Create io db r =
     (if \<not> Record_Validate r then (db, Inl RunInvalid)
      else if \<not> rio_begin io \<or> \<not> rio_exec io then (db, Inl RunDatabase)
      else if \<not> login_exists db (toUnixMillis (dr_CreatedAt r)) r then (db, Inl RunCapabilityRejected)
      else if \<not> run_row_check (inserted_row r) \<or> \<not> unique_in (inserted_row r) (rdb_runs db) then (db, Inl RunDatabase)
      else commit_runs io db (rdb_runs db @ [inserted_row r]) ())"

definition Repo_AuthorizeProxy ::
  "run_io \<Rightarrow> run_db \<Rightarrow> (string \<Rightarrow> fence) \<Rightarrow> string \<Rightarrow> go_time \<Rightarrow> run_error + durable_record" where
  "Repo_AuthorizeProxy io db original digest now =
     (if \<not> rio_begin io \<or> \<not> rio_read io then Inl RunDatabase
      else (case find (\<lambda>r. rw_proxy_hash r = digest \<and> row_admits db (toUnixMillis now) r) (rdb_runs db) of
          None \<Rightarrow> Inl RunCapabilityRejected
        | Some w \<Rightarrow>
            (case scanCaptureRun w of
               None \<Rightarrow> Inl RunDatabase
             | Some r \<Rightarrow> Inr (r\<lparr>dr_RecordingScope := \<lparr> rec_Capture = \<lparr> ref_Kind = KindManagedRun, ref_ID = dr_ID r \<rparr>,
                                                       rec_Fence = original (dr_ID r) \<rparr>\<rparr>))))"

definition updateAndRead ::
  "run_io \<Rightarrow> run_db \<Rightarrow> string \<Rightarrow> (run_row \<Rightarrow> bool) \<Rightarrow> (run_row \<Rightarrow> run_row) \<Rightarrow> run_db \<times> (run_error + durable_record)" where
  "updateAndRead io db runID cond assign =
     (if \<not> rio_begin io \<or> \<not> rio_exec io then (db, Inl RunDatabase)
      else (case update_runs cond assign (rdb_runs db) of
          None \<Rightarrow> (db, Inl RunDatabase)
        | Some (rows, affected) \<Rightarrow>
            if affected \<noteq> 1 then (db, Inl RunCapabilityRejected)
            else (case find (\<lambda>r. rw_run_id r = runID) rows of
                None \<Rightarrow> (db, Inl RunDatabase)
              | Some w \<Rightarrow>
                  (case (if rio_read io then scanCaptureRun w else None) of
                     None \<Rightarrow> (db, Inl RunDatabase)
                   | Some r \<Rightarrow> commit_runs io db rows r))))"

definition Repo_Attach :: "run_io \<Rightarrow> run_db \<Rightarrow> string \<Rightarrow> string \<Rightarrow> int \<Rightarrow> go_time \<Rightarrow> run_db \<times> (run_error + durable_record)" where
  "Repo_Attach io db runID digest processID now =
     (let ms = toUnixMillis now in
      updateAndRead io db runID
        (\<lambda>r. rw_run_id r = runID \<and> rw_control_hash r = digest \<and> State_active (rw_state r) \<and> ms < rw_expires r
           \<and> (rw_process_id r = 0 \<or> rw_process_id r = processID) \<and> captureRunIdentityActive db ms r)
        (\<lambda>r. r\<lparr>rw_process_id := processID, rw_state := StateAttached, rw_updated := ms\<rparr>))"

definition Repo_Heartbeat ::
  "run_io \<Rightarrow> run_db \<Rightarrow> string \<Rightarrow> string \<Rightarrow> go_time \<Rightarrow> go_time \<Rightarrow> run_db \<times> (run_error + durable_record)" where
  "Repo_Heartbeat io db runID digest now expiresAt =
     (let ms = toUnixMillis now in
      updateAndRead io db runID
        (\<lambda>r. rw_run_id r = runID \<and> rw_control_hash r = digest
           \<and> (rw_state r = StateAttached \<or> rw_state r = StateExpired) \<and> 0 < rw_process_id r
           \<and> captureRunIdentityActive db ms r)
        (\<lambda>r. r\<lparr>rw_state := StateAttached, rw_expires := toUnixMillis expiresAt, rw_updated := ms\<rparr>))"

text \<open>
  The end of a stopping transaction: a failed commit is cleared up by reading the state back.  The
  read sees the table as the failed commit left it.
\<close>

definition commitNativeStop :: "run_io \<Rightarrow> run_db \<Rightarrow> run_row list \<Rightarrow> (run_row \<Rightarrow> bool) \<Rightarrow> string \<Rightarrow> run_db \<times> run_error list" where
  "commitNativeStop io db rows sel stopped =
     (let db' = (if rio_commit io = CommitLost then db else db\<lparr>rdb_runs := rows\<rparr>) in
      (db',
       if rio_commit io = CommitOK then []
       else (case (if rio_read io then find sel (rdb_runs db') else None) of
           None \<Rightarrow> [RunCommitUnknown, RunDatabase]
         | Some w \<Rightarrow>
             if rw_state w = stopped then []
             else if rw_state w \<in> {StateCreated, StateAttached, StateExpired, ''active''} then [RunDatabase]
             else [RunCommitUnknown, RunDatabase])))"

text \<open>The condition and the assignments of the UPDATE in \<open>Finish\<close>.\<close>

definition finish_where :: "string \<Rightarrow> string \<Rightarrow> run_row \<Rightarrow> bool" where
  "finish_where runID digest r \<longleftrightarrow> rw_run_id r = runID \<and> rw_control_hash r = digest
     \<and> rw_state r \<in> {StateCreated, StateAttached, StateExpired, StateFinished}"

definition finish_set :: "int \<Rightarrow> run_row \<Rightarrow> run_row" where
  "finish_set ms r = r\<lparr>rw_state := StateFinished, rw_updated := ms\<rparr>"

definition run_owned_by :: "string \<Rightarrow> string \<Rightarrow> run_row \<Rightarrow> bool" where
  "run_owned_by runID digest r \<longleftrightarrow> rw_run_id r = runID \<and> rw_control_hash r = digest"

definition Repo_Finish :: "run_io \<Rightarrow> run_db \<Rightarrow> string \<Rightarrow> string \<Rightarrow> go_time \<Rightarrow> run_db \<times> run_error list" where
  "Repo_Finish io db runID digest now =
     (if \<not> rio_begin io \<or> \<not> rio_exec io then (db, [RunDatabase])
      else (case update_runs (finish_where runID digest) (finish_set (toUnixMillis now)) (rdb_runs db) of
          None \<Rightarrow> (db, [RunDatabase])
        | Some (rows, affected) \<Rightarrow>
            if affected \<noteq> 1 then (db, [RunCapabilityRejected])
            else if \<not> rio_native io then (db, [RunDatabase])
            else commitNativeStop io db rows (run_owned_by runID digest) StateFinished))"

definition Repo_Recover :: "run_io \<Rightarrow> run_db \<Rightarrow> go_time \<Rightarrow> run_db \<times> (run_error + nat \<times> nat)" where
  "Repo_Recover io db now =
     (let ms = toUnixMillis now in
      if \<not> rio_begin io \<or> \<not> rio_exec io then (db, Inl RunDatabase)
      else (case update_runs (\<lambda>r. State_active (rw_state r) \<and> rw_expires r \<le> ms)
          (\<lambda>r. r\<lparr>rw_state := StateExpired, rw_updated := ms\<rparr>) (rdb_runs db) of
          None \<Rightarrow> (db, Inl RunDatabase)
        | Some (rows, expired) \<Rightarrow>
            if \<not> rio_native io \<or> \<not> rio_read io then (db, Inl RunDatabase)
            else commit_runs io db rows
              (expired, length (filter (\<lambda>r. State_active (rw_state r) \<and> ms < rw_expires r) rows))))"

definition Repo_RevokeActive :: "run_io \<Rightarrow> run_db \<Rightarrow> go_time \<Rightarrow> run_db \<times> (run_error + nat)" where
  "Repo_RevokeActive io db now =
     (if \<not> rio_begin io \<or> \<not> rio_exec io then (db, Inl RunDatabase)
      else (case update_runs (\<lambda>r. rw_state r \<in> {StateCreated, StateAttached, StateExpired})
          (\<lambda>r. r\<lparr>rw_state := StateRevoked, rw_updated := toUnixMillis now\<rparr>) (rdb_runs db) of
          None \<Rightarrow> (db, Inl RunDatabase)
        | Some (rows, affected) \<Rightarrow>
            if \<not> rio_native io then (db, Inl RunDatabase)
            else commit_runs io db rows affected))"

definition Repo_AuthorizeControl :: "run_io \<Rightarrow> run_db \<Rightarrow> string \<Rightarrow> string \<Rightarrow> go_time \<Rightarrow> run_error + durable_record" where
  "Repo_AuthorizeControl io db runID digest now =
     (if \<not> rio_begin io \<or> \<not> rio_read io then Inl RunDatabase
      else (case find (\<lambda>r. rw_run_id r = runID \<and> rw_control_hash r = digest \<and> row_admits db (toUnixMillis now) r)
              (rdb_runs db) of
          None \<Rightarrow> Inl RunCapabilityRejected
        | Some w \<Rightarrow> (case scanCaptureRun w of None \<Rightarrow> Inl RunDatabase | Some r \<Rightarrow> Inr r)))"

text \<open>\<open>ProxyValidity\<close>: the session of the row, and the earlier of the two ends.\<close>

definition row_session :: "run_db \<Rightarrow> run_row \<Rightarrow> login_session option" where
  "row_session db r = find (\<lambda>s. rw_session_id r = Some (ls_id s)) (rdb_sessions db)"

definition row_validity :: "run_db \<Rightarrow> run_row \<Rightarrow> validity" where
  "row_validity db r =
     (let s = row_session db r;
          ends = (case s of None \<Rightarrow> rw_expires r | Some x \<Rightarrow> min (rw_expires r) (ls_expires x))
      in \<lparr> val_Capture = \<lparr> ref_Kind = KindManagedRun, ref_ID = rw_run_id r \<rparr>, val_CredentialRevision = 1,
           val_ExpiresAt = (if fromUnixMillis ends = zero_time then None else Some (fromUnixMillis ends)),
           val_UserID = text_or_empty (rw_user_id r),
           val_SessionDigest = (case s of None \<Rightarrow> None
             | Some x \<Rightarrow> if ls_token_digest x = replicate 32 (CHR 0x00) then None else Some (ls_token_digest x)) \<rparr>)"

definition Repo_ProxyValidity :: "run_io \<Rightarrow> run_db \<Rightarrow> string \<Rightarrow> go_time \<Rightarrow> run_error + validity" where
  "Repo_ProxyValidity io db digest now =
     (if \<not> rio_begin io \<or> \<not> rio_read io then Inl RunDatabase
      else (case find (\<lambda>r. rw_proxy_hash r = digest \<and> row_admits db (toUnixMillis now) r) (rdb_runs db) of
          None \<Rightarrow> Inl RunCapabilityRejected
        | Some w \<Rightarrow> Inr (row_validity db w)))"

definition Repo_Active :: "run_io \<Rightarrow> run_db \<Rightarrow> string \<Rightarrow> go_time \<Rightarrow> run_error + bool" where
  "Repo_Active io db runID now =
     (if runID = [] \<or> now = zero_time then Inl RunInvalid
      else if \<not> rio_begin io \<or> \<not> rio_read io then Inl RunDatabase
      else (case find (\<lambda>r. rw_run_id r = runID) (rdb_runs db) of
          None \<Rightarrow> Inl RunNotFound
        | Some w \<Rightarrow>
            if State_active (rw_state w) then Inr (toUnixMillis now < rw_expires w)
            else if rw_state w \<in> {StateFinished, StateRevoked, StateExpired} then Inr False
            else Inl RunInvalid))"

section \<open>The manager\<close>

text \<open>
  Operations of the manager pass its lifecycle gate, do one transaction, and leave the gate.  The
  gate's own \<open>Finish\<close> never panics (\<open>Finish_total\<close>), so its \<open>None\<close> case below is not reached.
\<close>

record run_manager =
  rm_db :: run_db
  rm_gate :: lifecycle_gate
  rm_defaultLifetime :: int
  rm_maxLifetime :: int
  rm_activeRevoked :: bool
  rm_activeRevokeErr :: "run_error option"

fun gate_to_run_error :: "gate_error \<Rightarrow> run_error" where
  "gate_to_run_error GateInvalid = RunInvalid"
| "gate_to_run_error GateStopping = RunStopping"
| "gate_to_run_error (GateContext e) = RunContext e"

definition in_operation ::
  "ctx \<Rightarrow> run_manager \<Rightarrow> (run_error \<Rightarrow> 'a) \<Rightarrow> (run_db \<Rightarrow> run_db \<times> 'a) \<Rightarrow> run_manager \<times> 'a" where
  "in_operation c m refuse body =
     (case Begin c (rm_gate m) of
        (g, Inl e) \<Rightarrow> (m, refuse (gate_to_run_error e))
      | (g, Inr k) \<Rightarrow>
          (case body (rm_db m) of (db, v) \<Rightarrow>
            (m\<lparr>rm_db := db, rm_gate := (case Finish k g of None \<Rightarrow> g | Some g' \<Rightarrow> g')\<rparr>, v)))"

definition run_NewManager :: "run_io \<Rightarrow> ctx \<Rightarrow> int \<Rightarrow> int \<Rightarrow> go_time \<Rightarrow> run_db \<Rightarrow> run_db \<times> (run_error + run_manager)" where
  "run_NewManager io c defaultLifetime maxLifetime now db =
     (if c = CtxNil then (db, Inl RunInvalid)
      else if defaultLifetime \<le> 0 \<or> maxLifetime \<le> 0 \<or> defaultLifetime > maxLifetime then (db, Inl RunInvalid)
      else (case Repo_Recover io db now of
          (db', Inl e) \<Rightarrow> (db', Inl e)
        | (db', Inr _) \<Rightarrow>
            (db', Inr \<lparr> rm_db = db', rm_gate = New_lifecycle, rm_defaultLifetime = defaultLifetime,
              rm_maxLifetime = maxLifetime, rm_activeRevoked = False, rm_activeRevokeErr = None \<rparr>)))"

definition proxyDigestDomain :: string where
  "proxyDigestDomain = ''vibermate:capture-run:proxy:v1:''"

definition controlDigestDomain :: string where
  "controlDigestDomain = ''vibermate:capture-run:control:v1:''"

text \<open>\<open>sha\<close> is SHA-256, a function from bytes to 32 bytes.\<close>

definition capabilityDigest :: "(string \<Rightarrow> string) \<Rightarrow> string \<Rightarrow> string \<Rightarrow> string" where
  "capabilityDigest sha domain v = sha (domain @ v)"

text \<open>Random values: the bytes read, \<open>None\<close> when the source fails.\<close>

definition newRunID :: "string option \<Rightarrow> string option" where
  "newRunID entropy =
     (case entropy of
        None \<Rightarrow> None
      | Some bytes \<Rightarrow>
          (let v = ''run.'' @ EncodeToString bytes in if run_validateID v then Some v else None))"

definition randomProxyCapability :: "string option \<Rightarrow> string option" where
  "randomProxyCapability entropy =
     (case entropy of
        None \<Rightarrow> None
      | Some bytes \<Rightarrow>
          (case New_credential cred_KindManagedRun bytes of Inl e \<Rightarrow> None | Inr c \<Rightarrow> Some (cred_value c)))"

record entropy =
  ent_id :: "string option"
  ent_proxy :: "string option"
  ent_control :: "string option"

record launch_grant =
  lg_Run :: run_view
  lg_ProxyCapability :: string
  lg_ControlCapability :: string

definition created_record :: "(string \<Rightarrow> string) \<Rightarrow> create_command \<Rightarrow> string \<Rightarrow> string \<Rightarrow> string \<Rightarrow> go_time \<Rightarrow> durable_record" where
  "created_record sha c runID proxy control now = \<lparr> dr_RecordingScope = zero_recording_scope, dr_ID = runID,
     dr_ProxyCapabilityHash = capabilityDigest sha proxyDigestDomain proxy,
     dr_ControlCapabilityHash = capabilityDigest sha controlDigestDomain control,
     dr_CWD = cc_CWD c, dr_CanonicalExecutablePath = cc_CanonicalExecutablePath c, dr_Runtime = cc_Runtime c,
     dr_RuntimeUserID = cc_RuntimeUserID c, dr_RuntimeUsername = cc_RuntimeUsername c,
     dr_LoginSessionID = cc_LoginSessionID c, dr_DeviceName = cc_DeviceName c,
     dr_ExecutableLabel = cc_ExecutableLabel c, dr_CatalogRevision = cc_CatalogRevision c, dr_Adapter = cc_Adapter c,
     dr_Workspace = cc_Workspace c, dr_Recognition = NormalizedRecognition (cc_Recognition c), dr_ProcessID = 0,
     dr_State = StateCreated, dr_Observation = ObservationWaitingForTraffic, dr_FirstObservedAt = zero_time,
     dr_CreatedAt = now, dr_ExpiresAt = now + cc_Lifetime c, dr_UpdatedAt = now \<rparr>"

definition run_Create ::
  "(string \<Rightarrow> string) \<Rightarrow> run_io \<Rightarrow> bool \<Rightarrow> entropy \<Rightarrow> go_time \<Rightarrow> ctx \<Rightarrow> create_command \<Rightarrow> run_manager
    \<Rightarrow> run_manager \<times> (run_error + launch_grant)" where
  "run_Create sha io archive ent now ctx command m =
     (let c = (if cc_Lifetime command = 0 then command\<lparr>cc_Lifetime := rm_defaultLifetime m\<rparr> else command) in
      if \<not> Command_validate c (rm_maxLifetime m) then (m, Inl RunInvalid)
      else in_operation ctx m Inl (\<lambda>db.
        if \<not> archive then (db, Inl RunArchive)
        else (case newRunID (ent_id ent) of
          None \<Rightarrow> (db, Inl RunRandom)
        | Some runID \<Rightarrow> (case randomProxyCapability (ent_proxy ent) of
            None \<Rightarrow> (db, Inl RunRandom)
          | Some proxy \<Rightarrow> (case ent_control ent of
              None \<Rightarrow> (db, Inl RunRandom)
            | Some bytes \<Rightarrow>
                (let control = EncodeToString bytes; r = created_record sha c runID proxy control now in
                 if \<not> Record_Validate r then (db, Inl RunInvalid)
                 else (case Repo_Create io db r of
                     (db', Inl e) \<Rightarrow> (db', Inl e)
                   | (db', Inr _) \<Rightarrow> (db', Inr \<lparr> lg_Run = ViewOf r, lg_ProxyCapability = proxy,
                                                lg_ControlCapability = control \<rparr>))))))))"

definition run_AuthorizeProxy ::
  "(string \<Rightarrow> string) \<Rightarrow> run_io \<Rightarrow> (string \<Rightarrow> fence) \<Rightarrow> go_time \<Rightarrow> ctx \<Rightarrow> string \<Rightarrow> run_manager
    \<Rightarrow> run_manager \<times> (run_error + run_evidence)" where
  "run_AuthorizeProxy sha io fences now ctx capability m =
     (if NewProxyCapability capability = None then (m, Inl RunCapabilityRejected)
      else in_operation ctx m Inl (\<lambda>db.
        (db, case Repo_AuthorizeProxy io db fences (capabilityDigest sha proxyDigestDomain capability) now of
               Inl e \<Rightarrow> Inl e
             | Inr r \<Rightarrow> if \<not> Record_Validate r \<or> \<not> State_active (dr_State r) then Inl RunCapabilityRejected
                        else Inr (evidenceOf r))))"

definition run_Attach ::
  "(string \<Rightarrow> string) \<Rightarrow> run_io \<Rightarrow> go_time \<Rightarrow> ctx \<Rightarrow> string \<Rightarrow> string \<Rightarrow> int \<Rightarrow> run_manager
    \<Rightarrow> run_manager \<times> (run_error + run_view)" where
  "run_Attach sha io now ctx runID capability processID m =
     (if \<not> run_validateID runID then (m, Inl RunInvalid)
      else if \<not> validateCapability capability then (m, Inl RunCapabilityRejected)
      else if processID \<le> 0 then (m, Inl RunInvalid)
      else in_operation ctx m Inl (\<lambda>db.
        (case Repo_Attach io db runID (capabilityDigest sha controlDigestDomain capability) processID now of
           (db', Inl e) \<Rightarrow> (db', Inl e)
         | (db', Inr r) \<Rightarrow> (db', if Record_Validate r then Inr (ViewOf r) else Inl RunInvalid))))"

text \<open>\<open>notifyAuthorityChange\<close> runs whether or not the heartbeat succeeded; \<open>notify\<close> is whether it did.\<close>

definition run_Heartbeat ::
  "(string \<Rightarrow> string) \<Rightarrow> run_io \<Rightarrow> bool \<Rightarrow> bool \<Rightarrow> go_time \<Rightarrow> ctx \<Rightarrow> string \<Rightarrow> string \<Rightarrow> int \<Rightarrow> run_manager
    \<Rightarrow> run_manager \<times> (run_error list + run_view)" where
  "run_Heartbeat sha io archive notify now ctx runID capability lifetime m =
     (let life = (if lifetime = 0 then rm_defaultLifetime m else lifetime) in
      if \<not> run_validateID runID then (m, Inl [RunInvalid])
      else if \<not> validateCapability capability then (m, Inl [RunCapabilityRejected])
      else if life \<le> 0 \<or> life > rm_maxLifetime m then (m, Inl [RunInvalid])
      else in_operation ctx m (\<lambda>e. Inl [e]) (\<lambda>db.
        if \<not> archive then (db, Inl [RunArchive])
        else (case Repo_Heartbeat io db runID (capabilityDigest sha controlDigestDomain capability) now (now + life) of
            (db', Inl e) \<Rightarrow> (db', Inl (e # (if notify then [] else [RunNotify])))
          | (db', Inr r) \<Rightarrow>
              (let errs = (if Record_Validate r then [] else [RunInvalid]) @ (if notify then [] else [RunNotify]) in
               (db', if errs = [] then Inr (ViewOf r) else Inl errs)))))"

text \<open>
  \<open>Finish\<close>.  \<open>barrier\<close> is \<open>None\<close> without an evidence barrier, else whether it could be prepared; the
  prepared boundary is then committed or aborted.
\<close>

datatype terminal_call = TerminalCommit | TerminalAbort

definition run_Finish ::
  "(string \<Rightarrow> string) \<Rightarrow> run_io \<Rightarrow> bool option \<Rightarrow> bool \<Rightarrow> go_time \<Rightarrow> ctx \<Rightarrow> string \<Rightarrow> string \<Rightarrow> run_manager
    \<Rightarrow> run_manager \<times> run_error list \<times> terminal_call option" where
  "run_Finish sha io barrier notify now ctx runID capability m =
     (if \<not> run_validateID runID then (m, [RunInvalid], None)
      else if \<not> validateCapability capability then (m, [RunCapabilityRejected], None)
      else in_operation ctx m (\<lambda>e. ([e], None)) (\<lambda>db.
        if barrier = Some False then (db, [RunEvidence], None)
        else (case Repo_Finish io db runID (capabilityDigest sha controlDigestDomain capability) now of
            (db', errs) \<Rightarrow>
              if errs = [] \<or> RunCommitUnknown \<in> set errs
              then (db', errs @ (if notify then [] else [RunNotify]),
                    if barrier = Some True then Some TerminalCommit else None)
              else (db', errs, if barrier = Some True then Some TerminalAbort else None))))"

definition run_ActiveCount :: "run_io \<Rightarrow> go_time \<Rightarrow> ctx \<Rightarrow> run_manager \<Rightarrow> run_manager \<times> (run_error + nat)" where
  "run_ActiveCount io now ctx m =
     in_operation ctx m Inl (\<lambda>db.
       (case Repo_Recover io db now of
          (db', Inl e) \<Rightarrow> (db', Inl e)
        | (db', Inr (expired, active)) \<Rightarrow> (db', Inr active)))"

definition run_AuthorizeControl ::
  "(string \<Rightarrow> string) \<Rightarrow> run_io \<Rightarrow> go_time \<Rightarrow> ctx \<Rightarrow> string \<Rightarrow> string \<Rightarrow> run_manager
    \<Rightarrow> run_manager \<times> (run_error + run_view)" where
  "run_AuthorizeControl sha io now ctx runID capability m =
     (if \<not> run_validateID runID \<or> \<not> validateCapability capability then (m, Inl RunCapabilityRejected)
      else in_operation ctx m Inl (\<lambda>db.
        (db, case Repo_AuthorizeControl io db runID (capabilityDigest sha controlDigestDomain capability) now of
               Inl e \<Rightarrow> Inl e
             | Inr r \<Rightarrow> if \<not> Record_Validate r \<or> \<not> State_active (dr_State r) then Inl RunCapabilityRejected
                        else Inr (ViewOf r))))"

definition run_ProxyValidity ::
  "(string \<Rightarrow> string) \<Rightarrow> run_io \<Rightarrow> go_time \<Rightarrow> ctx \<Rightarrow> string \<Rightarrow> run_manager \<Rightarrow> run_manager \<times> (run_error + validity)" where
  "run_ProxyValidity sha io now ctx capability m =
     in_operation ctx m Inl (\<lambda>db.
       (db, Repo_ProxyValidity io db (capabilityDigest sha proxyDigestDomain capability) now))"

definition run_BeginShutdown :: "run_manager \<Rightarrow> run_manager" where
  "run_BeginShutdown m = m\<lparr>rm_gate := (case CloseAdmission (rm_gate m) of None \<Rightarrow> rm_gate m | Some g \<Rightarrow> g)\<rparr>"

text \<open>\<open>Shutdown\<close> after its drain; a call whose drain ends with an error changes nothing more.\<close>

definition run_Shutdown :: "run_io \<Rightarrow> go_time \<Rightarrow> run_manager \<Rightarrow> run_manager \<times> run_error option" where
  "run_Shutdown io now m0 =
     (let m = run_BeginShutdown m0 in
      if \<not> Drain_now (rm_gate m) then (m, Some (RunContext DeadlineExceeded))
      else if rm_activeRevoked m then (m, rm_activeRevokeErr m)
      else (case Repo_RevokeActive io (rm_db m) now of
          (db', Inr _) \<Rightarrow> (m\<lparr>rm_db := db', rm_activeRevoked := True, rm_activeRevokeErr := None\<rparr>, None)
        | (db', Inl e) \<Rightarrow> (m\<lparr>rm_db := db', rm_activeRevokeErr := Some e\<rparr>, Some e)))"

end
