(* ===== verification/Capture_Run_Rows.thy ===== *)
theory Capture_Run_Rows
  imports Capture_Run_Store
begin

text \<open>
  What is written to the table is what is read from it: the round trip of a record through its row,
  and that the changes of a lease keep a row readable.
\<close>

section \<open>Columns\<close>

lemma hex_value_lower:
  assumes "hex_value c = Some h" and "lower_rune (\<lambda>r. r) (of_char c) = of_char c"
  shows "hex_lower h = c" "h < 16"
proof -
  show "h < 16" using assms(1) by (auto simp: hex_value_def Let_def split: if_splits)
  have "\<not> (65 \<le> (of_char c :: nat) \<and> (of_char c :: nat) \<le> 70)" using assms(2) by (auto simp: lower_rune_def)
  then show "hex_lower h = c"
    using assms(1) by (auto simp: hex_value_def Let_def hex_lower_def byte_char_def split: if_splits)
qed

lemma hex_decode_ascii: "hex_DecodeString v = Some d \<Longrightarrow> is_ascii v"
  by (induction v arbitrary: d rule: hex_DecodeString.induct)
    (auto simp: is_ascii_def hex_value_def Let_def split: option.splits if_splits)

lemma hex_encode_decode:
  assumes "hex_DecodeString v = Some d" and "list_all (\<lambda>c. lower_rune (\<lambda>r. r) (of_char c) = of_char c) v"
  shows "hex_EncodeToString d = v"
  using assms
proof (induction v arbitrary: d rule: hex_DecodeString.induct)
  case (3 c1 c2 s)
  then obtain h l r where d: "hex_value c1 = Some h" "hex_value c2 = Some l" "hex_DecodeString s = Some r"
      "d = (16 * h + l) # r" by (auto split: option.splits)
  have "hex_EncodeToString r = s" using 3 d by auto
  moreover have "hex_lower h = c1" "hex_lower l = c2" "l < 16"
    using hex_value_lower [OF d(1)] hex_value_lower [OF d(2)] 3(3) by auto
  ultimately show ?case using d by (simp add: hex_EncodeToString_def)
qed (auto simp: hex_EncodeToString_def)

lemma validDigest_decodes:
  assumes "validDigest v"
  obtains d where "hex_DecodeString v = Some d" "length d = 32" "hex_EncodeToString d = v"
proof -
  obtain d where d: "hex_DecodeString v = Some d" "length d = 32" "to_lower (\<lambda>r. r) v = v"
    using assms by (auto simp: validDigest_def split: option.splits)
  have "map (\<lambda>c. byte_char (lower_rune (\<lambda>r. r) (of_char c))) v = v"
    using d(3) hex_decode_ascii [OF d(1)] by (simp add: to_lower_def)
  then have "byte_char (lower_rune (\<lambda>r. r) (of_char c)) = c" if "c \<in> set v" for c
    using that by (metis (no_types, lifting) list.map_ident map_eq_conv)
  moreover have "lower_rune (\<lambda>r. r) (of_char c) < 256" if "c \<in> set v" for c
    using nat_of_char_less_256 [of c] by (simp add: lower_rune_def)
  ultimately have "lower_rune (\<lambda>r. r) (of_char c) = of_char c" if "c \<in> set v" for c
    using that by (metis mod_less of_byte_char)
  then show thesis using that d hex_encode_decode [OF d(1)] by (simp add: list_all_iff)
qed

lemma adapter_read_back:
  assumes "adapter_ok catalog adapter" "adapter_check (captureRunAdapterColumns adapter)"
  shows "scan_adapter catalog (captureRunAdapterColumns adapter) = Some adapter"
proof (cases adapter)
  case None
  then show ?thesis by (simp add: scan_adapter_def captureRunAdapterColumns_def)
next
  case (Some e)
  then have e: "Adapter_Validate e" "ad_CatalogRevision e = catalog" using assms(1) by (auto simp: adapter_ok_def)
  then have "validDigest (ad_ReleaseSHA256 e)" "ad_ID e \<noteq> []" "Revision_Valid (ad_Revision e)"
    by (auto simp: Adapter_Validate_def)
  moreover from this obtain d where "hex_DecodeString (ad_ReleaseSHA256 e) = Some d" "length d = 32"
      "hex_EncodeToString d = ad_ReleaseSHA256 e" using validDigest_decodes by blast
  moreover have "sint (ad_Revision e) \<noteq> 0"
  proof
    assume "sint (ad_Revision e) = 0"
    then have "sint (ad_Revision e) = sint (0 :: uint64)" by simp
    then have "ad_Revision e = 0" by (rule signed_word_eqI)
    then show False using \<open>Revision_Valid _\<close> by (simp add: Revision_Valid_def)
  qed
  ultimately show ?thesis using e(2) by (simp add: Some scan_adapter_def captureRunAdapterColumns_def)
qed

definition workspace_columns_of :: "scope \<Rightarrow> workspace_columns" where
  "workspace_columns_of s = \<lparr> wc_machine_id = sc_machineID s, wc_machine_revision = sint (sc_registrationRevision s),
     wc_workspace_id = sc_workspaceID s, wc_label = sc_workspaceLabel s, wc_evidence = sc_evidence s,
     wc_derivation_revision = sint (sc_derivationRevision s) \<rparr>"

lemma workspace_read_back:
  assumes "s = zero_scope \<or> Scope_Validate s" "workspace_check (workspace_columns_of s)"
  shows "scan_workspace (workspace_columns_of s) = Some s"
proof (cases "s = zero_scope")
  case True
  then show ?thesis by (simp add: scan_workspace_def workspace_columns_of_def zero_scope_def)
next
  case False
  then have "workspace_validOpaqueIdentity (sc_machineID s)" "workspace_validOpaqueIdentity (sc_workspaceID s)"
    using assms(1) by (auto simp: Scope_Validate_def)
  moreover from this have "sc_machineID s \<noteq> []" by (auto simp: workspace_validOpaqueIdentity_def)
  moreover have "0 \<le> sint (sc_registrationRevision s)" "0 \<le> sint (sc_derivationRevision s)"
    using assms(2) by (auto simp: workspace_check_def workspace_columns_of_def between_def)
  ultimately show ?thesis by (simp add: scan_workspace_def workspace_columns_of_def)
qed

lemma text_or_empty_nullable [simp]: "text_or_empty (nullableText v) = v" "nullableText v = None \<longleftrightarrow> v = []"
  by (simp_all add: text_or_empty_def nullableText_def)

section \<open>Rows\<close>

definition in_millis :: "go_time \<Rightarrow> go_time" where
  "in_millis t = fromUnixMillis (toUnixMillis t)"

text \<open>A record as the table keeps it: times in milliseconds, without the scope that is added on reading.\<close>

definition stored_form :: "durable_record \<Rightarrow> durable_record" where
  "stored_form r = r\<lparr>dr_RecordingScope := zero_recording_scope, dr_Recognition := NormalizedRecognition (dr_Recognition r),
     dr_CreatedAt := in_millis (dr_CreatedAt r), dr_ExpiresAt := in_millis (dr_ExpiresAt r),
     dr_UpdatedAt := in_millis (dr_UpdatedAt r)\<rparr>"

lemma in_millis_facts: "0 \<le> t \<Longrightarrow> 0 \<le> in_millis t" "s \<le> t \<Longrightarrow> in_millis s \<le> in_millis t" "0 \<le> t \<Longrightarrow> in_millis t \<noteq> zero_time"
  by (auto simp: in_millis_def fromUnixMillis_def toUnixMillis_def zero_time_def zdiv_mono1)

lemma NormalizedRecognition_twice [simp]: "NormalizedRecognition (NormalizedRecognition r) = NormalizedRecognition r"
  by (simp add: NormalizedRecognition_def RecognitionUnknown_def)

lemma stored_form_valid:
  assumes "Record_Validate r" "dr_Observation r = ObservationWaitingForTraffic" "0 \<le> dr_CreatedAt r"
  shows "Record_Validate (stored_form r)"
proof -
  have "dr_CreatedAt r \<le> dr_ExpiresAt r" "dr_CreatedAt r \<le> dr_UpdatedAt r"
    using assms(1) by (auto simp: Record_Validate_def times_ok_def)
  then have "times_ok (stored_form r)"
    using assms(3) in_millis_facts by (auto simp: times_ok_def stored_form_def not_less)
  moreover have "fixed_ok (stored_form r)"
    using assms(1) by (simp add: Record_Validate_def fixed_ok_def stored_form_def recognition_ok_def)
  moreover have "observation_ok (stored_form r)" "process_ok (stored_form r)"
    using assms by (auto simp: Record_Validate_def observation_ok_def process_ok_def stored_form_def Observed_def
        ObservationWaitingForTraffic_def ObservationObserved_def)
  ultimately show ?thesis by (simp add: Record_Validate_def)
qed

lemma stored_form_fields:
  "stored_form r = \<lparr> dr_RecordingScope = zero_recording_scope, dr_ID = dr_ID r,
     dr_ProxyCapabilityHash = dr_ProxyCapabilityHash r, dr_ControlCapabilityHash = dr_ControlCapabilityHash r,
     dr_CWD = dr_CWD r, dr_CanonicalExecutablePath = dr_CanonicalExecutablePath r, dr_Runtime = dr_Runtime r,
     dr_RuntimeUserID = dr_RuntimeUserID r, dr_RuntimeUsername = dr_RuntimeUsername r,
     dr_LoginSessionID = dr_LoginSessionID r, dr_DeviceName = dr_DeviceName r,
     dr_ExecutableLabel = dr_ExecutableLabel r, dr_CatalogRevision = dr_CatalogRevision r,
     dr_Adapter = dr_Adapter r, dr_Workspace = dr_Workspace r,
     dr_Recognition = NormalizedRecognition (dr_Recognition r), dr_ProcessID = dr_ProcessID r, dr_State = dr_State r,
     dr_Observation = dr_Observation r, dr_FirstObservedAt = dr_FirstObservedAt r,
     dr_CreatedAt = in_millis (dr_CreatedAt r), dr_ExpiresAt = in_millis (dr_ExpiresAt r),
     dr_UpdatedAt = in_millis (dr_UpdatedAt r) \<rparr>"
  by (cases r) (simp add: stored_form_def)

lemma inserted_row_read_back:
  assumes valid: "Record_Validate r" and wait: "dr_Observation r = ObservationWaitingForTraffic"
    and time: "0 \<le> dr_CreatedAt r" and check: "run_row_check (inserted_row r)"
  shows "scanCaptureRun (inserted_row r) = Some (stored_form r)"
proof -
  have fixed: "fixed_ok r" and zero: "dr_FirstObservedAt r = zero_time"
    using valid wait by (auto simp: Record_Validate_def observation_ok_def Observed_def
        ObservationWaitingForTraffic_def ObservationObserved_def)
  have cols: "rw_workspace (inserted_row r) = workspace_columns_of (dr_Workspace r)"
    by (simp add: inserted_row_def workspace_columns_of_def)
  have "scan_workspace (rw_workspace (inserted_row r)) = Some (dr_Workspace r)"
    using fixed check unfolding cols by (intro workspace_read_back) (simp_all add: fixed_ok_def run_row_check_def flip: cols)
  moreover have "scan_adapter (dr_CatalogRevision r) (rw_adapter (inserted_row r)) = Some (dr_Adapter r)"
    using fixed check adapter_read_back [of "dr_CatalogRevision r" "dr_Adapter r"]
    by (simp add: fixed_ok_def run_row_check_def inserted_row_def)
  moreover have "(dr_RuntimeUserID r = []) = (dr_RuntimeUsername r = []) \<and> (dr_RuntimeUserID r = []) = (dr_LoginSessionID r = [])
      \<and> (dr_RuntimeUserID r = []) = (dr_DeviceName r = [])"
    using fixed unfolding fixed_ok_def attribution_ok_def by blast
  then have "(dr_RuntimeUserID r = []) = (dr_RuntimeUsername r = [])" "(dr_RuntimeUsername r = []) = (dr_LoginSessionID r = [])"
      "(dr_RuntimeUsername r = []) = (dr_DeviceName r = [])" by blast+
  moreover have "0 < sint (dr_CatalogRevision r)" "0 \<le> ac_revision (rw_adapter (inserted_row r))"
      "0 \<le> ac_features (rw_adapter (inserted_row r))" "length (dr_ProxyCapabilityHash r) = 32"
      "length (dr_ControlCapabilityHash r) = 32"
    using check by (auto simp: run_row_check_def between_def adapter_check_def inserted_row_def)
  ultimately show ?thesis
    using stored_form_valid [OF valid wait time] wait zero unfolding stored_form_fields
    by (simp add: scanCaptureRun_def inserted_row_def in_millis_def Let_def)
qed

text \<open>Changing the columns of the lease keeps a row readable.\<close>

definition row_ok :: "run_row \<Rightarrow> bool" where
  "row_ok r \<longleftrightarrow> run_row_check r \<and> scanCaptureRun r \<noteq> None \<and> 0 \<le> rw_created r"

definition lease_update :: "run_row \<Rightarrow> run_row \<Rightarrow> bool" where
  "lease_update r q \<longleftrightarrow> (\<exists>p st ex up. q = r\<lparr>rw_process_id := p, rw_state := st, rw_expires := ex, rw_updated := up\<rparr>)"

lemma lease_updateI:
  "lease_update r (r\<lparr>rw_process_id := p, rw_state := st, rw_updated := up\<rparr>)"
  "lease_update r (r\<lparr>rw_state := st, rw_expires := ex, rw_updated := up\<rparr>)"
  "lease_update r (r\<lparr>rw_state := st, rw_updated := up\<rparr>)"
proof -
  have same: "r\<lparr>rw_process_id := p, rw_state := st, rw_updated := up\<rparr>
      = r\<lparr>rw_process_id := p, rw_state := st, rw_expires := rw_expires r, rw_updated := up\<rparr>"
    "r\<lparr>rw_state := st, rw_expires := ex, rw_updated := up\<rparr>
      = r\<lparr>rw_process_id := rw_process_id r, rw_state := st, rw_expires := ex, rw_updated := up\<rparr>"
    "r\<lparr>rw_state := st, rw_updated := up\<rparr>
      = r\<lparr>rw_process_id := rw_process_id r, rw_state := st, rw_expires := rw_expires r, rw_updated := up\<rparr>"
    by (cases r; simp)+
  show "lease_update r (r\<lparr>rw_process_id := p, rw_state := st, rw_updated := up\<rparr>)"
    "lease_update r (r\<lparr>rw_state := st, rw_expires := ex, rw_updated := up\<rparr>)"
    "lease_update r (r\<lparr>rw_state := st, rw_updated := up\<rparr>)"
    unfolding lease_update_def using same by blast+
qed

lemma scanCaptureRun_fields:
  "scanCaptureRun w = Some r \<Longrightarrow> dr_ID r = rw_run_id w \<and> dr_State r = rw_state w \<and> dr_ProcessID r = rw_process_id w
     \<and> dr_ExpiresAt r = fromUnixMillis (rw_expires w) \<and> dr_ProxyCapabilityHash r = rw_proxy_hash w
     \<and> dr_ControlCapabilityHash r = rw_control_hash w \<and> Record_Validate r"
  by (auto simp: scanCaptureRun_def Let_def split: if_splits option.splits)

lemma row_ok_update:
  assumes ok: "row_ok r" and up: "lease_update r q" and check: "run_row_check q"
  shows "row_ok q"
proof -
  obtain p st ex u where q: "q = r\<lparr>rw_process_id := p, rw_state := st, rw_expires := ex, rw_updated := u\<rparr>"
    using up by (auto simp: lease_update_def)
  obtain rec where rec: "scanCaptureRun r = Some rec" and time: "0 \<le> rw_created r" using ok by (auto simp: row_ok_def)
  let ?rec = "rec\<lparr>dr_ProcessID := p, dr_State := st, dr_ExpiresAt := fromUnixMillis ex, dr_UpdatedAt := fromUnixMillis u\<rparr>"
  have lease: "lease_check q" using check by (simp add: run_row_check_def)
  have rec_valid: "fixed_ok rec" "observation_ok rec" "dr_CreatedAt rec = fromUnixMillis (rw_created r)"
    using rec by (auto simp: scanCaptureRun_def Record_Validate_def Let_def split: if_splits option.splits)
  have "fixed_ok ?rec" using rec_valid(1) by (simp add: fixed_ok_def)
  moreover have "observation_ok ?rec" using rec_valid(2) by (simp add: observation_ok_def Observed_def)
  moreover have "process_ok ?rec" using lease by (auto simp: process_ok_def lease_check_def q)
  moreover have "times_ok ?rec" using lease time rec_valid(3)
    by (auto simp: times_ok_def lease_check_def q fromUnixMillis_def zero_time_def)
  ultimately have "Record_Validate ?rec" by (simp add: Record_Validate_def)
  then have "scanCaptureRun q = Some ?rec"
    using rec unfolding q by (auto simp: scanCaptureRun_def Let_def split: if_splits option.splits)
  then show ?thesis using check time by (simp add: row_ok_def q)
qed

end
