(* ===== verification/Capture_Run_Safety.thy ===== *)
theory Capture_Run_Safety
  imports Capture_Run_Rows
begin

text \<open>
  The life of Capture runs: every operation of the manager, restarts, and changes of users and
  sessions in any order.  A specification of what a lease may do is stated apart from tables,
  capabilities and times, and the manager is shown to implement it.
\<close>

section \<open>The specification of a lease\<close>

datatype lease = LeaseCreated | LeaseAttached int | LeaseExpired int | LeaseFinished | LeaseRevoked

inductive lease_step :: "lease \<Rightarrow> lease \<Rightarrow> bool" where
  attach: "0 < p \<Longrightarrow> lease_step LeaseCreated (LeaseAttached p)"
| renew: "0 < p \<Longrightarrow> lease_step (LeaseExpired p) (LeaseAttached p)"
| expire_created: "lease_step LeaseCreated (LeaseExpired 0)"
| expire_attached: "lease_step (LeaseAttached p) (LeaseExpired p)"
| finish: "l \<noteq> LeaseRevoked \<Longrightarrow> lease_step l LeaseFinished"
| revoke: "l \<noteq> LeaseFinished \<Longrightarrow> lease_step l LeaseRevoked"

inductive_cases lease_stepE: "lease_step l l'"

type_synonym leases = "string \<rightharpoonup> lease"

inductive leases_step :: "leases \<Rightarrow> leases \<Rightarrow> bool" where
  idle: "leases_step \<sigma> \<sigma>"
| create: "\<sigma> runID = None \<Longrightarrow> leases_step \<sigma> (\<sigma>(runID \<mapsto> LeaseCreated))"
| one: "\<sigma> runID = Some l \<Longrightarrow> lease_step l l' \<Longrightarrow> leases_step \<sigma> (\<sigma>(runID \<mapsto> l'))"
| expire: "dom \<sigma>' = dom \<sigma> \<Longrightarrow>
    (\<And>i l. \<sigma> i = Some l \<Longrightarrow> \<sigma>' i = Some l \<or> (\<exists>p. \<sigma>' i = Some (LeaseExpired p) \<and> lease_step l (LeaseExpired p)))
    \<Longrightarrow> leases_step \<sigma> \<sigma>'"
| revoke_all: "leases_step \<sigma> (\<lambda>i. map_option (\<lambda>l. if l = LeaseFinished then l else LeaseRevoked) (\<sigma> i))"

text \<open>What follows from the specification alone: stopped leases stay stopped, and a process stays.\<close>

fun lease_process :: "lease \<Rightarrow> int" where
  "lease_process (LeaseAttached p) = p"
| "lease_process (LeaseExpired p) = p"
| "lease_process _ = 0"

lemma lease_step_stopped: "lease_step l l' \<Longrightarrow> l \<noteq> LeaseRevoked \<and> (l = LeaseFinished \<longrightarrow> l' = LeaseFinished)
    \<or> l = LeaseRevoked \<and> l' = LeaseRevoked"
  by (erule lease_stepE) auto

lemma leases_step_kept:
  assumes "leases_step \<sigma> \<sigma>'" and "\<sigma> i = Some l"
  shows "\<exists>l'. \<sigma>' i = Some l' \<and> (l' = l \<or> lease_step l l')"
  using assms
proof cases
  case (one runID a b)
  then show ?thesis using assms(2) by (cases "i = runID") auto
next
  case expire
  then show ?thesis using assms(2) by blast
next
  case revoke_all
  then show ?thesis using assms(2) by (auto intro: lease_step.revoke)
qed (use assms(2) in \<open>auto split: if_splits\<close>)

lemma lease_steps_stopped:
  assumes "leases_step\<^sup>*\<^sup>* \<sigma> \<sigma>'" and "\<sigma> i = Some l" and "l = LeaseFinished \<or> l = LeaseRevoked"
  shows "\<sigma>' i = Some l"
  using assms
proof (induction rule: rtranclp_induct)
  case (step \<tau> \<tau>')
  then obtain l' where "\<tau>' i = Some l'" "l' = l \<or> lease_step l l'" using leases_step_kept by blast
  then show ?case using step.prems lease_step_stopped by (metis lease.distinct(19))
qed simp

lemma lease_step_process: "lease_step l l' \<Longrightarrow> lease_process l' = lease_process l \<or> lease_process l = 0 \<or> lease_process l' = 0"
  by (erule lease_stepE) auto

section \<open>What a table stands for\<close>

definition lease_of :: "run_row \<Rightarrow> lease" where
  "lease_of r =
     (if rw_state r = StateCreated then LeaseCreated
      else if rw_state r = StateAttached then LeaseAttached (rw_process_id r)
      else if rw_state r = StateExpired then LeaseExpired (rw_process_id r)
      else if rw_state r = StateFinished then LeaseFinished
      else LeaseRevoked)"

definition leases_of :: "run_row list \<Rightarrow> leases" where
  "leases_of rows = map_of (map (\<lambda>r. (rw_run_id r, lease_of r)) rows)"

definition table_ok :: "run_row list \<Rightarrow> bool" where
  "table_ok rows \<longleftrightarrow> list_all row_ok rows \<and> distinct (map rw_run_id rows)
     \<and> distinct (map rw_proxy_hash rows) \<and> distinct (map rw_control_hash rows)"

lemma leases_of_row: "distinct (map rw_run_id rows) \<Longrightarrow> r \<in> set rows \<Longrightarrow> leases_of rows (rw_run_id r) = Some (lease_of r)"
  by (auto simp: leases_of_def comp_def intro!: map_of_is_SomeI)

lemma leases_of_None: "leases_of rows i = None \<longleftrightarrow> i \<notin> rw_run_id ` set rows"
  by (auto simp: leases_of_def map_of_eq_None_iff image_image)

lemma leases_of_Some:
  "distinct (map rw_run_id rows) \<Longrightarrow> leases_of rows i = Some l \<longleftrightarrow> (\<exists>r \<in> set rows. rw_run_id r = i \<and> lease_of r = l)"
  by (auto simp: leases_of_def comp_def)

lemma leases_of_append:
  "leases_of rows (rw_run_id r) = None \<Longrightarrow> leases_of (rows @ [r]) = (leases_of rows)(rw_run_id r \<mapsto> lease_of r)"
  by (rule ext) (auto simp: leases_of_def map_add_def split: option.splits)

text \<open>Changes of leases keep the table in order.\<close>

definition keeps_identity :: "(run_row \<Rightarrow> run_row) \<Rightarrow> bool" where
  "keeps_identity f \<longleftrightarrow> (\<forall>r. lease_update r (f r))"

lemma lease_update_identity:
  "lease_update r q \<Longrightarrow> rw_run_id q = rw_run_id r \<and> rw_proxy_hash q = rw_proxy_hash r \<and> rw_control_hash q = rw_control_hash r
    \<and> rw_user_id q = rw_user_id r \<and> rw_session_id q = rw_session_id r"
  by (auto simp: lease_update_def)

lemma update_runs_rows:
  assumes up: "update_runs cond assign rows = Some (rows', n)" and keep: "keeps_identity assign" and ok: "table_ok rows"
  shows "rows' = map (\<lambda>r. if cond r then assign r else r) rows" "table_ok rows'" "n = length (filter cond rows)"
proof -
  show rows': "rows' = map (\<lambda>r. if cond r then assign r else r) rows" "n = length (filter cond rows)"
    using up by (auto simp: update_runs_def split: if_splits)
  have upd: "lease_update r (assign r)" for r using keep by (simp add: keeps_identity_def)
  have "row_ok (if cond r then assign r else r)" if "r \<in> set rows" for r
  proof (cases "cond r")
    case True
    then have "run_row_check (assign r)" using up that by (auto simp: update_runs_def list_all_iff split: if_splits)
    then show ?thesis using row_ok_update [OF _ upd] ok that True by (simp add: table_ok_def list_all_iff)
  qed (use ok that in \<open>simp add: table_ok_def list_all_iff\<close>)
  moreover have "map rw_run_id rows' = map rw_run_id rows" "map rw_proxy_hash rows' = map rw_proxy_hash rows"
      "map rw_control_hash rows' = map rw_control_hash rows"
    using lease_update_identity [OF upd] by (simp_all add: rows')
  moreover have "list_all (row_ok \<circ> (\<lambda>r. if cond r then assign r else r)) rows"
    using calculation(1) unfolding list_all_iff by (intro ballI) (simp only: comp_apply)
  then have "list_all row_ok rows'" unfolding rows'(1) list.pred_map .
  ultimately show "table_ok rows'" using ok unfolding table_ok_def by metis
qed

lemma leases_of_update:
  assumes "distinct (map rw_run_id rows)" and "\<And>r. rw_run_id (f r) = rw_run_id r" and "r \<in> set rows"
  shows "leases_of (map f rows) (rw_run_id r) = Some (lease_of (f r))"
proof -
  have "distinct (map rw_run_id (map f rows))" using assms(1,2) by (simp add: comp_def)
  from leases_of_row [OF this, of "f r"] show ?thesis using assms(2,3) by simp
qed

lemma leases_dom_update: "(\<And>r. rw_run_id (f r) = rw_run_id r) \<Longrightarrow> leases_of (map f rows) i = None \<longleftrightarrow> leases_of rows i = None"
  by (simp add: leases_of_None image_image)

text \<open>An update of one run.\<close>

lemma one_update:
  assumes ok: "table_ok rows" and keep: "keeps_identity assign" and one: "\<And>r. cond r \<Longrightarrow> rw_run_id r = runID"
    and step: "\<And>r. r \<in> set rows \<Longrightarrow> cond r \<Longrightarrow> lease_of (assign r) = lease_of r \<or> lease_step (lease_of r) (lease_of (assign r))"
  shows "leases_step (leases_of rows) (leases_of (map (\<lambda>r. if cond r then assign r else r) rows))"
proof (cases "\<exists>r \<in> set rows. cond r")
  case False
  then have "map (\<lambda>r. if cond r then assign r else r) rows = rows" by (auto intro: map_idI)
  then show ?thesis by (simp add: leases_step.idle)
next
  case True
  then obtain r where r: "r \<in> set rows" "cond r" by blast
  let ?f = "\<lambda>r. if cond r then assign r else r"
  have d: "distinct (map rw_run_id rows)" using ok by (simp add: table_ok_def)
  have ident: "rw_run_id (?f q) = rw_run_id q" for q
    using keep lease_update_identity by (simp add: keeps_identity_def)
  have id: "rw_run_id r = runID" using one r(2) .
  have same: "lease_of (?f q) = lease_of q" if "q \<in> set rows" "rw_run_id q \<noteq> runID" for q
    using that one by auto
  have "leases_of (map ?f rows) = (leases_of rows)(runID \<mapsto> lease_of (assign r))"
  proof (rule ext)
    fix i
    show "leases_of (map ?f rows) i = ((leases_of rows)(runID \<mapsto> lease_of (assign r))) i"
    proof (cases "i = runID")
      case True
      then show ?thesis using leases_of_update [OF d ident r(1)] id r(2) by simp
    next
      case False
      show ?thesis
      proof (cases "leases_of rows i")
        case None
        then show ?thesis using False leases_dom_update [of ?f rows i, OF ident] by simp
      next
        case (Some l)
        then obtain q where q: "q \<in> set rows" "rw_run_id q = i" "lease_of q = l" using leases_of_Some [OF d] by blast
        then show ?thesis using leases_of_update [OF d ident q(1)] same [OF q(1)] False Some by simp
      qed
    qed
  qed
  moreover have "leases_of rows runID = Some (lease_of r)" using leases_of_row [OF d r(1)] id by simp
  ultimately show ?thesis
    using step [OF r] leases_step.one leases_step.idle by (metis fun_upd_triv)
qed

section \<open>What the operations of the repository do\<close>

text \<open>A repository operation keeps the table in order and takes a step of the specification.\<close>

definition rows_kept :: "run_row list \<Rightarrow> run_row list \<Rightarrow> bool" where
  "rows_kept rows rows' \<longleftrightarrow> (\<forall>r \<in> set rows. \<exists>q \<in> set rows'. lease_update r q)"

lemma lease_update_refl: "lease_update r r"
proof -
  have "r = r\<lparr>rw_process_id := rw_process_id r, rw_state := rw_state r, rw_expires := rw_expires r, rw_updated := rw_updated r\<rparr>"
    by (cases r) simp
  then show ?thesis unfolding lease_update_def by blast
qed

lemma lease_update_trans: "lease_update r q \<Longrightarrow> lease_update q p \<Longrightarrow> lease_update r p"
  unfolding lease_update_def by (elim exE) (simp, blast)

lemma rows_kept_refl: "rows_kept rows rows"
  using lease_update_refl by (auto simp: rows_kept_def)

lemma rows_kept_append: "rows_kept rows (rows @ extra)"
  using lease_update_refl by (auto simp: rows_kept_def)

lemma rows_kept_update: "keeps_identity assign \<Longrightarrow> rows_kept rows (map (\<lambda>r. if cond r then assign r else r) rows)"
  unfolding rows_kept_def keeps_identity_def set_map
proof
  fix r
  assume "\<forall>r. lease_update r (assign r)" "r \<in> set rows"
  then show "\<exists>q \<in> (\<lambda>r. if cond r then assign r else r) ` set rows. lease_update r q"
    using lease_update_refl by (intro bexI [of _ "if cond r then assign r else r"]) (auto simp only: if_splits)
qed

lemma rows_kept_trans: "rows_kept a b \<Longrightarrow> rows_kept b c \<Longrightarrow> rows_kept a c"
  unfolding rows_kept_def by (meson lease_update_trans)

definition good_change :: "run_db \<Rightarrow> run_db \<Rightarrow> bool" where
  "good_change db db' \<longleftrightarrow> table_ok (rdb_runs db') \<and> rows_kept (rdb_runs db) (rdb_runs db') \<and> leases_step (leases_of (rdb_runs db)) (leases_of (rdb_runs db'))
     \<and> rdb_sessions db' = rdb_sessions db \<and> rdb_users db' = rdb_users db"

lemma good_change_refl: "table_ok (rdb_runs db) \<Longrightarrow> good_change db db"
  by (simp add: good_change_def leases_step.idle rows_kept_refl)

lemma good_change_rows:
  "table_ok rows \<Longrightarrow> rows_kept (rdb_runs db) rows \<Longrightarrow> leases_step (leases_of (rdb_runs db)) (leases_of rows) \<Longrightarrow> good_change db (db\<lparr>rdb_runs := rows\<rparr>)"
  by (simp add: good_change_def)

lemma commit_runs_good:
  assumes "table_ok (rdb_runs db)" "good_change db (db\<lparr>rdb_runs := rows\<rparr>)" "commit_runs io db rows v = (db', res)"
  shows "good_change db db'"
  using assms good_change_refl by (auto simp: commit_runs_def split: commit_result.splits)

lemma Repo_Create_good:
  assumes ok: "table_ok (rdb_runs db)" and r: "Repo_Create io db r = (db', res)"
    and new: "dr_State r = StateCreated" "dr_Observation r = ObservationWaitingForTraffic" "0 \<le> dr_CreatedAt r"
  shows "good_change db db'"
proof -
  let ?row = "inserted_row r"
  consider "db' = db" | "Record_Validate r" "run_row_check ?row" "unique_in ?row (rdb_runs db)"
      "commit_runs io db (rdb_runs db @ [?row]) () = (db', res)"
    using r by (auto simp: Repo_Create_def split: if_splits)
  then show ?thesis
  proof cases
    case 1
    then show ?thesis using ok by (simp add: good_change_refl)
  next
    case 2
    have "0 \<le> rw_created ?row" using new(3) by (simp add: inserted_row_def toUnixMillis_def)
    then have row: "row_ok ?row"
      using inserted_row_read_back [OF 2(1) new(2,3) 2(2)] 2(2) by (simp add: row_ok_def)
    then have "table_ok (rdb_runs db @ [?row])" using ok 2(3) by (auto simp: table_ok_def unique_in_def)
    moreover have "lease_of ?row = LeaseCreated" by (simp add: lease_of_def inserted_row_def new)
    moreover have "leases_of (rdb_runs db) (rw_run_id ?row) = None" using 2(3) by (simp add: leases_of_None unique_in_def)
    ultimately have "good_change db (db\<lparr>rdb_runs := rdb_runs db @ [?row]\<rparr>)"
      by (intro good_change_rows) (simp_all add: leases_of_append leases_step.create rows_kept_append)
    from commit_runs_good [OF ok this 2(4)] show ?thesis .
  qed
qed

lemma updateAndRead_good:
  assumes ok: "table_ok (rdb_runs db)" and keep: "keeps_identity assign" and one: "\<And>r. cond r \<Longrightarrow> rw_run_id r = runID"
    and step: "\<And>r. r \<in> set (rdb_runs db) \<Longrightarrow> cond r \<Longrightarrow>
      lease_of (assign r) = lease_of r \<or> lease_step (lease_of r) (lease_of (assign r))"
    and u: "updateAndRead io db runID cond assign = (db', res)"
  shows "good_change db db'"
proof -
  consider "db' = db" | rows n v where "update_runs cond assign (rdb_runs db) = Some (rows, n)"
      "commit_runs io db rows v = (db', res)"
    using u by (auto simp: updateAndRead_def split: if_splits option.splits)
  then show ?thesis
  proof cases
    case (2 rows n v)
    note rows = update_runs_rows [OF 2(1) keep ok]
    have "good_change db (db\<lparr>rdb_runs := rows\<rparr>)"
      using rows(2) one_update [OF ok keep one step] rows_kept_update [OF keep] unfolding rows(1) by (intro good_change_rows) auto
    from commit_runs_good [OF ok this 2(2)] show ?thesis .
  qed (use ok in \<open>simp add: good_change_refl\<close>)
qed

lemma row_lease: "row_ok r \<Longrightarrow> lease_check r"
  by (simp add: row_ok_def run_row_check_def)

lemma table_row_lease: "table_ok rows \<Longrightarrow> r \<in> set rows \<Longrightarrow> lease_check r"
  by (auto simp: table_ok_def list_all_iff intro: row_lease)

lemma Repo_Attach_good:
  assumes ok: "table_ok (rdb_runs db)" and p: "0 < processID"
    and a: "Repo_Attach io db runID digest processID now = (db', res)"
  shows "good_change db db'"
proof (rule updateAndRead_good [OF ok _ _ _ a [unfolded Repo_Attach_def Let_def]])
  show "keeps_identity (\<lambda>r. r\<lparr>rw_process_id := processID, rw_state := StateAttached, rw_updated := toUnixMillis now\<rparr>)"
    by (simp add: keeps_identity_def lease_updateI)
  fix r
  assume r: "r \<in> set (rdb_runs db)"
    "rw_run_id r = runID \<and> rw_control_hash r = digest \<and> State_active (rw_state r) \<and> toUnixMillis now < rw_expires r
       \<and> (rw_process_id r = 0 \<or> rw_process_id r = processID) \<and> captureRunIdentityActive db (toUnixMillis now) r"
  let ?q = "r\<lparr>rw_process_id := processID, rw_state := StateAttached, rw_updated := toUnixMillis now\<rparr>"
  show "lease_of ?q = lease_of r \<or> lease_step (lease_of r) (lease_of ?q)"
    using r(2) table_row_lease [OF ok r(1)] p
    by (auto simp: State_active_def lease_of_def lease_check_def intro: lease_step.attach)
qed simp

lemma Repo_Heartbeat_good:
  assumes ok: "table_ok (rdb_runs db)" and h: "Repo_Heartbeat io db runID digest now expiresAt = (db', res)"
  shows "good_change db db'"
proof (rule updateAndRead_good [OF ok _ _ _ h [unfolded Repo_Heartbeat_def Let_def]])
  show "keeps_identity (\<lambda>r. r\<lparr>rw_state := StateAttached, rw_expires := toUnixMillis expiresAt, rw_updated := toUnixMillis now\<rparr>)"
    by (simp add: keeps_identity_def lease_updateI)
  fix r
  assume r: "r \<in> set (rdb_runs db)"
    "rw_run_id r = runID \<and> rw_control_hash r = digest \<and> (rw_state r = StateAttached \<or> rw_state r = StateExpired)
       \<and> 0 < rw_process_id r \<and> captureRunIdentityActive db (toUnixMillis now) r"
  let ?q = "r\<lparr>rw_state := StateAttached, rw_expires := toUnixMillis expiresAt, rw_updated := toUnixMillis now\<rparr>"
  show "lease_of ?q = lease_of r \<or> lease_step (lease_of r) (lease_of ?q)"
    using r(2) by (auto simp: lease_of_def intro: lease_step.renew)
qed simp

lemma Repo_Finish_cases:
  assumes "Repo_Finish io db runID digest now = (db', errs)"
  obtains (refused) "db' = db" "errs = [RunDatabase] \<or> errs = [RunCapabilityRejected]"
  | (tried) rows where "update_runs (finish_where runID digest) (finish_set (toUnixMillis now)) (rdb_runs db) = Some (rows, 1)"
      "commitNativeStop io db rows (run_owned_by runID digest) StateFinished = (db', errs)"
proof (cases "update_runs (finish_where runID digest) (finish_set (toUnixMillis now)) (rdb_runs db)")
  case None
  then show thesis using assms refused by (auto simp: Repo_Finish_def split: if_splits)
next
  case (Some p)
  then show thesis using assms refused tried by (cases p) (auto simp: Repo_Finish_def split: if_splits)
qed

lemma commitNativeStop_db:
  "commitNativeStop io db rows sel stopped = (db', errs) \<Longrightarrow> db' = (if rio_commit io = CommitLost then db else db\<lparr>rdb_runs := rows\<rparr>)"
  by (simp add: commitNativeStop_def Let_def)

lemma Repo_Finish_good:
  assumes ok: "table_ok (rdb_runs db)" and f: "Repo_Finish io db runID digest now = (db', errs)"
  shows "good_change db db'"
  using f
proof (cases rule: Repo_Finish_cases)
  case refused
  then show ?thesis using ok by (simp add: good_change_refl)
next
  case (tried rows)
  let ?assign = "finish_set (toUnixMillis now)"
  have keep: "keeps_identity ?assign" by (simp add: keeps_identity_def finish_set_def lease_updateI)
  note rows = update_runs_rows [OF tried(1) keep ok]
  have "leases_step (leases_of (rdb_runs db)) (leases_of rows)"
    unfolding rows(1)
  proof (rule one_update [OF ok keep])
    fix r
    assume "finish_where runID digest r"
    then show "lease_of (?assign r) = lease_of r \<or> lease_step (lease_of r) (lease_of (?assign r))"
      by (auto simp: lease_of_def finish_where_def finish_set_def intro: lease_step.finish)
  qed (simp add: finish_where_def)
  moreover have "rows_kept (rdb_runs db) rows" unfolding rows(1) by (rule rows_kept_update [OF keep])
  ultimately have "good_change db (db\<lparr>rdb_runs := rows\<rparr>)" using good_change_rows [OF rows(2)] by blast
  then show ?thesis using commitNativeStop_db [OF tried(2)] good_change_refl [OF ok] by (simp split: if_splits)
qed

lemma Repo_Recover_good:
  assumes ok: "table_ok (rdb_runs db)" and c: "Repo_Recover io db now = (db', res)"
  shows "good_change db db'"
proof -
  let ?ms = "toUnixMillis now"
  let ?cond = "\<lambda>r. State_active (rw_state r) \<and> rw_expires r \<le> ?ms"
  let ?assign = "\<lambda>r. r\<lparr>rw_state := StateExpired, rw_updated := ?ms\<rparr>"
  have keep: "keeps_identity ?assign" by (simp add: keeps_identity_def lease_updateI)
  consider "db' = db" | rows n v where "update_runs ?cond ?assign (rdb_runs db) = Some (rows, n)"
      "commit_runs io db rows v = (db', res)"
    using c by (auto simp: Repo_Recover_def Let_def split: if_splits option.splits)
  then show ?thesis
  proof cases
    case (2 rows n v)
    note rows = update_runs_rows [OF 2(1) keep ok]
    let ?f = "\<lambda>r. if ?cond r then ?assign r else r"
    have d: "distinct (map rw_run_id (rdb_runs db))" using ok by (simp add: table_ok_def)
    have ident: "rw_run_id (?f r) = rw_run_id r" for r by simp
    have "leases_step (leases_of (rdb_runs db)) (leases_of (map ?f (rdb_runs db)))"
    proof (rule leases_step.expire)
      show "dom (leases_of (map ?f (rdb_runs db))) = dom (leases_of (rdb_runs db))"
        unfolding dom_def using leases_dom_update [of ?f "rdb_runs db", OF ident] by simp
      fix i l
      assume "leases_of (rdb_runs db) i = Some l"
      then obtain r where r: "r \<in> set (rdb_runs db)" "rw_run_id r = i" "lease_of r = l" using leases_of_Some [OF d] by blast
      note new = leases_of_update [OF d ident r(1)]
      show "leases_of (map ?f (rdb_runs db)) i = Some l
        \<or> (\<exists>p. leases_of (map ?f (rdb_runs db)) i = Some (LeaseExpired p) \<and> lease_step l (LeaseExpired p))"
      proof (cases "?cond r")
        case True
        then have "lease_of (?f r) = LeaseExpired (rw_process_id r)" "lease_step l (LeaseExpired (rw_process_id r))"
          using r table_row_lease [OF ok r(1)]
          by (auto simp: lease_of_def lease_check_def State_active_def intro: lease_step.intros)
        then show ?thesis using new r(2) by auto
      qed (use new r in auto)
    qed
    then have "good_change db (db\<lparr>rdb_runs := rows\<rparr>)"
      using rows(2) rows_kept_update [OF keep] unfolding rows(1) by (intro good_change_rows)
    from commit_runs_good [OF ok this 2(2)] show ?thesis .
  qed (use ok in \<open>simp add: good_change_refl\<close>)
qed

lemma Repo_RevokeActive_good:
  assumes ok: "table_ok (rdb_runs db)" and c: "Repo_RevokeActive io db now = (db', res)"
  shows "good_change db db'"
proof -
  let ?cond = "\<lambda>r. rw_state r \<in> {StateCreated, StateAttached, StateExpired}"
  let ?assign = "\<lambda>r. r\<lparr>rw_state := StateRevoked, rw_updated := toUnixMillis now\<rparr>"
  have keep: "keeps_identity ?assign" by (simp add: keeps_identity_def lease_updateI)
  consider "db' = db" | rows n v where "update_runs ?cond ?assign (rdb_runs db) = Some (rows, n)"
      "commit_runs io db rows v = (db', res)"
    using c by (auto simp: Repo_RevokeActive_def split: if_splits option.splits)
  then show ?thesis
  proof cases
    case (2 rows n v)
    note rows = update_runs_rows [OF 2(1) keep ok]
    let ?f = "\<lambda>r. if ?cond r then ?assign r else r"
    have d: "distinct (map rw_run_id (rdb_runs db))" using ok by (simp add: table_ok_def)
    have ident: "rw_run_id (?f r) = rw_run_id r" for r by simp
    have "leases_of (map ?f (rdb_runs db)) = (\<lambda>i. map_option (\<lambda>l. if l = LeaseFinished then l else LeaseRevoked) (leases_of (rdb_runs db) i))"
    proof (rule ext)
      fix i
      show "leases_of (map ?f (rdb_runs db)) i = map_option (\<lambda>l. if l = LeaseFinished then l else LeaseRevoked) (leases_of (rdb_runs db) i)"
      proof (cases "leases_of (rdb_runs db) i")
        case None
        then show ?thesis using leases_dom_update [of ?f "rdb_runs db" i, OF ident] by simp
      next
        case (Some l)
        then obtain r where r: "r \<in> set (rdb_runs db)" "rw_run_id r = i" "lease_of r = l" using leases_of_Some [OF d] by blast
        have "lease_of (?f r) = (if l = LeaseFinished then l else LeaseRevoked)"
          using r(3) table_row_lease [OF ok r(1)] by (auto simp: lease_of_def lease_check_def)
        then show ?thesis using leases_of_update [OF d ident r(1)] r(2) Some by simp
      qed
    qed
    then have "good_change db (db\<lparr>rdb_runs := rows\<rparr>)"
      using rows(2) leases_step.revoke_all rows_kept_update [OF keep] unfolding rows(1) by (intro good_change_rows) auto
    from commit_runs_good [OF ok this 2(2)] show ?thesis .
  qed (use ok in \<open>simp add: good_change_refl\<close>)
qed

end
