(* ===== verification/Capture_Run_System.thy ===== *)
theory Capture_Run_System
  imports Capture_Run_Safety
begin

text \<open>
  The manager of Capture runs at work: its operations in any order, with restarts, changes of users
  and sessions, and any state of the lifecycle gate between them.
\<close>

section \<open>Operations in any order\<close>

text \<open>The state a restart leaves: a new manager on the same table, or the old one when it failed.\<close>

definition restarted :: "run_manager \<Rightarrow> run_db \<times> (run_error + run_manager) \<Rightarrow> run_manager" where
  "restarted m r = (case r of (db, Inl e) \<Rightarrow> m\<lparr>rm_db := db\<rparr> | (db, Inr m') \<Rightarrow> m')"

inductive run_step :: "(string \<Rightarrow> string) \<Rightarrow> run_manager \<Rightarrow> run_manager \<Rightarrow> bool" for sha where
  create: "0 \<le> now \<Longrightarrow> run_step sha m (fst (run_Create sha io archive ent now c command m))"
| authorize_proxy: "run_step sha m (fst (run_AuthorizeProxy sha io fences now c capability m))"
| authorize_control: "run_step sha m (fst (run_AuthorizeControl sha io now c runID capability m))"
| proxy_validity: "run_step sha m (fst (run_ProxyValidity sha io now c capability m))"
| attach: "run_step sha m (fst (run_Attach sha io now c runID capability processID m))"
| heartbeat: "run_step sha m (fst (run_Heartbeat sha io archive notify now c runID capability lifetime m))"
| finish: "run_step sha m (fst (run_Finish sha io barrier notify now c runID capability m))"
| active_count: "run_step sha m (fst (run_ActiveCount io now c m))"
| shutdown: "run_step sha m (fst (run_Shutdown io now m))"
| restart: "run_step sha m (restarted m (run_NewManager io c defaultLifetime maxLifetime now (rm_db m)))"
| logins: "run_step sha m (m\<lparr>rm_db := (rm_db m)\<lparr>rdb_sessions := sessions, rdb_users := users\<rparr>\<rparr>)"
| gate: "run_step sha m (m\<lparr>rm_gate := g\<rparr>)"

definition new_runs :: "run_manager \<Rightarrow> bool" where
  "new_runs m \<longleftrightarrow> rdb_runs (rm_db m) = []"

text \<open>
  Rows are deleted behind the manager's back: those of one Capture (\<open>capture_deletion.go\<close>), or all when the archive is cleared
  (\<open>recording_control.go\<close>); any selection of them is allowed for.
\<close>

definition delete_runs :: "(run_row \<Rightarrow> bool) \<Rightarrow> run_manager \<Rightarrow> run_manager" where
  "delete_runs P m = m\<lparr>rm_db := (rm_db m)\<lparr>rdb_runs := filter (\<lambda>r. \<not> P r) (rdb_runs (rm_db m))\<rparr>\<rparr>"

inductive run_change :: "(string \<Rightarrow> string) \<Rightarrow> run_manager \<Rightarrow> run_manager \<Rightarrow> bool" for sha where
  step: "run_step sha m m' \<Longrightarrow> run_change sha m m'"
| delete: "run_change sha m (delete_runs P m)"

definition run_reach :: "(string \<Rightarrow> string) \<Rightarrow> run_manager \<Rightarrow> bool" where
  "run_reach sha m \<longleftrightarrow> (\<exists>m0. new_runs m0 \<and> (run_change sha)\<^sup>*\<^sup>* m0 m)"

text \<open>One step as the table sees it.\<close>

definition table_step :: "run_db \<Rightarrow> run_db \<Rightarrow> bool" where
  "table_step db db' \<longleftrightarrow> table_ok (rdb_runs db') \<and> rows_kept (rdb_runs db) (rdb_runs db')
     \<and> leases_step (leases_of (rdb_runs db)) (leases_of (rdb_runs db'))"

lemma good_change_step: "good_change db db' \<Longrightarrow> table_step db db'"
  by (simp add: good_change_def table_step_def)

lemma table_step_same: "table_ok (rdb_runs db) \<Longrightarrow> rdb_runs db' = rdb_runs db \<Longrightarrow> table_step db db'"
  by (simp add: table_step_def rows_kept_refl leases_step.idle)

lemma in_operation_db:
  assumes "table_ok (rdb_runs (rm_db m))" and "table_step (rm_db m) (fst (body (rm_db m)))"
  shows "table_step (rm_db m) (rm_db (fst (in_operation c m refuse body)))"
  using assms table_step_same [OF assms(1), of "rm_db m"]
  by (auto simp: in_operation_def split: prod.splits sum.splits)

lemma Repo_steps:
  assumes ok: "table_ok (rdb_runs db)"
  shows "dr_State r = StateCreated \<Longrightarrow> dr_Observation r = ObservationWaitingForTraffic \<Longrightarrow> 0 \<le> dr_CreatedAt r \<Longrightarrow>
      table_step db (fst (Repo_Create io db r))"
    and "0 < processID \<Longrightarrow> table_step db (fst (Repo_Attach io db runID digest processID now))"
    and "table_step db (fst (Repo_Heartbeat io db runID digest now expiresAt))"
    and "table_step db (fst (Repo_Finish io db runID digest now))"
    and "table_step db (fst (Repo_Recover io db now))"
    and "table_step db (fst (Repo_RevokeActive io db now))"
  using Repo_Create_good [OF ok, of io r] Repo_Attach_good [OF ok, of processID io runID digest now]
    Repo_Heartbeat_good [OF ok, of io runID digest now expiresAt] Repo_Finish_good [OF ok, of io runID digest now]
    Repo_Recover_good [OF ok, of io now] Repo_RevokeActive_good [OF ok, of io now]
  by (metis good_change_step prod.collapse)+

lemma run_Create_step:
  assumes ok: "table_ok (rdb_runs (rm_db m))" and now: "0 \<le> now"
  shows "table_step (rm_db m) (rm_db (fst (run_Create sha io archive ent now c command m)))"
proof -
  have same: "table_step (rm_db m) (rm_db m)" using table_step_same [OF ok] by simp
  have new: "table_step (rm_db m) (fst (Repo_Create io (rm_db m) (created_record sha cmd i p k now)))" for cmd i p k
    using Repo_steps(1) [OF ok] now by (simp add: created_record_def)
  have pick: "fst (case x of (d, Inl e) \<Rightarrow> (d, Inl e) | (d, Inr u) \<Rightarrow> (d, Inr (f u))) = fst x"
    for x :: "run_db \<times> (run_error + unit)" and f :: "unit \<Rightarrow> launch_grant"
    by (simp split: prod.splits sum.splits)
  show ?thesis
    unfolding run_Create_def Let_def
    using same new in_operation_db [OF ok] by (auto simp: pick split: option.splits intro!: in_operation_db [OF ok])
qed

lemma fst_case_result: "fst (case x of (d, Inl e) \<Rightarrow> (d, f d e) | (d, Inr v) \<Rightarrow> (d, g d v)) = fst x"
  by (simp split: prod.splits sum.splits)

lemma fst_case_finish:
  "fst (case x of (d, errs) \<Rightarrow> if P errs then (d, f d errs) else (d, g d errs)) = fst x"
  by (simp split: prod.splits)

lemma run_step_table:
  assumes "run_step sha m m'" and ok: "table_ok (rdb_runs (rm_db m))"
  shows "table_step (rm_db m) (rm_db m')"
  using assms(1)
proof cases
  case create
  then show ?thesis using run_Create_step [OF ok] by simp
next
  case (attach io now c runID capability processID)
  have "0 < processID \<Longrightarrow> ?thesis" unfolding attach run_Attach_def
    using table_step_same [OF ok] by (auto intro!: in_operation_db [OF ok] simp: fst_case_result Repo_steps [OF ok])
  then show ?thesis using table_step_same [OF ok] by (auto simp: attach run_Attach_def)
next
  case heartbeat
  then show ?thesis unfolding run_Heartbeat_def Let_def
    using table_step_same [OF ok] by (auto intro!: in_operation_db [OF ok] simp: fst_case_result Repo_steps [OF ok])
next
  case finish
  then show ?thesis unfolding run_Finish_def
    using table_step_same [OF ok] by (auto intro!: in_operation_db [OF ok] simp: fst_case_finish Repo_steps [OF ok])
next
  case (active_count io now c)
  have "fst (case Repo_Recover io (rm_db m) now of (db', Inl e) \<Rightarrow> (db', Inl e)
      | (db', Inr (expired, active)) \<Rightarrow> (db', Inr active)) = fst (Repo_Recover io (rm_db m) now)"
    by (simp split: prod.splits sum.splits)
  then show ?thesis unfolding active_count run_ActiveCount_def
    by (intro in_operation_db [OF ok]) (simp only: Repo_steps [OF ok])
next
  case (shutdown io now)
  then show ?thesis using table_step_same [OF ok] Repo_steps(6) [OF ok, of io now]
    by (auto simp: run_Shutdown_def Let_def run_BeginShutdown_def split: prod.splits sum.splits)
next
  case (restart io c defaultLifetime maxLifetime now)
  then show ?thesis using table_step_same [OF ok] Repo_steps(5) [OF ok, of io now]
    by (auto simp: restarted_def run_NewManager_def split: prod.splits sum.splits)
qed (use table_step_same [OF ok] in \<open>auto intro!: in_operation_db [OF ok]
  simp: run_AuthorizeProxy_def run_AuthorizeControl_def run_ProxyValidity_def\<close>)

section \<open>Invariants\<close>

text \<open>Runs of steps: the table stays in order, its rows stay, and the specification is followed.\<close>

lemma run_steps_table:
  assumes "(run_step sha)\<^sup>*\<^sup>* m m'" and "table_ok (rdb_runs (rm_db m))"
  shows "table_ok (rdb_runs (rm_db m')) \<and> rows_kept (rdb_runs (rm_db m)) (rdb_runs (rm_db m'))
    \<and> leases_step\<^sup>*\<^sup>* (leases_of (rdb_runs (rm_db m))) (leases_of (rdb_runs (rm_db m')))"
  using assms
proof (induction rule: rtranclp_induct)
  case (step a b)
  then have "table_step (rm_db a) (rm_db b)" using run_step_table by blast
  then show ?case using step rows_kept_trans unfolding table_step_def by (meson rtranclp.rtrancl_into_rtrancl)
qed (simp add: rows_kept_refl)

lemma new_runs_ok: "new_runs m \<Longrightarrow> table_ok (rdb_runs (rm_db m))"
  by (simp add: new_runs_def table_ok_def)

lemma filter_table_ok: "table_ok rows \<Longrightarrow> table_ok (filter Q rows)"
  by (auto simp: table_ok_def list_all_iff distinct_map_filter)

text \<open>A step of the specification, or leases forgotten.\<close>

inductive leases_change :: "leases \<Rightarrow> leases \<Rightarrow> bool" where
  step: "leases_step \<sigma> \<sigma>' \<Longrightarrow> leases_change \<sigma> \<sigma>'"
| forget: "leases_change \<sigma> (\<sigma> |` (- D))"

lemma leases_of_filter:
  assumes "distinct (map rw_run_id rows)"
  shows "leases_of (filter (\<lambda>r. \<not> P r) rows) = leases_of rows |` (- rw_run_id ` {r \<in> set rows. P r})"
proof
  fix i
  let ?kept = "filter (\<lambda>r. \<not> P r) rows"
  have d: "distinct (map rw_run_id ?kept)" using assms by (rule distinct_map_filter)
  show "leases_of ?kept i = (leases_of rows |` (- rw_run_id ` {r \<in> set rows. P r})) i"
  proof (cases "i \<in> rw_run_id ` set ?kept")
    case True
    then obtain r where r: "r \<in> set rows" "\<not> P r" "rw_run_id r = i" by auto
    have "i \<notin> rw_run_id ` {r \<in> set rows. P r}"
    proof
      assume "i \<in> rw_run_id ` {r \<in> set rows. P r}"
      then obtain q where "q \<in> set rows" "P q" "rw_run_id q = i" by auto
      then show False using r assms by (metis distinct_map inj_onD)
    qed
    then show ?thesis using leases_of_row [OF d, of r] leases_of_row [OF assms r(1)] r by (simp add: restrict_map_def)
  next
    case False
    then have "leases_of ?kept i = None" by (simp only: leases_of_None not_False_eq_True)
    moreover have "leases_of rows i = None \<or> i \<in> rw_run_id ` {r \<in> set rows. P r}" using False by (auto simp: leases_of_None)
    ultimately show ?thesis by (auto simp: restrict_map_def)
  qed
qed

lemma run_change_table:
  assumes "run_change sha m m'" and ok: "table_ok (rdb_runs (rm_db m))"
  shows "table_ok (rdb_runs (rm_db m')) \<and> leases_change (leases_of (rdb_runs (rm_db m))) (leases_of (rdb_runs (rm_db m')))"
  using assms(1)
proof cases
  case step
  then show ?thesis using run_step_table [OF _ ok] leases_change.step unfolding table_step_def by blast
next
  case (delete P)
  have "distinct (map rw_run_id (rdb_runs (rm_db m)))" using ok by (simp add: table_ok_def)
  then show ?thesis using ok unfolding delete
    by (simp add: delete_runs_def filter_table_ok leases_of_filter leases_change.forget)
qed

lemma run_changes_table:
  assumes "(run_change sha)\<^sup>*\<^sup>* m m'" and "table_ok (rdb_runs (rm_db m))"
  shows "table_ok (rdb_runs (rm_db m')) \<and> leases_change\<^sup>*\<^sup>* (leases_of (rdb_runs (rm_db m))) (leases_of (rdb_runs (rm_db m')))"
  using assms
proof (induction rule: rtranclp_induct)
  case (step a b)
  then show ?case using run_change_table [OF step(2)] by (meson rtranclp.rtrancl_into_rtrancl)
qed simp

lemma run_reach_ok: "run_reach sha m \<Longrightarrow> table_ok (rdb_runs (rm_db m))"
  using run_changes_table new_runs_ok unfolding run_reach_def by blast

text \<open>Rows are identified by their run and by each of their digests.\<close>

lemma table_row_unique:
  assumes "table_ok rows" "r \<in> set rows" "q \<in> set rows"
  shows "rw_proxy_hash q = rw_proxy_hash r \<Longrightarrow> q = r" "rw_control_hash q = rw_control_hash r \<Longrightarrow> q = r"
    "rw_run_id q = rw_run_id r \<Longrightarrow> q = r"
  using assms by (auto simp: table_ok_def distinct_map dest: inj_onD)

lemma table_row_reads:
  assumes "table_ok rows" "r \<in> set rows"
  obtains d where "scanCaptureRun r = Some d" "Record_Validate d" "dr_ID d = rw_run_id r" "dr_State d = rw_state r"
proof -
  have "scanCaptureRun r \<noteq> None" using assms by (auto simp: table_ok_def list_all_iff row_ok_def)
  then show thesis using scanCaptureRun_fields that by blast
qed

lemma lease_stopped:
  "lease_check r \<Longrightarrow> lease_of r = LeaseFinished \<longleftrightarrow> rw_state r = StateFinished"
  "lease_check r \<Longrightarrow> lease_of r = LeaseRevoked \<longleftrightarrow> rw_state r = StateRevoked"
  by (auto simp: lease_of_def lease_check_def)

definition row_stopped :: "run_row \<Rightarrow> bool" where
  "row_stopped r \<longleftrightarrow> rw_state r = StateFinished \<or> rw_state r = StateRevoked"

lemma stopped_row_stays:
  assumes reach: "run_reach sha m" and r: "r \<in> set (rdb_runs (rm_db m))" and stopped: "row_stopped r"
    and steps: "(run_step sha)\<^sup>*\<^sup>* m m'"
  obtains q where "q \<in> set (rdb_runs (rm_db m'))" "row_stopped q" "rw_run_id q = rw_run_id r"
    "rw_proxy_hash q = rw_proxy_hash r" "rw_control_hash q = rw_control_hash r" "table_ok (rdb_runs (rm_db m'))"
proof -
  note ok = run_reach_ok [OF reach]
  have after: "table_ok (rdb_runs (rm_db m'))" "rows_kept (rdb_runs (rm_db m)) (rdb_runs (rm_db m'))"
    "leases_step\<^sup>*\<^sup>* (leases_of (rdb_runs (rm_db m))) (leases_of (rdb_runs (rm_db m')))"
    using run_steps_table [OF steps ok] by auto
  obtain q where q: "q \<in> set (rdb_runs (rm_db m'))" "lease_update r q" using after(2) r unfolding rows_kept_def by blast
  have d: "distinct (map rw_run_id (rdb_runs (rm_db m)))" "distinct (map rw_run_id (rdb_runs (rm_db m')))"
    using ok after(1) by (auto simp: table_ok_def)
  have stop: "lease_of r = LeaseFinished \<or> lease_of r = LeaseRevoked"
    using stopped lease_stopped [OF table_row_lease [OF ok r]] by (auto simp: row_stopped_def)
  have "leases_of (rdb_runs (rm_db m')) (rw_run_id r) = Some (lease_of r)"
    using lease_steps_stopped [OF after(3) leases_of_row [OF d(1) r] stop] .
  then have "lease_of q = lease_of r"
    using leases_of_row [OF d(2) q(1)] lease_update_identity [OF q(2)] by simp
  then have "row_stopped q"
    using stop lease_stopped [OF table_row_lease [OF after(1) q(1)]] by (auto simp: row_stopped_def)
  then show thesis using that q lease_update_identity [OF q(2)] after(1) by blast
qed

text \<open>A stopped row answers no capability.\<close>

lemma row_stopped_admits: "row_stopped r \<Longrightarrow> \<not> row_admits db ms r" "row_stopped r \<Longrightarrow> \<not> State_active (rw_state r)"
  by (auto simp: row_admits_def row_stopped_def State_active_def)

lemma in_operation_isl:
  assumes "\<And>e. isl (refuse e)" and "isl (snd (body (rm_db m)))"
  shows "isl (snd (in_operation c m refuse body))"
  using assms by (auto simp: in_operation_def split: prod.splits sum.splits)

lemma updateAndRead_none:
  "\<not> list_ex cond (rdb_runs db) \<Longrightarrow> isl (snd (updateAndRead io db runID cond assign))"
proof -
  assume "\<not> list_ex cond (rdb_runs db)"
  then have "filter cond (rdb_runs db) = []" by (simp add: filter_empty_conv list_ex_iff)
  then show ?thesis by (auto simp: updateAndRead_def update_runs_def split: option.splits)
qed

lemma stopped_row_rejects:
  assumes ok: "table_ok (rdb_runs (rm_db m))" and q: "q \<in> set (rdb_runs (rm_db m))" and stopped: "row_stopped q"
  shows "capabilityDigest sha proxyDigestDomain p = rw_proxy_hash q \<Longrightarrow>
      isl (snd (run_AuthorizeProxy sha io fences now c p m)) \<and> isl (snd (run_ProxyValidity sha io now c p m))"
    and "capabilityDigest sha controlDigestDomain k = rw_control_hash q \<Longrightarrow>
      isl (snd (run_AuthorizeControl sha io now c runID k m)) \<and> isl (snd (run_Attach sha io now c runID k pid m))
      \<and> isl (snd (run_Heartbeat sha io archive notify now c runID k lifetime m))"
proof -
  assume p: "capabilityDigest sha proxyDigestDomain p = rw_proxy_hash q"
  have "find (\<lambda>r. rw_proxy_hash r = rw_proxy_hash q \<and> row_admits (rm_db m) (toUnixMillis now) r) (rdb_runs (rm_db m)) = None"
    using table_row_unique(1) [OF ok q] row_stopped_admits [OF stopped] by (auto simp: find_None_iff)
  then show "isl (snd (run_AuthorizeProxy sha io fences now c p m)) \<and> isl (snd (run_ProxyValidity sha io now c p m))"
    by (auto simp: run_AuthorizeProxy_def run_ProxyValidity_def Repo_AuthorizeProxy_def Repo_ProxyValidity_def p
        intro!: in_operation_isl)
next
  assume k: "capabilityDigest sha controlDigestDomain k = rw_control_hash q"
  note only = table_row_unique(2) [OF ok q] row_stopped_admits [OF stopped]
  have "find (\<lambda>r. rw_run_id r = runID \<and> rw_control_hash r = rw_control_hash q \<and> row_admits (rm_db m) (toUnixMillis now) r)
      (rdb_runs (rm_db m)) = None"
    using only by (auto simp: find_None_iff)
  then have "isl (snd (run_AuthorizeControl sha io now c runID k m))"
    by (auto simp: run_AuthorizeControl_def Repo_AuthorizeControl_def k intro!: in_operation_isl)
  moreover have "isl (snd (Repo_Attach io (rm_db m) runID (rw_control_hash q) pid now))"
    unfolding Repo_Attach_def Let_def using only by (intro updateAndRead_none) (auto simp: list_ex_iff)
  then have "isl (snd (run_Attach sha io now c runID k pid m))"
    by (auto simp: run_Attach_def k intro!: in_operation_isl split: prod.splits sum.splits)
  moreover have "isl (snd (Repo_Heartbeat io (rm_db m) runID (rw_control_hash q) now ex))" for ex
    unfolding Repo_Heartbeat_def Let_def
  proof (intro updateAndRead_none, unfold list_ex_iff, clarify)
    fix r
    assume "r \<in> set (rdb_runs (rm_db m))" "rw_control_hash r = rw_control_hash q"
      "rw_state r = StateAttached \<or> rw_state r = StateExpired"
    moreover from this have "r = q" using only(1) by blast
    ultimately show False using stopped by (auto simp: row_stopped_def)
  qed
  then have "Repo_Heartbeat io (rm_db m) runID (rw_control_hash q) now ex \<noteq> (db, Inr d)" for ex db d
    by (metis isl_def old.sum.distinct(1) snd_conv)
  then have "isl (snd (run_Heartbeat sha io archive notify now c runID k lifetime m))"
    by (auto simp: run_Heartbeat_def k Let_def intro!: in_operation_isl split: prod.splits sum.splits)
  ultimately show "isl (snd (run_AuthorizeControl sha io now c runID k m)) \<and> isl (snd (run_Attach sha io now c runID k pid m))
      \<and> isl (snd (run_Heartbeat sha io archive notify now c runID k lifetime m))" by blast
qed

end
