(* ===== verification/Capture_Run_Claims.thy ===== *)
theory Capture_Run_Claims
  imports Capture_Run_System
begin

text \<open>
  What the manager of Capture runs guarantees, in every state its operations can reach.
\<close>

section \<open>Leases\<close>

text \<open>C24: The manager of Capture runs implements the specification of leases: every operation, restart, change
  of users, sessions and the gate is one step of it; rows deleted from outside are leases forgotten; and a whole history from
  an empty table is one of the specification.\<close>

theorem runs_implement_leases:
  assumes "new_runs m0" and "(run_change sha)\<^sup>*\<^sup>* m0 m"
  shows "leases_change\<^sup>*\<^sup>* (\<lambda>i. None) (leases_of (rdb_runs (rm_db m)))
    \<and> (\<forall>m'. run_change sha m m' \<longrightarrow> leases_change (leases_of (rdb_runs (rm_db m))) (leases_of (rdb_runs (rm_db m'))))
    \<and> (\<forall>m'. run_step sha m m' \<longrightarrow> leases_step (leases_of (rdb_runs (rm_db m))) (leases_of (rdb_runs (rm_db m'))))"
proof -
  have "leases_of (rdb_runs (rm_db m0)) = (\<lambda>i. None)" using assms(1) by (simp add: new_runs_def leases_of_def)
  moreover have ok: "table_ok (rdb_runs (rm_db m))" using run_changes_table [OF assms(2) new_runs_ok [OF assms(1)]] by simp
  ultimately show ?thesis
    using run_changes_table [OF assms(2) new_runs_ok [OF assms(1)]] run_change_table [OF _ ok] run_step_table [OF _ ok]
    by (simp add: table_step_def)
qed

text \<open>C28: Every row the manager ever leaves in the table satisfies the constraints of the schema and
  reads back as a valid record of the same run, digests, process and state; no two rows share a run
  or a digest.\<close>

theorem stored_runs_are_valid:
  assumes "run_reach sha m"
  shows "list_all (\<lambda>w. run_row_check w \<and> (case scanCaptureRun w of
            None \<Rightarrow> False
          | Some r \<Rightarrow> Record_Validate r \<and> dr_ID r = rw_run_id w \<and> dr_State r = rw_state w
              \<and> dr_ProcessID r = rw_process_id w \<and> dr_ProxyCapabilityHash r = rw_proxy_hash w
              \<and> dr_ControlCapabilityHash r = rw_control_hash w)) (rdb_runs (rm_db m))
    \<and> distinct (map rw_run_id (rdb_runs (rm_db m))) \<and> distinct (map rw_proxy_hash (rdb_runs (rm_db m)))
    \<and> distinct (map rw_control_hash (rdb_runs (rm_db m)))"
proof -
  have "table_ok (rdb_runs (rm_db m))" using run_reach_ok [OF assms] .
  then show ?thesis unfolding table_ok_def
    by (auto simp: row_ok_def list_all_iff dest: scanCaptureRun_fields split: option.splits)
qed

text \<open>C25: A finished or revoked run stays stopped.  Whatever the manager does afterwards, restarts and clocks
  included, no capability with its digests is authorized, attaches, renews the lease or is valid for
  a retained connection.\<close>

theorem stopped_run_stays_stopped:
  assumes "run_reach sha m" and "r \<in> set (rdb_runs (rm_db m))"
    and "rw_state r = StateFinished \<or> rw_state r = StateRevoked" and "(run_step sha)\<^sup>*\<^sup>* m m'"
    and p: "capabilityDigest sha proxyDigestDomain p = rw_proxy_hash r"
    and k: "capabilityDigest sha controlDigestDomain k = rw_control_hash r"
  shows "isl (snd (run_AuthorizeProxy sha io fences now c p m')) \<and> isl (snd (run_ProxyValidity sha io now c p m'))
    \<and> isl (snd (run_AuthorizeControl sha io now c runID k m')) \<and> isl (snd (run_Attach sha io now c runID k pid m'))
    \<and> isl (snd (run_Heartbeat sha io archive notify now c runID k lifetime m'))"
proof -
  have stopped: "row_stopped r" using assms(3) by (simp add: row_stopped_def)
  obtain q where q: "q \<in> set (rdb_runs (rm_db m'))" "row_stopped q" "rw_proxy_hash q = rw_proxy_hash r"
      "rw_control_hash q = rw_control_hash r" "table_ok (rdb_runs (rm_db m'))"
    using stopped_row_stays [OF assms(1,2) stopped assms(4)] by blast
  have "capabilityDigest sha proxyDigestDomain p = rw_proxy_hash q"
    "capabilityDigest sha controlDigestDomain k = rw_control_hash q" using p k q(3,4) by simp_all
  then show ?thesis using stopped_row_rejects [OF q(5,1,2)] by blast
qed

section \<open>Admission\<close>

lemma in_operation_open:
  "lg_accepting (rm_gate m) \<Longrightarrow> snd (in_operation CtxLive m refuse body) = snd (body (rm_db m))"
  by (simp add: in_operation_def Begin_def split: prod.splits)

lemma Record_Validate_scope [simp]: "Record_Validate (r\<lparr>dr_RecordingScope := s\<rparr>) = Record_Validate r"
  by (simp add: Record_Validate_def fixed_ok_def observation_ok_def process_ok_def times_ok_def Observed_def)

lemma find_admitted:
  assumes "table_ok (rdb_runs db)" and "r \<in> set (rdb_runs db)" and "rw_proxy_hash r = digest" and "row_admits db ms r"
  shows "find (\<lambda>r. rw_proxy_hash r = digest \<and> row_admits db ms r) (rdb_runs db) = Some r"
  using assms table_row_unique(1) [OF assms(1,2)] by (intro find_unique; blast)

text \<open>What authorization answers for the row it finds.\<close>

lemma Repo_AuthorizeProxy_row:
  assumes ok: "table_ok (rdb_runs db)" and io: "rio_begin io" "rio_read io"
    and r: "r \<in> set (rdb_runs db)" "rw_proxy_hash r = digest" "row_admits db (toUnixMillis now) r"
  obtains d where "scanCaptureRun r = Some d" "Record_Validate d" "dr_ID d = rw_run_id r" "State_active (dr_State d)"
    "Repo_AuthorizeProxy io db fences digest now = Inr (d\<lparr>dr_RecordingScope :=
        \<lparr> rec_Capture = \<lparr> ref_Kind = KindManagedRun, ref_ID = rw_run_id r \<rparr>, rec_Fence = fences (rw_run_id r) \<rparr>\<rparr>)"
proof -
  obtain d where d: "scanCaptureRun r = Some d" "Record_Validate d" "dr_ID d = rw_run_id r" "dr_State d = rw_state r"
    using table_row_reads [OF ok r(1)] by blast
  moreover have "State_active (dr_State d)" using r(3) d(4) by (simp add: row_admits_def)
  moreover have "Repo_AuthorizeProxy io db fences digest now = Inr (d\<lparr>dr_RecordingScope :=
        \<lparr> rec_Capture = \<lparr> ref_Kind = KindManagedRun, ref_ID = rw_run_id r \<rparr>, rec_Fence = fences (rw_run_id r) \<rparr>\<rparr>)"
    using find_admitted [OF ok r] d io by (simp add: Repo_AuthorizeProxy_def)
  ultimately show thesis using that by blast
qed

lemma no_row_no_admission:
  assumes "\<And>r. r \<in> set (rdb_runs db) \<Longrightarrow> rw_proxy_hash r = digest \<Longrightarrow> \<not> row_admits db (toUnixMillis now) r"
    and "rio_begin io" "rio_read io"
  shows "Repo_AuthorizeProxy io db fences digest now = Inl RunCapabilityRejected"
    "Repo_ProxyValidity io db digest now = Inl RunCapabilityRejected"
proof -
  have "find (\<lambda>r. rw_proxy_hash r = digest \<and> row_admits db (toUnixMillis now) r) (rdb_runs db) = None"
    using assms(1) by (auto simp: find_None_iff)
  then show "Repo_AuthorizeProxy io db fences digest now = Inl RunCapabilityRejected"
    "Repo_ProxyValidity io db digest now = Inl RunCapabilityRejected"
    using assms(2,3) by (simp_all add: Repo_AuthorizeProxy_def Repo_ProxyValidity_def)
qed

text \<open>The run a proxy capability stands for at a time, in terms of its lease and its login: the lease is held and has not
  ended, and the run is local, or a session of its user, who is active, is neither revoked nor over.\<close>

definition lease_held :: "lease \<Rightarrow> bool" where
  "lease_held l \<longleftrightarrow> l = LeaseCreated \<or> (\<exists>p. l = LeaseAttached p)"

definition login_live :: "run_db \<Rightarrow> int \<Rightarrow> string option \<Rightarrow> string option \<Rightarrow> bool" where
  "login_live db ms user session \<longleftrightarrow> user = None \<or> (\<exists>s \<in> set (rdb_sessions db). session = Some (ls_id s) \<and> user = Some (ls_user s)
     \<and> (ls_user s, ''active'') \<in> set (rdb_users db) \<and> ls_revoked s = None \<and> ms < ls_expires s)"

definition admitted_run :: "(string \<Rightarrow> string) \<Rightarrow> run_db \<Rightarrow> string \<Rightarrow> go_time \<Rightarrow> string \<Rightarrow> bool" where
  "admitted_run sha db p now i \<longleftrightarrow>
     (\<exists>r l. r \<in> set (rdb_runs db) \<and> rw_run_id r = i \<and> rw_proxy_hash r = capabilityDigest sha proxyDigestDomain p
        \<and> leases_of (rdb_runs db) i = Some l \<and> lease_held l \<and> toUnixMillis now < rw_expires r
        \<and> login_live db (toUnixMillis now) (rw_user_id r) (rw_session_id r))"

lemma login_live_iff: "captureRunIdentityActive db ms r \<longleftrightarrow> login_live db ms (rw_user_id r) (rw_session_id r)"
  by (auto simp: captureRunIdentityActive_def login_live_def session_live_def list_ex_iff split: option.splits)

lemma row_admits_iff:
  "row_admits db ms r \<longleftrightarrow> State_active (rw_state r) \<and> ms < rw_expires r \<and> login_live db ms (rw_user_id r) (rw_session_id r)"
  by (simp add: row_admits_def login_live_iff)

lemma admitted_run_iff:
  assumes ok: "table_ok (rdb_runs db)"
  shows "admitted_run sha db p now i \<longleftrightarrow> (\<exists>r \<in> set (rdb_runs db). rw_run_id r = i
     \<and> rw_proxy_hash r = capabilityDigest sha proxyDigestDomain p \<and> row_admits db (toUnixMillis now) r)"
proof -
  have d: "distinct (map rw_run_id (rdb_runs db))" using ok by (simp add: table_ok_def)
  have held: "leases_of (rdb_runs db) (rw_run_id r) = Some l \<and> lease_held l \<longleftrightarrow> l = lease_of r \<and> State_active (rw_state r)"
    if r: "r \<in> set (rdb_runs db)" for r l
    unfolding leases_of_row [OF d r] by (auto simp: lease_held_def lease_of_def State_active_def)
  show ?thesis unfolding admitted_run_def row_admits_iff using held by blast
qed

text \<open>C26: A proxy capability is authorized for a run exactly when the lease of that run is held (created or
  attached) and has not ended, its row has the digest of the capability, and it belongs to no login or to one still live (a session of
  its user that is neither revoked nor over, while the user is active); the validity a retained
  connection reads later is granted for the same run under exactly the same condition, and every
  other well-formed capability is rejected by both.\<close>

theorem proxy_admission_exact:
  assumes "run_reach sha m" and "lg_accepting (rm_gate m)" and "NewProxyCapability p \<noteq> None"
    and "rio_begin io" and "rio_read io"
  shows "((\<exists>e. snd (run_AuthorizeProxy sha io fences now CtxLive p m) = Inr e \<and> re_RunID e = i) \<longleftrightarrow> admitted_run sha (rm_db m) p now i)
    \<and> ((\<exists>v. snd (run_ProxyValidity sha io now CtxLive p m) = Inr v \<and> ref_ID (val_Capture v) = i) \<longleftrightarrow> admitted_run sha (rm_db m) p now i)
    \<and> ((\<forall>i. \<not> admitted_run sha (rm_db m) p now i) \<longrightarrow> snd (run_AuthorizeProxy sha io fences now CtxLive p m) = Inl RunCapabilityRejected
        \<and> snd (run_ProxyValidity sha io now CtxLive p m) = Inl RunCapabilityRejected)"
proof -
  let ?db = "rm_db m" let ?d = "capabilityDigest sha proxyDigestDomain p"
  note ok = run_reach_ok [OF assms(1)]
  note opened = in_operation_open [OF assms(2)]
  note spec = admitted_run_iff [OF ok, of sha p now]
  show ?thesis
  proof (cases "\<exists>r \<in> set (rdb_runs ?db). rw_proxy_hash r = ?d \<and> row_admits ?db (toUnixMillis now) r")
    case True
    then obtain r where r: "r \<in> set (rdb_runs ?db)" "rw_proxy_hash r = ?d" "row_admits ?db (toUnixMillis now) r" by blast
    obtain d where d: "scanCaptureRun r = Some d" "Record_Validate d" "dr_ID d = rw_run_id r" "State_active (dr_State d)"
      "Repo_AuthorizeProxy io ?db fences ?d now = Inr (d\<lparr>dr_RecordingScope :=
        \<lparr> rec_Capture = \<lparr> ref_Kind = KindManagedRun, ref_ID = rw_run_id r \<rparr>, rec_Fence = fences (rw_run_id r) \<rparr>\<rparr>)"
      using Repo_AuthorizeProxy_row [OF ok assms(4,5) r] by blast
    have one: "admitted_run sha ?db p now i \<longleftrightarrow> i = rw_run_id r" for i
      unfolding spec using r table_row_unique(1) [OF ok r(1)] by metis
    have "snd (run_AuthorizeProxy sha io fences now CtxLive p m) = Inr (evidenceOf (d\<lparr>dr_RecordingScope :=
        \<lparr> rec_Capture = \<lparr> ref_Kind = KindManagedRun, ref_ID = rw_run_id r \<rparr>, rec_Fence = fences (rw_run_id r) \<rparr>\<rparr>))"
      using d assms(3) by (simp add: run_AuthorizeProxy_def opened)
    moreover have "snd (run_ProxyValidity sha io now CtxLive p m) = Inr (row_validity ?db r)"
      using find_admitted [OF ok r] assms(4,5) by (simp add: run_ProxyValidity_def opened Repo_ProxyValidity_def)
    ultimately show ?thesis using one d(3) by (simp add: evidenceOf_def row_validity_def Let_def) blast
  next
    case False
    then have "snd (run_AuthorizeProxy sha io fences now CtxLive p m) = Inl RunCapabilityRejected"
      "snd (run_ProxyValidity sha io now CtxLive p m) = Inl RunCapabilityRejected"
      using no_row_no_admission [OF _ assms(4,5), of ?db ?d] assms(3)
      by (auto simp: run_AuthorizeProxy_def run_ProxyValidity_def opened)
    then show ?thesis using False by (auto simp: spec)
  qed
qed

section \<open>Finishing\<close>

lemma finish_rows:
  assumes ok: "table_ok rows"
    and up: "update_runs (finish_where runID digest) (finish_set ms) rows = Some (rows', 1)"
  shows "table_ok rows'" "leases_of rows' runID = Some LeaseFinished"
    "\<And>w. w \<in> set rows' \<Longrightarrow> run_owned_by runID digest w \<Longrightarrow> rw_state w = StateFinished"
proof -
  have keep: "keeps_identity (finish_set ms)" by (simp add: keeps_identity_def finish_set_def lease_updateI)
  note new = update_runs_rows [OF up keep ok]
  let ?f = "\<lambda>r. if finish_where runID digest r then finish_set ms r else r"
  have d: "distinct (map rw_run_id rows)" using ok by (simp add: table_ok_def)
  have ident: "rw_run_id (?f q) = rw_run_id q" for q by (simp add: finish_set_def)
  have "filter (finish_where runID digest) rows \<noteq> []" using new(3) by (metis length_0_conv zero_neq_one)
  then obtain r where r: "r \<in> set rows" "finish_where runID digest r" by (auto simp: filter_empty_conv)
  then have id: "rw_run_id r = runID" by (simp add: finish_where_def)
  show "table_ok rows'" by (rule new(2))
  show "leases_of rows' runID = Some LeaseFinished"
    using leases_of_update [OF d ident r(1)] r(2) id by (simp add: new(1) lease_of_def finish_set_def)
  fix w
  assume "w \<in> set rows'" "run_owned_by runID digest w"
  then obtain q where q: "q \<in> set rows" "w = ?f q" "rw_run_id w = runID" unfolding new(1) by (auto simp: run_owned_by_def)
  then have "q = r" using table_row_unique(3) [OF ok r(1) q(1)] id ident [of q] by simp
  then show "rw_state w = StateFinished" using q(2) r(2) by (simp add: finish_set_def)
qed

lemma owned_finished_lease:
  assumes "table_ok rows" "find (run_owned_by runID digest) rows = Some w" "rw_state w = StateFinished"
  shows "leases_of rows runID = Some LeaseFinished"
proof -
  have w: "w \<in> set rows" "rw_run_id w = runID" using assms(2) by (auto simp: find_Some_iff run_owned_by_def)
  then show ?thesis using leases_of_row [of rows w] assms(1,3) by (simp add: table_ok_def lease_of_def)
qed

lemma Repo_Finish_truthful:
  assumes ok: "table_ok (rdb_runs db)" and f: "Repo_Finish io db runID digest now = (db', errs)"
  shows "(errs = [] \<longrightarrow> leases_of (rdb_runs db') runID = Some LeaseFinished)
    \<and> (errs \<noteq> [] \<longrightarrow> RunCommitUnknown \<notin> set errs \<longrightarrow> db' = db)"
  using f
proof (cases rule: Repo_Finish_cases)
  case (tried rows)
  note new = finish_rows [OF ok tried(1)]
  have db': "db' = (if rio_commit io = CommitLost then db else db\<lparr>rdb_runs := rows\<rparr>)"
    using commitNativeStop_db [OF tried(2)] .
  have ok': "table_ok (rdb_runs db')" using ok new(1) by (simp add: db')
  have errs: "errs = (if rio_commit io = CommitOK then []
       else (case (if rio_read io then find (run_owned_by runID digest) (rdb_runs db') else None) of
           None \<Rightarrow> [RunCommitUnknown, RunDatabase]
         | Some w \<Rightarrow> if rw_state w = StateFinished then []
             else if rw_state w \<in> {StateCreated, StateAttached, StateExpired, ''active''} then [RunDatabase]
             else [RunCommitUnknown, RunDatabase]))"
    using tried(2) unfolding commitNativeStop_def Let_def db' by simp
  have "leases_of (rdb_runs db') runID = Some LeaseFinished" if clean: "errs = []"
  proof (cases "rio_commit io = CommitOK")
    case True
    then show ?thesis using new(2) by (simp add: db')
  next
    case False
    then obtain w where "find (run_owned_by runID digest) (rdb_runs db') = Some w" "rw_state w = StateFinished"
      using clean errs by (simp split: if_splits option.splits)
    then show ?thesis using owned_finished_lease [OF ok'] by blast
  qed
  moreover have "db' = db" if failed: "errs \<noteq> []" "RunCommitUnknown \<notin> set errs"
  proof -
    obtain w where w: "find (run_owned_by runID digest) (rdb_runs db') = Some w" "rw_state w \<noteq> StateFinished"
      using failed errs by (simp split: if_splits option.splits)
    then have "w \<in> set (rdb_runs db')" "run_owned_by runID digest w" by (auto simp: find_Some_iff)
    then show ?thesis using new(3) w(2) by (auto simp: db' split: if_splits)
  qed
  ultimately show ?thesis by blast
qed auto

text \<open>The ways a call of \<open>Finish\<close> can go.\<close>

lemma run_Finish_cases:
  assumes r: "run_Finish sha io barrier notify now c runID k m = (m', errs, terminal)"
    and f: "Repo_Finish io (rm_db m) runID (capabilityDigest sha controlDigestDomain k) now = (db', ferrs)"
  obtains (early) e where "rm_db m' = rm_db m" "errs = [e]" "e \<noteq> RunNotify" "e \<noteq> RunCommitUnknown" "terminal = None"
    | (stopped) "rm_db m' = db'" "ferrs = [] \<or> RunCommitUnknown \<in> set ferrs"
        "errs = ferrs @ (if notify then [] else [RunNotify])" "terminal \<noteq> Some TerminalAbort"
    | (failed) "rm_db m' = db'" "ferrs \<noteq> []" "RunCommitUnknown \<notin> set ferrs" "errs = ferrs" "terminal \<noteq> Some TerminalCommit"
proof (cases "run_validateID runID \<and> validateCapability k")
  case False
  then show thesis using r early by (auto simp: run_Finish_def split: if_splits)
next
  case valid: True
  show thesis
  proof (cases "Begin c (rm_gate m)")
    case (Pair g b)
    show thesis
    proof (cases b)
      case (Inl e)
      moreover have "gate_to_run_error e \<noteq> RunNotify" "gate_to_run_error e \<noteq> RunCommitUnknown" by (cases e; simp)+
      ultimately show thesis using r valid Pair early [of "gate_to_run_error e"]
        by (auto simp: run_Finish_def in_operation_def)
    next
      case (Inr h)
      note open_gate = run_Finish_def in_operation_def valid Pair Inr f
      consider "barrier = Some False" | "barrier \<noteq> Some False" "ferrs = [] \<or> RunCommitUnknown \<in> set ferrs"
        | "barrier \<noteq> Some False" "ferrs \<noteq> []" "RunCommitUnknown \<notin> set ferrs" by blast
      then show thesis
      proof cases
        case 1
        then show thesis using r early [of RunEvidence] by (auto simp: open_gate)
      next
        case 2
        show thesis by (rule stopped) (use r 2 in \<open>auto simp: open_gate split: if_splits\<close>)
      next
        case 3
        show thesis by (rule failed) (use r 3 in \<open>auto simp: open_gate split: if_splits\<close>)
      qed
    qed
  qed
qed

text \<open>C27: What \<open>Finish\<close> answers is true of the table.  Without an error, or with only a failed notification,
  the run is finished; any other error except an unknown commit means nothing changed.  The prepared
  evidence boundary is aborted only when nothing changed, and committed only when the run is finished
  or the outcome is unknown and said so.\<close>

theorem finish_outcome_truthful:
  assumes "run_reach sha m" and "run_Finish sha io barrier notify now c runID k m = (m', errs, terminal)"
  shows "(set errs \<subseteq> {RunNotify} \<longrightarrow> leases_of (rdb_runs (rm_db m')) runID = Some LeaseFinished)
    \<and> (\<not> set errs \<subseteq> {RunNotify} \<longrightarrow> RunCommitUnknown \<notin> set errs \<longrightarrow> rm_db m' = rm_db m)
    \<and> (terminal = Some TerminalAbort \<longrightarrow> rm_db m' = rm_db m)
    \<and> (terminal = Some TerminalCommit \<longrightarrow>
        leases_of (rdb_runs (rm_db m')) runID = Some LeaseFinished \<or> RunCommitUnknown \<in> set errs)"
proof -
  note ok = run_reach_ok [OF assms(1)]
  let ?digest = "capabilityDigest sha controlDigestDomain k"
  obtain db' ferrs where f: "Repo_Finish io (rm_db m) runID ?digest now = (db', ferrs)" by fastforce
  note truth = Repo_Finish_truthful [OF ok f]
  have notify: "RunNotify \<notin> set ferrs"
    using f by (auto simp: Repo_Finish_def commitNativeStop_def Let_def split: if_splits option.splits)
  from assms(2) f show ?thesis
  proof (cases rule: run_Finish_cases)
    case stopped
    then show ?thesis using truth notify by auto
  next
    case failed
    moreover have "\<not> set ferrs \<subseteq> {RunNotify}" using notify failed(2) by (cases ferrs) auto
    ultimately show ?thesis using truth by simp
  qed auto
qed

section \<open>Grants\<close>

lemma in_operation_Inr: "in_operation c m Inl body = (m', Inr v) \<Longrightarrow> body (rm_db m) = (rm_db m', Inr v)"
  by (auto simp: in_operation_def split: prod.splits sum.splits)

lemma run_Create_cases:
  assumes "run_Create sha io archive ent now c command m = (m', Inr grant)"
  obtains cmd runID proxy bytes where
    "cmd = (if cc_Lifetime command = 0 then command\<lparr>cc_Lifetime := rm_defaultLifetime m\<rparr> else command)"
    "newRunID (ent_id ent) = Some runID" "randomProxyCapability (ent_proxy ent) = Some proxy" "ent_control ent = Some bytes"
    "Record_Validate (created_record sha cmd runID proxy (EncodeToString bytes) now)"
    "Repo_Create io (rm_db m) (created_record sha cmd runID proxy (EncodeToString bytes) now) = (rm_db m', Inr ())"
    "grant = \<lparr> lg_Run = ViewOf (created_record sha cmd runID proxy (EncodeToString bytes) now), lg_ProxyCapability = proxy,
       lg_ControlCapability = EncodeToString bytes \<rparr>"
proof -
  define cmd where "cmd = (if cc_Lifetime command = 0 then command\<lparr>cc_Lifetime := rm_defaultLifetime m\<rparr> else command)"
  have "in_operation c m Inl (\<lambda>db.
        if \<not> archive then (db, Inl RunArchive)
        else (case newRunID (ent_id ent) of
          None \<Rightarrow> (db, Inl RunRandom)
        | Some runID \<Rightarrow> (case randomProxyCapability (ent_proxy ent) of
            None \<Rightarrow> (db, Inl RunRandom)
          | Some proxy \<Rightarrow> (case ent_control ent of
              None \<Rightarrow> (db, Inl RunRandom)
            | Some bytes \<Rightarrow>
                (let control = EncodeToString bytes; r = created_record sha cmd runID proxy control now in
                 if \<not> Record_Validate r then (db, Inl RunInvalid)
                 else (case Repo_Create io db r of
                     (db', Inl e) \<Rightarrow> (db', Inl e)
                   | (db', Inr _) \<Rightarrow> (db', Inr \<lparr> lg_Run = ViewOf r, lg_ProxyCapability = proxy,
                                                lg_ControlCapability = control \<rparr>))))))) = (m', Inr grant)"
    using assms unfolding run_Create_def cmd_def Let_def by (simp split: if_splits)
  from in_operation_Inr [OF this] that [OF cmd_def] show thesis
    unfolding Let_def by (fastforce split: if_splits prod.splits sum.splits option.splits)
qed

lemma Repo_Create_ok:
  assumes "Repo_Create io db r = (db', Inr ())"
  shows "db' = db\<lparr>rdb_runs := rdb_runs db @ [inserted_row r]\<rparr>" "run_row_check (inserted_row r)"
    "unique_in (inserted_row r) (rdb_runs db)" "login_exists db (toUnixMillis (dr_CreatedAt r)) r"
  using assms by (auto simp: Repo_Create_def commit_runs_def split: if_splits commit_result.splits)

lemma inserted_row_simps [simp]:
  "rw_run_id (inserted_row r) = dr_ID r" "rw_proxy_hash (inserted_row r) = dr_ProxyCapabilityHash r"
  "rw_control_hash (inserted_row r) = dr_ControlCapabilityHash r" "rw_state (inserted_row r) = dr_State r"
  "rw_expires (inserted_row r) = toUnixMillis (dr_ExpiresAt r)" "rw_user_id (inserted_row r) = nullableText (dr_RuntimeUserID r)"
  by (simp_all add: inserted_row_def)

lemma randomProxyCapability_ok: "randomProxyCapability e = Some p \<Longrightarrow> NewProxyCapability p = Some p"
proof -
  assume "randomProxyCapability e = Some p"
  then obtain bytes cr where new: "New_credential cred_KindManagedRun bytes = Inr cr" and p: "p = cred_value cr"
    by (auto simp: randomProxyCapability_def split: option.splits sum.splits)
  have kind: "cred_kind cr = cred_KindManagedRun" using New_credential_valid [OF new] by simp
  have "Parse_credential p = Inr cr" unfolding Parse_credential_iff using new p kind by auto
  then show ?thesis using kind by (simp add: NewProxyCapability_def)
qed

lemma find_owned:
  assumes ok: "table_ok (rdb_runs db)" and r: "r \<in> set (rdb_runs db)" "row_admits db ms r"
  shows "find (\<lambda>q. rw_run_id q = rw_run_id r \<and> rw_control_hash q = rw_control_hash r \<and> row_admits db ms q) (rdb_runs db) = Some r"
  using r table_row_unique(3) [OF ok r(1)] by (intro find_unique; blast)

text \<open>The capabilities of a grant work.  Until its lease ends, a run created for the local user is
  authorized by the proxy capability of its grant, with its own identity, working directory and
  label, and its control capability authorizes control of that run.\<close>

theorem granted_capabilities_work:
  assumes reach: "run_reach sha m" and now: "0 \<le> now"
    and created: "run_Create sha io archive ent now c command m = (m', Inr grant)"
    and local: "cc_RuntimeUserID command = []" and open_gate: "lg_accepting (rm_gate m')"
    and random: "length (the (ent_control ent)) = 32"
    and lease: "toUnixMillis later < toUnixMillis (vw_ExpiresAt (lg_Run grant))"
    and io: "rio_begin io'" "rio_read io'"
  shows "(case snd (run_AuthorizeProxy sha io' fences later CtxLive (lg_ProxyCapability grant) m') of
            Inl err \<Rightarrow> False
          | Inr e \<Rightarrow> re_RunID e = vw_ID (lg_Run grant) \<and> re_CWD e = cc_CWD command
              \<and> re_ExecutableLabel e = cc_ExecutableLabel command)
    \<and> (case snd (run_AuthorizeControl sha io' later CtxLive (vw_ID (lg_Run grant)) (lg_ControlCapability grant) m') of
            Inl err \<Rightarrow> False
          | Inr v \<Rightarrow> vw_ID v = vw_ID (lg_Run grant) \<and> vw_State v = StateCreated)"
  using created
proof (cases rule: run_Create_cases)
  case (1 cmd runID proxy bytes)
  let ?r = "created_record sha cmd runID proxy (EncodeToString bytes) now"
  let ?w = "inserted_row ?r"
  have "run_step sha m m'" using run_step.create [OF now, of sha m io archive ent c command] created by simp
  then have ok: "table_ok (rdb_runs (rm_db m'))"
    using run_step_table run_reach_ok [OF reach] by (auto simp: table_step_def)
  note new = Repo_Create_ok [OF 1(6)]
  have w: "?w \<in> set (rdb_runs (rm_db m'))" by (simp add: new(1))
  have fields: "dr_ID ?r = runID" "dr_State ?r = StateCreated" "dr_ProxyCapabilityHash ?r = capabilityDigest sha proxyDigestDomain proxy"
      "dr_ControlCapabilityHash ?r = capabilityDigest sha controlDigestDomain (EncodeToString bytes)"
      "dr_RuntimeUserID ?r = []" "dr_CWD ?r = cc_CWD command" "dr_ExecutableLabel ?r = cc_ExecutableLabel command"
      "dr_Observation ?r = ObservationWaitingForTraffic" "dr_CreatedAt ?r = now"
    using local by (simp_all add: created_record_def 1(1))
  have grant: "vw_ID (lg_Run grant) = runID" "vw_ExpiresAt (lg_Run grant) = dr_ExpiresAt ?r"
    by (simp_all add: 1(7) ViewOf_def fields(1))
  have admits: "row_admits (rm_db m') (toUnixMillis later) ?w"
    using lease by (simp add: row_admits_def fields State_active_def grant captureRunIdentityActive_def nullableText_def)
  have read: "scanCaptureRun ?w = Some (stored_form ?r)"
    using inserted_row_read_back [OF 1(5) fields(8) _ new(2)] fields(9) now by simp
  have stored: "Record_Validate (stored_form ?r)" using stored_form_valid [OF 1(5) fields(8)] fields(9) now by simp
  have stored_fields: "dr_ID (stored_form ?r) = runID" "dr_State (stored_form ?r) = StateCreated"
      "dr_CWD (stored_form ?r) = cc_CWD command" "dr_ExecutableLabel (stored_form ?r) = cc_ExecutableLabel command"
    by (simp_all add: stored_form_def fields)
  have digest: "rw_proxy_hash ?w = capabilityDigest sha proxyDigestDomain proxy" by (simp add: fields)
  note found = find_admitted [OF ok w digest admits]
  have "snd (run_AuthorizeProxy sha io' fences later CtxLive proxy m') = Inr (evidenceOf ((stored_form ?r)\<lparr>dr_RecordingScope :=
      \<lparr> rec_Capture = \<lparr> ref_Kind = KindManagedRun, ref_ID = runID \<rparr>, rec_Fence = fences runID \<rparr>\<rparr>))"
    using randomProxyCapability_ok [OF 1(3)] found read stored io
    by (simp add: run_AuthorizeProxy_def in_operation_open [OF open_gate] Repo_AuthorizeProxy_def stored_fields State_active_def)
  moreover have "run_validateID runID" using 1(5) fields(1) by (simp add: Record_Validate_def fixed_ok_def)
  moreover have "validateCapability (EncodeToString bytes)" using random 1(4) by (simp add: validateCapability_def)
  ultimately show ?thesis
    using find_owned [OF ok w admits] read stored io
    by (simp add: run_AuthorizeControl_def in_operation_open [OF open_gate] Repo_AuthorizeControl_def fields grant 1(7)
        stored_fields State_active_def evidenceOf_def ViewOf_def)
qed

section \<open>A clock that steps back\<close>

text \<open>The table keeps \<open>updated_at \<ge> created_at\<close>.  When the clock has been set back before the creation of
  a run that is not stopped, the revocation of all runs at shutdown violates that constraint: it fails
  as a whole, and no run at all is revoked.\<close>

theorem clock_step_back_blocks_revocation:
  assumes "r \<in> set (rdb_runs (rm_db m))" and "rw_state r \<in> {StateCreated, StateAttached, StateExpired}"
    and "toUnixMillis now < rw_created r" and "\<not> rm_activeRevoked m"
  shows "Repo_RevokeActive io (rm_db m) now = (rm_db m, Inl RunDatabase)
    \<and> rm_db (fst (run_Shutdown io now m)) = rm_db m \<and> snd (run_Shutdown io now m) \<noteq> None"
proof -
  let ?assign = "\<lambda>r. r\<lparr>rw_state := StateRevoked, rw_updated := toUnixMillis now\<rparr>"
  have "\<not> run_row_check (?assign r)" using assms(3) by (simp add: run_row_check_def lease_check_def)
  then have "update_runs (\<lambda>r. rw_state r \<in> {StateCreated, StateAttached, StateExpired}) ?assign (rdb_runs (rm_db m)) = None"
    using assms(1,2) unfolding update_runs_def list_all_iff by auto
  then have "Repo_RevokeActive io (rm_db m) now = (rm_db m, Inl RunDatabase)" by (simp add: Repo_RevokeActive_def)
  moreover from this have "rm_db (fst (run_Shutdown io now m)) = rm_db m \<and> snd (run_Shutdown io now m) \<noteq> None"
    using assms(4) by (simp add: run_Shutdown_def Let_def run_BeginShutdown_def)
  ultimately show ?thesis by blast
qed

end
