(* ===== verification/Capture_Run_Demo.thy ===== *)
theory Capture_Run_Demo
  imports Capture_Run_Claims
begin

text \<open>
  One Capture run on concrete inputs: it is created on an empty table and finished.  The witnesses of
  the properties of Capture runs evaluate on it.
\<close>

section \<open>The run\<close>

definition demo_sha :: "string \<Rightarrow> string" where
  "demo_sha s = replicate 32 (if prefix proxyDigestDomain s then CHR 0x01 else CHR 0x02)"

definition demo_bytes :: "nat \<Rightarrow> string" where
  "demo_bytes n = replicate n (CHR ''a'')"

definition demo_runID :: string where
  "demo_runID = ''run.'' @ EncodeToString (demo_bytes 20)"

definition demo_proxy :: string where
  "demo_proxy = cred_prefix cred_KindManagedRun @ EncodeToString (demo_bytes 32)"

definition demo_control :: string where
  "demo_control = EncodeToString (demo_bytes 32)"

definition demo_entropy :: entropy where
  "demo_entropy = \<lparr> ent_id = Some (demo_bytes 20), ent_proxy = Some (demo_bytes 32), ent_control = Some (demo_bytes 32) \<rparr>"

definition demo_command :: create_command where
  "demo_command = \<lparr> cc_CWD = ''/w'', cc_CanonicalExecutablePath = ''/w'', cc_ExecutableLabel = ''x'', cc_Lifetime = 60000000,
     cc_CatalogRevision = 1, cc_Adapter = None, cc_Recognition = [], cc_Workspace = zero_scope, cc_Runtime = zero_metadata,
     cc_RuntimeUserID = [], cc_RuntimeUsername = [], cc_LoginSessionID = [], cc_DeviceName = [] \<rparr>"

definition working_io :: run_io where
  "working_io = \<lparr> rio_begin = True, rio_exec = True, rio_native = True, rio_read = True, rio_commit = CommitOK \<rparr>"

definition demo_new :: run_manager where
  "demo_new = \<lparr> rm_db = \<lparr> rdb_runs = [], rdb_sessions = [], rdb_users = [] \<rparr>, rm_gate = New_lifecycle,
     rm_defaultLifetime = 60000000, rm_maxLifetime = 120000000, rm_activeRevoked = False, rm_activeRevokeErr = None \<rparr>"

definition demo_record :: durable_record where
  "demo_record = created_record demo_sha demo_command demo_runID demo_proxy demo_control 0"

definition demo_grant :: launch_grant where
  "demo_grant = \<lparr> lg_Run = ViewOf demo_record, lg_ProxyCapability = demo_proxy, lg_ControlCapability = demo_control \<rparr>"

lemma demo_digests:
  "capabilityDigest demo_sha proxyDigestDomain v = replicate 32 (CHR 0x01)"
  "capabilityDigest demo_sha controlDigestDomain v = replicate 32 (CHR 0x02)"
  by (simp_all add: capabilityDigest_def demo_sha_def proxyDigestDomain_def controlDigestDomain_def)

lemma demo_runID_valid: "run_validateID demo_runID" "length demo_runID \<le> 128" "1 \<le> length demo_runID"
proof -
  have "plain_text demo_runID" using EncodeToString_plain by (auto simp: demo_runID_def plain_text_def)
  moreover show len: "length demo_runID \<le> 128" "1 \<le> length demo_runID"
    by (simp_all add: demo_runID_def length_EncodeToString demo_bytes_def)
  moreover have "demo_runID \<noteq> []" by (simp add: demo_runID_def)
  ultimately show "run_validateID demo_runID"
    by (simp add: run_validateID_def validateText_def validateTextContent_def plain_text_facts)
qed

lemma demo_texts: "validateAbsolutePath ''/w''" "validateText ''x'' 256" "recognition_ok [] None"
  by (simp_all add: validateAbsolutePath_def validateText_def validateTextContent_def IsAbs_def Clean_def MaxPathBytes_def
      plain_text_facts plain_text_def recognition_ok_def Recognition_Valid_def NormalizedRecognition_def
      RecognitionUnknown_def RecognitionVerified_def)

lemma demo_no_login: "attribution_ok [] [] [] []"
  by (simp add: attribution_ok_def)

lemma demo_command_valid: "Command_validate demo_command 120000000"
  by (simp add: Command_validate_def demo_command_def demo_texts zero_metadata_valid demo_no_login adapter_ok_def Revision_Valid_def)

lemma demo_random:
  "newRunID (ent_id demo_entropy) = Some demo_runID" "randomProxyCapability (ent_proxy demo_entropy) = Some demo_proxy"
  using demo_runID_valid(1)
  by (simp_all add: newRunID_def demo_entropy_def demo_runID_def randomProxyCapability_def demo_proxy_def New_credential_def
      cred_Kind_Valid_def EntropyBytes_def demo_bytes_def Let_def)

lemma demo_record_fields [simp]:
  "dr_ID demo_record = demo_runID" "dr_State demo_record = StateCreated" "dr_RuntimeUserID demo_record = []"
  "dr_ProxyCapabilityHash demo_record = replicate 32 (CHR 0x01)" "dr_ControlCapabilityHash demo_record = replicate 32 (CHR 0x02)"
  "dr_ExpiresAt demo_record = 60000000" "dr_CreatedAt demo_record = 0"
  by (simp_all add: demo_record_def created_record_def demo_digests demo_command_def)

lemma replicate_digest: "Digest_valid (replicate 32 (CHR 0x01))" "Digest_valid (replicate 32 (CHR 0x02))"
  by (simp_all add: Digest_valid_def)

lemma demo_record_valid: "Record_Validate demo_record"
  by (simp add: Record_Validate_def fixed_ok_def observation_ok_def process_ok_def times_ok_def demo_runID_valid(1) replicate_digest)
    (simp add: demo_record_def created_record_def demo_command_def demo_texts zero_metadata_valid demo_no_login adapter_ok_def
      Revision_Valid_def Observation_valid_def Observed_def ObservationWaitingForTraffic_def ObservationObserved_def
      zero_time_def NormalizedRecognition_def recognition_ok_def Recognition_Valid_def RecognitionUnknown_def RecognitionVerified_def)

lemma demo_row_check: "run_row_check (inserted_row demo_record)"
proof -
  have "adapter_check (rw_adapter (inserted_row demo_record))" "workspace_check (rw_workspace (inserted_row demo_record))"
    by (simp_all add: inserted_row_def demo_record_def created_record_def demo_command_def adapter_check_def
        captureRunAdapterColumns_def workspace_check_def zero_scope_def text_between_def between_def maxInt64_def)
  moreover have "login_check (inserted_row demo_record)" "lease_check (inserted_row demo_record)"
    by (simp_all add: inserted_row_def demo_record_def created_record_def demo_command_def login_check_def lease_check_def
        nullableText_def toUnixMillis_def)
  ultimately show ?thesis
    unfolding run_row_check_def using demo_runID_valid
    by (simp add: text_between_def)
      (simp add: inserted_row_def demo_record_def created_record_def demo_command_def text_between_def between_def maxInt64_def
        zero_metadata_def git_json_length_def NormalizedRecognition_def RecognitionUnknown_def)
qed

section \<open>Its life\<close>

text \<open>The gate after an operation that began and finished.\<close>

definition one_passed :: "operation list \<Rightarrow> lifecycle_gate" where
  "one_passed ops = \<lparr> lg_accepting = True, lg_active = 0, lg_drained = False, lg_owner_canceled = False, lg_ops = ops \<rparr>"

definition passed :: operation where
  "passed = \<lparr> op_finished = True, op_cause = Some CauseFinished \<rparr>"

lemma pass_gate: "in_operation CtxLive (m\<lparr>rm_gate := one_passed ops\<rparr>) refuse body =
    (case body (rm_db m) of (db, v) \<Rightarrow> (m\<lparr>rm_db := db, rm_gate := one_passed (ops @ [passed])\<rparr>, v))"
  by (simp add: in_operation_def Begin_def one_passed_def Finish_def finish_locked_def cancel_with_def passed_def nth_append
      Let_def split: prod.splits)

definition demo_db :: "run_row list \<Rightarrow> run_db" where
  "demo_db rows = \<lparr> rdb_runs = rows, rdb_sessions = [], rdb_users = [] \<rparr>"

definition demo_manager :: "run_row list \<Rightarrow> operation list \<Rightarrow> run_manager" where
  "demo_manager rows ops = demo_new\<lparr>rm_db := demo_db rows, rm_gate := one_passed ops\<rparr>"

lemma demo_manager_simps [simp]:
  "rm_db (demo_manager rows ops) = demo_db rows" "rdb_runs (demo_db rows) = rows"
  "(demo_db rows)\<lparr>rdb_runs := rows'\<rparr> = demo_db rows'" "rm_gate (demo_manager rows ops) = one_passed ops"
  "lg_accepting (one_passed ops)" "rm_maxLifetime (demo_manager rows ops) = 120000000"
  by (simp_all add: demo_manager_def demo_db_def one_passed_def demo_new_def)

lemma demo_pass:
  "body (demo_db rows) = (demo_db rows', v) \<Longrightarrow>
   in_operation CtxLive (demo_manager rows ops) refuse body = (demo_manager rows' (ops @ [passed]), v)"
  by (simp add: demo_manager_def pass_gate)

lemma demo_new_empty: "demo_new = demo_manager [] []" "new_runs (demo_manager [] [])"
  by (simp_all add: demo_manager_def demo_new_def demo_db_def one_passed_def New_lifecycle_def new_runs_def)

lemma demo_create:
  "run_Create demo_sha working_io True demo_entropy 0 CtxLive demo_command (demo_manager [] [])
   = (demo_manager [inserted_row demo_record] [passed], Inr demo_grant)"
proof -
  have "Repo_Create working_io (demo_db []) demo_record = (demo_db [inserted_row demo_record], Inr ())"
    using demo_record_valid demo_row_check
    by (simp add: Repo_Create_def working_io_def login_exists_def nullableText_def unique_in_def commit_runs_def)
  moreover have "cc_Lifetime demo_command \<noteq> 0" "ent_control demo_entropy = Some (demo_bytes 32)"
    by (simp_all add: demo_command_def demo_entropy_def)
  moreover have "created_record demo_sha demo_command demo_runID demo_proxy (EncodeToString (demo_bytes 32)) 0 = demo_record"
    by (simp add: demo_record_def demo_control_def)
  ultimately show ?thesis
    using demo_command_valid demo_record_valid
    by (simp add: run_Create_def Let_def demo_random demo_grant_def demo_control_def demo_pass)
qed

definition demo_finished_row :: run_row where
  "demo_finished_row = finish_set 1 (inserted_row demo_record)"

lemma finish_set_check: "run_row_check r \<Longrightarrow> lease_check (finish_set ms r) \<Longrightarrow> run_row_check (finish_set ms r)"
  by (simp add: run_row_check_def finish_set_def login_check_def)

lemma demo_finished_check: "run_row_check demo_finished_row"
  unfolding demo_finished_row_def
  by (rule finish_set_check [OF demo_row_check])
    (simp add: finish_set_def lease_check_def inserted_row_def toUnixMillis_def demo_record_def created_record_def demo_command_def)

lemma demo_control_valid: "validateCapability demo_control"
  by (simp add: validateCapability_def demo_control_def demo_bytes_def)

lemma demo_finish:
  "run_Finish demo_sha working_io (Some True) True 1000000 CtxLive demo_runID demo_control
      (demo_manager [inserted_row demo_record] ops)
   = (demo_manager [demo_finished_row] (ops @ [passed]), [], Some TerminalCommit)"
proof -
  have "finish_where demo_runID (replicate 32 (CHR 0x02)) (inserted_row demo_record)"
    by (simp add: finish_where_def)
  then have "Repo_Finish working_io (demo_db [inserted_row demo_record]) demo_runID (replicate 32 (CHR 0x02)) 1000000
      = (demo_db [demo_finished_row], [])"
    using demo_finished_check
    by (simp add: Repo_Finish_def working_io_def update_runs_def toUnixMillis_def demo_finished_row_def commitNativeStop_def Let_def)
  then show ?thesis
    using demo_runID_valid(1) demo_control_valid
    by (simp add: run_Finish_def demo_digests demo_pass)
qed

lemma demo_reaches:
  "run_step demo_sha (demo_manager [] []) (demo_manager [inserted_row demo_record] [passed])"
  "run_step demo_sha (demo_manager [inserted_row demo_record] [passed]) (demo_manager [demo_finished_row] [passed, passed])"
  "run_reach demo_sha (demo_manager [] [])"
  "run_reach demo_sha (demo_manager [inserted_row demo_record] [passed])"
  "run_reach demo_sha (demo_manager [demo_finished_row] [passed, passed])"
proof -
  show a: "run_step demo_sha (demo_manager [] []) (demo_manager [inserted_row demo_record] [passed])"
    using run_step.create [of 0 demo_sha "demo_manager [] []" working_io True demo_entropy CtxLive demo_command] demo_create by simp
  show b: "run_step demo_sha (demo_manager [inserted_row demo_record] [passed]) (demo_manager [demo_finished_row] [passed, passed])"
    using run_step.finish [of demo_sha "demo_manager [inserted_row demo_record] [passed]" working_io "Some True" True 1000000 CtxLive
        demo_runID demo_control] demo_finish by simp
  show "run_reach demo_sha (demo_manager [] [])" "run_reach demo_sha (demo_manager [inserted_row demo_record] [passed])"
    "run_reach demo_sha (demo_manager [demo_finished_row] [passed, passed])"
    unfolding run_reach_def using demo_new_empty(2) run_change.step [OF a] run_change.step [OF b] by (meson rtranclp.intros)+
qed

section \<open>Witnesses\<close>

theorem runs_implement_leases_witness:
  "leases_step (leases_of [inserted_row demo_record]) (leases_of [demo_finished_row])
   \<and> leases_of [inserted_row demo_record] demo_runID = Some LeaseCreated
   \<and> leases_of [demo_finished_row] demo_runID = Some LeaseFinished
   \<and> leases_change (leases_of [inserted_row demo_record]) (leases_of [])"
proof -
  have "(run_change demo_sha)\<^sup>*\<^sup>* (demo_manager [] []) (demo_manager [inserted_row demo_record] [passed])"
    using run_change.step [OF demo_reaches(1)] by blast
  note spec = runs_implement_leases [OF demo_new_empty(2) this]
  have "leases_step (leases_of (rdb_runs (rm_db (demo_manager [inserted_row demo_record] [passed]))))
      (leases_of (rdb_runs (rm_db (demo_manager [demo_finished_row] [passed, passed]))))" using spec demo_reaches(2) by blast
  moreover have "leases_change (leases_of (rdb_runs (rm_db (demo_manager [inserted_row demo_record] [passed]))))
      (leases_of (rdb_runs (rm_db (delete_runs (\<lambda>_. True) (demo_manager [inserted_row demo_record] [passed])))))"
    using spec run_change.delete by blast
  ultimately show ?thesis
    by (simp add: delete_runs_def) (simp add: leases_of_def lease_of_def demo_finished_row_def finish_set_def)
qed

theorem stored_runs_are_valid_witness:
  "run_row_check demo_finished_row \<and> (\<exists>r. scanCaptureRun demo_finished_row = Some r \<and> dr_State r = StateFinished)"
  using stored_runs_are_valid [OF demo_reaches(5)]
  by (simp add: demo_finished_row_def finish_set_def split: option.splits) 

theorem stopped_run_stays_stopped_witness:
  "isl (snd (run_AuthorizeProxy demo_sha working_io (\<lambda>_. \<lparr> fence_ArchiveEpoch = 0, fence_CaptureGeneration = 0 \<rparr>) 2 CtxLive demo_proxy
      (demo_manager [demo_finished_row] [passed, passed])))
   \<and> isl (snd (run_Heartbeat demo_sha working_io True True 2 CtxLive demo_runID demo_control 0
      (demo_manager [demo_finished_row] [passed, passed])))"
  using stopped_run_stays_stopped [OF demo_reaches(5), of demo_finished_row, OF _ _ rtranclp.rtrancl_refl, of demo_proxy demo_control]
  by (simp add: demo_finished_row_def finish_set_def demo_digests)

theorem proxy_admission_exact_witness:
  "(\<exists>e. snd (run_AuthorizeProxy demo_sha working_io (\<lambda>_. \<lparr> fence_ArchiveEpoch = 0, fence_CaptureGeneration = 0 \<rparr>) 2 CtxLive demo_proxy
      (demo_manager [inserted_row demo_record] [passed])) = Inr e \<and> re_RunID e = demo_runID)"
proof -
  have "admitted_run demo_sha (demo_db [inserted_row demo_record]) demo_proxy 2 demo_runID"
    by (simp add: admitted_run_def demo_digests leases_of_def lease_of_def lease_held_def login_live_def toUnixMillis_def nullableText_def)
  then show ?thesis
    using proxy_admission_exact [OF demo_reaches(4), of demo_proxy working_io] randomProxyCapability_ok [OF demo_random(2)]
    by (simp add: working_io_def)
qed

theorem finish_outcome_truthful_witness:
  "leases_of [demo_finished_row] demo_runID = Some LeaseFinished"
  using finish_outcome_truthful [OF demo_reaches(4) demo_finish] by simp

theorem granted_capabilities_work_witness:
  "\<not> isl (snd (run_AuthorizeControl demo_sha working_io 2 CtxLive demo_runID demo_control
      (demo_manager [inserted_row demo_record] [passed])))"
proof -
  have facts: "vw_ID (lg_Run demo_grant) = demo_runID" "lg_ControlCapability demo_grant = demo_control"
    "toUnixMillis 2 < toUnixMillis (vw_ExpiresAt (lg_Run demo_grant))" "cc_RuntimeUserID demo_command = []"
    "length (the (ent_control demo_entropy)) = 32" "rio_begin working_io" "rio_read working_io"
    "lg_accepting (rm_gate (demo_manager [inserted_row demo_record] [passed]))"
    by (simp_all add: demo_command_def demo_grant_def ViewOf_def demo_entropy_def demo_bytes_def toUnixMillis_def working_io_def)
  show ?thesis
    using granted_capabilities_work [OF demo_reaches(3) order.refl demo_create facts(4,8,5,3,6,7)]
    unfolding facts(1,2) by (auto simp: isl_def split: sum.splits)
qed

theorem clock_step_back_blocks_revocation_witness:
  "snd (run_Shutdown working_io (- 1000000) (demo_manager [inserted_row demo_record] [passed])) \<noteq> None"
  using clock_step_back_blocks_revocation [of "inserted_row demo_record" "demo_manager [inserted_row demo_record] [passed]"
      "- 1000000" working_io]
  by (simp add: toUnixMillis_def inserted_row_def) (simp add: demo_manager_def demo_new_def)

end
