(* ===== verification/Go_Netip.thy ===== *)
theory Go_Netip
  imports Go_Base64 "HOL-Library.Word"
begin

unbundle bit_operations_syntax

text \<open>
  The addresses of Go's \<open>net/netip\<close> as far as the sources use them: \<open>Addr\<close>, \<open>Prefix\<close>, their parsers and
  printers.  An IPv4 address is a 32-bit word, an IPv6 address a 128-bit word with its zone; the zero
  \<open>Addr\<close> is \<open>AddrZero\<close>.  The parsers reject with \<open>None\<close>: the text of the error is not used.
\<close>

section \<open>Addresses\<close>

datatype addr = AddrZero | Addr4 "32 word" | Addr6 "128 word" string

fun Is4 :: "addr \<Rightarrow> bool" where
  "Is4 (Addr4 a) = True"
| "Is4 _ = False"

fun Is6 :: "addr \<Rightarrow> bool" where
  "Is6 (Addr6 a z) = True"
| "Is6 _ = False"

fun BitLen :: "addr \<Rightarrow> nat" where
  "BitLen AddrZero = 0"
| "BitLen (Addr4 a) = 32"
| "BitLen (Addr6 a z) = 128"

fun Zone :: "addr \<Rightarrow> string" where
  "Zone (Addr6 a z) = z"
| "Zone _ = []"

definition mapped4 :: "128 word \<Rightarrow> bool" where
  "mapped4 a \<longleftrightarrow> drop_bit 32 a = 0xFFFF"

fun Is4In6 :: "addr \<Rightarrow> bool" where
  "Is4In6 (Addr6 a z) = mapped4 a"
| "Is4In6 _ = False"

fun Unmap :: "addr \<Rightarrow> addr" where
  "Unmap (Addr6 a z) = (if mapped4 a then Addr4 (ucast a) else Addr6 a z)"
| "Unmap a = a"

fun WithZone :: "string \<Rightarrow> addr \<Rightarrow> addr" where
  "WithZone z (Addr6 a z') = Addr6 a z"
| "WithZone z a = a"

fun IsLoopback :: "addr \<Rightarrow> bool" where
  "IsLoopback AddrZero = False"
| "IsLoopback (Addr4 a) = (drop_bit 24 a = 127)"
| "IsLoopback (Addr6 a z) = (if mapped4 a then drop_bit 24 (ucast a :: 32 word) = 127 else a = 1)"

section \<open>Parsing\<close>

text \<open>\<open>parseIPv4Fields\<close>: the fields so far, the value and the number of digits of the current one, and
  the previous character.\<close>

fun ipv4_fields :: "nat list \<Rightarrow> nat \<Rightarrow> nat \<Rightarrow> char option \<Rightarrow> string \<Rightarrow> nat list option" where
  "ipv4_fields fs v digLen prev [] = (if length fs < 3 then None else Some (fs @ [v]))"
| "ipv4_fields fs v digLen prev (c # s) =
     (if is_digit c then
        (if digLen = 1 \<and> v = 0 then None
         else (let w = v * 10 + (of_char c - 48) in
               if w > 255 then None else ipv4_fields fs w (digLen + 1) (Some c) s))
      else if c = CHR ''.'' then
        (if prev = None \<or> s = [] \<or> prev = Some (CHR ''.'') then None
         else if length fs = 3 then None
         else ipv4_fields (fs @ [v]) 0 0 (Some c) s)
      else None)"

definition parseIPv4Fields :: "string \<Rightarrow> nat list option" where
  "parseIPv4Fields s = ipv4_fields [] 0 0 None s"

fun base_value :: "nat \<Rightarrow> nat list \<Rightarrow> nat" where
  "base_value b [] = 0"
| "base_value b (d # ds) = d * b ^ length ds + base_value b ds"

fun base_digits :: "nat \<Rightarrow> nat \<Rightarrow> nat \<Rightarrow> nat list" where
  "base_digits b 0 n = []"
| "base_digits b (Suc k) n = base_digits b k (n div b) @ [n mod b]"

definition is_hex :: "char \<Rightarrow> bool" where
  "is_hex c \<longleftrightarrow> hex_value c \<noteq> None"

definition hex_number :: "string \<Rightarrow> nat" where
  "hex_number s = foldl (\<lambda>n c. 16 * n + the (hex_value c)) 0 s"

text \<open>
  The loop of \<open>parseIPv6\<close>: the 16-bit groups so far, the position of the ellipsis, the rest.  A group of
  more than four digits fails at its fifth, whatever follows.
\<close>

function v6_loop :: "nat list \<Rightarrow> nat option \<Rightarrow> string \<Rightarrow> (nat list \<times> nat option \<times> string) option" where
  "v6_loop gs ell s =
     (if 8 \<le> length gs then Some (gs, ell, s)
      else (let digits = takeWhile is_hex s; r = dropWhile is_hex s in
        if length digits > 4 \<or> digits = [] then None
        else if r \<noteq> [] \<and> hd r = CHR ''.'' then
          (if ell = None \<and> length gs \<noteq> 6 then None
           else if length gs + 2 > 8 then None
           else (case parseIPv4Fields s of
               Some [a, b, c, d] \<Rightarrow> Some (gs @ [256 * a + b, 256 * c + d], ell, [])
             | _ \<Rightarrow> None))
        else (let gs' = gs @ [hex_number digits] in
          if r = [] then Some (gs', ell, [])
          else if hd r \<noteq> CHR '':'' then None
          else if tl r = [] then None
          else if hd (tl r) = CHR '':'' then
            (if ell \<noteq> None then None
             else if tl (tl r) = [] then Some (gs', Some (length gs'), [])
             else v6_loop gs' (Some (length gs')) (tl (tl r)))
          else v6_loop gs' ell (tl r))))"
  by pat_completeness auto
termination
  by (relation "measure (\<lambda>(gs, _, _). 8 - length gs)") auto

declare v6_loop.simps [simp del]

definition v6_expand :: "nat list \<times> nat option \<times> string \<Rightarrow> nat list option" where
  "v6_expand r = (case r of (gs, ell, s) \<Rightarrow>
     if s \<noteq> [] then None
     else if length gs < 8 then
       (case ell of None \<Rightarrow> None | Some e \<Rightarrow> Some (take e gs @ replicate (8 - length gs) 0 @ drop e gs))
     else if ell \<noteq> None then None else Some gs)"

definition v6_groups :: "string \<Rightarrow> nat list option" where
  "v6_groups s =
     (if prefix ''::'' s then
        (if drop 2 s = [] then Some (replicate 8 0)
         else (case v6_loop [] (Some 0) (drop 2 s) of None \<Rightarrow> None | Some r \<Rightarrow> v6_expand r))
      else (case v6_loop [] None s of None \<Rightarrow> None | Some r \<Rightarrow> v6_expand r))"

definition parseIPv6 :: "string \<Rightarrow> addr option" where
  "parseIPv6 s =
     (case cut_char (CHR ''%'') s of
        Some (t, zone) \<Rightarrow>
          if zone = [] then None
          else map_option (\<lambda>gs. Addr6 (of_nat (base_value 65536 gs)) zone) (v6_groups t)
      | None \<Rightarrow> map_option (\<lambda>gs. Addr6 (of_nat (base_value 65536 gs)) []) (v6_groups s))"

definition parseIPv4 :: "string \<Rightarrow> addr option" where
  "parseIPv4 s = map_option (\<lambda>fs. Addr4 (of_nat (base_value 256 fs))) (parseIPv4Fields s)"

definition ParseAddr :: "string \<Rightarrow> addr option" where
  "ParseAddr s =
     (case find (\<lambda>c. c = CHR ''.'' \<or> c = CHR '':'' \<or> c = CHR ''%'') s of
        None \<Rightarrow> None
      | Some c \<Rightarrow> if c = CHR ''.'' then parseIPv4 s else if c = CHR '':'' then parseIPv6 s else None)"

section \<open>Printing\<close>

fun hex_group :: "nat \<Rightarrow> string" where
  "hex_group n = (if n < 16 then [hex_lower n] else hex_group (n div 16) @ [hex_lower (n mod 16)])"

declare hex_group.simps [simp del]

text \<open>The first longest run of at least two zero groups, as its start and end.\<close>

definition zero_run_at :: "nat list \<Rightarrow> nat \<Rightarrow> nat" where
  "zero_run_at gs i = i + length (takeWhile (\<lambda>g. g = 0) (drop i gs))"

definition zero_run :: "nat list \<Rightarrow> (nat \<times> nat) option" where
  "zero_run gs = foldl (\<lambda>best i.
     (let l = zero_run_at gs i - i in
      if 2 \<le> l \<and> l > (case best of None \<Rightarrow> 0 | Some (a, b) \<Rightarrow> b - a) then Some (i, zero_run_at gs i) else best))
     None [0..<8]"

definition string6 :: "nat list \<Rightarrow> string" where
  "string6 gs =
     (case zero_run gs of
        None \<Rightarrow> join '':'' (map hex_group gs)
      | Some (a, b) \<Rightarrow> join '':'' (map hex_group (take a gs)) @ ''::'' @ join '':'' (map hex_group (drop b gs)))"

fun Addr_String :: "addr \<Rightarrow> string" where
  "Addr_String AddrZero = ''invalid IP''"
| "Addr_String (Addr4 a) = join ''.'' (map decimal (base_digits 256 4 (unat a)))"
| "Addr_String (Addr6 a z) =
     (if mapped4 a then ''::ffff:'' @ join ''.'' (map decimal (base_digits 256 4 (unat (ucast a :: 32 word))))
      else string6 (base_digits 65536 8 (unat a))) @ (if z = [] then [] else CHR ''%'' # z)"

section \<open>What is printed is parsed\<close>

subsection \<open>Digits\<close>

lemma base_value_append: "base_value b (xs @ ys) = base_value b xs * b ^ length ys + base_value b ys"
  by (induction xs) (simp_all add: power_add algebra_simps)

lemma length_base_digits [simp]: "length (base_digits b k n) = k"
  by (induction k arbitrary: n) simp_all

lemma base_value_digits: "base_value b (base_digits b k n) = n mod b ^ k"
proof (induction k arbitrary: n)
  case (Suc k)
  have "n mod b ^ Suc k = b * (n div b mod b ^ k) + n mod b" by (simp add: mod_mult2_eq)
  then show ?case using Suc by (simp add: base_value_append algebra_simps)
qed simp

lemma base_digits_bound: "0 < b \<Longrightarrow> d \<in> set (base_digits b k n) \<Longrightarrow> d < b"
  by (induction k arbitrary: n) auto

lemma decimal_short:
  "n < 1000 \<Longrightarrow> decimal n =
    (if n < 10 then [byte_char (48 + n)]
     else if n < 100 then [byte_char (48 + n div 10), byte_char (48 + n mod 10)]
     else [byte_char (48 + n div 100), byte_char (48 + n div 10 mod 10), byte_char (48 + n mod 10)])"
proof -
  assume n: "n < 1000"
  have "n div 10 div 10 = n div 100" by (simp flip: div_mult2_eq)
  moreover have "n div 100 < 10" "n div 10 < 10 \<longleftrightarrow> n < 100" using n by auto
  ultimately show ?thesis by (subst decimal.simps, subst decimal.simps, subst decimal.simps) auto
qed

lemma ipv4_digit:
  assumes "m < 10" "\<not> (k = 1 \<and> v = 0)" "v * 10 + m \<le> 255"
  shows "ipv4_fields fs v k prev (byte_char (48 + m) # s) = ipv4_fields fs (v * 10 + m) (k + 1) (Some (byte_char (48 + m))) s"
  using assms by (auto simp: is_digit_def Let_def)

lemma ipv4_read:
  assumes "n < 256"
  obtains k c where "c \<noteq> CHR ''.''" "\<And>s. ipv4_fields fs 0 0 prev (decimal n @ s) = ipv4_fields fs n k (Some c) s"
proof -
  have dot: "byte_char (48 + m) \<noteq> CHR ''.''" if "m < 10" for m using that by (auto simp: byte_char_eq_iff)
  consider "n < 10" | "10 \<le> n" "n < 100" | "100 \<le> n" by linarith
  then show thesis
  proof cases
    case 1
    then show thesis using that [of "byte_char (48 + n)" 1] dot ipv4_digit [of n 0 0 fs prev] by (simp add: decimal_short)
  next
    case 2
    have "n div 10 < 10" "n div 10 \<noteq> 0" "n div 10 * 10 + n mod 10 = n" using 2 by auto
    then have "ipv4_fields fs 0 0 prev (decimal n @ s) = ipv4_fields fs n (Suc (Suc 0)) (Some (byte_char (48 + n mod 10))) s" for s
      using 2 assms ipv4_digit [of "n div 10" 0 0 fs prev] ipv4_digit [of "n mod 10" 1 "n div 10" fs "Some (byte_char (48 + n div 10))" s]
      by (simp add: decimal_short del: ipv4_fields.simps)
    then show thesis using that dot [of "n mod 10"] by fastforce
  next
    case 3
    have "n div 100 < 10" "n div 100 \<noteq> 0" "n div 10 mod 10 < 10" using 3 assms by auto
    moreover have "n div 100 = n div 10 div 10" by (simp flip: div_mult2_eq)
    then have "n div 100 * 10 + n div 10 mod 10 = n div 10" by (metis div_mult_mod_eq)
    moreover have "n div 10 \<le> 255" "n div 10 * 10 + n mod 10 = n" using assms by auto
    ultimately have "ipv4_fields fs 0 0 prev (decimal n @ s) = ipv4_fields fs n (Suc (Suc (Suc 0))) (Some (byte_char (48 + n mod 10))) s" for s
      using 3 assms ipv4_digit [of "n div 100" 0 0 fs prev] ipv4_digit [of "n div 10 mod 10" 1 "n div 100" fs "Some (byte_char (48 + n div 100))"]
        ipv4_digit [of "n mod 10" "Suc (Suc 0)" "n div 10" fs "Some (byte_char (48 + n div 10 mod 10))" s]
      by (simp add: decimal_short del: ipv4_fields.simps)
    then show thesis using that dot [of "n mod 10"] by fastforce
  qed
qed

lemma decimal_first: "decimal n = c # s \<Longrightarrow> is_digit c"
  using decimal_digits [of n] by simp

lemma ipv4_dot:
  "c \<noteq> CHR ''.'' \<Longrightarrow> s \<noteq> [] \<Longrightarrow> length fs < 3 \<Longrightarrow>
   ipv4_fields fs v k (Some c) (CHR ''.'' # s) = ipv4_fields (fs @ [v]) 0 0 (Some (CHR ''.'')) s"
  by (simp add: is_digit_def)

lemma ipv4_next:
  assumes "n < 256" "length fs < 3" "s \<noteq> []"
  shows "ipv4_fields fs 0 0 prev (decimal n @ CHR ''.'' # s) = ipv4_fields (fs @ [n]) 0 0 (Some (CHR ''.'')) s"
proof (rule ipv4_read [OF assms(1), of fs prev])
  fix k c
  assume "c \<noteq> CHR ''.''" "\<And>s. ipv4_fields fs 0 0 prev (decimal n @ s) = ipv4_fields fs n k (Some c) s"
  then show ?thesis using ipv4_dot [of c s fs n k] assms(2,3) by (simp del: ipv4_fields.simps)
qed

lemma ipv4_last:
  assumes "n < 256" "length fs = 3"
  shows "ipv4_fields fs 0 0 prev (decimal n) = Some (fs @ [n])"
proof (rule ipv4_read [OF assms(1), of fs prev])
  fix k c
  assume "\<And>s. ipv4_fields fs 0 0 prev (decimal n @ s) = ipv4_fields fs n k (Some c) s"
  from this [of "[]"] show ?thesis using assms(2) by simp
qed

lemma parse_print_ipv4:
  "a < 256 \<Longrightarrow> b < 256 \<Longrightarrow> c < 256 \<Longrightarrow> d < 256 \<Longrightarrow> parseIPv4Fields (join ''.'' (map decimal [a, b, c, d])) = Some [a, b, c, d]"
  by (simp add: parseIPv4Fields_def ipv4_next ipv4_last)

subsection \<open>Groups\<close>

lemma hex_group_digits: "list_all is_hex (hex_group n)"
proof (induction n rule: hex_group.induct)
  case (1 n)
  have "is_hex (hex_lower m)" if "m < 16" for m using hex_lower_value [OF that] by (simp add: is_hex_def)
  then show ?case using 1 by (subst hex_group.simps) simp
qed

lemma hex_group_nonempty [simp]: "hex_group n \<noteq> []"
  by (subst hex_group.simps) simp

lemma hex_number_snoc: "hex_number (s @ [c]) = 16 * hex_number s + the (hex_value c)"
  by (simp add: hex_number_def)

lemma hex_number_group: "hex_number (hex_group n) = n"
proof (induction n rule: hex_group.induct)
  case (1 n)
  then show ?case
    by (subst hex_group.simps) (auto simp: hex_number_snoc hex_lower_value, simp add: hex_number_def hex_lower_value)
qed

lemma hex_group_length: "n < 16 ^ Suc k \<Longrightarrow> length (hex_group n) \<le> Suc k"
proof (induction k arbitrary: n)
  case 0
  then show ?case by (subst hex_group.simps) simp
next
  case (Suc k)
  have "n div 16 < 16 ^ Suc k" using Suc.prems by (simp add: less_mult_imp_div_less mult.commute)
  then show ?case using Suc.IH [of "n div 16"] by (subst hex_group.simps) simp
qed

lemma group_length: "n < 65536 \<Longrightarrow> length (hex_group n) \<le> 4"
  using hex_group_length [of n 3] by simp

lemma colon_not_hex: "\<not> is_hex (CHR '':'')" "\<not> is_hex (CHR ''.'')" "\<not> is_hex (CHR ''%'')"
  by (simp_all add: is_hex_def hex_value_def)

lemma group_span:
  "takeWhile is_hex (hex_group n) = hex_group n" "dropWhile is_hex (hex_group n) = []"
  "takeWhile is_hex (hex_group n @ CHR '':'' # s) = hex_group n" "dropWhile is_hex (hex_group n @ CHR '':'' # s) = CHR '':'' # s"
  using hex_group_digits [of n] colon_not_hex
  by (auto simp: takeWhile_eq_all_conv dropWhile_eq_Nil_conv list_all_iff takeWhile_append2 dropWhile_append2)

text \<open>One group of the loop, at the end, before a colon, and before the ellipsis.\<close>

lemma v6_last: "g < 65536 \<Longrightarrow> length gs < 8 \<Longrightarrow> v6_loop gs ell (hex_group g) = Some (gs @ [g], ell, [])"
  using group_length [of g] by (subst v6_loop.simps) (simp add: group_span hex_number_group not_le)

lemma v6_next:
  "g < 65536 \<Longrightarrow> length gs < 8 \<Longrightarrow> t \<noteq> [] \<Longrightarrow> hd t \<noteq> CHR '':'' \<Longrightarrow>
   v6_loop gs ell (hex_group g @ CHR '':'' # t) = v6_loop (gs @ [g]) ell t"
  using group_length [of g] by (subst v6_loop.simps) (simp add: group_span hex_number_group not_le)

lemma v6_ellipsis:
  "g < 65536 \<Longrightarrow> length gs < 8 \<Longrightarrow>
   v6_loop gs None (hex_group g @ CHR '':'' # CHR '':'' # t) =
     (if t = [] then Some (gs @ [g], Some (Suc (length gs)), []) else v6_loop (gs @ [g]) (Some (Suc (length gs))) t)"
  using group_length [of g] by (subst v6_loop.simps) (simp add: group_span hex_number_group not_le)

lemma join_groups_first:
  "gs \<noteq> [] \<Longrightarrow> join '':'' (map hex_group gs) @ s \<noteq> [] \<and> is_hex (hd (join '':'' (map hex_group gs) @ s))"
proof -
  assume "gs \<noteq> []"
  then obtain g r where gs: "gs = g # r" by (cases gs) auto
  have "is_hex (hd (hex_group g @ u))" for u using hex_group_digits [of g] by (cases "hex_group g") auto
  then show ?thesis by (cases r) (simp_all add: gs)
qed

lemma hex_not_colon: "is_hex c \<Longrightarrow> c \<noteq> CHR '':''"
  using colon_not_hex by auto

lemma v6_all:
  "rs \<noteq> [] \<Longrightarrow> list_all (\<lambda>g. g < 65536) rs \<Longrightarrow> length gs + length rs \<le> 8 \<Longrightarrow>
   v6_loop gs ell (join '':'' (map hex_group rs)) = Some (gs @ rs, ell, [])"
proof (induction rs arbitrary: gs)
  case (Cons g rs)
  show ?case
  proof (cases rs)
    case Nil
    then show ?thesis using Cons.prems by (simp add: v6_last)
  next
    case (Cons h r)
    have "v6_loop gs ell (join '':'' (map hex_group (g # rs))) = v6_loop gs ell (hex_group g @ CHR '':'' # join '':'' (map hex_group rs))"
      by (simp add: Cons)
    also have "\<dots> = v6_loop (gs @ [g]) ell (join '':'' (map hex_group rs))"
      using Cons.prems join_groups_first [of rs "[]"] hex_not_colon by (intro v6_next) (auto simp: Cons)
    finally show ?thesis using Cons.IH [of "gs @ [g]"] Cons.prems by (simp add: Cons)
  qed
qed simp

lemma v6_until_ellipsis:
  "rs \<noteq> [] \<Longrightarrow> list_all (\<lambda>g. g < 65536) rs \<Longrightarrow> length gs + length rs \<le> 8 \<Longrightarrow>
   v6_loop gs None (join '':'' (map hex_group rs) @ CHR '':'' # CHR '':'' # t) =
     (if t = [] then Some (gs @ rs, Some (length (gs @ rs)), []) else v6_loop (gs @ rs) (Some (length (gs @ rs))) t)"
proof (induction rs arbitrary: gs)
  case (Cons g rs)
  show ?case
  proof (cases rs)
    case Nil
    then show ?thesis using Cons.prems by (simp add: v6_ellipsis)
  next
    case (Cons h r)
    let ?u = "join '':'' (map hex_group rs) @ CHR '':'' # CHR '':'' # t"
    have "v6_loop gs None (join '':'' (map hex_group (g # rs)) @ CHR '':'' # CHR '':'' # t) = v6_loop gs None (hex_group g @ CHR '':'' # ?u)"
      by (simp add: Cons)
    also have "\<dots> = v6_loop (gs @ [g]) None ?u"
      using Cons.prems join_groups_first [of rs "CHR '':'' # CHR '':'' # t"] hex_not_colon by (intro v6_next) (auto simp: Cons)
    finally show ?thesis using Cons.IH [of "gs @ [g]"] Cons.prems by (simp add: Cons)
  qed
qed simp

subsection \<open>The ellipsis\<close>

definition zero_block :: "nat list \<Rightarrow> nat \<times> nat \<Rightarrow> bool" where
  "zero_block gs = (\<lambda>(a, b). a < b \<and> b \<le> length gs \<and> gs = take a gs @ replicate (b - a) 0 @ drop b gs)"

lemma zero_run_at_block:
  assumes "i < length gs" and "2 \<le> zero_run_at gs i - i"
  shows "zero_block gs (i, zero_run_at gs i)"
proof -
  let ?z = "takeWhile (\<lambda>g. g = 0) (drop i gs)"
  have "?z = replicate (length ?z) 0" by (metis (mono_tags, lifting) replicate_eqI set_takeWhileD)
  moreover have "drop (i + length ?z) gs = dropWhile (\<lambda>g. g = 0) (drop i gs)"
    by (metis add.commute drop_drop dropWhile_eq_drop)
  moreover have "drop i gs = ?z @ dropWhile (\<lambda>g. g = 0) (drop i gs)" by simp
  ultimately have "gs = take i gs @ replicate (length ?z) 0 @ drop (i + length ?z) gs" by (metis append_take_drop_id)
  moreover have "length ?z \<le> length gs - i" using length_takeWhile_le [of _ "drop i gs"] by simp
  then have "i < i + length ?z" "i + length ?z \<le> length gs" using assms unfolding zero_run_at_def by linarith+
  ultimately show ?thesis unfolding zero_block_def zero_run_at_def case_prod_conv by (metis add_diff_cancel_left')
qed

lemma zero_run_block: "length gs = 8 \<Longrightarrow> zero_run gs = Some r \<Longrightarrow> zero_block gs r"
proof -
  assume gs: "length gs = 8"
  have "(case foldl (\<lambda>best i. (let l = zero_run_at gs i - i in
      if 2 \<le> l \<and> l > (case best of None \<Rightarrow> 0 | Some (a, b) \<Rightarrow> b - a) then Some (i, zero_run_at gs i) else best)) best js of
      None \<Rightarrow> True | Some r \<Rightarrow> zero_block gs r)"
    if "\<And>j. j \<in> set js \<Longrightarrow> j < length gs" "case best of None \<Rightarrow> True | Some r \<Rightarrow> zero_block gs r" for js best
    using that
  proof (induction js arbitrary: best)
    case (Cons j js)
    then show ?case using zero_run_at_block [of j gs] by (auto simp: Let_def)
  qed simp
  from this [of "[0..<8]" None] gs show "zero_run gs = Some r \<Longrightarrow> zero_block gs r" by (simp add: zero_run_def)
qed

lemma parse_print_groups:
  assumes len: "length gs = 8" and small: "list_all (\<lambda>g. g < 65536) gs"
  shows "v6_groups (string6 gs) = Some gs"
proof (cases "zero_run gs")
  case None
  have nonempty: "gs \<noteq> []" using len by auto
  have "\<not> prefix ''::'' (join '':'' (map hex_group gs))"
    using join_groups_first [OF nonempty, of "[]"] hex_not_colon by (cases "join '':'' (map hex_group gs)") auto
  then show ?thesis
    using v6_all [OF nonempty small, of "[]" None] len by (simp add: None string6_def v6_groups_def v6_expand_def)
next
  case (Some r)
  obtain a b where r: "r = (a, b)" by force
  have z: "a < b" "b \<le> 8" "gs = take a gs @ replicate (b - a) 0 @ drop b gs"
    using zero_run_block [OF len Some] len by (auto simp: r zero_block_def)
  have small': "list_all (\<lambda>g. g < 65536) (take a gs)" "list_all (\<lambda>g. g < 65536) (drop b gs)"
    using small by (auto simp: list_all_iff dest: in_set_takeD in_set_dropD)
  have parts: "take a gs @ replicate (b - a) 0 @ drop b gs = gs" using z(3) by simp
  let ?h = "join '':'' (map hex_group (take a gs))" and ?t = "join '':'' (map hex_group (drop b gs))"
  have str: "string6 gs = ?h @ ''::'' @ ?t" by (simp add: Some r string6_def)
  show ?thesis
  proof (cases "a = 0")
    case True
    then have s: "string6 gs = ''::'' @ ?t" using str by simp
    show ?thesis
    proof (cases "b = 8")
      case True
      then have "gs = replicate 8 0" "?t = []" using parts \<open>a = 0\<close> len by simp_all
      then show ?thesis unfolding s by (simp add: v6_groups_def)
    next
      case False
      then have "drop b gs \<noteq> []" using z(2) len by simp
      then have "?t \<noteq> []" "v6_loop [] (Some 0) ?t = Some (drop b gs, Some 0, [])"
        using v6_all [OF _ small'(2), of "[]" "Some 0"] join_groups_first [of "drop b gs" "[]"] z(2) len by auto
      then have "v6_groups (''::'' @ ?t) = v6_expand (drop b gs, Some 0, [])" by (simp add: v6_groups_def)
      also have "\<dots> = Some (replicate b 0 @ drop b gs)" using z(1,2) len by (simp add: v6_expand_def)
      finally show ?thesis unfolding s using parts \<open>a = 0\<close> by simp
    qed
  next
    case False
    have head: "take a gs \<noteq> []" using False len by auto
    have "\<not> prefix ''::'' (?h @ ''::'' @ ?t)"
      using join_groups_first [OF head, of "''::'' @ ?t"] hex_not_colon by (cases "?h @ ''::'' @ ?t") auto
    moreover have "v6_loop [] None (?h @ ''::'' @ ?t) = Some (take a gs @ drop b gs, Some a, [])"
      using v6_until_ellipsis [OF head small'(1), of "[]" ?t] v6_all [OF _ small'(2), of "take a gs" "Some a"]
        join_groups_first [of "drop b gs" "[]"] z len by (cases "b = 8") auto
    ultimately have "v6_groups (?h @ ''::'' @ ?t) = v6_expand (take a gs @ drop b gs, Some a, [])" by (simp add: v6_groups_def)
    also have "\<dots> = Some (take a gs @ replicate (b - a) 0 @ drop b gs)" using z(1,2) len by (simp add: v6_expand_def)
    finally show ?thesis unfolding str parts .
  qed
qed

subsection \<open>Whole addresses\<close>

lemma set_join_chars: "c \<in> set (join sep xs) \<Longrightarrow> c \<in> set sep \<or> (\<exists>x \<in> set xs. c \<in> set x)"
  by (induction sep xs rule: join.induct) auto

lemma join_has_sep: "2 \<le> length xs \<Longrightarrow> set sep \<subseteq> set (join sep xs)"
  by (induction sep xs rule: join.induct) auto

lemma string6_chars: "c \<in> set (string6 gs) \<Longrightarrow> c = CHR '':'' \<or> is_hex c"
proof -
  have "c \<in> set (join '':'' (map hex_group xs)) \<Longrightarrow> c = CHR '':'' \<or> is_hex c" for xs
    using set_join_chars [of c "'':''" "map hex_group xs"] hex_group_digits by (auto simp: list_all_iff)
  then show "c \<in> set (string6 gs) \<Longrightarrow> c = CHR '':'' \<or> is_hex c"
    by (fastforce simp: string6_def split: option.splits)
qed

lemma string6_colon: "length gs = 8 \<Longrightarrow> CHR '':'' \<in> set (string6 gs)"
  using join_has_sep [of "map hex_group gs" "'':''"] by (auto simp: string6_def split: option.splits)

lemma four_digits: "base_digits 256 4 n = [n div 16777216 mod 256, n div 65536 mod 256, n div 256 mod 256, n mod 256]"
proof -
  have "(4::nat) = Suc (Suc (Suc (Suc 0)))" by simp
  then show ?thesis by (simp only: base_digits.simps) (simp flip: div_mult2_eq)
qed

lemma string4_chars:
  "c \<in> set (join ''.'' (map decimal (base_digits 256 4 n))) \<Longrightarrow> c = CHR ''.'' \<or> is_digit c"
  using set_join_chars [of c "''.''" "map decimal (base_digits 256 4 n)"] decimal_digits by (fastforce simp: list_all_iff)

lemma digit_not_special: "is_digit c \<Longrightarrow> c \<noteq> CHR ''.'' \<and> c \<noteq> CHR '':'' \<and> c \<noteq> CHR ''%'' \<and> c \<noteq> CHR ''/''"
  by (auto simp: is_digit_def)

lemma hex_not_special: "is_hex c \<Longrightarrow> c \<noteq> CHR ''.'' \<and> c \<noteq> CHR '':'' \<and> c \<noteq> CHR ''%'' \<and> c \<noteq> CHR ''/''"
  by (auto simp: is_hex_def hex_value_def)

definition canonical_addr :: "addr \<Rightarrow> bool" where
  "canonical_addr a \<longleftrightarrow> a \<noteq> AddrZero \<and> Zone a = [] \<and> \<not> Is4In6 a"

lemma parse_print_addr: "canonical_addr a \<Longrightarrow> ParseAddr (Addr_String a) = Some a"
proof (induction a rule: addr.induct)
  case (Addr4 w)
  let ?s = "join ''.'' (map decimal (base_digits 256 4 (unat w)))"
  have "CHR ''.'' \<in> set ?s" using join_has_sep [of "map decimal (base_digits 256 4 (unat w))" "''.''"] by simp
  then have "find (\<lambda>c. c = CHR ''.'' \<or> c = CHR '':'' \<or> c = CHR ''%'') ?s = Some (CHR ''.'')"
    using string4_chars digit_not_special by (intro find_unique) blast+
  moreover have "parseIPv4Fields ?s = Some (base_digits 256 4 (unat w))"
    unfolding four_digits by (intro parse_print_ipv4) simp_all
  moreover have "base_value 256 (base_digits 256 4 (unat w)) = unat w"
    using unsigned_less [of w, where ?'a = nat] by (simp add: base_value_digits)
  ultimately show ?case by (simp add: ParseAddr_def parseIPv4_def)
next
  case (Addr6 w z)
  then have z: "z = []" "\<not> mapped4 w" by (auto simp: canonical_addr_def)
  let ?gs = "base_digits 65536 8 (unat w)" let ?s = "string6 ?gs"
  have "find (\<lambda>c. c = CHR ''.'' \<or> c = CHR '':'' \<or> c = CHR ''%'') ?s = Some (CHR '':'')"
    using string6_chars hex_not_special string6_colon [of ?gs] by (intro find_unique) (simp, simp, blast)
  moreover have "CHR ''%'' \<notin> set ?s" using string6_chars hex_not_special by fastforce
  moreover have "v6_groups ?s = Some ?gs" using base_digits_bound [of 65536]
    by (intro parse_print_groups) (auto simp: list_all_iff)
  moreover have "base_value 65536 ?gs = unat w"
    using unsigned_less [of w, where ?'a = nat] by (simp add: base_value_digits)
  ultimately show ?case by (simp add: z ParseAddr_def parseIPv6_def cut_char_def)
qed (simp add: canonical_addr_def)

text \<open>The characters of a printed address, and its length.\<close>

lemma join_length: "list_all (\<lambda>x. length x \<le> k) xs \<Longrightarrow> length (join [c] xs) \<le> Suc k * length xs - 1"
proof (induction "[c]" xs rule: join.induct)
  case (3 x y ys)
  then have "length (join [c] (y # ys)) \<le> Suc k * length (y # ys) - 1" "length x \<le> k" by auto
  then show ?case by simp
qed auto

lemma join_groups_length: "list_all (\<lambda>g. g < 65536) gs \<Longrightarrow> length (join '':'' (map hex_group gs)) \<le> 5 * length gs - 1"
  using join_length [of 4 "map hex_group gs" "CHR '':''"] group_length by (auto simp: list_all_iff)

lemma string6_length:
  assumes "length gs = 8" "list_all (\<lambda>g. g < 65536) gs"
  shows "length (string6 gs) \<le> 39"
proof (cases "zero_run gs")
  case None
  then show ?thesis using join_groups_length [OF assms(2)] assms(1) by (simp add: string6_def)
next
  case (Some r)
  obtain a b where r: "r = (a, b)" by force
  have "a < b" "b \<le> 8" using zero_run_block [OF assms(1) Some] assms(1) by (auto simp: r zero_block_def)
  moreover have "list_all (\<lambda>g. g < 65536) (take a gs)" "list_all (\<lambda>g. g < 65536) (drop b gs)"
    using assms(2) by (auto simp: list_all_iff dest: in_set_takeD in_set_dropD)
  note this [THEN join_groups_length]
  moreover have "length (take a gs) = a" "length (drop b gs) = 8 - b" using \<open>a < b\<close> \<open>b \<le> 8\<close> assms(1) by simp_all
  ultimately show ?thesis unfolding string6_def Some r by simp
qed

lemma Addr_String_text:
  assumes "canonical_addr a"
  shows "length (Addr_String a) \<le> 39" "\<And>c. c \<in> set (Addr_String a) \<Longrightarrow> c = CHR ''.'' \<or> c = CHR '':'' \<or> is_hex c \<or> is_digit c"
    "Addr_String a \<noteq> []"
proof -
  have parsed: "ParseAddr (Addr_String a) = Some a" by (rule parse_print_addr [OF assms])
  then show "Addr_String a \<noteq> []" by (auto simp: ParseAddr_def)
  show "length (Addr_String a) \<le> 39"
  proof (cases a)
    case (Addr4 w)
    have "length (decimal n) \<le> 3" if "n < 256" for n using that by (simp add: decimal_short)
    then have "list_all (\<lambda>x. length x \<le> 3) (map decimal (base_digits 256 4 (unat w)))"
      using base_digits_bound [of 256] by (auto simp: list_all_iff)
    then show ?thesis using join_length [of 3 _ "CHR ''.''"] by (fastforce simp: Addr4)
  next
    case (Addr6 w z)
    then show ?thesis using assms string6_length [of "base_digits 65536 8 (unat w)"] base_digits_bound [of 65536]
      by (auto simp: canonical_addr_def list_all_iff)
  qed (use assms in \<open>simp add: canonical_addr_def\<close>)
  fix c
  assume "c \<in> set (Addr_String a)"
  then show "c = CHR ''.'' \<or> c = CHR '':'' \<or> is_hex c \<or> is_digit c"
    using assms string4_chars string6_chars by (cases a) (fastforce simp: canonical_addr_def)+
qed

section \<open>Prefixes\<close>

record prefix_net =
  pn_addr :: addr
  pn_bits :: nat

text \<open>\<open>strconv.Atoi\<close> of a text that is either one character or begins with a digit other than zero.\<close>

definition prefix_bits :: "string \<Rightarrow> nat option" where
  "prefix_bits s =
     (if length s > 1 \<and> \<not> (49 \<le> (of_char (hd s) :: nat) \<and> (of_char (hd s) :: nat) \<le> 57) then None
      else if s = [] \<or> \<not> list_all is_digit s \<or> int (digits_value s) > maxInt64 then None
      else Some (digits_value s))"

definition ParsePrefix :: "string \<Rightarrow> prefix_net option" where
  "ParsePrefix s =
     (if CHR ''/'' \<notin> set s then None
      else (let r = rev s; bitsStr = rev (takeWhile (\<lambda>c. c \<noteq> CHR ''/'') r); ipStr = rev (tl (dropWhile (\<lambda>c. c \<noteq> CHR ''/'') r)) in
        case ParseAddr ipStr of
          None \<Rightarrow> None
        | Some ip \<Rightarrow>
            if Is6 ip \<and> Zone ip \<noteq> [] then None
            else (case prefix_bits bitsStr of
                None \<Rightarrow> None
              | Some bits \<Rightarrow> if bits > (if Is6 ip then 128 else 32) then None else Some \<lparr> pn_addr = ip, pn_bits = bits \<rparr>)))"

fun mask_addr :: "nat \<Rightarrow> addr \<Rightarrow> addr" where
  "mask_addr n AddrZero = AddrZero"
| "mask_addr n (Addr4 a) = Addr4 (a AND NOT (mask (32 - n)))"
| "mask_addr n (Addr6 a z) = Addr6 (a AND NOT (mask (128 - n))) []"

definition Masked :: "prefix_net \<Rightarrow> prefix_net" where
  "Masked p = p\<lparr>pn_addr := mask_addr (pn_bits p) (pn_addr p)\<rparr>"

definition IsSingleIP :: "prefix_net \<Rightarrow> bool" where
  "IsSingleIP p \<longleftrightarrow> pn_bits p = BitLen (pn_addr p)"

definition Prefix_String :: "prefix_net \<Rightarrow> string" where
  "Prefix_String p = Addr_String (pn_addr p) @ ''/'' @ decimal (pn_bits p)"

fun same_network :: "nat \<Rightarrow> addr \<Rightarrow> addr \<Rightarrow> bool" where
  "same_network n (Addr4 a) (Addr4 b) = (drop_bit (32 - n) (b XOR a) = 0)"
| "same_network n (Addr6 a z) (Addr6 b z') = ((b XOR a) AND NOT (mask (128 - n)) = 0)"
| "same_network n _ _ = False"

definition Prefix_Contains :: "prefix_net \<Rightarrow> addr \<Rightarrow> bool" where
  "Prefix_Contains p ip \<longleftrightarrow> Zone ip = [] \<and> same_network (pn_bits p) (pn_addr p) ip"

lemma parse_print_prefix:
  assumes "canonical_addr (pn_addr p)" and "pn_bits p \<le> BitLen (pn_addr p)"
  shows "ParsePrefix (Prefix_String p) = Some p"
proof -
  let ?d = "decimal (pn_bits p)"
  have digits: "list_all is_digit ?d" by (rule decimal_digits)
  have free: "CHR ''/'' \<notin> set ?d" using digits digit_not_special by (auto simp: list_all_iff)
  have cut: "takeWhile (\<lambda>c. c \<noteq> CHR ''/'') (rev ?d @ CHR ''/'' # t) = rev ?d"
      "dropWhile (\<lambda>c. c \<noteq> CHR ''/'') (rev ?d @ CHR ''/'' # t) = CHR ''/'' # t" for t
    using free by (auto simp: takeWhile_tail dropWhile_append3)
  have small: "pn_bits p \<le> 128" using assms(2) by (cases "pn_addr p") auto
  have "prefix_bits ?d = Some (pn_bits p)"
  proof -
    have "length ?d > 1 \<Longrightarrow> 49 \<le> (of_char (hd ?d) :: nat) \<and> (of_char (hd ?d) :: nat) \<le> 57"
      using small by (auto simp: decimal_short)
    then show ?thesis using digits small by (auto simp: prefix_bits_def digits_value_decimal maxInt64_def)
  qed
  moreover have "pn_bits p \<le> (if Is6 (pn_addr p) then 128 else 32)" "Zone (pn_addr p) = []"
    using assms by (cases "pn_addr p"; simp add: canonical_addr_def)+
  ultimately show ?thesis
    using parse_print_addr [OF assms(1)] by (simp add: ParsePrefix_def Prefix_String_def cut Let_def)
qed

end
