(* ===== verification/Ip_Allowlist.thy ===== *)
theory Ip_Allowlist
  imports Go_Netip
begin

unbundle bit_operations_syntax

text \<open>
  The addresses that may connect to a Runtime Server (\<open>src/internal/ipallowlist/allowlist.go\<close>): parsing
  and printing of the Owner's list, the decision, and the test for a list that covers everything.
\<close>

section \<open>The list\<close>

definition MaxRanges :: nat where
  "MaxRanges = 256"

definition maxEntryBytes :: nat where
  "maxEntryBytes = 64"

record entry_error =
  ee_Index :: nat
  ee_Reason :: string
  ee_Suggestion :: string

datatype allowlist_error = ErrTooManyRanges | ErrEntry entry_error

definition entry_rejected :: "string \<Rightarrow> entry_error" where
  "entry_rejected reason = \<lparr> ee_Index = 0, ee_Reason = reason, ee_Suggestion = [] \<rparr>"

definition format_net :: "prefix_net \<Rightarrow> string" where
  "format_net p = (if IsSingleIP p then Addr_String (pn_addr p) else Prefix_String p)"

definition parsed_entry :: "string \<Rightarrow> prefix_net option" where
  "parsed_entry entry =
     (if CHR ''/'' \<in> set entry then ParsePrefix entry
      else map_option (\<lambda>a. \<lparr> pn_addr = a, pn_bits = BitLen a \<rparr>) (ParseAddr entry))"

definition parseEntry :: "string \<Rightarrow> entry_error + prefix_net" where
  "parseEntry raw =
     (let entry = trim_space raw in
      if entry = [] then Inl (entry_rejected ''empty'')
      else if length entry > maxEntryBytes then Inl (entry_rejected ''length'')
      else if CHR ''%'' \<in> set entry then Inl (entry_rejected ''zone'')
      else (case parsed_entry entry of
          None \<Rightarrow> Inl (entry_rejected ''syntax'')
        | Some p \<Rightarrow>
            if Is4In6 (pn_addr p) then Inl (entry_rejected ''ipv4_mapped'')
            else if Masked p \<noteq> p then Inl ((entry_rejected ''host_bits'')\<lparr>ee_Suggestion := format_net (Masked p)\<rparr>)
            else Inr p))"

fun parse_entries :: "nat \<Rightarrow> prefix_net list \<Rightarrow> string list \<Rightarrow> allowlist_error + prefix_net list" where
  "parse_entries index kept [] = Inr kept"
| "parse_entries index kept (raw # rest) =
     (case parseEntry raw of
        Inl e \<Rightarrow> Inl (ErrEntry (e\<lparr>ee_Index := index\<rparr>))
      | Inr p \<Rightarrow> parse_entries (index + 1) (if p \<in> set kept then kept else kept @ [p]) rest)"

definition Parse :: "string list \<Rightarrow> allowlist_error + prefix_net list" where
  "Parse entries = (if length entries > MaxRanges then Inl ErrTooManyRanges else parse_entries 0 [] entries)"

definition Entries :: "prefix_net list \<Rightarrow> string list" where
  "Entries l = map format_net l"

definition List_Contains :: "prefix_net list \<Rightarrow> addr \<Rightarrow> bool" where
  "List_Contains l address =
     (let a = WithZone [] (Unmap address) in
      if a = AddrZero then False else list_ex (\<lambda>p. Prefix_Contains p a) l)"

definition Allows :: "prefix_net list \<Rightarrow> addr \<Rightarrow> bool" where
  "Allows l address =
     (let a = WithZone [] (Unmap address) in
      if a = AddrZero then False else IsLoopback a \<or> l = [] \<or> List_Contains l a)"

text \<open>\<open>HasCatchAll\<close> adds up the sizes of the networks that lie in no wider one.\<close>

fun bit_length :: "nat \<Rightarrow> nat" where
  "bit_length n = (if n = 0 then 0 else Suc (bit_length (n div 2)))"

declare bit_length.simps [simp del]

definition nested :: "prefix_net list \<Rightarrow> prefix_net \<Rightarrow> bool" where
  "nested l p = list_ex (\<lambda>parent. pn_bits parent < pn_bits p \<and> Prefix_Contains parent (pn_addr p)) l"

definition covered :: "prefix_net list \<Rightarrow> nat \<Rightarrow> nat" where
  "covered l bits = sum_list (map (\<lambda>p. if BitLen (pn_addr p) \<noteq> bits then 0
      else if nested l p then 0 else push_bit (bits - pn_bits p) 1) l)"

definition HasCatchAll :: "prefix_net list \<Rightarrow> bool" where
  "HasCatchAll l = list_ex (\<lambda>bits. bit_length (covered l bits) > bits) [32, 128]"

section \<open>What the printer writes is an entry\<close>

definition net_ok :: "prefix_net \<Rightarrow> bool" where
  "net_ok p \<longleftrightarrow> canonical_addr (pn_addr p) \<and> pn_bits p \<le> BitLen (pn_addr p) \<and> Masked p = p"

lemma ParseAddr_zone: "ParseAddr s = Some a \<Longrightarrow> CHR ''%'' \<notin> set s \<Longrightarrow> a \<noteq> AddrZero \<and> Zone a = []"
  by (auto simp: ParseAddr_def parseIPv4_def parseIPv6_def cut_char_def split: option.splits if_splits)

lemma parsed_entry_ok:
  assumes p: "parsed_entry s = Some p" and "CHR ''%'' \<notin> set s"
  shows "pn_addr p \<noteq> AddrZero \<and> Zone (pn_addr p) = [] \<and> pn_bits p \<le> BitLen (pn_addr p)"
proof (cases "CHR ''/'' \<in> set s")
  case False
  then show ?thesis using assms ParseAddr_zone by (auto simp: parsed_entry_def)
next
  case True
  let ?ip = "rev (tl (dropWhile (\<lambda>c. c \<noteq> CHR ''/'') (rev s)))"
  have "set (tl xs) \<subseteq> set xs" for xs :: string by (cases xs) auto
  then have "set (tl (dropWhile (\<lambda>c. c \<noteq> CHR ''/'') (rev s))) \<subseteq> set s"
    using set_dropWhileD [of _ _ "rev s"] by fastforce
  then have "CHR ''%'' \<notin> set ?ip" using assms(2) by auto
  moreover obtain ip bits where "ParseAddr ?ip = Some ip" "p = \<lparr> pn_addr = ip, pn_bits = bits \<rparr>" "bits \<le> (if Is6 ip then 128 else 32)"
    using p True by (auto simp: parsed_entry_def ParsePrefix_def Let_def split: option.splits if_splits)
  ultimately show ?thesis using ParseAddr_zone [of ?ip ip] by (cases ip) auto
qed

lemma parseEntry_ok: "parseEntry raw = Inr p \<Longrightarrow> net_ok p"
  using parsed_entry_ok [of "trim_space raw" p]
  by (auto simp: parseEntry_def Let_def net_ok_def canonical_addr_def split: if_splits option.splits)

lemma hex_or_digit_plain: "is_hex c \<or> is_digit c \<Longrightarrow> 33 \<le> (of_char c :: nat) \<and> (of_char c :: nat) \<le> 126"
  by (auto simp: is_hex_def hex_value_def is_digit_def Let_def split: if_splits)

lemma format_net_text:
  assumes "net_ok p"
  shows "plain_text (format_net p)" "format_net p \<noteq> []" "length (format_net p) \<le> maxEntryBytes" "CHR ''%'' \<notin> set (format_net p)"
proof -
  have ok: "canonical_addr (pn_addr p)" "pn_bits p \<le> 128" using assms by (cases "pn_addr p"; auto simp: net_ok_def)+
  note chars = Addr_String_text [OF ok(1)]
  have "length (decimal (pn_bits p)) \<le> 3" using ok(2) by (simp add: decimal_short)
  then show "format_net p \<noteq> []" "length (format_net p) \<le> maxEntryBytes"
    using chars(1,3) by (auto simp: format_net_def Prefix_String_def maxEntryBytes_def)
  have "33 \<le> (of_char c :: nat) \<and> (of_char c :: nat) \<le> 126 \<and> c \<noteq> CHR ''%''" if "c \<in> set (format_net p)" for c
  proof -
    have "c = CHR ''.'' \<or> c = CHR '':'' \<or> c = CHR ''/'' \<or> is_hex c \<or> is_digit c"
      using that chars(2) decimal_digits [of "pn_bits p"]
      by (auto simp: format_net_def Prefix_String_def list_all_iff split: if_splits)
    then show ?thesis using hex_or_digit_plain [of c] hex_not_special [of c] digit_not_special [of c] by auto
  qed
  then show "plain_text (format_net p)" "CHR ''%'' \<notin> set (format_net p)" by (auto simp: plain_text_def list_all_iff)
qed

lemma format_net_entry:
  assumes "net_ok p"
  shows "parseEntry (format_net p) = Inr p"
proof -
  have ok: "canonical_addr (pn_addr p)" "pn_bits p \<le> BitLen (pn_addr p)" "Masked p = p" using assms by (auto simp: net_ok_def)
  have free: "CHR ''/'' \<notin> set (Addr_String (pn_addr p))"
    using Addr_String_text(2) [OF ok(1), of "CHR ''/''"] hex_not_special [of "CHR ''/''"] digit_not_special [of "CHR ''/''"] by auto
  have "parsed_entry (format_net p) = Some p"
  proof (cases "IsSingleIP p")
    case True
    then show ?thesis using free parse_print_addr [OF ok(1)] by (simp add: parsed_entry_def format_net_def IsSingleIP_def)
  next
    case False
    then show ?thesis using parse_print_prefix [OF ok(1,2)] by (simp add: parsed_entry_def format_net_def Prefix_String_def)
  qed
  then show ?thesis using format_net_text [OF assms] ok plain_text_trim
    by (simp add: parseEntry_def Let_def canonical_addr_def)
qed

lemma parse_entries_formatted:
  "list_all net_ok l \<Longrightarrow> distinct (kept @ l) \<Longrightarrow> parse_entries i kept (map format_net l) = Inr (kept @ l)"
  by (induction l arbitrary: i kept) (simp_all add: format_net_entry)

definition list_ok :: "prefix_net list \<Rightarrow> bool" where
  "list_ok l \<longleftrightarrow> list_all net_ok l \<and> distinct l \<and> length l \<le> MaxRanges"

lemma parse_entries_ok:
  "parse_entries i kept es = Inr l \<Longrightarrow> list_all net_ok kept \<Longrightarrow> distinct kept \<Longrightarrow>
   list_all net_ok l \<and> distinct l \<and> length l \<le> length kept + length es"
proof (induction es arbitrary: i kept)
  case (Cons e es)
  then obtain p where p: "parseEntry e = Inr p" by (cases "parseEntry e") auto
  let ?kept = "if p \<in> set kept then kept else kept @ [p]"
  have "list_all net_ok ?kept" "distinct ?kept" "length ?kept \<le> Suc (length kept)"
    using Cons.prems parseEntry_ok [OF p] by auto
  then show ?case using Cons.IH [of "i + 1" ?kept] Cons.prems(1) p by force
qed simp

lemma Parse_ok: "Parse es = Inr l \<Longrightarrow> list_ok l"
  using parse_entries_ok [of 0 "[]" es l] by (auto simp: Parse_def list_ok_def split: if_splits)

lemma Parse_Entries: "list_ok l \<Longrightarrow> Parse (Entries l) = Inr l"
  using parse_entries_formatted [of l "[]" 0] by (simp add: Parse_def Entries_def list_ok_def)

text \<open>C29: The list is shown and stored as it is meant.  Printing a parsed list gives entries that parse to
  the same networks in the same order, none of them rejected, trimmed, widened or merged; so a saved
  list is never refused and never changes its meaning.\<close>

theorem allowlist_reads_back:
  "Parse es = Inr l \<Longrightarrow> Parse (Entries l) = Inr l \<and> Entries l = map format_net l \<and> list_all net_ok l"
  using Parse_ok Parse_Entries by (auto simp: Entries_def list_ok_def)

section \<open>Covering everything\<close>

lemma bit_length_iff: "bit_length n > k \<longleftrightarrow> 2 ^ k \<le> n"
proof (induction k arbitrary: n)
  case 0
  then show ?case by (subst bit_length.simps) auto
next
  case (Suc k)
  show ?case using Suc [of "n div 2"] by (subst bit_length.simps) (auto simp: less_eq_div_iff_mult_less_eq mult.commute)
qed

text \<open>A network as the block of numbers it stands for, and the counting argument on blocks.\<close>

definition block :: "nat \<Rightarrow> nat \<times> nat \<Rightarrow> nat set" where
  "block w = (\<lambda>(n, v). {x. x < 2 ^ w \<and> x div 2 ^ (w - n) = v div 2 ^ (w - n)})"

definition block_ok :: "nat \<Rightarrow> nat \<times> nat \<Rightarrow> bool" where
  "block_ok w = (\<lambda>(n, v). n \<le> w \<and> v < 2 ^ w \<and> 2 ^ (w - n) dvd v)"

definition top_blocks :: "nat \<Rightarrow> (nat \<times> nat) set \<Rightarrow> (nat \<times> nat) set" where
  "top_blocks w N = {b \<in> N. \<not> (\<exists>c \<in> N. fst c < fst b \<and> snd b \<in> block w c)}"

lemma block_interval:
  assumes "block_ok w (n, v)"
  shows "block w (n, v) = {v ..< v + 2 ^ (w - n)}"
proof -
  let ?k = "(2::nat) ^ (w - n)"
  have n: "n \<le> w" "v < 2 ^ w" "?k dvd v" using assms by (auto simp: block_ok_def)
  then obtain q where q: "v = ?k * q" by blast
  have total: "2 ^ w = ?k * 2 ^ n" using n(1) by (simp flip: power_add)
  then have "q < 2 ^ n" using n(2) q by simp
  then have "?k * Suc q \<le> 2 ^ w" unfolding total by (intro mult_le_mono2) simp
  then have top: "v + ?k \<le> 2 ^ w" using q by simp
  have iff: "x div ?k = q \<longleftrightarrow> v \<le> x \<and> x < v + ?k" for x
  proof
    assume "x div ?k = q"
    then have "x = v + x mod ?k" using q by (metis mult_div_mod_eq)
    moreover have "x mod ?k < ?k" by simp
    ultimately show "v \<le> x \<and> x < v + ?k" by linarith
  next
    assume "v \<le> x \<and> x < v + ?k"
    then show "x div ?k = q" by (intro div_nat_eqI) (simp_all add: q)
  qed
  have "v div ?k = q" unfolding q by simp
  then have "x \<in> block w (n, v) \<longleftrightarrow> x < 2 ^ w \<and> x div ?k = q" for x by (simp add: block_def)
  then have "x \<in> block w (n, v) \<longleftrightarrow> v \<le> x \<and> x < v + ?k" for x unfolding iff using top by (metis order_less_le_trans)
  then show ?thesis by (intro set_eqI) (simp only: atLeastLessThan_iff)
qed

lemma block_card: "block_ok w b \<Longrightarrow> card (block w b) = 2 ^ (w - fst b) \<and> finite (block w b) \<and> snd b \<in> block w b"
  by (cases b) (simp add: block_interval)

lemma block_ok_fst: "block_ok w b \<Longrightarrow> fst b \<le> w"
  by (cases b) (simp add: block_ok_def)

lemma block_nested:
  assumes "fst c \<le> fst b" "fst b \<le> w" "x \<in> block w b" "x \<in> block w c"
  shows "block w b \<subseteq> block w c"
proof -
  obtain n v m u where b: "b = (n, v)" "c = (m, u)" by (cases b, cases c) auto
  have "w - m = (w - n) + (n - m)" using assms(1,2) by (simp add: b)
  then have coarse: "y div 2 ^ (w - m) = y div 2 ^ (w - n) div 2 ^ (n - m)" for y :: nat
    by (simp add: power_add div_mult2_eq)
  show ?thesis using assms(3,4) by (auto simp: b block_def coarse)
qed

lemma top_blocks_disjoint:
  assumes ok: "\<And>b. b \<in> N \<Longrightarrow> block_ok w b" and b: "b \<in> top_blocks w N" and c: "c \<in> top_blocks w N"
    and x: "x \<in> block w b" "x \<in> block w c" and le: "fst c \<le> fst b"
  shows "b = c"
proof -
  have mem: "b \<in> N" "c \<in> N" "fst b \<le> w" using b c ok block_ok_fst by (auto simp: top_blocks_def)
  have inside: "snd b \<in> block w c" using block_nested [OF le mem(3) x] block_card [OF ok [OF mem(1)]] by blast
  then have "fst b = fst c" using b mem(2) le by (auto simp: top_blocks_def)
  moreover from this have "snd b div 2 ^ (w - fst b) = snd c div 2 ^ (w - fst b)" using inside by (cases c) (simp add: block_def)
  then have "snd b = snd c"
    using ok [OF mem(1)] ok [OF mem(2)] \<open>fst b = fst c\<close> by (cases b; cases c) (auto simp: block_ok_def elim!: dvdE)
  ultimately show ?thesis by (rule prod_eqI)
qed

lemma top_blocks_cover:
  assumes fin: "finite N" and ok: "\<And>b. b \<in> N \<Longrightarrow> block_ok w b"
  shows "(\<Union>b \<in> top_blocks w N. block w b) = (\<Union>b \<in> N. block w b)"
proof -
  have "\<exists>c \<in> top_blocks w N. block w b \<subseteq> block w c" if "b \<in> N" for b
    using that
  proof (induction "fst b" arbitrary: b rule: less_induct)
    case less
    show ?case
    proof (cases "b \<in> top_blocks w N")
      case False
      then obtain c where c: "c \<in> N" "fst c < fst b" "snd b \<in> block w c" using less.prems by (auto simp: top_blocks_def)
      have "snd b \<in> block w b" "fst b \<le> w" using ok [OF less.prems] block_card block_ok_fst by blast+
      then have "block w b \<subseteq> block w c" using block_nested [of c b] c by simp
      then show ?thesis using less.hyps [OF c(2) c(1)] by blast
    qed blast
  qed
  then show ?thesis by (fastforce simp: top_blocks_def)
qed

lemma count_blocks:
  assumes fin: "finite N" and ok: "\<And>b. b \<in> N \<Longrightarrow> block_ok w b"
  shows "(\<Sum>b \<in> top_blocks w N. 2 ^ (w - fst b)) = card (\<Union>b \<in> N. block w b)"
proof -
  have sub: "top_blocks w N \<subseteq> N" by (auto simp: top_blocks_def)
  have "\<forall>b \<in> top_blocks w N. \<forall>c \<in> top_blocks w N. b \<noteq> c \<longrightarrow> block w b \<inter> block w c = {}"
    using top_blocks_disjoint [OF ok] by (metis disjoint_iff nat_le_linear)
  then have "card (\<Union>b \<in> top_blocks w N. block w b) = (\<Sum>b \<in> top_blocks w N. card (block w b))"
    using fin sub ok block_card by (intro card_UN_disjoint) (auto intro: finite_subset)
  also have "\<dots> = (\<Sum>b \<in> top_blocks w N. 2 ^ (w - fst b))" using sub ok block_card by (intro sum.cong) auto
  finally show ?thesis using top_blocks_cover [OF fin ok] by simp
qed

lemma counting_covers:
  assumes fin: "finite N" and ok: "\<And>b. b \<in> N \<Longrightarrow> block_ok w b"
  shows "2 ^ w \<le> (\<Sum>b \<in> top_blocks w N. (2::nat) ^ (w - fst b)) \<longleftrightarrow> (\<forall>x < 2 ^ w. \<exists>b \<in> N. x \<in> block w b)"
proof -
  let ?U = "\<Union>b \<in> N. block w b"
  have sub: "?U \<subseteq> {..<2 ^ w}" by (auto simp: block_def)
  have "2 ^ w \<le> card ?U \<longleftrightarrow> ?U = {..<2 ^ w}"
    using card_seteq [of "{..<2 ^ w}" ?U] sub by auto
  moreover have "?U = {..<2 ^ w} \<longleftrightarrow> (\<forall>x < 2 ^ w. \<exists>b \<in> N. x \<in> block w b)" using sub by blast
  ultimately show ?thesis by (simp only: count_blocks [OF fin ok])
qed

text \<open>Networks as blocks.\<close>

fun addr_value :: "addr \<Rightarrow> nat" where
  "addr_value AddrZero = 0"
| "addr_value (Addr4 a) = unat a"
| "addr_value (Addr6 a z) = unat a"

definition net_block :: "prefix_net \<Rightarrow> nat \<times> nat" where
  "net_block p = (pn_bits p, addr_value (pn_addr p))"

lemma xor_zero_iff: "x XOR y = 0 \<longleftrightarrow> x = y" for x y :: "'a::len word"
  by (metis bit.xor_left_self bit.xor_self xor.right_neutral)

lemma drop_bit_zero_iff:
  fixes a b :: "'a::len word"
  shows "drop_bit k b XOR drop_bit k a = 0 \<longleftrightarrow> unat b div 2 ^ k = unat a div 2 ^ k"
proof -
  have "drop_bit k b = drop_bit k a \<longleftrightarrow> unat (drop_bit k b) = unat (drop_bit k a)" by (metis unsigned_word_eqI)
  then show ?thesis unfolding xor_zero_iff unat_drop_bit_eq by (simp only: drop_bit_eq_div)
qed

lemma high_bits_zero_iff:
  fixes x :: "'a::len word"
  shows "x AND NOT (mask k) = 0 \<longleftrightarrow> drop_bit k x = 0"
proof
  assume zero: "x AND NOT (mask k) = 0"
  have "\<not> bit (x AND NOT (mask k)) (k + n)" for n by (simp add: zero)
  then have "\<not> bit x (k + n)" for n by (auto simp: bit_simps dest: bit_imp_le_length)
  then show "drop_bit k x = 0" by (intro bit_eqI) (simp add: bit_drop_bit_eq)
next
  assume zero: "drop_bit k x = 0"
  have "\<not> bit (drop_bit k x) (n - k)" for n by (simp add: zero)
  then have "bit x n \<Longrightarrow> n < k" for n by (metis bit_drop_bit_eq comp_apply le_add_diff_inverse not_le)
  then show "x AND NOT (mask k) = 0" by (intro bit_eqI) (auto simp: bit_simps)
qed

lemma mask_dvd:
  fixes a :: "'a::len word"
  assumes "a AND NOT (mask k) = a"
  shows "2 ^ k dvd unat a"
proof -
  have "take_bit k a = 0" using assms by (metis and.assoc bit.conj_cancel_left bit.conj_zero_right take_bit_eq_mask)
  then have "take_bit k (unat a) = 0" by (metis unat_0 unsigned_take_bit_eq)
  then show ?thesis by (simp add: take_bit_eq_mod mod_0_imp_dvd)
qed

lemma Prefix_Contains_block:
  assumes "Zone a = []" "a \<noteq> AddrZero"
  shows "Prefix_Contains p a \<longleftrightarrow> BitLen (pn_addr p) = BitLen a \<and> addr_value a \<in> block (BitLen a) (net_block p)"
proof (cases a)
  case (Addr4 x)
  show ?thesis
    using unsigned_less [of x, where ?'a = nat]
    by (cases "pn_addr p") (auto simp: Addr4 Prefix_Contains_def net_block_def block_def drop_bit_zero_iff)
next
  case (Addr6 x z)
  show ?thesis
    using unsigned_less [of x, where ?'a = nat] assms(1)
    by (cases "pn_addr p") (auto simp: Addr6 Prefix_Contains_def net_block_def block_def drop_bit_zero_iff high_bits_zero_iff)
qed (use assms in simp)

lemma Masked_iff: "Masked p = p \<longleftrightarrow> mask_addr (pn_bits p) (pn_addr p) = pn_addr p"
  by (cases p) (simp add: Masked_def)

lemma net_block_ok: "net_ok p \<Longrightarrow> block_ok (BitLen (pn_addr p)) (net_block p)"
proof (cases "pn_addr p")
  case (Addr4 a)
  assume "net_ok p"
  then have "a AND NOT (mask (32 - pn_bits p)) = a" "pn_bits p \<le> 32" by (auto simp: net_ok_def Masked_iff Addr4)
  then show ?thesis using mask_dvd unsigned_less [of a, where ?'a = nat] by (simp add: net_block_def block_ok_def Addr4)
next
  case (Addr6 a z)
  assume "net_ok p"
  then have "a AND NOT (mask (128 - pn_bits p)) = a" "pn_bits p \<le> 128" by (auto simp: net_ok_def Masked_iff Addr6)
  then show ?thesis using mask_dvd unsigned_less [of a, where ?'a = nat] by (simp add: net_block_def block_ok_def Addr6)
qed (simp add: net_ok_def canonical_addr_def)

lemma net_block_inj: "net_ok p \<Longrightarrow> net_ok q \<Longrightarrow> BitLen (pn_addr p) = BitLen (pn_addr q) \<Longrightarrow> net_block p = net_block q \<Longrightarrow> p = q"
  by (cases p; cases q; cases "pn_addr p"; cases "pn_addr q")
    (auto simp: net_ok_def canonical_addr_def net_block_def intro: unsigned_word_eqI)

definition family :: "prefix_net list \<Rightarrow> nat \<Rightarrow> prefix_net set" where
  "family l w = {p \<in> set l. BitLen (pn_addr p) = w}"

lemma nested_iff:
  assumes "list_ok l" "p \<in> family l w"
  shows "nested l p \<longleftrightarrow> (\<exists>c \<in> net_block ` family l w. fst c < fst (net_block p) \<and> snd (net_block p) \<in> block w c)"
proof -
  have "Zone (pn_addr p) = []" "pn_addr p \<noteq> AddrZero" "BitLen (pn_addr p) = w"
    using assms by (auto simp: family_def list_ok_def list_all_iff net_ok_def canonical_addr_def)
  then show ?thesis using Prefix_Contains_block [of "pn_addr p"]
    by (auto simp: nested_def list_ex_iff family_def net_block_def)
qed

lemma covered_count:
  assumes ok: "list_ok l"
  shows "covered l w = (\<Sum>b \<in> top_blocks w (net_block ` family l w). 2 ^ (w - fst b))"
proof -
  let ?T = "{p \<in> family l w. \<not> nested l p}"
  have one: "push_bit n (Suc 0) = 2 ^ n" "push_bit n (1::nat) = 2 ^ n" for n by (simp_all add: push_bit_eq_mult)
  have inj: "inj_on net_block (family l w)"
    using ok net_block_inj by (intro inj_onI) (auto simp: family_def list_ok_def list_all_iff)
  have top: "top_blocks w (net_block ` family l w) = net_block ` ?T"
    unfolding top_blocks_def using nested_iff [OF ok] by auto
  have "covered l w = (\<Sum>p \<in> set l. if BitLen (pn_addr p) \<noteq> w then 0 else if nested l p then 0 else push_bit (w - pn_bits p) 1)"
    using ok by (simp add: covered_def sum_list_distinct_conv_sum_set list_ok_def)
  also have "\<dots> = (\<Sum>p \<in> ?T. push_bit (w - pn_bits p) 1)"
    by (rule sum.mono_neutral_cong_right) (auto simp: family_def)
  also have "\<dots> = (\<Sum>b \<in> net_block ` ?T. 2 ^ (w - fst b))"
    unfolding one by (subst sum.reindex) (auto intro: inj_on_subset [OF inj] simp: net_block_def)
  finally show ?thesis by (simp add: top)
qed

lemma covered_iff:
  assumes ok: "list_ok l"
  shows "bit_length (covered l w) > w \<longleftrightarrow> (\<forall>x < 2 ^ w. \<exists>p \<in> family l w. x \<in> block w (net_block p))"
proof -
  have "\<And>b. b \<in> net_block ` family l w \<Longrightarrow> block_ok w b"
    using ok net_block_ok by (auto simp: family_def list_ok_def list_all_iff)
  from counting_covers [OF _ this] show ?thesis
    unfolding bit_length_iff covered_count [OF ok] by (simp add: family_def)
qed

lemma all_words: "(\<forall>x < 2 ^ LENGTH('a). P x) \<longleftrightarrow> (\<forall>a :: 'a::len word. P (unat a))"
proof
  assume "\<forall>a :: 'a word. P (unat a)"
  then have "P (unat (of_nat x :: 'a word))" for x by blast
  then show "\<forall>x < 2 ^ LENGTH('a). P x" unfolding unat_of_nat by (metis mod_less)
qed (use unsigned_less [where ?'a = nat] in blast)

text \<open>C30: \<open>HasCatchAll\<close> counts addresses without enumerating them, and the count is right: it reports a list
  exactly when the networks of one family together contain every address of that family, whatever
  their number, order and nesting.\<close>

theorem catch_all_exact:
  assumes "Parse es = Inr l"
  shows "HasCatchAll l \<longleftrightarrow> (\<forall>a. list_ex (\<lambda>p. Prefix_Contains p (Addr4 a)) l) \<or> (\<forall>a. list_ex (\<lambda>p. Prefix_Contains p (Addr6 a [])) l)"
proof -
  have ok: "list_ok l" using Parse_ok [OF assms] .
  have "(\<forall>x < 2 ^ 32. \<exists>p \<in> family l 32. x \<in> block 32 (net_block p)) \<longleftrightarrow> (\<forall>a. list_ex (\<lambda>p. Prefix_Contains p (Addr4 a)) l)"
    using all_words [where ?'a = 32] by (auto simp: list_ex_iff Prefix_Contains_block family_def)
  moreover have "(\<forall>x < 2 ^ 128. \<exists>p \<in> family l 128. x \<in> block 128 (net_block p))
      \<longleftrightarrow> (\<forall>a. list_ex (\<lambda>p. Prefix_Contains p (Addr6 a [])) l)"
    using all_words [where ?'a = 128] by (auto simp: list_ex_iff Prefix_Contains_block family_def)
  ultimately show ?thesis unfolding HasCatchAll_def using covered_iff [OF ok] by simp
qed

section \<open>Witnesses\<close>

definition half_nets :: "prefix_net list" where
  "half_nets = [\<lparr> pn_addr = Addr4 0, pn_bits = 1 \<rparr>, \<lparr> pn_addr = Addr4 0x80000000, pn_bits = 1 \<rparr>]"

lemma half_nets_ok: "list_ok half_nets"
proof -
  have "(0x80000000 :: 32 word) AND NOT (mask 31) = 0x80000000" by (simp add: mask_eq_exp_minus_1)
  then show ?thesis
    by (simp add: half_nets_def list_ok_def net_ok_def canonical_addr_def Masked_def MaxRanges_def)
qed

lemma half_nets_catch_all: "HasCatchAll half_nets"
proof -
  have "\<not> nested half_nets p" if "pn_bits p = 1" "p \<in> set half_nets" for p
    using that by (auto simp: nested_def list_ex_iff half_nets_def)
  then have "covered half_nets 32 = 2 ^ 31 + 2 ^ 31"
    by (simp add: covered_def) (simp add: half_nets_def push_bit_eq_mult)
  then show ?thesis by (simp add: HasCatchAll_def bit_length_iff)
qed

theorem allowlist_reads_back_witness: "Parse (Entries half_nets) = Inr half_nets \<and> list_all net_ok half_nets"
  using allowlist_reads_back [OF Parse_Entries [OF half_nets_ok]] by blast

theorem catch_all_exact_witness: "list_ex (\<lambda>p. Prefix_Contains p (Addr4 0x7F000001)) half_nets"
proof -
  have "\<not> list_ex (\<lambda>p. Prefix_Contains p (Addr6 0 [])) half_nets" by (simp add: half_nets_def Prefix_Contains_def)
  then show ?thesis using catch_all_exact [OF Parse_Entries [OF half_nets_ok]] half_nets_catch_all by blast
qed

end
