(* ===== verification/Ip_Allowlist_Store.thy ===== *)
theory Ip_Allowlist_Store
  imports Ip_Allowlist
begin

text \<open>
  The file that keeps the allowlist (\<open>src/internal/ipallowlist/store.go\<close>): the store of a running Server
  and the server-local command \<open>Clear\<close>, which is another process.

  The file is its length in bytes and what decoding its JSON gives; a file that is no JSON, has unknown fields or
  trailing data is \<open>FileUndecodable\<close>.  Opening and reading may fail (\<open>FileUnreadable\<close>).  A write replaces
  the file at once or fails before the rename.  Within the Server the mutex makes one operation at a
  time; between processes nothing does, so \<open>Replace\<close> and \<open>Clear\<close> are split between their read and their
  write.  Revisions count saves; they are integers here, and the steps below are those of saves before the revision leaves
  the 64 bits of the source.
\<close>

section \<open>The file\<close>

record al_snapshot =
  as_Revision :: int
  as_List :: "prefix_net list"
  as_UpdatedAt :: "go_time option"

definition never_saved :: al_snapshot where
  "never_saved = \<lparr> as_Revision = 0, as_List = [], as_UpdatedAt = None \<rparr>"

definition Snapshot_same :: "al_snapshot \<Rightarrow> al_snapshot \<Rightarrow> bool" where
  "Snapshot_same s t \<longleftrightarrow> as_Revision s = as_Revision t \<and> as_List s = as_List t"

definition fileSchema :: string where
  "fileSchema = ''vibermate-server-ip-allowlist-v1''"

text \<open>\<open>UpdatedAt\<close> is the time its text stands for, \<open>None\<close> when it is no RFC 3339 time.\<close>

record stored_file =
  sf_Schema :: string
  sf_Revision :: int
  sf_UpdatedAt :: "go_time option"
  sf_Ranges :: "string list option"

datatype file_state = FileMissing | FileUnreadable | FileUndecodable | FileStored nat stored_file

datatype store_error = ErrConflict | ErrStoredListInvalid | ErrStoreIO

definition maxFileBytes :: nat where
  "maxFileBytes = 65536"

definition readSnapshot :: "file_state \<Rightarrow> store_error + al_snapshot" where
  "readSnapshot f =
     (case f of
        FileMissing \<Rightarrow> Inr never_saved
      | FileUnreadable \<Rightarrow> Inl ErrStoreIO
      | FileUndecodable \<Rightarrow> Inl ErrStoredListInvalid
      | FileStored bytes s \<Rightarrow>
          if maxFileBytes < bytes then Inl ErrStoredListInvalid
          else if sf_Schema s \<noteq> fileSchema \<or> sf_Revision s < 1 \<or> sf_Ranges s = None then Inl ErrStoredListInvalid
          else (case sf_UpdatedAt s of
              None \<Rightarrow> Inl ErrStoredListInvalid
            | Some t \<Rightarrow>
                (case Parse (the (sf_Ranges s)) of
                   Inl e \<Rightarrow> Inl ErrStoredListInvalid
                 | Inr l \<Rightarrow> Inr \<lparr> as_Revision = sf_Revision s, as_List = l, as_UpdatedAt = Some t \<rparr>)))"

text \<open>\<open>Truncate (time.Second)\<close>, and the times whose RFC 3339 text is read back: those of a four-digit year.\<close>

definition in_seconds :: "go_time \<Rightarrow> go_time" where
  "in_seconds t = t div 1000000000 * 1000000000"

definition four_digit_year :: "go_time \<Rightarrow> bool" where
  "four_digit_year t \<longleftrightarrow> - 62167219200 * 1000000000 \<le> t \<and> t < 253402300800 * 1000000000"

definition written :: "al_snapshot \<Rightarrow> stored_file" where
  "written s = \<lparr> sf_Schema = fileSchema, sf_Revision = as_Revision s,
     sf_UpdatedAt = (case as_UpdatedAt s of None \<Rightarrow> None | Some t \<Rightarrow> if four_digit_year t then Some t else None),
     sf_Ranges = Some (Entries (as_List s)) \<rparr>"

text \<open>The text of the file (\<open>json.MarshalIndent\<close>): none of its strings has a character that JSON escapes.  \<open>rfc3339\<close>: the
  text of a time of a four-digit year, in UTC, by the days of the Gregorian calendar.\<close>

definition two_digits :: "int \<Rightarrow> string" where
  "two_digits n = [byte_char (48 + nat (n div 10 mod 10)), byte_char (48 + nat (n mod 10))]"

definition civil_date :: "int \<Rightarrow> int \<times> int \<times> int" where
  "civil_date days =
     (let z = days + 719468; era = z div 146097; doe = z mod 146097;
          yoe = (doe - doe div 1460 + doe div 36524 - doe div 146096) div 365;
          doy = doe - (365 * yoe + yoe div 4 - yoe div 100); mp = (5 * doy + 2) div 153;
          d = doy - (153 * mp + 2) div 5 + 1; m = (if mp < 10 then mp + 3 else mp - 9)
      in (yoe + era * 400 + (if m \<le> 2 then 1 else 0), m, d))"

definition rfc3339 :: "go_time \<Rightarrow> string" where
  "rfc3339 t =
     (let secs = t div 1000000000; s = secs mod 86400 in
      case civil_date (secs div 86400) of (year, month, day) \<Rightarrow>
        two_digits (year div 100) @ two_digits year @ ''-'' @ two_digits month @ ''-'' @ two_digits day @ ''T''
        @ two_digits (s div 3600) @ '':'' @ two_digits (s div 60 mod 60) @ '':'' @ two_digits (s mod 60) @ ''Z'')"

definition quoted :: "string \<Rightarrow> string" where
  "quoted v = CHR 0x22 # v @ [CHR 0x22]"

definition marshal :: "al_snapshot \<Rightarrow> string" where
  "marshal s =
     (let nl = [CHR 0x0A]; es = Entries (as_List s) in
      ''{'' @ nl @ ''  '' @ quoted ''schema'' @ '': '' @ quoted fileSchema @ '','' @ nl
      @ ''  '' @ quoted ''revision'' @ '': '' @ decimal (nat (as_Revision s)) @ '','' @ nl
      @ ''  '' @ quoted ''updatedAt'' @ '': '' @ quoted (case as_UpdatedAt s of None \<Rightarrow> [] | Some t \<Rightarrow> rfc3339 t) @ '','' @ nl
      @ ''  '' @ quoted ''ranges'' @ '': ''
      @ (if es = [] then ''[]'' else ''['' @ nl @ join ('','' @ nl) (map (\<lambda>e. ''    '' @ quoted e) es) @ nl @ ''  ]'') @ nl @ ''}'')"

definition stored :: "al_snapshot \<Rightarrow> file_state" where
  "stored s = FileStored (length (marshal s) + 1) (written s)"

definition writeSnapshot :: "bool \<Rightarrow> al_snapshot \<Rightarrow> file_state \<Rightarrow> file_state \<times> store_error option" where
  "writeSnapshot io s f = (if io then (stored s, None) else (f, Some ErrStoreIO))"

section \<open>The operations\<close>

definition next_snapshot :: "go_time \<Rightarrow> prefix_net list \<Rightarrow> al_snapshot \<Rightarrow> al_snapshot" where
  "next_snapshot now l s = \<lparr> as_Revision = as_Revision s + 1, as_List = l, as_UpdatedAt = Some (in_seconds now) \<rparr>"

definition Store_Open :: "file_state \<Rightarrow> store_error + al_snapshot" where
  "Store_Open f = readSnapshot f"

definition Replace_read :: "int \<Rightarrow> prefix_net list \<Rightarrow> go_time \<Rightarrow> file_state \<Rightarrow> al_snapshot \<Rightarrow> al_snapshot \<times> (store_error + al_snapshot)" where
  "Replace_read expected l now f current =
     (case readSnapshot f of
        Inl e \<Rightarrow> (current, Inl e)
      | Inr onDisk \<Rightarrow>
          (onDisk, if expected \<noteq> as_Revision onDisk then Inl ErrConflict else Inr (next_snapshot now l onDisk)))"

definition Replace_write :: "bool \<Rightarrow> al_snapshot \<Rightarrow> file_state \<Rightarrow> al_snapshot \<Rightarrow> file_state \<times> al_snapshot \<times> (store_error + al_snapshot)" where
  "Replace_write io new f current =
     (case writeSnapshot io new f of
        (f', Some e) \<Rightarrow> (f', current, Inl e)
      | (f', None) \<Rightarrow> (f', new, Inr new))"

definition Store_Replace ::
  "bool \<Rightarrow> go_time \<Rightarrow> int \<Rightarrow> prefix_net list \<Rightarrow> file_state \<Rightarrow> al_snapshot \<Rightarrow> file_state \<times> al_snapshot \<times> (store_error + al_snapshot)" where
  "Store_Replace io now expected l f current =
     (case Replace_read expected l now f current of
        (current', Inl e) \<Rightarrow> (f, current', Inl e)
      | (current', Inr new) \<Rightarrow> Replace_write io new f current')"

definition Store_Reload :: "file_state \<Rightarrow> al_snapshot \<Rightarrow> al_snapshot \<times> (store_error option \<times> bool)" where
  "Store_Reload f current =
     (case readSnapshot f of
        Inl e \<Rightarrow> (current, (Some e, False))
      | Inr onDisk \<Rightarrow> (onDisk, (None, \<not> Snapshot_same onDisk current)))"

definition Clear_read :: "go_time \<Rightarrow> file_state \<Rightarrow> al_snapshot" where
  "Clear_read now f = next_snapshot now [] (case readSnapshot f of Inl e \<Rightarrow> never_saved | Inr s \<Rightarrow> s)"

section \<open>Sequences of operations\<close>

text \<open>\<open>aw_replace\<close>: the \<open>Replace\<close> that has read and not yet written; \<open>aw_clears\<close>: the \<open>Clear\<close> commands that have.\<close>

record al_world =
  aw_file :: file_state
  aw_current :: al_snapshot
  aw_replace :: "al_snapshot option"
  aw_clears :: "al_snapshot list"

inductive al_step :: "al_world \<Rightarrow> al_world \<Rightarrow> bool" where
  replace_refused: "aw_replace w = None \<Longrightarrow> Replace_read expected l now (aw_file w) (aw_current w) = (current, Inl e) \<Longrightarrow>
    al_step w (w\<lparr>aw_current := current\<rparr>)"
| replace_reads: "aw_replace w = None \<Longrightarrow> Parse es = Inr l \<Longrightarrow> four_digit_year (in_seconds now) \<Longrightarrow>
    Replace_read expected l now (aw_file w) (aw_current w) = (current, Inr new) \<Longrightarrow> as_Revision new \<le> maxInt64 \<Longrightarrow>
    al_step w (w\<lparr>aw_current := current, aw_replace := Some new\<rparr>)"
| replace_writes: "aw_replace w = Some new \<Longrightarrow> Replace_write io new (aw_file w) (aw_current w) = (f, current, res) \<Longrightarrow>
    al_step w (w\<lparr>aw_file := f, aw_current := current, aw_replace := None\<rparr>)"
| reload: "aw_replace w = None \<Longrightarrow> al_step w (w\<lparr>aw_current := fst (Store_Reload (aw_file w) (aw_current w))\<rparr>)"
| clear_reads: "four_digit_year (in_seconds now) \<Longrightarrow> as_Revision (Clear_read now (aw_file w)) \<le> maxInt64 \<Longrightarrow> al_step w (w\<lparr>aw_clears := aw_clears w @ [Clear_read now (aw_file w)]\<rparr>)"
| clear_writes: "i < length (aw_clears w) \<Longrightarrow> writeSnapshot io (aw_clears w ! i) (aw_file w) = (f, e) \<Longrightarrow>
    al_step w (w\<lparr>aw_file := f, aw_clears := take i (aw_clears w) @ drop (Suc i) (aw_clears w)\<rparr>)"

definition al_start :: "file_state \<Rightarrow> al_snapshot \<Rightarrow> al_world" where
  "al_start f s = \<lparr> aw_file = f, aw_current = s, aw_replace = None, aw_clears = [] \<rparr>"

definition snapshot_ok :: "al_snapshot \<Rightarrow> bool" where
  "snapshot_ok s \<longleftrightarrow> list_ok (as_List s) \<and> 1 \<le> as_Revision s \<and> as_Revision s \<le> maxInt64
     \<and> (case as_UpdatedAt s of None \<Rightarrow> False | Some t \<Rightarrow> four_digit_year t)"

text \<open>What is written can be read: it is within the limit.\<close>

lemma length_join_le: "list_all (\<lambda>x. length x \<le> k) xs \<Longrightarrow> length (join s xs) \<le> length xs * (k + length s)"
proof (induction xs)
  case (Cons x xs)
  then show ?case by (cases xs) auto
qed simp

lemma entry_length: "net_ok p \<Longrightarrow> length (format_net p) \<le> 43"
proof -
  assume ok: "net_ok p"
  then have a: "length (Addr_String (pn_addr p)) \<le> 39" using Addr_String_text(1) by (simp add: net_ok_def)
  have "pn_bits p < 10 ^ Suc 2" using ok by (cases "pn_addr p") (auto simp: net_ok_def)
  then have "length (decimal (pn_bits p)) \<le> Suc 2" by (rule decimal_length)
  then show ?thesis using a by (simp add: format_net_def Prefix_String_def)
qed

lemma marshal_length:
  assumes "snapshot_ok s"
  shows "length (marshal s) + 1 \<le> maxFileBytes"
proof -
  have ok: "list_all net_ok (as_List s)" "length (as_List s) \<le> 256" "nat (as_Revision s) < 10 ^ Suc 18"
    using assms by (auto simp: snapshot_ok_def list_ok_def MaxRanges_def maxInt64_def)
  have "length (decimal (nat (as_Revision s))) \<le> Suc 18" by (rule decimal_length [OF ok(3)])
  moreover have "length (join ('','' @ [CHR 0x0A]) (map (\<lambda>e. ''    '' @ quoted e) (Entries (as_List s))))
      \<le> length (map (\<lambda>e. ''    '' @ quoted e) (Entries (as_List s))) * (49 + length ('','' @ [CHR 0x0A :: char]))"
    using ok(1) entry_length by (intro length_join_le) (auto simp: list_all_iff Entries_def quoted_def)
  moreover have "length (case as_UpdatedAt s of None \<Rightarrow> [] | Some t \<Rightarrow> rfc3339 t) \<le> 20"
    by (auto simp: rfc3339_def two_digits_def Let_def split: option.split prod.split)
  ultimately show ?thesis
    using ok(2) by (simp add: marshal_def Let_def quoted_def fileSchema_def maxFileBytes_def Entries_def)
qed

lemma read_written: "snapshot_ok s \<Longrightarrow> readSnapshot (stored s) = Inr s"
  using Parse_Entries [of "as_List s"] marshal_length [of s]
  by (cases s) (auto simp: snapshot_ok_def readSnapshot_def stored_def written_def split: option.splits)

lemma readSnapshot_ok: "readSnapshot f = Inr s \<Longrightarrow> s = never_saved \<and> f = FileMissing \<or> list_ok (as_List s) \<and> 1 \<le> as_Revision s"
  using Parse_ok by (auto simp: readSnapshot_def split: file_state.splits if_splits option.splits sum.splits)

lemma next_snapshot_ok:
  "list_ok l \<Longrightarrow> four_digit_year (in_seconds now) \<Longrightarrow> readSnapshot f = Inr s \<Longrightarrow> as_Revision s < maxInt64 \<Longrightarrow> snapshot_ok (next_snapshot now l s)"
  using readSnapshot_ok [of f s] by (auto simp: snapshot_ok_def next_snapshot_def never_saved_def)

lemma empty_list_ok: "list_ok []"
  by (simp add: list_ok_def)

lemma Clear_read_ok: "four_digit_year (in_seconds now) \<Longrightarrow> as_Revision (Clear_read now f) \<le> maxInt64 \<Longrightarrow> snapshot_ok (Clear_read now f)"
  using next_snapshot_ok [OF empty_list_ok, of now f] next_snapshot_ok [OF empty_list_ok, of now FileMissing never_saved]
  by (cases "readSnapshot f") (auto simp: Clear_read_def readSnapshot_def [of FileMissing] next_snapshot_def never_saved_def)

section \<open>What the store guarantees\<close>

definition al_inv :: "al_world \<Rightarrow> bool" where
  "al_inv w \<longleftrightarrow> (\<exists>s. readSnapshot (aw_file w) = Inr s)
     \<and> (case aw_replace w of None \<Rightarrow> True | Some s \<Rightarrow> snapshot_ok s) \<and> list_all snapshot_ok (aw_clears w)"

lemma writeSnapshot_readable:
  "\<exists>s. readSnapshot f = Inr s \<Longrightarrow> snapshot_ok new \<Longrightarrow> writeSnapshot io new f = (f', e) \<Longrightarrow> \<exists>s. readSnapshot f' = Inr s"
  using read_written by (auto simp: writeSnapshot_def split: if_splits)

lemma al_step_inv: "al_step w w' \<Longrightarrow> al_inv w \<Longrightarrow> al_inv w'"
proof (induction rule: al_step.induct)
  case (replace_reads w es l now expected current new)
  then obtain old where old: "readSnapshot (aw_file w) = Inr old" "new = next_snapshot now l old"
    by (auto simp: Replace_read_def split: sum.splits if_splits)
  then have "snapshot_ok new" using next_snapshot_ok [OF Parse_ok] replace_reads.hyps by (simp add: next_snapshot_def)
  then show ?case using replace_reads.prems by (simp add: al_inv_def)
next
  case (replace_writes w new io f current res)
  obtain e where e: "writeSnapshot io new (aw_file w) = (f, e)"
    using replace_writes.hyps(2) by (auto simp: Replace_write_def split: prod.splits option.splits)
  have "\<exists>s. readSnapshot f = Inr s"
    using replace_writes.prems replace_writes.hyps(1) by (intro writeSnapshot_readable [OF _ _ e]) (auto simp: al_inv_def)
  then show ?case using replace_writes.prems by (simp add: al_inv_def)
next
  case (clear_reads now w)
  then show ?case using Clear_read_ok by (simp add: al_inv_def)
next
  case (clear_writes i w io f e)
  have "list_all snapshot_ok (take i (aw_clears w) @ drop (Suc i) (aw_clears w))"
    using clear_writes.prems by (auto simp: al_inv_def list_all_iff dest: in_set_takeD in_set_dropD)
  moreover have "\<exists>s. readSnapshot f = Inr s"
    using clear_writes.prems clear_writes.hyps(1) by (intro writeSnapshot_readable [OF _ _ clear_writes.hyps(2)]) (auto simp: al_inv_def list_all_iff)
  ultimately show ?case using clear_writes.prems by (simp add: al_inv_def)
qed (auto simp: al_inv_def)

text \<open>C31: Once the file can be read it stays readable.  Whatever sequence of saves, reloads and \<open>Clear\<close>
  commands follows, as long as revisions stay in 64 bits and the clock in four-digit years, with failed writes and commands of another process between the read and the
  write of a save, a restarted Server opens the file and finds a valid list within its bounds; in particular no
  list that can be saved makes a file longer than the limit for reading.\<close>

theorem allowlist_file_stays_readable:
  assumes "readSnapshot f = Inr s0" and "al_step\<^sup>*\<^sup>* (al_start f s0) w"
  shows "\<exists>s. Store_Open (aw_file w) = Inr s \<and> list_ok (as_List s) \<and> (s = never_saved \<or> 1 \<le> as_Revision s)"
proof -
  have "al_inv (al_start f s0)" using assms(1) by (simp add: al_inv_def al_start_def)
  with assms(2) have "al_inv w" by (induction rule: rtranclp_induct) (auto intro: al_step_inv)
  then obtain s where s: "readSnapshot (aw_file w) = Inr s" by (auto simp: al_inv_def)
  then show ?thesis using readSnapshot_ok [OF s] empty_list_ok by (auto simp: Store_Open_def never_saved_def)
qed

text \<open>Two sessions cannot silently overwrite each other.  A save succeeds only on the revision it was
  based on; what it saved is what the file then holds and a restart reads; a second save based on the
  same revision is refused, changes nothing, and leaves the first list in force.  A save that fails
  leaves the file alone.\<close>

theorem saves_do_not_overwrite:
  assumes "Parse es = Inr l" and "four_digit_year (in_seconds now)" and "expected < maxInt64"
    and "Store_Replace io now expected l f current = (f', current', res)"
  shows "(case res of
      Inl e \<Rightarrow> f' = f
    | Inr s \<Rightarrow> (\<exists>old. readSnapshot f = Inr old \<and> as_Revision old = expected) \<and> as_List s = l \<and> as_Revision s = expected + 1
        \<and> current' = s \<and> Store_Open f' = Inr s
        \<and> Store_Replace io' now' expected l' f' current' = (f', current', Inl ErrConflict))"
proof (cases res)
  case (Inl e)
  then show ?thesis using assms(4)
    by (auto simp: Store_Replace_def Replace_write_def writeSnapshot_def split: prod.splits sum.splits if_splits)
next
  case (Inr s)
  obtain old where old: "readSnapshot f = Inr old"
    using assms(4) Inr by (cases "readSnapshot f") (auto simp: Store_Replace_def Replace_read_def)
  have rev: "as_Revision old = expected"
  proof (rule ccontr)
    assume "as_Revision old \<noteq> expected"
    then show False using assms(4) Inr old by (auto simp: Store_Replace_def Replace_read_def)
  qed
  have call: "Store_Replace io now expected l f current = Replace_write io (next_snapshot now l old) f old"
    by (simp add: Store_Replace_def Replace_read_def old rev)
  have s: "s = next_snapshot now l old" and f': "f' = stored s" "current' = s"
    using assms(4) Inr unfolding call by (cases io; simp add: Replace_write_def writeSnapshot_def)+
  have "readSnapshot f' = Inr s"
    unfolding f' s by (intro read_written next_snapshot_ok [OF Parse_ok [OF assms(1)] assms(2) old]) (simp add: rev assms(3))
  then show ?thesis
    using Inr old rev f'(2) s
    by (simp add: Store_Open_def Store_Replace_def Replace_read_def next_snapshot_def)
qed

text \<open>The revision check does not reach across processes: a save that has read the file before a complete
  \<open>Clear\<close> and writes after it replaces the cleared list by its own, under the same revision.\<close>

theorem clear_can_be_overwritten:
  assumes "readSnapshot f = Inr s" and "Parse es = Inr l" and "four_digit_year (in_seconds now)" and "as_Revision s < maxInt64"
  shows "\<exists>w1 w2 cleared saved. al_step\<^sup>*\<^sup>* (al_start f s) w1 \<and> aw_clears w1 = [] \<and> readSnapshot (aw_file w1) = Inr cleared
    \<and> as_List cleared = [] \<and> al_step w1 w2 \<and> readSnapshot (aw_file w2) = Inr saved \<and> as_List saved = l
    \<and> as_Revision saved = as_Revision cleared"
proof -
  let ?new = "next_snapshot now l s" and ?cleared = "next_snapshot now [] s"
  let ?a = "(al_start f s)\<lparr>aw_replace := Some ?new\<rparr>"
  let ?b = "?a\<lparr>aw_clears := [?cleared]\<rparr>"
  let ?c = "?a\<lparr>aw_file := stored ?cleared\<rparr>"
  let ?d = "?c\<lparr>aw_file := stored ?new, aw_current := ?new, aw_replace := None\<rparr>"
  have "Replace_read (as_Revision s) l now f s = (s, Inr ?new)" using assms(1) by (simp add: Replace_read_def)
  then have ab: "al_step (al_start f s) ?a"
    using al_step.replace_reads [of "al_start f s" es l now "as_Revision s" s ?new] assms(2-4) by (simp add: al_start_def next_snapshot_def)
  have "Clear_read now f = ?cleared" using assms(1) by (simp add: Clear_read_def)
  then have bc: "al_step ?a ?b" using al_step.clear_reads [OF assms(3), of ?a] assms(4) by (simp add: al_start_def next_snapshot_def)
  have cd: "al_step ?b ?c"
    using al_step.clear_writes [of 0 ?b True "stored ?cleared" None] by (simp add: al_start_def writeSnapshot_def)
  have de: "al_step ?c ?d"
    using al_step.replace_writes [of ?c ?new True "stored ?new" ?new "Inr ?new"]
    by (simp add: al_start_def Replace_write_def writeSnapshot_def)
  have "readSnapshot (aw_file ?c) = Inr ?cleared" "readSnapshot (aw_file ?d) = Inr ?new"
    using read_written [OF next_snapshot_ok [OF empty_list_ok assms(3,1,4)]]
      read_written [OF next_snapshot_ok [OF Parse_ok [OF assms(2)] assms(3,1,4)]] by simp_all
  moreover have "al_step\<^sup>*\<^sup>* (al_start f s) ?c" 
    by (rule rtranclp.rtrancl_into_rtrancl [OF rtranclp.rtrancl_into_rtrancl [OF r_into_rtranclp [where r = al_step, OF ab] bc] cd])
  ultimately show ?thesis using de by (intro exI [of _ ?c] exI [of _ ?d] exI [of _ ?cleared] exI [of _ ?new]) (simp add: next_snapshot_def al_start_def)
qed

section \<open>Witnesses\<close>

lemma nothing_saved: "readSnapshot FileMissing = Inr never_saved" "four_digit_year (in_seconds 0)"
  by (simp_all add: readSnapshot_def four_digit_year_def in_seconds_def)

lemmas half_nets_parse = Parse_Entries [OF half_nets_ok]

text \<open>A save, a reload, a \<open>Clear\<close> that is overtaken by a second save whose write fails, and its own write.\<close>

theorem allowlist_file_stays_readable_witness:
  "\<exists>w s. al_step\<^sup>*\<^sup>* (al_start FileMissing never_saved) w \<and> Store_Open (aw_file w) = Inr s \<and> as_Revision s = 2 \<and> list_ok (as_List s)"
proof -
  let ?s1 = "next_snapshot 0 half_nets never_saved" and ?w0 = "al_start FileMissing never_saved"
  let ?s2 = "next_snapshot 0 [] ?s1"
  let ?w1 = "?w0\<lparr>aw_replace := Some ?s1\<rparr>" let ?w2 = "?w0\<lparr>aw_file := stored ?s1, aw_current := ?s1\<rparr>"
  let ?w3 = "?w2\<lparr>aw_clears := [?s2]\<rparr>" let ?w4 = "?w3\<lparr>aw_replace := Some ?s2\<rparr>" let ?w5 = "?w2\<lparr>aw_file := stored ?s2\<rparr>"
  have rev: "as_Revision ?s1 = 1" "as_Revision ?s2 = 2" "(2 :: int) \<le> maxInt64"
    by (simp_all add: next_snapshot_def never_saved_def maxInt64_def)
  have read: "readSnapshot (stored ?s1) = Inr ?s1"
    using rev by (intro read_written next_snapshot_ok [OF Parse_ok [OF half_nets_parse] nothing_saved(2,1)]) (simp add: never_saved_def maxInt64_def)
  then have read2: "readSnapshot (stored ?s2) = Inr ?s2"
    using rev by (intro read_written next_snapshot_ok [OF empty_list_ok nothing_saved(2)]) auto
  have "al_step ?w0 ?w1"
    using al_step.replace_reads [OF _ half_nets_parse nothing_saved(2), of ?w0 0 never_saved ?s1] rev
    by (simp add: al_start_def Replace_read_def nothing_saved never_saved_def)
  moreover have "al_step ?w1 ?w2"
    using al_step.replace_writes [of ?w1 ?s1 True "stored ?s1" ?s1 "Inr ?s1"] by (simp add: al_start_def Replace_write_def writeSnapshot_def)
  moreover have "al_step ?w2 ?w2" using al_step.reload [of ?w2] by (simp add: al_start_def Store_Reload_def read)
  moreover have "al_step ?w2 ?w3"
    using al_step.clear_reads [OF nothing_saved(2), of ?w2] rev by (simp add: al_start_def Clear_read_def read)
  moreover have "al_step ?w3 ?w4"
    using al_step.replace_reads [of ?w3 "[]" "[]" 0 1 ?s1 ?s2] rev nothing_saved(2)
    by (simp add: al_start_def Replace_read_def read Parse_def)
  moreover have "al_step ?w4 ?w3"
    using al_step.replace_writes [of ?w4 ?s2 False "stored ?s1" ?s1 "Inl ErrStoreIO"] by (simp add: al_start_def Replace_write_def writeSnapshot_def)
  moreover have "al_step ?w3 ?w5" using al_step.clear_writes [of 0 ?w3 True "stored ?s2" None] by (simp add: al_start_def writeSnapshot_def)
  ultimately have steps: "al_step\<^sup>*\<^sup>* ?w0 ?w5" by (metis (no_types, lifting) rtranclp.intros)
  from allowlist_file_stays_readable [OF nothing_saved(1) steps] obtain s where "Store_Open (aw_file ?w5) = Inr s" "list_ok (as_List s)" by blast
  then show ?thesis using steps rev read2 by (intro exI [of _ ?w5] exI [of _ s]) (simp add: Store_Open_def)
qed

theorem saves_do_not_overwrite_witness:
  "Store_Replace True 0 0 [] (stored (next_snapshot 0 half_nets never_saved)) (next_snapshot 0 half_nets never_saved)
   = (stored (next_snapshot 0 half_nets never_saved), next_snapshot 0 half_nets never_saved, Inl ErrConflict)"
proof -
  have "Store_Replace True 0 0 half_nets FileMissing never_saved
    = (stored (next_snapshot 0 half_nets never_saved), next_snapshot 0 half_nets never_saved, Inr (next_snapshot 0 half_nets never_saved))"
    by (simp add: Store_Replace_def Replace_read_def Replace_write_def writeSnapshot_def nothing_saved never_saved_def)
  from saves_do_not_overwrite [OF half_nets_parse nothing_saved(2) _ this, of True 0 "[]"] show ?thesis by (simp add: maxInt64_def)
qed

theorem clear_can_be_overwritten_witness:
  "\<exists>w1 w2 cleared saved. al_step\<^sup>*\<^sup>* (al_start FileMissing never_saved) w1 \<and> readSnapshot (aw_file w1) = Inr cleared
    \<and> as_List cleared = [] \<and> al_step w1 w2 \<and> readSnapshot (aw_file w2) = Inr saved \<and> as_List saved = half_nets"
  using clear_can_be_overwritten [OF nothing_saved(1) half_nets_parse nothing_saved(2)] by (fastforce simp: never_saved_def maxInt64_def)

end
