(* ===== verification/Proxy_Protocol.thy ===== *)
theory Proxy_Protocol
  imports Go_Netip
begin

unbundle bit_operations_syntax

text \<open>
  The PROXY protocol header a load balancer sends ahead of a connection
  (\<open>src/internal/proxyprotocol/proxyprotocol.go\<close>): the textual version 1 and the binary version 2.

  A reader is what is still to come, bytes and the error after the last of them.  \<open>Peek\<close> of at most
  twelve bytes never fills the buffer, so \<open>bufio.ErrBufferFull\<close> does not occur.
\<close>

section \<open>Readers and results\<close>

datatype read_error = ReadEOF | ReadUnexpectedEOF | ReadOther nat

type_synonym pp_reader = "string \<times> read_error"

datatype pp_error = ErrNoHeader | ErrInvalidHeader | ErrInvalidAnd read_error | ErrReader read_error

record pp_header =
  ph_Local :: bool
  ph_Addr :: addr
  ph_Port :: uint16

definition no_source :: pp_header where
  "no_source = \<lparr> ph_Local = False, ph_Addr = AddrZero, ph_Port = 0 \<rparr>"

definition from_source :: "addr \<Rightarrow> uint16 \<Rightarrow> pp_header" where
  "from_source a p = \<lparr> ph_Local = False, ph_Addr = a, ph_Port = p \<rparr>"

definition maxV1Length :: nat where
  "maxV1Length = 107"

definition maxV2AddressBlock :: nat where
  "maxV2AddressBlock = 4096"

definition CRLF :: string where
  "CRLF = map byte_char [13, 10]"

definition v2Signature :: string where
  "v2Signature = map byte_char [13, 10, 13, 10, 0, 13, 10, 81, 85, 73, 84, 10]"

definition Peek :: "nat \<Rightarrow> pp_reader \<Rightarrow> read_error + string" where
  "Peek n r = (case r of (bs, e) \<Rightarrow> if length bs < n then Inl e else Inr (take n bs))"

definition noHeaderOr :: "read_error option \<Rightarrow> pp_error" where
  "noHeaderOr err = (case err of None \<Rightarrow> ErrNoHeader | Some ReadEOF \<Rightarrow> ErrNoHeader | Some e \<Rightarrow> ErrReader e)"

definition invalid :: "read_error \<Rightarrow> pp_error" where
  "invalid e = (if e = ReadEOF \<or> e = ReadUnexpectedEOF then ErrInvalidHeader else ErrInvalidAnd e)"

text \<open>\<open>io.ReadFull\<close>: the end of the input inside the buffer is unexpected.\<close>

definition ReadFull :: "nat \<Rightarrow> pp_reader \<Rightarrow> (read_error + string) \<times> pp_reader" where
  "ReadFull n r = (case r of (bs, e) \<Rightarrow>
     if length bs < n then (Inl (if e = ReadEOF \<and> bs \<noteq> [] then ReadUnexpectedEOF else e), ([], e))
     else (Inr (take n bs), (drop n bs, e)))"

section \<open>Version 1\<close>

fun v1_line :: "string \<Rightarrow> string \<Rightarrow> read_error \<Rightarrow> (pp_error + string) \<times> pp_reader" where
  "v1_line line [] e = (Inl (invalid e), ([], e))"
| "v1_line line (c # s) e =
     (if c = byte_char 10 then (Inr (line @ [c]), (s, e))
      else if Suc (length line) \<ge> maxV1Length then (Inl ErrInvalidHeader, (s, e))
      else v1_line (line @ [c]) s e)"

definition CutSuffix :: "string \<Rightarrow> string \<Rightarrow> string option" where
  "CutSuffix s suf = (if suffix suf s then Some (take (length s - length suf) s) else None)"

definition parsePort :: "string \<Rightarrow> nat option" where
  "parsePort s =
     (if s = [] \<or> length s > 5 \<or> (length s > 1 \<and> hd s = CHR ''0'') then None else ParseUint16 s)"

definition family_matches :: "string \<Rightarrow> addr \<Rightarrow> addr \<Rightarrow> bool" where
  "family_matches f source destination \<longleftrightarrow>
     (if f = ''TCP4'' then Is4 source \<and> Is4 destination
      else if f = ''TCP6'' then Is6 source \<and> Is6 destination else False)"

definition v1_fields :: "string list \<Rightarrow> pp_error + pp_header" where
  "v1_fields fs =
     (if length fs \<ge> 2 \<and> fs ! 0 = ''PROXY'' \<and> fs ! 1 = ''UNKNOWN'' then Inr no_source
      else if length fs \<noteq> 6 \<or> fs ! 0 \<noteq> ''PROXY'' then Inl ErrInvalidHeader
      else (case (ParseAddr (fs ! 2), ParseAddr (fs ! 3)) of
          (Some source, Some destination) \<Rightarrow>
            if Zone source \<noteq> [] \<or> Zone destination \<noteq> [] \<or> \<not> family_matches (fs ! 1) source destination
            then Inl ErrInvalidHeader
            else (case (parsePort (fs ! 4), parsePort (fs ! 5)) of
                (Some port, Some _) \<Rightarrow> Inr (from_source source (of_nat port))
              | _ \<Rightarrow> Inl ErrInvalidHeader)
        | _ \<Rightarrow> Inl ErrInvalidHeader))"

definition readV1 :: "pp_reader \<Rightarrow> (pp_error + pp_header) \<times> pp_reader" where
  "readV1 r =
     (case v1_line [] (fst r) (snd r) of
        (Inl err, r') \<Rightarrow> (Inl err, r')
      | (Inr line, r') \<Rightarrow>
          ((case CutSuffix line CRLF of
              None \<Rightarrow> Inl ErrInvalidHeader
            | Some txt \<Rightarrow> v1_fields (split_char (CHR '' '') txt)), r'))"

section \<open>Version 2\<close>

definition byte_at :: "string \<Rightarrow> nat \<Rightarrow> nat" where
  "byte_at s i = of_char (s ! i)"

definition Uint16_at :: "string \<Rightarrow> nat \<Rightarrow> nat" where
  "Uint16_at s i = 256 * byte_at s i + byte_at s (i + 1)"

definition v2_address :: "nat \<Rightarrow> string \<Rightarrow> pp_error + pp_header" where
  "v2_address fam block =
     (if fam = 0x00 then Inr no_source
      else if fam = 0x11 then
        (if length block < 12 then Inl ErrInvalidHeader
         else Inr (from_source (Addr4 (of_nat (base_value 256 (map (byte_at block) [0..<4])))) (of_nat (Uint16_at block 8))))
      else if fam = 0x21 then
        (if length block < 36 then Inl ErrInvalidHeader
         else Inr (from_source (Addr6 (of_nat (base_value 256 (map (byte_at block) [0..<16]))) []) (of_nat (Uint16_at block 32))))
      else Inl ErrInvalidHeader)"

definition readV2 :: "pp_reader \<Rightarrow> (pp_error + pp_header) \<times> pp_reader" where
  "readV2 r =
     (case ReadFull 16 r of
        (Inl e, r') \<Rightarrow> (Inl (invalid e), r')
      | (Inr fixed, r') \<Rightarrow>
          (let versionCommand = byte_at fixed 12; len = Uint16_at fixed 14 in
           if versionCommand div 16 \<noteq> 2 \<or> len > maxV2AddressBlock then (Inl ErrInvalidHeader, r')
           else (case ReadFull len r' of
               (Inl e, r'') \<Rightarrow> (Inl (invalid e), r'')
             | (Inr block, r'') \<Rightarrow>
                 (if versionCommand mod 16 = 0 then Inr (no_source\<lparr>ph_Local := True\<rparr>)
                  else if versionCommand mod 16 = 1 then v2_address (byte_at fixed 13) block
                  else Inl ErrInvalidHeader, r''))))"

definition pp_Read :: "pp_reader \<Rightarrow> (pp_error + pp_header) \<times> pp_reader" where
  "pp_Read r =
     (case Peek 1 r of
        Inl e \<Rightarrow> (Inl (ErrReader e), r)
      | Inr first \<Rightarrow>
          if hd first = CHR ''P'' then
            (case Peek 6 r of
               Inl e \<Rightarrow> (Inl (noHeaderOr (Some e)), r)
             | Inr p \<Rightarrow> if p \<noteq> ''PROXY '' then (Inl (noHeaderOr None), r) else readV1 r)
          else if hd first = byte_char 13 then
            (case Peek (length v2Signature) r of
               Inl e \<Rightarrow> (Inl (noHeaderOr (Some e)), r)
             | Inr p \<Rightarrow> if p \<noteq> v2Signature then (Inl (noHeaderOr None), r) else readV2 r)
          else (Inl ErrNoHeader, r))"

section \<open>Framing\<close>

text \<open>What a call takes from the connection.\<close>

definition pp_frame :: "string \<Rightarrow> bool" where
  "pp_frame used \<longleftrightarrow>
     (prefix ''PROXY '' used \<and> suffix CRLF used \<and> length used \<le> maxV1Length)
     \<or> (prefix v2Signature used \<and> 16 \<le> length used \<and> length used = 16 + Uint16_at used 14 \<and> Uint16_at used 14 \<le> maxV2AddressBlock)"

lemma v1_line_used:
  "v1_line line s e = (res, (rest, e')) \<Longrightarrow> length line < maxV1Length \<Longrightarrow>
   e' = e \<and> (\<exists>used. s = used @ rest \<and> length line + length used \<le> maxV1Length
     \<and> (\<forall>l. res = Inr l \<longrightarrow> l = line @ used))"
proof (induction line s e rule: v1_line.induct)
  case (2 line c s e)
  consider "c = byte_char 10" | "c \<noteq> byte_char 10" "Suc (length line) \<ge> maxV1Length"
    | "c \<noteq> byte_char 10" "Suc (length line) < maxV1Length" by linarith
  then show ?case
  proof cases
    case 1
    then show ?thesis using 2(2,3) by (auto intro: exI [of _ "[c]"])
  next
    case 2
    then show ?thesis using \<open>v1_line line (c # s) e = _\<close> \<open>length line < maxV1Length\<close> by (auto intro: exI [of _ "[c]"])
  next
    case 3
    then have "v1_line (line @ [c]) s e = (res, (rest, e'))" using 2(2) by simp
    with 2(1) [OF 3(1)] 3(2) obtain used where "e' = e" "s = used @ rest" "Suc (length line + length used) \<le> maxV1Length"
      "\<forall>l. res = Inr l \<longrightarrow> l = line @ c # used" by (auto simp: not_le)
    then show ?thesis by (intro conjI exI [of _ "c # used"]) auto
  qed
qed (auto simp: maxV1Length_def)

lemma ReadFull_used:
  "ReadFull n (bs, e) = (res, (rest, e')) \<Longrightarrow>
   e' = e \<and> (\<exists>used. bs = used @ rest \<and> length used \<le> n \<and> (\<forall>x. res = Inr x \<longrightarrow> x = used \<and> length used = n))"
  by (auto simp: ReadFull_def split: if_splits)


lemma v1_fields_error: "v1_fields fs \<noteq> Inl ErrNoHeader"
  by (simp add: v1_fields_def split: option.splits)

lemma invalid_error [simp]: "invalid e \<noteq> ErrNoHeader"
  by (simp add: invalid_def)

lemma v1_line_error: "v1_line line s e = (Inl err, r) \<Longrightarrow> err \<noteq> ErrNoHeader"
  by (induction line s e rule: v1_line.induct) (auto split: if_splits)

lemma CRLF_not_in_keyword: "prefix ''PROXY '' bs \<Longrightarrow> prefix used bs \<Longrightarrow> suffix CRLF used \<Longrightarrow> prefix ''PROXY '' used"
proof -
  assume *: "prefix ''PROXY '' bs" "prefix used bs" "suffix CRLF used"
  have "byte_char 10 \<in> set used" using *(3) by (auto simp: CRLF_def suffix_def)
  moreover have "byte_char 10 \<notin> set ''PROXY ''" by (simp add: byte_char_eq_iff)
  ultimately have "\<not> prefix used ''PROXY ''" by (meson set_mono_prefix subsetD)
  then show ?thesis using *(1,2) prefix_same_cases by blast
qed

lemma readV1_frame:
  assumes "readV1 (bs, e) = (res, (rest, e'))" and "prefix ''PROXY '' bs"
  shows "e' = e \<and> res \<noteq> Inl ErrNoHeader
    \<and> (\<exists>used. bs = used @ rest \<and> length used \<le> maxV1Length \<and> (\<forall>h. res = Inr h \<longrightarrow> pp_frame used))"
proof -
  obtain l where l: "v1_line [] bs e = (l, (rest, e'))" using assms(1)
    by (auto simp: readV1_def split: prod.splits sum.splits)
  then obtain used where used: "e' = e" "bs = used @ rest" "length used \<le> maxV1Length" "\<And>x. l = Inr x \<Longrightarrow> x = used"
    using v1_line_used [OF l] by (auto simp: maxV1Length_def)
  have "res \<noteq> Inl ErrNoHeader" using assms(1) l v1_line_error [of "[]" bs e] v1_fields_error
    by (auto simp: readV1_def split: sum.splits option.splits)
  moreover have "pp_frame used" if "res = Inr h" for h
  proof -
    have "suffix CRLF used" using assms(1) l used(4) that
      by (auto simp: readV1_def CutSuffix_def split: sum.splits option.splits if_splits)
    moreover from this have "prefix ''PROXY '' used" using CRLF_not_in_keyword [OF assms(2)] used(2) by simp
    ultimately show ?thesis using used(3) by (simp add: pp_frame_def)
  qed
  ultimately show ?thesis using used by blast
qed

lemma v2_address_error: "v2_address fam block \<noteq> Inl ErrNoHeader"
  by (simp add: v2_address_def)

lemma readV2_frame:
  assumes "readV2 (bs, e) = (res, (rest, e'))" and "prefix v2Signature bs"
  shows "e' = e \<and> res \<noteq> Inl ErrNoHeader
    \<and> (\<exists>used. bs = used @ rest \<and> length used \<le> 16 + maxV2AddressBlock \<and> (\<forall>h. res = Inr h \<longrightarrow> pp_frame used))"
proof -
  obtain x r where x: "ReadFull 16 (bs, e) = (x, (r, e))" using ReadFull_used [of 16 bs e] by (metis prod.exhaust)
  obtain u where u: "bs = u @ r" "length u \<le> 16" "\<And>y. x = Inr y \<Longrightarrow> y = u \<and> length u = 16"
    using ReadFull_used [OF x] by auto
  show ?thesis
  proof (cases "\<exists>fixed. x = Inr fixed \<and> byte_at fixed 12 div 16 = 2 \<and> Uint16_at fixed 14 \<le> maxV2AddressBlock")
    case False
    then have "e' = e \<and> rest = r \<and> (\<exists>err. res = Inl err \<and> err \<noteq> ErrNoHeader)"
      using assms(1) x by (auto simp: readV2_def Let_def split: sum.splits if_splits)
    then show ?thesis using u by (auto intro!: exI [of _ u])
  next
    case True
    then obtain ver: "x = Inr u" "byte_at u 12 div 16 = 2" "Uint16_at u 14 \<le> maxV2AddressBlock" "length u = 16"
      using u(3) by blast
    obtain y where y: "ReadFull (Uint16_at u 14) (r, e) = (y, (rest, e'))"
      and res: "res = (case y of Inl b \<Rightarrow> Inl (invalid b)
        | Inr block \<Rightarrow> if byte_at u 12 mod 16 = 0 then Inr (no_source\<lparr>ph_Local := True\<rparr>)
            else if byte_at u 12 mod 16 = 1 then v2_address (byte_at u 13) block else Inl ErrInvalidHeader)"
      using assms(1) x ver by (auto simp: readV2_def Let_def split: sum.splits prod.splits)
    from ReadFull_used [OF y] obtain v where v: "e' = e" "r = v @ rest" "length v \<le> Uint16_at u 14"
      "\<And>b. y = Inr b \<Longrightarrow> length v = Uint16_at u 14" by auto
    have "res \<noteq> Inl ErrNoHeader" using v2_address_error by (auto simp: res split: sum.splits if_splits)
    moreover have "pp_frame (u @ v)" if "res = Inr h" for h
    proof -
      have "length v = Uint16_at u 14" using that v(4) by (auto simp: res split: sum.splits)
      moreover have "prefix v2Signature u" using assms(2) ver(4) prefix_length_prefix [of v2Signature bs u]
        by (simp add: u(1) v2Signature_def)
      moreover have "Uint16_at (u @ v) 14 = Uint16_at u 14" using ver(4) by (simp add: Uint16_at_def byte_at_def nth_append)
      ultimately show ?thesis using ver by (simp add: pp_frame_def)
    qed
    ultimately show ?thesis using u(1) v ver(3,4) by (intro conjI exI [of _ "u @ v"]) auto
  qed
qed

text \<open>A call to \<open>Read\<close> takes from the connection exactly the header.  It never takes more than 4112 bytes,
it takes none when it reports that there is no header, and when it returns a header what it took is one complete
frame: a line of at most 107 bytes that starts with the keyword and ends in CR LF, or the sixteen fixed bytes
and as many bytes as they announce, at most 4096.  What follows stays unread.\<close>

theorem proxy_header_framing:
  assumes "pp_Read (bs, e) = (res, (rest, e'))"
  shows "\<exists>used. bs = used @ rest \<and> e' = e \<and> length used \<le> 4112
    \<and> (res = Inl ErrNoHeader \<longrightarrow> used = []) \<and> (\<forall>h. res = Inr h \<longrightarrow> pp_frame used)"
proof -
  consider "rest = bs" "e' = e" "\<forall>h. res \<noteq> Inr h"
    | "prefix ''PROXY '' bs" "readV1 (bs, e) = (res, (rest, e'))"
    | "prefix v2Signature bs" "readV2 (bs, e) = (res, (rest, e'))"
    using assms by (auto simp: pp_Read_def Peek_def take_is_prefix split: sum.splits if_splits) (metis take_is_prefix)+
  then show ?thesis
  proof cases
    case 1
    then show ?thesis by auto
  next
    case 2
    then show ?thesis using readV1_frame [OF 2(2,1)] by (fastforce simp: maxV1Length_def)
  next
    case 3
    then show ?thesis using readV2_frame [OF 3(2,1)] by (fastforce simp: maxV2AddressBlock_def)
  qed
qed


section \<open>What a load balancer writes\<close>

text \<open>The two headers of a relayed TCP connection, as the protocol's specification prints them.\<close>

definition v1_text :: "addr \<Rightarrow> addr \<Rightarrow> uint16 \<Rightarrow> uint16 \<Rightarrow> string list" where
  "v1_text src dst sp dp =
     [''PROXY'', if Is4 src then ''TCP4'' else ''TCP6'', Addr_String src, Addr_String dst, decimal (unat sp), decimal (unat dp)]"

definition v1_header :: "addr \<Rightarrow> addr \<Rightarrow> uint16 \<Rightarrow> uint16 \<Rightarrow> string" where
  "v1_header src dst sp dp = join '' '' (v1_text src dst sp dp) @ CRLF"

definition be_bytes :: "nat \<Rightarrow> nat \<Rightarrow> string" where
  "be_bytes k n = map byte_char (base_digits 256 k n)"

fun addr_bytes :: "addr \<Rightarrow> string" where
  "addr_bytes AddrZero = []"
| "addr_bytes (Addr4 w) = be_bytes 4 (unat w)"
| "addr_bytes (Addr6 w z) = be_bytes 16 (unat w)"

definition v2_header :: "addr \<Rightarrow> addr \<Rightarrow> uint16 \<Rightarrow> uint16 \<Rightarrow> string \<Rightarrow> string" where
  "v2_header src dst sp dp tlvs =
     (let block = addr_bytes src @ addr_bytes dst @ be_bytes 2 (unat sp) @ be_bytes 2 (unat dp) @ tlvs in
      v2Signature @ map byte_char [0x21, if Is4 src then 0x11 else 0x21] @ be_bytes 2 (length block) @ block)"

lemma decimal_leading: "10 \<le> n \<Longrightarrow> hd (decimal n) \<noteq> CHR ''0''"
proof (induction n rule: decimal.induct)
  case (1 n)
  then show ?case by (cases "n div 10 < 10"; subst decimal.simps) (auto simp: decimal.simps [of "n div 10"] byte_char_eq_iff)
qed

lemma parsePort_decimal: "parsePort (decimal (unat (p :: uint16))) = Some (unat p)"
proof -
  have "unat p < 65536" using unsigned_less [of p, where ?'a = nat] by simp
  moreover have "unat p < 10 \<Longrightarrow> length (decimal (unat p)) = 1" by (simp add: decimal.simps)
  ultimately show ?thesis using decimal_length [of "unat p" 4] decimal_leading [of "unat p"] decimal_digits [of "unat p"]
    by (fastforce simp: parsePort_def ParseUint16_def digits_value_decimal)
qed

lemma v1_line_reads:
  "byte_char 10 \<notin> set s \<Longrightarrow> length line + length s < maxV1Length \<Longrightarrow>
   v1_line line (s @ byte_char 10 # rest) e = (Inr (line @ s @ [byte_char 10]), (rest, e))"
  by (induction s arbitrary: line) auto

lemma CutSuffix_append [simp]: "CutSuffix (s @ suf) suf = Some s"
  by (simp add: CutSuffix_def suffix_def)

lemma byte_at_be:
  "n < 256 ^ k \<Longrightarrow> base_value 256 (map (byte_at (be_bytes k n @ t)) [0..<k]) = n"
proof -
  assume n: "n < 256 ^ k"
  have "map (byte_at (be_bytes k n @ t)) [0..<k] = base_digits 256 k n"
    using base_digits_bound [of 256 _ k n] by (auto intro!: nth_equalityI simp: byte_at_def be_bytes_def nth_append)
  then show ?thesis using n by (simp add: base_value_digits)
qed

lemma Uint16_at_be: "n < 65536 \<Longrightarrow> length s = i \<Longrightarrow> Uint16_at (s @ be_bytes 2 n @ t) i = n"
  by (simp add: Uint16_at_def byte_at_def be_bytes_def nth_append numeral_2_eq_2)


lemma addr_text_plain:
  assumes "canonical_addr a" "c \<in> set (Addr_String a)" shows "c \<noteq> CHR '' '' \<and> c \<noteq> byte_char 10"
  using Addr_String_text(2) [OF assms] by (auto simp: is_hex_def hex_value_def is_digit_def byte_char_eq_iff)

lemma decimal_plain: "c \<in> set (decimal n) \<Longrightarrow> c \<noteq> CHR '' '' \<and> c \<noteq> byte_char 10"
  using decimal_digits [of n] by (auto simp: list_all_iff is_digit_def byte_char_eq_iff)

lemma port_length: "length (decimal (unat (p :: uint16))) \<le> 5"
  using decimal_length [of "unat p" 4] unsigned_less [of p, where ?'a = nat] by simp

lemma v1_text_plain:
  assumes "canonical_addr src" "canonical_addr dst"
  shows "list_all (\<lambda>f. CHR '' '' \<notin> set f) (v1_text src dst sp dp)" "byte_char 10 \<notin> set (join '' '' (v1_text src dst sp dp))"
    "length (join '' '' (v1_text src dst sp dp)) \<le> 102"
proof -
  have nl: "byte_char 10 \<notin> set ''PROXY'' \<union> set ''TCP4'' \<union> set ''TCP6'' \<union> set '' ''" by (simp add: byte_char_eq_iff)
  show "list_all (\<lambda>f. CHR '' '' \<notin> set f) (v1_text src dst sp dp)"
    using addr_text_plain [OF assms(1)] addr_text_plain [OF assms(2)] decimal_plain by (auto simp: v1_text_def)
  show "byte_char 10 \<notin> set (join '' '' (v1_text src dst sp dp))"
    using nl addr_text_plain [OF assms(1)] addr_text_plain [OF assms(2)] decimal_plain by (auto simp: v1_text_def)
  show "length (join '' '' (v1_text src dst sp dp)) \<le> 102"
    using Addr_String_text(1) [OF assms(1)] Addr_String_text(1) [OF assms(2)] port_length [of sp] port_length [of dp]
    by (simp add: v1_text_def)
qed

lemma v1_text_read:
  assumes "canonical_addr src" "canonical_addr dst" "Is4 src = Is4 dst"
  shows "v1_fields (v1_text src dst sp dp) = Inr (from_source src sp)"
proof -
  have "Is6 src = (\<not> Is4 src)" "Is6 dst = (\<not> Is4 dst)" "Zone src = []" "Zone dst = []"
    using assms by (cases src; cases dst; simp add: canonical_addr_def)+
  then show ?thesis using assms
    by (simp add: v1_fields_def v1_text_def parse_print_addr parsePort_decimal family_matches_def)
qed

lemma v1_read_back:
  assumes "canonical_addr src" "canonical_addr dst" "Is4 src = Is4 dst"
  shows "pp_Read (v1_header src dst sp dp @ payload, e) = (Inr (from_source src sp), (payload, e))"
proof -
  let ?t = "join '' '' (v1_text src dst sp dp)"
  have "byte_char 10 \<notin> set (?t @ [byte_char 13])" "length (?t @ [byte_char 13]) < maxV1Length"
    using v1_text_plain [OF assms(1,2), of sp dp] by (simp_all add: byte_char_eq_iff maxV1Length_def)
  then have "v1_line [] (v1_header src dst sp dp @ payload) e = (Inr (?t @ CRLF), (payload, e))"
    using v1_line_reads [of "?t @ [byte_char 13]" "[]" payload e] by (simp add: v1_header_def CRLF_def)
  moreover have "split_char (CHR '' '') ?t = v1_text src dst sp dp"
    using v1_text_plain(1) [OF assms(1,2)] by (rule split_join) (simp add: v1_text_def)
  ultimately have "readV1 (v1_header src dst sp dp @ payload, e) = (Inr (from_source src sp), (payload, e))"
    using v1_text_read [OF assms] by (simp add: readV1_def)
  moreover obtain x where "v1_header src dst sp dp @ payload = ''PROXY '' @ x" by (simp add: v1_header_def v1_text_def)
  ultimately show ?thesis by (simp add: pp_Read_def Peek_def)
qed

lemma be_bytes_length [simp]: "length (be_bytes k n) = k"
  by (simp add: be_bytes_def)

lemma v2_address_read:
  assumes "canonical_addr src" "canonical_addr dst" "Is4 src = Is4 dst" and that: "2 \<le> length t"
  shows "v2_address (if Is4 src then 0x11 else 0x21) (addr_bytes src @ addr_bytes dst @ be_bytes 2 (unat (sp :: uint16)) @ t)
    = Inr (from_source src sp)"
proof (cases src)
  case (Addr4 w)
  with assms obtain w' where "dst = Addr4 w'" by (cases dst) auto
  moreover have "unat w < 256 ^ 4" "unat sp < 65536" using unsigned_less [of w, where ?'a = nat] unsigned_less [of sp, where ?'a = nat] by simp_all
  ultimately show ?thesis using that byte_at_be [of "unat w" 4] Uint16_at_be [of "unat sp" "be_bytes 4 (unat w) @ be_bytes 4 (unat w')" 8 t]
    by (simp add: Addr4 v2_address_def)
next
  case (Addr6 w z)
  with assms obtain w' z' where "dst = Addr6 w' z'" "z = []" by (cases dst) (auto simp: canonical_addr_def)
  moreover have "unat w < 256 ^ 16" "unat sp < 65536" using unsigned_less [of w, where ?'a = nat] unsigned_less [of sp, where ?'a = nat] by simp_all
  ultimately show ?thesis using that byte_at_be [of "unat w" 16] Uint16_at_be [of "unat sp" "be_bytes 16 (unat w) @ be_bytes 16 (unat w')" 32 t]
    by (simp add: Addr6 v2_address_def)
qed (use assms in \<open>simp add: canonical_addr_def\<close>)


lemma pp_Read_v2: "prefix v2Signature bs \<Longrightarrow> pp_Read (bs, e) = readV2 (bs, e)"
  by (auto simp: prefix_def pp_Read_def Peek_def v2Signature_def byte_char_eq_iff)

lemma v2_read_back:
  assumes "canonical_addr src" "canonical_addr dst" "Is4 src = Is4 dst" and tlvs: "length tlvs \<le> 4060"
  shows "pp_Read (v2_header src dst sp dp tlvs @ payload, e) = (Inr (from_source src sp), (payload, e))"
proof -
  define block where "block = addr_bytes src @ addr_bytes dst @ be_bytes 2 (unat sp) @ be_bytes 2 (unat dp) @ tlvs"
  define fixed where "fixed = v2Signature @ map byte_char [0x21, if Is4 src then 0x11 else 0x21] @ be_bytes 2 (length block)"
  have h: "v2_header src dst sp dp tlvs = fixed @ block" by (simp add: v2_header_def fixed_def block_def Let_def)
  have len: "length block \<le> 4096" using tlvs by (cases src; cases dst) (simp_all add: block_def)
  have sig: "length v2Signature = 12" "hd v2Signature = byte_char 13" by (simp_all add: v2Signature_def)
  have "length fixed = 16" "byte_at fixed 12 = 0x21" "byte_at fixed 13 = (if Is4 src then 0x11 else 0x21)"
    by (simp_all add: fixed_def sig byte_at_def nth_append)
  moreover have "Uint16_at fixed 14 = length block"
    using Uint16_at_be [of "length block" "v2Signature @ map byte_char [0x21, if Is4 src then 0x11 else 0x21]" 14 "[]"] len
    by (simp add: fixed_def sig)
  moreover have "v2_address (byte_at fixed 13) block = Inr (from_source src sp)"
    using v2_address_read [OF assms(1-3), of "be_bytes 2 (unat dp) @ tlvs" sp] by (simp add: block_def calculation(3))
  ultimately have "readV2 (fixed @ block @ payload, e) = (Inr (from_source src sp), (payload, e))"
    using len by (simp add: readV2_def ReadFull_def Let_def maxV2AddressBlock_def)
  moreover have "prefix v2Signature (fixed @ block @ payload)" by (simp add: fixed_def)
  ultimately show ?thesis by (simp add: h pp_Read_v2)
qed

text \<open>C32: the client a load balancer relays is the one that is read.  For every pair of addresses of one family
(without zone, and not an IPv4 address written as IPv6) and all ports, the textual header and the binary header
(with up to 4060 bytes of extensions) are accepted whatever follows on the connection, give the source address
and source port, and leave what follows unread.\<close>

theorem relayed_client_read_back:
  assumes "canonical_addr src" "canonical_addr dst" "Is4 src = Is4 dst" and "length tlvs \<le> 4060"
  shows "pp_Read (v1_header src dst sp dp @ payload, e) = (Inr (from_source src sp), (payload, e))
    \<and> pp_Read (v2_header src dst sp dp tlvs @ payload, e) = (Inr (from_source src sp), (payload, e))"
  using v1_read_back [OF assms(1-3)] v2_read_back [OF assms] by blast

theorem relayed_client_read_back_witness:
  "pp_Read (v1_header (Addr4 0xCB007109) (Addr4 0x0A000001) 51234 443 @ ''GET /'', ReadEOF)
     = (Inr (from_source (Addr4 0xCB007109) 51234), (''GET /'', ReadEOF))
   \<and> pp_Read (v2_header (Addr4 0xCB007109) (Addr4 0x0A000001) 51234 443 [] @ ''GET /'', ReadEOF)
     = (Inr (from_source (Addr4 0xCB007109) 51234), (''GET /'', ReadEOF))"
  by (rule relayed_client_read_back) (simp_all add: canonical_addr_def)

theorem proxy_header_framing_witness:
  "pp_Read (''PROXY UNKNOWN'' @ CRLF @ ''hi'', ReadEOF) = (Inr no_source, (''hi'', ReadEOF))
   \<and> (\<exists>used. ''PROXY UNKNOWN'' @ CRLF @ ''hi'' = used @ ''hi'' \<and> length used \<le> 4112 \<and> pp_frame used)"
proof -
  have nl: "byte_char 10 \<notin> set (''PROXY UNKNOWN'' @ [byte_char 13])" by (simp add: byte_char_eq_iff)
  have "v1_line [] ((''PROXY UNKNOWN'' @ [byte_char 13]) @ byte_char 10 # ''hi'') ReadEOF = (Inr (''PROXY UNKNOWN'' @ CRLF), (''hi'', ReadEOF))"
    by (subst v1_line_reads [OF nl]) (simp_all add: maxV1Length_def CRLF_def)
  then have line: "v1_line [] (''PROXY UNKNOWN'' @ CRLF @ ''hi'') ReadEOF = (Inr (''PROXY UNKNOWN'' @ CRLF), (''hi'', ReadEOF))"
    by (simp add: CRLF_def)
  have "v1_fields (split_char (CHR '' '') ''PROXY UNKNOWN'') = Inr no_source" by (simp add: v1_fields_def)
  then have run: "pp_Read (''PROXY UNKNOWN'' @ CRLF @ ''hi'', ReadEOF) = (Inr no_source, (''hi'', ReadEOF))"
    unfolding pp_Read_def readV1_def Peek_def fst_conv snd_conv line using CutSuffix_append [of "''PROXY UNKNOWN''" CRLF] by simp
  show ?thesis using proxy_header_framing [OF run] run by blast
qed

end
