(* ===== verification/Ip_Gate.thy ===== *)
theory Ip_Gate
  imports Ip_Allowlist_Store Proxy_Protocol
begin

text \<open>
  The connection gate of the Server's listeners (\<open>src/internal/serverhost/ip_gate.go\<close>) and the component that
  keeps it on the stored list (\<open>src/internal/serverhost/ip_allowlist.go\<close>).

  A connection is one record.  \<open>gc_peer\<close> is what \<open>peerAddress\<close> reads off the socket, \<open>gc_sent\<close> what the other
  side will ever send, and \<open>gc_pc\<close> where the one goroutine that decides about the connection stands:
  \<open>Accept\<close> for a direct connection, the function run by \<open>resolveOnce\<close> for one that a trusted
  load balancer relays.  \<open>gc_deferring\<close> says which kind of listener accepted it, \<open>gc_delivered\<close> is what \<open>Read\<close>
  has handed out, and \<open>gc_untracked\<close> says that \<open>closeOnce\<close> has run.
\<close>

section \<open>State\<close>

datatype gate_error = errClientAddressRefused | GateEOF

datatype gate_pc = Unresolved | ReadingHeader | Judging | Tracking | Refusing | Resolved

datatype tls_decision = TlsPending | TlsPassed | TlsAcme | TlsRefused

record gconn =
  gc_peer :: addr
  gc_sent :: pp_reader
  gc_deferring :: bool
  gc_balancer :: addr
  gc_deferToTLS :: bool
  gc_reader :: pp_reader
  gc_pc :: gate_pc
  gc_resolveErr :: "gate_error option"
  gc_address :: addr
  gc_source :: "addr \<times> uint16"
  gc_balancerOwn :: bool
  gc_admitted :: bool
  gc_tls :: tls_decision
  gc_readDeadline :: "go_time option"
  gc_connDeadline :: "go_time option"
  gc_connClosed :: bool
  gc_closed :: bool
  gc_untracked :: bool
  gc_delivered :: string

type_synonym ip_list = "prefix_net list"

record conn_gate =
  gt_list :: ip_list
  gt_trusted :: ip_list
  gt_open :: "nat set"
  gt_refusedCount :: "64 word"
  gt_lastRefusal :: "(addr \<times> go_time) option"
  gt_problems :: "64 word"

definition newConnectionGate :: "ip_list \<Rightarrow> ip_list \<Rightarrow> conn_gate" where
  "newConnectionGate l trusted =
     \<lparr> gt_list = l, gt_trusted = trusted, gt_open = {}, gt_refusedCount = 0, gt_lastRefusal = None, gt_problems = 0 \<rparr>"

definition refuse :: "go_time \<Rightarrow> addr \<Rightarrow> conn_gate \<Rightarrow> conn_gate" where
  "refuse now a g = g\<lparr>gt_refusedCount := gt_refusedCount g + 1, gt_lastRefusal := Some (Unmap a, now)\<rparr>"

definition header_problem :: "conn_gate \<Rightarrow> conn_gate" where
  "header_problem g = g\<lparr>gt_problems := gt_problems g + 1\<rparr>"

record ip_refusals =
  ir_count :: "64 word"
  ir_lastAddress :: addr
  ir_lastAt :: "go_time option"
  ir_problems :: "64 word"

definition refusals :: "conn_gate \<Rightarrow> ip_refusals" where
  "refusals g =
     (case gt_lastRefusal g of
        None \<Rightarrow> \<lparr> ir_count = gt_refusedCount g, ir_lastAddress = AddrZero, ir_lastAt = None, ir_problems = gt_problems g \<rparr>
      | Some (a, t) \<Rightarrow> \<lparr> ir_count = gt_refusedCount g, ir_lastAddress = a, ir_lastAt = Some t, ir_problems = gt_problems g \<rparr>)"

definition allowedBy :: "gconn \<Rightarrow> ip_list \<Rightarrow> bool" where
  "allowedBy c l =
     (if gc_balancerOwn c then True
      else if gc_balancer c \<noteq> AddrZero \<and> fst (gc_source c) = AddrZero then l = [] \<or> List_Contains l (gc_address c)
      else Allows l (gc_address c))"

section \<open>Accepting\<close>

definition accepted :: "addr \<Rightarrow> bool \<Rightarrow> pp_reader \<Rightarrow> gconn" where
  "accepted peer deferring sent =
     \<lparr> gc_peer = peer, gc_sent = sent, gc_deferring = deferring, gc_balancer = AddrZero, gc_deferToTLS = False,
       gc_reader = sent, gc_pc = Unresolved, gc_resolveErr = None, gc_address = AddrZero, gc_source = (AddrZero, 0),
       gc_balancerOwn = False, gc_admitted = False, gc_tls = TlsPending, gc_readDeadline = None, gc_connDeadline = None,
       gc_connClosed = False, gc_closed = False, gc_untracked = False, gc_delivered = [] \<rparr>"

text \<open>\<open>Accept\<close> up to \<open>gate.track\<close>: the connection goes on, or is refused and closed.\<close>

definition gate_Accept :: "go_time \<Rightarrow> bool \<Rightarrow> addr \<Rightarrow> pp_reader \<Rightarrow> conn_gate \<Rightarrow> conn_gate \<times> gconn option" where
  "gate_Accept now deferToTLS peer sent g =
     (if peer \<noteq> AddrZero \<and> List_Contains (gt_trusted g) peer
      then (g, Some ((accepted peer deferToTLS sent)\<lparr>gc_balancer := peer, gc_deferToTLS := deferToTLS\<rparr>))
      else
        (let admitted = peer \<noteq> AddrZero \<and> Allows (gt_list g) peer in
         if \<not> admitted \<and> (\<not> deferToTLS \<or> peer = AddrZero) then (refuse now peer g, None)
         else (g, Some ((accepted peer deferToTLS sent)\<lparr>gc_address := peer, gc_admitted := admitted, gc_pc := Tracking\<rparr>))))"

text \<open>\<open>track\<close>: what it does under the lock, and what follows when the connection is not allowed any more.\<close>

definition track_locked :: "nat \<Rightarrow> gconn \<Rightarrow> conn_gate \<Rightarrow> conn_gate \<times> gconn" where
  "track_locked i c g =
     (let allowed = \<not> gc_admitted c \<or> allowedBy c (gt_list g) in
      (if allowed \<and> \<not> gc_closed c then g\<lparr>gt_open := insert i (gt_open g)\<rparr> else g,
       c\<lparr>gc_pc := if allowed then Resolved else Refusing\<rparr>))"

definition conn_close :: "gconn \<Rightarrow> gconn" where
  "conn_close c = c\<lparr>gc_closed := True, gc_connClosed := True\<rparr>"

definition untrack :: "nat \<Rightarrow> conn_gate \<Rightarrow> conn_gate" where
  "untrack i g = g\<lparr>gt_open := gt_open g - {i}\<rparr>"

definition track_refused :: "go_time \<Rightarrow> gconn \<Rightarrow> conn_gate \<Rightarrow> conn_gate \<times> gconn" where
  "track_refused now c g = (refuse now (gc_address c) g, (conn_close c)\<lparr>gc_pc := Resolved\<rparr>)"

section \<open>Resolving a relayed connection\<close>

definition fail :: "gate_error \<Rightarrow> gconn \<Rightarrow> gconn" where
  "fail e c = c\<lparr>gc_resolveErr := Some e, gc_connClosed := True, gc_pc := Resolved\<rparr>"

definition header_limit :: "go_time \<Rightarrow> gconn \<Rightarrow> go_time" where
  "header_limit limit c = (case gc_readDeadline c of None \<Rightarrow> limit | Some d \<Rightarrow> if d < limit then d else limit)"

definition readProxyHeader_start :: "go_time \<Rightarrow> gconn \<Rightarrow> gconn" where
  "readProxyHeader_start limit c = c\<lparr>gc_connDeadline := Some (header_limit limit c), gc_pc := ReadingHeader\<rparr>"

definition readProxyHeader_finish :: "gconn \<Rightarrow> (pp_error + pp_header) \<times> gconn" where
  "readProxyHeader_finish c =
     (case pp_Read (gc_reader c) of (res, r) \<Rightarrow> (res, c\<lparr>gc_reader := r, gc_connDeadline := gc_readDeadline c\<rparr>))"

text \<open>A load balancer that does not name its client is judged itself, without the loopback exception.\<close>

definition hidden_client :: "go_time \<Rightarrow> gconn \<Rightarrow> conn_gate \<Rightarrow> conn_gate \<times> gconn" where
  "hidden_client now c g =
     (let g1 = header_problem g; c1 = c\<lparr>gc_address := gc_balancer c\<rparr> in
      if gt_list g1 \<noteq> [] \<and> \<not> List_Contains (gt_list g1) (gc_balancer c)
      then (refuse now (gc_balancer c) g1, fail errClientAddressRefused c1)
      else (g1, c1\<lparr>gc_pc := Judging\<rparr>))"

definition resolve_header :: "go_time \<Rightarrow> pp_error + pp_header \<Rightarrow> gconn \<Rightarrow> conn_gate \<Rightarrow> conn_gate \<times> gconn" where
  "resolve_header now res c g =
     (case res of
        Inr h \<Rightarrow>
          if ph_Local h
          then (g, c\<lparr>gc_address := gc_balancer c, gc_balancerOwn := True, gc_admitted := True, gc_pc := Tracking\<rparr>)
          else if ph_Addr h \<noteq> AddrZero
          then (g, c\<lparr>gc_address := Unmap (ph_Addr h), gc_source := (ph_Addr h, ph_Port h), gc_pc := Judging\<rparr>)
          else hidden_client now c g
      | Inl e \<Rightarrow>
          (case e of
             ErrNoHeader \<Rightarrow> hidden_client now c g
           | ErrInvalidHeader \<Rightarrow> (header_problem g, fail errClientAddressRefused c)
           | ErrInvalidAnd _ \<Rightarrow> (header_problem g, fail errClientAddressRefused c)
           | ErrReader _ \<Rightarrow> (g, fail GateEOF c)))"

definition resolve_read :: "go_time \<Rightarrow> gconn \<Rightarrow> conn_gate \<Rightarrow> conn_gate \<times> gconn" where
  "resolve_read now c g = (case readProxyHeader_finish c of (res, c1) \<Rightarrow> resolve_header now res c1 g)"

definition resolve_judge :: "go_time \<Rightarrow> gconn \<Rightarrow> conn_gate \<Rightarrow> conn_gate \<times> gconn" where
  "resolve_judge now c g =
     (let admitted = allowedBy c (gt_list g) in
      if \<not> admitted \<and> \<not> gc_deferToTLS c then (refuse now (gc_address c) g, fail errClientAddressRefused c)
      else (g, c\<lparr>gc_admitted := admitted, gc_pc := Tracking\<rparr>))"

text \<open>The handlers as one goroutine runs them when nothing comes in between.\<close>

definition close_untrack :: "nat \<Rightarrow> gconn \<Rightarrow> conn_gate \<Rightarrow> conn_gate \<times> gconn" where
  "close_untrack i c g = (untrack i g, c\<lparr>gc_untracked := True\<rparr>)"

definition track :: "go_time \<Rightarrow> nat \<Rightarrow> gconn \<Rightarrow> conn_gate \<Rightarrow> conn_gate \<times> gconn" where
  "track now i c g =
     (case track_locked i c g of (g1, c1) \<Rightarrow>
        if gc_pc c1 = Refusing then (case track_refused now c1 g1 of (g2, c2) \<Rightarrow> close_untrack i c2 g2) else (g1, c1))"

definition resolve :: "go_time \<Rightarrow> go_time \<Rightarrow> nat \<Rightarrow> gconn \<Rightarrow> conn_gate \<Rightarrow> conn_gate \<times> gconn" where
  "resolve limit now i c g =
     (if gc_pc c \<noteq> Unresolved then (g, c)
      else case resolve_read now (readProxyHeader_start limit c) g of (g1, c1) \<Rightarrow>
        case (if gc_pc c1 = Judging then resolve_judge now c1 g1 else (g1, c1)) of (g2, c2) \<Rightarrow>
          if gc_pc c2 = Tracking then track now i c2 g2 else (g2, c2))"

text \<open>\<open>Accept\<close> followed by the first \<open>Read\<close>.\<close>

definition admit :: "go_time \<Rightarrow> go_time \<Rightarrow> nat \<Rightarrow> bool \<Rightarrow> addr \<Rightarrow> pp_reader \<Rightarrow> conn_gate \<Rightarrow> conn_gate \<times> gconn option" where
  "admit limit now i deferToTLS peer sent g =
     (case gate_Accept now deferToTLS peer sent g of
        (g1, None) \<Rightarrow> (g1, None)
      | (g1, Some c) \<Rightarrow>
          (case (if gc_pc c = Tracking then track now i c g1 else resolve limit now i c g1) of (g2, c2) \<Rightarrow> (g2, Some c2)))"

section \<open>Using a connection\<close>

definition acmeTLSALPNProtocol :: string where
  "acmeTLSALPNProtocol = ''acme-tls/1''"

text \<open>The callback of \<open>guardTLS\<close> after \<open>resolve\<close>.\<close>

definition guardTLS :: "go_time \<Rightarrow> string list \<Rightarrow> gconn \<Rightarrow> conn_gate \<Rightarrow> conn_gate \<times> gconn" where
  "guardTLS now protos c g =
     (case gc_resolveErr c of
        Some _ \<Rightarrow> (g, c\<lparr>gc_tls := TlsRefused\<rparr>)
      | None \<Rightarrow>
          if gc_admitted c then (g, c\<lparr>gc_tls := TlsPassed\<rparr>)
          else
            (let allowed = allowedBy c (gt_list g); c1 = c\<lparr>gc_admitted := allowed\<rparr> in
             if \<not> allowed \<and> protos \<noteq> [acmeTLSALPNProtocol]
             then (refuse now (gc_address c) g, c1\<lparr>gc_tls := TlsRefused\<rparr>)
             else (g, c1\<lparr>gc_tls := if allowed then TlsPassed else TlsAcme\<rparr>)))"

text \<open>A connection up to its first request: on a listener that defers to TLS the first \<open>Read\<close> is the handshake's.\<close>

definition connect :: "go_time \<Rightarrow> go_time \<Rightarrow> nat \<Rightarrow> bool \<Rightarrow> string list \<Rightarrow> addr \<Rightarrow> pp_reader \<Rightarrow> conn_gate \<Rightarrow> conn_gate \<times> gconn option" where
  "connect limit now i deferToTLS protos peer sent g =
     (case admit limit now i deferToTLS peer sent g of
        (g1, None) \<Rightarrow> (g1, None)
      | (g1, Some c) \<Rightarrow>
          if deferToTLS then (case guardTLS now protos c g1 of (g2, c2) \<Rightarrow> (g2, Some c2)) else (g1, Some c))"

text \<open>\<open>Read\<close> hands out some of the bytes that are there; a relayed connection reads through a buffer, which
  closing does not empty.\<close>

definition gate_Read :: "nat \<Rightarrow> gconn \<Rightarrow> gconn" where
  "gate_Read k c = c\<lparr>gc_delivered := gc_delivered c @ take k (fst (gc_reader c)), gc_reader := apfst (drop k) (gc_reader c)\<rparr>"

definition SetReadDeadline :: "go_time option \<Rightarrow> gconn \<Rightarrow> gconn" where
  "SetReadDeadline d c = c\<lparr>gc_readDeadline := d, gc_connDeadline := d\<rparr>"

definition gate_RemoteAddr :: "gconn \<Rightarrow> addr \<Rightarrow> addr" where
  "gate_RemoteAddr c remote = (if fst (gc_source c) \<noteq> AddrZero then fst (gc_source c) else remote)"

section \<open>Changing the list\<close>

definition update_store :: "ip_list \<Rightarrow> conn_gate \<Rightarrow> conn_gate" where
  "update_store l g = g\<lparr>gt_list := l\<rparr>"

definition update_collect :: "ip_list \<Rightarrow> (nat \<Rightarrow> gconn option) \<Rightarrow> conn_gate \<Rightarrow> nat set" where
  "update_collect l conns g =
     {i \<in> gt_open g. case conns i of None \<Rightarrow> False | Some c \<Rightarrow> gc_admitted c \<and> \<not> allowedBy c l}"

text \<open>\<open>ipAllowlist.Replace\<close> and \<open>reload\<close>: the store's operation and the list the gate is put on, if any.\<close>

definition allowlist_Replace ::
  "bool \<Rightarrow> go_time \<Rightarrow> int \<Rightarrow> ip_list \<Rightarrow> file_state \<Rightarrow> al_snapshot
     \<Rightarrow> file_state \<times> al_snapshot \<times> (store_error + al_snapshot) \<times> ip_list option" where
  "allowlist_Replace io now expected l f current =
     (case Store_Replace io now expected l f current of
        (f', current', Inr saved) \<Rightarrow> (f', current', Inr saved, Some (as_List saved))
      | (f', current', Inl e) \<Rightarrow> (f', current', Inl e, if e = ErrConflict then Some (as_List current') else None))"

definition allowlist_reload :: "file_state \<Rightarrow> al_snapshot \<Rightarrow> al_snapshot \<times> ip_list option" where
  "allowlist_reload f current =
     (case Store_Reload f current of
        (current', (None, True)) \<Rightarrow> (current', Some (as_List current'))
      | (current', _) \<Rightarrow> (current', None))"

end
