(* ===== verification/Ip_Gate_System.thy ===== *)
theory Ip_Gate_System
  imports Ip_Gate
begin

text \<open>
  The gate with all its goroutines.  Every connection has one deciding goroutine and any number of users;
  list changes come one at a time, because \<open>ipAllowlist\<close> holds its lock around \<open>update\<close>.  A step is one
  access to the shared list or one section under the gate's lock.
\<close>

section \<open>Steps\<close>

datatype update_state = NoUpdate | ListStored ip_list | ClosingRefused "nat set"

record gate_world =
  gw_gate :: conn_gate
  gw_conns :: "nat \<Rightarrow> gconn option"
  gw_update :: update_state

inductive conn_step :: "nat \<Rightarrow> conn_gate \<times> gconn \<Rightarrow> conn_gate \<times> gconn \<Rightarrow> bool" where
  resolve_starts: "gc_pc c = Unresolved \<Longrightarrow> conn_step i (g, c) (g, readProxyHeader_start limit c)"
| resolve_reads: "gc_pc c = ReadingHeader \<Longrightarrow> conn_step i (g, c) (resolve_read now c g)"
| resolve_judges: "gc_pc c = Judging \<Longrightarrow> conn_step i (g, c) (resolve_judge now c g)"
| tracks: "gc_pc c = Tracking \<Longrightarrow> conn_step i (g, c) (track_locked i c g)"
| track_refuses: "gc_pc c = Refusing \<Longrightarrow> conn_step i (g, c) (track_refused now c g)"
| guards: "gc_pc c = Resolved \<Longrightarrow> gc_deferring c \<Longrightarrow> gc_tls c = TlsPending \<Longrightarrow> conn_step i (g, c) (guardTLS now protos c g)"
| reads: "gc_pc c = Resolved \<Longrightarrow> gc_resolveErr c = None \<Longrightarrow> \<not> gc_connClosed c \<or> gc_balancer c \<noteq> AddrZero \<Longrightarrow>
    conn_step i (g, c) (g, gate_Read k c)"
| sets_deadline: "gc_pc c = Resolved \<or> gc_balancer c \<noteq> AddrZero \<Longrightarrow> conn_step i (g, c) (g, SetReadDeadline d c)"
| closes: "gc_pc c = Resolved \<or> gc_balancer c \<noteq> AddrZero \<Longrightarrow> conn_step i (g, c) (g, conn_close c)"
| untracks: "gc_closed c \<Longrightarrow> conn_step i (g, c) (close_untrack i c g)"

inductive gate_step :: "gate_world \<Rightarrow> gate_world \<Rightarrow> bool" where
  accept_refuses: "gate_Accept now d peer sent (gw_gate w) = (g, None) \<Longrightarrow> gate_step w (w\<lparr>gw_gate := g\<rparr>)"
| accepts: "gate_Accept now d peer sent (gw_gate w) = (g, Some c) \<Longrightarrow> gw_conns w i = None \<Longrightarrow>
    gate_step w (w\<lparr>gw_gate := g, gw_conns := (gw_conns w)(i \<mapsto> c)\<rparr>)"
| conn_moves: "gw_conns w i = Some c \<Longrightarrow> conn_step i (gw_gate w, c) (g, c') \<Longrightarrow>
    gate_step w (w\<lparr>gw_gate := g, gw_conns := (gw_conns w)(i \<mapsto> c')\<rparr>)"
| update_starts: "gw_update w = NoUpdate \<Longrightarrow>
    gate_step w (w\<lparr>gw_gate := update_store l (gw_gate w), gw_update := ListStored l\<rparr>)"
| update_collects: "gw_update w = ListStored l \<Longrightarrow>
    gate_step w (w\<lparr>gw_update := ClosingRefused (update_collect l (gw_conns w) (gw_gate w))\<rparr>)"
| update_closes: "gw_update w = ClosingRefused S \<Longrightarrow> i \<in> S \<Longrightarrow> gw_conns w i = Some c \<Longrightarrow>
    gate_step w (w\<lparr>gw_conns := (gw_conns w)(i \<mapsto> conn_close c)\<rparr>)"
| update_closed: "gw_update w = ClosingRefused S \<Longrightarrow> gw_conns w i = Some c \<Longrightarrow> gc_untracked c \<Longrightarrow>
    gate_step w (w\<lparr>gw_update := ClosingRefused (S - {i})\<rparr>)"
| update_returns: "gw_update w = ClosingRefused {} \<Longrightarrow> gate_step w (w\<lparr>gw_update := NoUpdate\<rparr>)"

inductive_cases conn_stepE: "conn_step i (g, c) r"

definition gate_start :: "ip_list \<Rightarrow> ip_list \<Rightarrow> gate_world" where
  "gate_start l trusted = \<lparr> gw_gate = newConnectionGate l trusted, gw_conns = (\<lambda>_. None), gw_update = NoUpdate \<rparr>"

definition gate_reach :: "ip_list \<Rightarrow> ip_list \<Rightarrow> gate_world \<Rightarrow> bool" where
  "gate_reach l trusted w \<longleftrightarrow> gate_step\<^sup>*\<^sup>* (gate_start l trusted) w"

section \<open>Who may connect\<close>

text \<open>The contract, over the two lists, the peer of the TCP connection and what it sends.\<close>

definition hidden_allowed :: "ip_list \<Rightarrow> addr \<Rightarrow> bool" where
  "hidden_allowed l peer \<longleftrightarrow> l = [] \<or> List_Contains l peer"

definition entitled :: "ip_list \<Rightarrow> ip_list \<Rightarrow> addr \<Rightarrow> pp_reader \<Rightarrow> bool" where
  "entitled trusted l peer sent =
     (if \<not> List_Contains trusted peer then Allows l peer
      else (case fst (pp_Read sent) of
          Inr h \<Rightarrow> ph_Local h \<or> (if ph_Addr h = AddrZero then hidden_allowed l peer else Allows l (ph_Addr h))
        | Inl e \<Rightarrow> e = ErrNoHeader \<and> hidden_allowed l peer))"

lemma Unmap_idem [simp]: "Unmap (Unmap a) = Unmap a"
  by (cases a) auto

lemma Unmap_zero [simp]: "Unmap a = AddrZero \<longleftrightarrow> a = AddrZero"
  by (cases a) auto

lemma Allows_Unmap [simp]: "Allows l (Unmap a) = Allows l a"
  by (simp add: Allows_def)

lemma Contains_zero [simp]: "\<not> List_Contains l AddrZero"
  by (simp add: List_Contains_def)

lemma Allows_zero [simp]: "\<not> Allows l AddrZero"
  by (simp add: Allows_def)

text \<open>Which address a connection is judged by, as far as its deciding goroutine has come.\<close>

definition relayed :: "ip_list \<Rightarrow> gconn \<Rightarrow> bool" where
  "relayed trusted c \<longleftrightarrow> List_Contains trusted (gc_peer c)"

definition judged :: "ip_list \<Rightarrow> gconn \<Rightarrow> bool" where
  "judged trusted c \<longleftrightarrow> gc_resolveErr c = None \<and> (\<forall>l. allowedBy c l = entitled trusted l (gc_peer c) (gc_sent c))"

text \<open>What the decision does not depend on.\<close>

lemma allowedBy_update [simp]:
  "allowedBy (c\<lparr>gc_pc := x1\<rparr>) l = allowedBy c l"
  "allowedBy (c\<lparr>gc_admitted := x2\<rparr>) l = allowedBy c l"
  "allowedBy (c\<lparr>gc_tls := x3\<rparr>) l = allowedBy c l"
  "allowedBy (c\<lparr>gc_reader := x4\<rparr>) l = allowedBy c l"
  "allowedBy (c\<lparr>gc_delivered := x5\<rparr>) l = allowedBy c l"
  "allowedBy (c\<lparr>gc_readDeadline := x6\<rparr>) l = allowedBy c l"
  "allowedBy (c\<lparr>gc_connDeadline := x7\<rparr>) l = allowedBy c l"
  "allowedBy (c\<lparr>gc_connClosed := x8\<rparr>) l = allowedBy c l"
  "allowedBy (c\<lparr>gc_closed := x9\<rparr>) l = allowedBy c l"
  "allowedBy (c\<lparr>gc_untracked := x10\<rparr>) l = allowedBy c l"
  by (simp_all add: allowedBy_def)

lemma relayed_update [simp]:
  "relayed t (c\<lparr>gc_pc := x11\<rparr>) = relayed t c"
  "relayed t (c\<lparr>gc_admitted := x12\<rparr>) = relayed t c"
  "relayed t (c\<lparr>gc_tls := x13\<rparr>) = relayed t c"
  "relayed t (c\<lparr>gc_reader := x14\<rparr>) = relayed t c"
  "relayed t (c\<lparr>gc_delivered := x15\<rparr>) = relayed t c"
  "relayed t (c\<lparr>gc_readDeadline := x16\<rparr>) = relayed t c"
  "relayed t (c\<lparr>gc_connDeadline := x17\<rparr>) = relayed t c"
  "relayed t (c\<lparr>gc_connClosed := x18\<rparr>) = relayed t c"
  "relayed t (c\<lparr>gc_closed := x19\<rparr>) = relayed t c"
  "relayed t (c\<lparr>gc_untracked := x20\<rparr>) = relayed t c"
  "relayed t (c\<lparr>gc_address := x21\<rparr>) = relayed t c"
  "relayed t (c\<lparr>gc_resolveErr := x22\<rparr>) = relayed t c"
  by (simp_all add: relayed_def)

lemma judged_update [simp]:
  "judged t (c\<lparr>gc_pc := x23\<rparr>) = judged t c"
  "judged t (c\<lparr>gc_admitted := x24\<rparr>) = judged t c"
  "judged t (c\<lparr>gc_tls := x25\<rparr>) = judged t c"
  "judged t (c\<lparr>gc_reader := x26\<rparr>) = judged t c"
  "judged t (c\<lparr>gc_delivered := x27\<rparr>) = judged t c"
  "judged t (c\<lparr>gc_readDeadline := x28\<rparr>) = judged t c"
  "judged t (c\<lparr>gc_connDeadline := x29\<rparr>) = judged t c"
  "judged t (c\<lparr>gc_connClosed := x30\<rparr>) = judged t c"
  "judged t (c\<lparr>gc_closed := x31\<rparr>) = judged t c"
  "judged t (c\<lparr>gc_untracked := x32\<rparr>) = judged t c"
  by (simp_all add: judged_def)

definition decision_ok :: "ip_list \<Rightarrow> gconn \<Rightarrow> bool" where
  "decision_ok trusted c \<longleftrightarrow>
     gc_balancer c = (if relayed trusted c then gc_peer c else AddrZero)
     \<and> gc_deferToTLS c = (relayed trusted c \<and> gc_deferring c)
     \<and> (case gc_pc c of
          Unresolved \<Rightarrow> relayed trusted c
        | ReadingHeader \<Rightarrow> relayed trusted c
        | Judging \<Rightarrow> relayed trusted c \<and> judged trusted c
        | Tracking \<Rightarrow> judged trusted c \<and> (gc_admitted c \<or> gc_deferring c)
        | Refusing \<Rightarrow> judged trusted c \<and> gc_admitted c
        | Resolved \<Rightarrow> gc_resolveErr c = None \<longrightarrow> judged trusted c \<and> (gc_admitted c \<or> gc_deferring c))
     \<and> (gc_pc c \<in> {Unresolved, ReadingHeader} \<longrightarrow>
          gc_resolveErr c = None \<and> gc_reader c = gc_sent c \<and> gc_delivered c = [] \<and> fst (gc_source c) = AddrZero
          \<and> \<not> gc_balancerOwn c \<and> \<not> gc_admitted c)
     \<and> (gc_tls c = TlsPassed \<longrightarrow> gc_resolveErr c = None \<and> gc_admitted c \<and> gc_pc c = Resolved)"


lemmas gate_op_defs = readProxyHeader_start_def conn_close_def close_untrack_def SetReadDeadline_def gate_Read_def
  track_locked_def track_refused_def fail_def Let_def

lemma accepted_decision:
  assumes "gate_Accept now d peer sent g = (g', Some c)" shows "decision_ok (gt_trusted g) c"
proof (cases "List_Contains (gt_trusted g) peer")
  case True
  moreover from this have "peer \<noteq> AddrZero" by auto
  ultimately have "c = (accepted peer d sent)\<lparr>gc_balancer := peer, gc_deferToTLS := d\<rparr>"
    using assms by (simp add: gate_Accept_def)
  with True show ?thesis by (simp add: accepted_def decision_ok_def relayed_def)
next
  case False
  then obtain "c = (accepted peer d sent)\<lparr>gc_address := peer, gc_admitted := peer \<noteq> AddrZero \<and> Allows (gt_list g) peer, gc_pc := Tracking\<rparr>"
    and "peer \<noteq> AddrZero \<and> Allows (gt_list g) peer \<or> d"
    using assms by (auto simp: gate_Accept_def Let_def split: if_splits)
  with False show ?thesis by (simp add: accepted_def decision_ok_def relayed_def judged_def allowedBy_def entitled_def)
qed

lemma hidden_client_decision:
  assumes "decision_ok trusted c" "gc_pc c = ReadingHeader" "hidden_client now c1 g = (g', c')"
    and "c1 = c\<lparr>gc_reader := r, gc_connDeadline := gc_readDeadline c\<rparr>"
    and "\<And>l. entitled trusted l (gc_peer c) (gc_sent c) = hidden_allowed l (gc_peer c)"
  shows "decision_ok trusted c'"
proof -
  have bal: "gc_balancer c = gc_peer c" "gc_peer c \<noteq> AddrZero" using assms(1,2) by (auto simp: decision_ok_def relayed_def)
  have base: "decision_ok trusted (c1\<lparr>gc_address := gc_peer c, gc_pc := Judging\<rparr>)"
    "decision_ok trusted (fail err (c1\<lparr>gc_address := gc_peer c\<rparr>))" for err
    using assms(1,2) bal unfolding assms(4)
    by (simp_all add: decision_ok_def relayed_def judged_def allowedBy_def fail_def assms(5) hidden_allowed_def)
  have "c' = c1\<lparr>gc_address := gc_peer c, gc_pc := Judging\<rparr> \<or> c' = fail errClientAddressRefused (c1\<lparr>gc_address := gc_peer c\<rparr>)"
    using assms(3) bal(1) unfolding assms(4) by (auto simp: hidden_client_def Let_def split: if_splits)
  with base show ?thesis by blast
qed

lemma resolve_read_decision:
  assumes ok: "decision_ok trusted c" "gc_pc c = ReadingHeader" and run: "resolve_read now c g = (g', c')"
  shows "decision_ok trusted c'"
proof -
  obtain res r where pp: "pp_Read (gc_sent c) = (res, r)" by (meson surj_pair)
  define c1 where "c1 = c\<lparr>gc_reader := r, gc_connDeadline := gc_readDeadline c\<rparr>"
  have rel: "relayed trusted c" "gc_reader c = gc_sent c" "gc_balancer c = gc_peer c" using ok by (auto simp: decision_ok_def)
  have step: "resolve_header now res c1 g = (g', c')"
    using run pp by (simp add: resolve_read_def readProxyHeader_finish_def rel c1_def)
  note hidden = hidden_client_decision [OF ok _ c1_def, of now g g' c']
  show ?thesis
  proof (cases res)
    case (Inl e)
    show ?thesis
    proof (cases "e = ErrNoHeader")
      case True
      with hidden show ?thesis using step rel pp by (simp add: Inl resolve_header_def entitled_def relayed_def)
    next
      case False
      then have "\<exists>err. c' = fail err c1" using step by (auto simp: Inl resolve_header_def split: pp_error.splits)
      then show ?thesis using ok by (auto simp: decision_ok_def c1_def fail_def relayed_def)
    qed
  next
    case (Inr h)
    consider "ph_Local h" | "\<not> ph_Local h" "ph_Addr h \<noteq> AddrZero" | "\<not> ph_Local h" "ph_Addr h = AddrZero" by blast
    then show ?thesis
    proof cases
      case 1
      then show ?thesis using step ok pp
        by (auto simp: Inr resolve_header_def c1_def decision_ok_def relayed_def judged_def allowedBy_def entitled_def)
    next
      case 2
      then show ?thesis using step ok pp
        by (auto simp: Inr resolve_header_def c1_def decision_ok_def relayed_def judged_def allowedBy_def entitled_def)
    next
      case 3
      with hidden show ?thesis using step rel pp by (simp add: Inr resolve_header_def entitled_def relayed_def)
    qed
  qed
qed

lemma conn_step_decision:
  assumes "conn_step i (g, c) (g', c')" "decision_ok trusted c" shows "decision_ok trusted c'"
  using assms(1)
proof (cases rule: conn_step.cases)
  case (resolve_reads now)
  then show ?thesis using resolve_read_decision [OF assms(2)] by metis
next
  case (resolve_judges now)
  then show ?thesis using assms(2)
    by (auto simp: resolve_judge_def gate_op_defs decision_ok_def split: if_splits)
next
  case (guards now protos)
  then show ?thesis using assms(2)
    by (auto simp: guardTLS_def gate_op_defs decision_ok_def split: if_splits option.splits)
qed (use assms(2) in \<open>auto simp: gate_op_defs decision_ok_def split: gate_pc.splits if_splits\<close>)


section \<open>The open connections\<close>

definition close_pending :: "update_state \<Rightarrow> nat \<Rightarrow> bool" where
  "close_pending u i = (case u of NoUpdate \<Rightarrow> False | ListStored _ \<Rightarrow> True | ClosingRefused S \<Rightarrow> i \<in> S)"

definition tracking_ok :: "update_state \<Rightarrow> conn_gate \<Rightarrow> nat \<Rightarrow> gconn \<Rightarrow> bool" where
  "tracking_ok u g i c \<longleftrightarrow>
     (gc_pc c = Resolved \<and> gc_resolveErr c = None \<and> \<not> gc_closed c \<longrightarrow> i \<in> gt_open g)
     \<and> (i \<in> gt_open g \<and> gc_admitted c \<and> \<not> gc_closed c \<longrightarrow> allowedBy c (gt_list g) \<or> close_pending u i)
     \<and> (i \<in> gt_open g \<longrightarrow> gc_pc c = Resolved \<and> gc_resolveErr c = None)
     \<and> (gc_untracked c \<longrightarrow> gc_closed c \<and> i \<notin> gt_open g)"

definition stream_ok :: "ip_list \<Rightarrow> gconn \<Rightarrow> bool" where
  "stream_ok trusted c \<longleftrightarrow> gc_pc c \<in> {Unresolved, ReadingHeader}
     \<or> (if relayed trusted c then snd (pp_Read (gc_sent c)) else gc_sent c) = (gc_delivered c @ fst (gc_reader c), snd (gc_reader c))"

definition conn_inv :: "ip_list \<Rightarrow> gate_world \<Rightarrow> bool" where
  "conn_inv trusted w \<longleftrightarrow> gt_trusted (gw_gate w) = trusted
     \<and> (\<forall>l. gw_update w = ListStored l \<longrightarrow> gt_list (gw_gate w) = l)
     \<and> gt_open (gw_gate w) \<subseteq> dom (gw_conns w)
     \<and> (\<forall>i c. gw_conns w i = Some c \<longrightarrow>
          decision_ok trusted c \<and> stream_ok trusted c \<and> tracking_ok (gw_update w) (gw_gate w) i c)"

lemmas gate_change_defs = refuse_def header_problem_def untrack_def

lemma resolve_read_frame:
  assumes "resolve_read now c g = (g', c')"
  shows "gt_list g' = gt_list g \<and> gt_trusted g' = gt_trusted g \<and> gt_open g' = gt_open g"
    "gc_closed c' = gc_closed c \<and> gc_untracked c' = gc_untracked c \<and> gc_sent c' = gc_sent c \<and> gc_peer c' = gc_peer c
     \<and> gc_delivered c' = gc_delivered c \<and> gc_reader c' = snd (pp_Read (gc_reader c))
     \<and> (gc_pc c' = Judging \<or> gc_pc c' = Tracking \<or> gc_pc c' = Resolved \<and> gc_resolveErr c' \<noteq> None)"
  using assms by (auto simp: resolve_read_def readProxyHeader_finish_def resolve_header_def hidden_client_def fail_def Let_def gate_change_defs
      split: prod.splits sum.splits pp_error.splits if_splits)

lemma conn_step_frame:
  assumes "conn_step i (g, c) (g', c')"
  shows "gt_list g' = gt_list g \<and> gt_trusted g' = gt_trusted g \<and> (\<forall>j. j \<noteq> i \<longrightarrow> (j \<in> gt_open g') = (j \<in> gt_open g))"
  using assms
proof (cases rule: conn_step.cases)
  case (resolve_reads now)
  then show ?thesis using resolve_read_frame(1) [of now c g g' c'] by simp
qed (auto simp: gate_op_defs gate_change_defs resolve_judge_def guardTLS_def split: if_splits option.splits)

lemma conn_step_stream:
  assumes "conn_step i (g, c) (g', c')" "decision_ok trusted c" "stream_ok trusted c"
  shows "stream_ok trusted c'"
  using assms(1)
proof (cases rule: conn_step.cases)
  case (resolve_reads now)
  then have "gc_reader c = gc_sent c" "gc_delivered c = []" "relayed trusted c" using assms(2) by (auto simp: decision_ok_def)
  then show ?thesis using resolve_read_frame(2) [of now c g g' c'] resolve_reads by (simp add: stream_ok_def relayed_def)
next
  case (reads k)
  then show ?thesis using assms(3) by (auto simp: stream_ok_def gate_Read_def split: if_splits)
qed (use assms(3) in \<open>auto simp: stream_ok_def gate_op_defs resolve_judge_def guardTLS_def split: if_splits option.splits\<close>)

lemma tracking_keep:
  assumes "tracking_ok u g i c" "gt_list g' = gt_list g" "(i \<in> gt_open g') = (i \<in> gt_open g)"
    and "gc_pc c' = gc_pc c" "gc_resolveErr c' = gc_resolveErr c" "gc_admitted c' = gc_admitted c"
    and "gc_closed c \<Longrightarrow> gc_closed c'" "gc_untracked c' = gc_untracked c" "\<And>l. allowedBy c' l = allowedBy c l"
  shows "tracking_ok u g' i c'"
  using assms(1) unfolding tracking_ok_def assms(2-6,8,9) using assms(7) by blast

lemma conn_step_tracking:
  assumes "conn_step i (g, c) (g', c')" "decision_ok trusted c" "tracking_ok u g i c"
  shows "tracking_ok u g' i c'"
  using assms(1)
proof (cases rule: conn_step.cases)
  case (resolve_reads now)
  then show ?thesis using resolve_read_frame [of now c g g' c'] assms(3) by (auto simp: tracking_ok_def)
next
  case (guards now protos)
  then show ?thesis using assms(3)
    by (auto simp: tracking_ok_def guardTLS_def Let_def gate_change_defs split: if_splits option.splits)
next
  case (resolve_judges now)
  then show ?thesis using assms(3)
    by (simp add: tracking_ok_def resolve_judge_def fail_def Let_def gate_change_defs split: if_splits)
next
  case tracks
  then have "gc_resolveErr c = None" using assms(2) by (simp add: decision_ok_def judged_def)
  with tracks show ?thesis using assms(3)
    by (cases "\<not> gc_admitted c \<or> allowedBy c (gt_list g)"; cases "gc_closed c") (simp_all add: tracking_ok_def track_locked_def Let_def)
next
  case (resolve_starts limit)
  then have "gc_pc c = Unresolved" "g' = g" "c' = readProxyHeader_start limit c" by auto
  then show ?thesis using assms(3) by (simp add: tracking_ok_def readProxyHeader_start_def)
next
  case (track_refuses now)
  then show ?thesis using assms(3) by (simp add: tracking_ok_def track_refused_def conn_close_def gate_change_defs)
next
  case (reads k)
  then show ?thesis by (intro tracking_keep [OF assms(3)]) (auto simp: gate_Read_def)
next
  case (sets_deadline d)
  then show ?thesis by (intro tracking_keep [OF assms(3)]) (auto simp: SetReadDeadline_def)
next
  case closes
  then show ?thesis by (intro tracking_keep [OF assms(3)]) (auto simp: conn_close_def)
next
  case untracks
  then show ?thesis using assms(3) by (simp add: tracking_ok_def close_untrack_def untrack_def)
qed

lemma tracking_ok_other:
  "tracking_ok u g j c \<Longrightarrow> gt_list g' = gt_list g \<Longrightarrow> \<forall>j. j \<noteq> i \<longrightarrow> (j \<in> gt_open g') = (j \<in> gt_open g) \<Longrightarrow> j \<noteq> i \<Longrightarrow> tracking_ok u g' j c"
  unfolding tracking_ok_def by metis

lemma accept_frame:
  "gate_Accept now d peer sent g = (g', r) \<Longrightarrow> gt_list g' = gt_list g \<and> gt_trusted g' = gt_trusted g \<and> gt_open g' = gt_open g"
  by (auto simp: gate_Accept_def Let_def gate_change_defs split: if_splits)

lemma accepted_fresh:
  assumes "gate_Accept now d peer sent g = (g', Some c)" "i \<notin> gt_open g'"
  shows "tracking_ok u g' i c" "stream_ok (gt_trusted g) c"
  using assms by (auto simp: gate_Accept_def accepted_def tracking_ok_def stream_ok_def relayed_def Let_def split: if_splits)

lemma conn_invD:
  assumes "conn_inv trusted w"
  shows "gt_trusted (gw_gate w) = trusted" "gt_open (gw_gate w) \<subseteq> dom (gw_conns w)"
    "\<And>l. gw_update w = ListStored l \<Longrightarrow> gt_list (gw_gate w) = l"
    "\<And>i c. gw_conns w i = Some c \<Longrightarrow> decision_ok trusted c"
    "\<And>i c. gw_conns w i = Some c \<Longrightarrow> stream_ok trusted c"
    "\<And>i c. gw_conns w i = Some c \<Longrightarrow> tracking_ok (gw_update w) (gw_gate w) i c"
  using assms by (simp_all add: conn_inv_def)

text \<open>A step of the goroutine that changes the list: no connection changes.\<close>

lemma conn_inv_update:
  assumes "conn_inv trusted w" "gw_conns w' = gw_conns w" "gt_trusted (gw_gate w') = gt_trusted (gw_gate w)"
    and "gt_open (gw_gate w') = gt_open (gw_gate w)" "\<And>l. gw_update w' = ListStored l \<Longrightarrow> gt_list (gw_gate w') = l"
    and "\<And>i c. gw_conns w i = Some c \<Longrightarrow> i \<in> gt_open (gw_gate w) \<Longrightarrow> gc_admitted c \<Longrightarrow> \<not> gc_closed c \<Longrightarrow>
      allowedBy c (gt_list (gw_gate w)) \<or> close_pending (gw_update w) i \<Longrightarrow>
      allowedBy c (gt_list (gw_gate w')) \<or> close_pending (gw_update w') i"
  shows "conn_inv trusted w'"
proof -
  have "tracking_ok (gw_update w') (gw_gate w') i c" if "gw_conns w i = Some c" for i c
    using conn_invD(6) [OF assms(1) that] assms(6) [OF that] unfolding tracking_ok_def assms(4) by blast
  then show ?thesis using conn_invD(1,2,4,5) [OF assms(1)] assms(2-5) by (simp add: conn_inv_def)
qed

lemma conn_invI:
  assumes "conn_inv trusted w" "gw_conns w' = (gw_conns w)(i \<mapsto> c)" "gw_update w' = gw_update w"
    and "gt_list (gw_gate w') = gt_list (gw_gate w)" "gt_trusted (gw_gate w') = gt_trusted (gw_gate w)"
    and "\<forall>j. j \<noteq> i \<longrightarrow> (j \<in> gt_open (gw_gate w')) = (j \<in> gt_open (gw_gate w))"
    and "decision_ok trusted c" "stream_ok trusted c" "tracking_ok (gw_update w) (gw_gate w') i c"
  shows "conn_inv trusted w'"
proof -
  have "gt_open (gw_gate w') \<subseteq> dom (gw_conns w')" using assms(1,2,6) by (auto simp: conn_inv_def)
  moreover have "tracking_ok (gw_update w) (gw_gate w') j c'" if "gw_conns w' j = Some c'" for j c'
    using that assms(1,2,9) tracking_ok_other [OF _ assms(4,6)] by (auto simp: conn_inv_def split: if_splits)
  ultimately show ?thesis using assms by (auto simp: conn_inv_def split: if_splits)
qed

lemma gate_step_inv: "gate_step w w' \<Longrightarrow> conn_inv trusted w \<Longrightarrow> conn_inv trusted w'"
proof (induction rule: gate_step.induct)
  case (accept_refuses now d peer sent w g)
  show ?case
    by (rule conn_inv_update [OF accept_refuses(2)])
      (use accept_frame [OF accept_refuses(1)] conn_invD(3) [OF accept_refuses(2)] in simp_all)
next
  case (accepts now d peer sent w g c i)
  have "i \<notin> gt_open g" using conn_invD(2) [OF accepts(3)] accepts(2) accept_frame [OF accepts(1)] by (metis domIff subsetD)
  note fresh = accepted_fresh [OF accepts(1) this, unfolded conn_invD(1) [OF accepts(3)]]
  show ?case
    by (rule conn_invI [OF accepts(3) _ _ _ _ _ _ fresh(2)])
      (use accept_frame [OF accepts(1)] accepted_decision [OF accepts(1)] conn_invD(1) [OF accepts(3)] fresh(1) in simp_all)
next
  case (conn_moves w i c g c')
  note ok = conn_invD(4-6) [OF conn_moves(3,1)]
  show ?case
    by (rule conn_invI [OF conn_moves(3) _ _ _ _ _ conn_step_decision [OF conn_moves(2) ok(1)] conn_step_stream [OF conn_moves(2) ok(1,2)]])
      (simp_all, (use conn_step_frame [OF conn_moves(2)] conn_step_tracking [OF conn_moves(2) ok(1,3)] in blast)+)
next
  case (update_starts w l)
  show ?case by (rule conn_inv_update [OF update_starts(2)]) (simp_all add: update_store_def close_pending_def)
next
  case (update_collects w l)
  show ?case
    by (rule conn_inv_update [OF update_collects(2)])
      (use conn_invD(3) [OF update_collects(2,1)] in \<open>simp_all add: update_collect_def close_pending_def\<close>)
next
  case (update_closes w S i c)
  note ok = conn_invD(4-6) [OF update_closes(4,3)]
  have "decision_ok trusted (conn_close c)" "stream_ok trusted (conn_close c)"
    using ok(1,2) by (auto simp: decision_ok_def stream_ok_def conn_close_def split: gate_pc.splits)
  moreover have "tracking_ok (gw_update w) (gw_gate w) i (conn_close c)"
    by (rule tracking_keep [OF ok(3)]) (simp_all add: conn_close_def)
  ultimately show ?case by (intro conn_invI [OF update_closes(4), of _ i "conn_close c"]) simp_all
next
  case (update_closed w S i c)
  have "i \<notin> gt_open (gw_gate w)" using conn_invD(6) [OF update_closed(4,2)] update_closed(3) by (simp add: tracking_ok_def)
  then show ?case using update_closed(1) by (intro conn_inv_update [OF update_closed(4)]) (auto simp: close_pending_def)
next
  case (update_returns w)
  show ?case by (rule conn_inv_update [OF update_returns(2)]) (simp_all add: close_pending_def update_returns(1))
qed

lemma gate_reach_inv: "gate_reach l trusted w \<Longrightarrow> conn_inv trusted w"
  unfolding gate_reach_def
proof (induction rule: rtranclp_induct)
  case base
  show ?case by (simp add: gate_start_def conn_inv_def newConnectionGate_def)
next
  case (step w w')
  then show ?case by (blast intro: gate_step_inv)
qed

end
