(* ===== verification/Ip_Gate_Claims.thy ===== *)
theory Ip_Gate_Claims
  imports Ip_Gate_System
begin

text \<open>What the gate guarantees, over all interleavings and for one goroutine alone, and how it follows the stored list.\<close>

definition served :: "gconn \<Rightarrow> bool" where
  "served c \<longleftrightarrow> gc_pc c = Resolved \<and> gc_resolveErr c = None \<and> \<not> gc_closed c \<and> (gc_deferring c \<longrightarrow> gc_tls c = TlsPassed)"

text \<open>C33: whatever the interleaving of accepts, header reads, TLS handshakes, reads, closes and list changes: when no list
change is under way, every connection that is open to requests belongs to a client that the list in effect
entitles.  The client is the TCP peer, unless the peer is a trusted load balancer: then it is the source its PROXY
header names; a load balancer that names no client is judged itself, without the loopback exception, and one
whose header is invalid is never served.  What the application has read is a prefix of what the client sent after the header.\<close>

theorem open_clients_are_entitled:
  assumes "gate_reach l0 trusted w" and "gw_update w = NoUpdate" and "gw_conns w i = Some c" and "served c"
  shows "entitled trusted (gt_list (gw_gate w)) (gc_peer c) (gc_sent c)
    \<and> prefix (gc_delivered c) (fst (if List_Contains trusted (gc_peer c) then snd (pp_Read (gc_sent c)) else gc_sent c))"
proof -
  note inv = conn_invD(4-6) [OF gate_reach_inv [OF assms(1)] assms(3)]
  have c: "gc_pc c = Resolved" "gc_resolveErr c = None" "\<not> gc_closed c" "gc_deferring c \<longrightarrow> gc_tls c = TlsPassed"
    using assms(4) by (auto simp: served_def)
  then have "gc_admitted c" "judged trusted c" using inv(1) by (auto simp: decision_ok_def)
  moreover have "allowedBy c (gt_list (gw_gate w))"
    using inv(3) c calculation(1) assms(2) by (simp add: tracking_ok_def close_pending_def)
  ultimately show ?thesis using inv(2) c(1) by (auto simp: judged_def stream_ok_def relayed_def split: if_splits)
qed

section \<open>The decision of one goroutine\<close>

text \<open>Once \<open>Close\<close> has returned the connection is not in the table, and never comes back.\<close>

lemma closed_connections_are_forgotten:
  assumes "gate_reach l0 trusted w" "gw_conns w i = Some c" "gc_untracked c"
  shows "i \<notin> gt_open (gw_gate w) \<and> gc_closed c"
  using conn_invD(6) [OF gate_reach_inv [OF assms(1)] assms(2)] assms(3) unfolding tracking_ok_def by blast

lemma resolve_read_refuses:
  assumes "decision_ok trusted c" "gc_pc c = ReadingHeader" "resolve_read now c g = (g', c')" "gc_pc c' = Resolved"
  shows "\<not> entitled trusted (gt_list g) (gc_peer c) (gc_sent c) \<and> gc_connClosed c'"
proof -
  obtain res r where pp: "pp_Read (gc_sent c) = (res, r)" by (meson surj_pair)
  have "relayed trusted c" "gc_reader c = gc_sent c" "gc_balancer c = gc_peer c" using assms(1,2) by (auto simp: decision_ok_def)
  then show ?thesis using assms(3,4) pp
    by (auto simp: resolve_read_def readProxyHeader_finish_def resolve_header_def hidden_client_def header_problem_def fail_def Let_def
        entitled_def hidden_allowed_def relayed_def split: sum.splits pp_error.splits if_splits)
qed

lemma resolve_read_keeps:
  assumes "resolve_read now c g = (g', c')"
  shows "gc_peer c' = gc_peer c" "gc_sent c' = gc_sent c" "gc_deferring c' = gc_deferring c" "gc_closed c' = gc_closed c"
    "gc_deferToTLS c' = gc_deferToTLS c" "gc_pc c' = Tracking \<Longrightarrow> gc_pc c \<noteq> Tracking \<Longrightarrow> gc_balancerOwn c' \<and> gc_admitted c'"
  using assms by (auto simp: resolve_read_def readProxyHeader_finish_def resolve_header_def hidden_client_def fail_def Let_def
      split: prod.splits sum.splits pp_error.splits if_splits)

text \<open>Where \<open>Accept\<close> and \<open>resolve\<close> leave a connection: decided, except that a listener which defers to TLS
  keeps a client that the list does not allow, until the handshake.\<close>

definition decided :: "nat \<Rightarrow> bool \<Rightarrow> conn_gate \<Rightarrow> gconn \<Rightarrow> bool" where
  "decided i yes g c \<longleftrightarrow> gc_pc c = Resolved \<and> \<not> gc_closed c \<and>
     (if yes then i \<in> gt_open g \<and> gc_resolveErr c = None \<and> gc_admitted c
      else if gc_resolveErr c \<noteq> None then i \<notin> gt_open g \<and> gc_connClosed c
      else gc_deferring c \<and> \<not> gc_admitted c \<and> \<not> allowedBy c (gt_list g))"

lemma track_decides:
  assumes "judged trusted c" "gc_admitted c = allowedBy c (gt_list g)" "gc_admitted c \<or> gc_deferring c" "\<not> gc_closed c"
    "track now i c g = (g', c')"
  shows "decided i (entitled trusted (gt_list g) (gc_peer c) (gc_sent c)) g' c' \<and> gc_deferring c' = gc_deferring c"
proof -
  have "track now i c g = (g\<lparr>gt_open := insert i (gt_open g)\<rparr>, c\<lparr>gc_pc := Resolved\<rparr>)"
    using assms(2,4) by (cases "gc_admitted c") (simp_all add: track_def track_locked_def Let_def)
  moreover have "gc_resolveErr c = None" "allowedBy c (gt_list g) = entitled trusted (gt_list g) (gc_peer c) (gc_sent c)"
    using assms(1) by (simp_all add: judged_def)
  ultimately show ?thesis using assms(2-5) by (auto simp: decided_def)
qed

lemma resolve_decides:
  assumes ok: "decision_ok trusted c" "gc_pc c = Unresolved" and c: "\<not> gc_closed c" and i: "i \<notin> gt_open g"
    and run: "resolve limit now i c g = (g', c')"
  shows "decided i (entitled trusted (gt_list g) (gc_peer c) (gc_sent c)) g' c' \<and> gc_deferring c' = gc_deferring c"
proof -
  define c0 where "c0 = readProxyHeader_start limit c"
  obtain g1 c1 where read: "resolve_read now c0 g = (g1, c1)" by (meson surj_pair)
  have c0: "decision_ok trusted c0" "gc_pc c0 = ReadingHeader" "gc_peer c0 = gc_peer c" "gc_sent c0 = gc_sent c"
      "gc_deferring c0 = gc_deferring c" "\<not> gc_closed c0"
    using conn_step_decision [OF resolve_starts [OF ok(2)] ok(1)] c by (simp_all add: c0_def readProxyHeader_start_def)
  have c1: "decision_ok trusted c1" "gc_peer c1 = gc_peer c" "gc_sent c1 = gc_sent c" "gc_deferring c1 = gc_deferring c" "\<not> gc_closed c1"
    using resolve_read_decision [OF c0(1,2) read] resolve_read_keeps [OF read] c0 by auto
  then have dtls: "gc_deferToTLS c1 \<longrightarrow> gc_deferring c" by (simp add: decision_ok_def)
  have g1: "gt_list g1 = gt_list g" "i \<notin> gt_open g1" using resolve_read_frame(1) [OF read] i by auto
  have run': "(case (if gc_pc c1 = Judging then resolve_judge now c1 g1 else (g1, c1)) of (g2, c2) \<Rightarrow>
      if gc_pc c2 = Tracking then track now i c2 g2 else (g2, c2)) = (g', c')"
    using run ok(2) read by (simp add: resolve_def c0_def)
  consider "gc_pc c1 = Judging" | "gc_pc c1 = Tracking" | "gc_pc c1 = Resolved" "gc_resolveErr c1 \<noteq> None"
    using resolve_read_frame(2) [OF read] by blast
  then show ?thesis
  proof cases
    case 1
    then have j: "judged trusted c1" using c1(1) by (simp add: decision_ok_def)
    show ?thesis
    proof (cases "allowedBy c1 (gt_list g1) \<or> gc_deferToTLS c1")
      case True
      then show ?thesis using run' 1 j c1 g1 dtls
          track_decides [of trusted "c1\<lparr>gc_admitted := allowedBy c1 (gt_list g1), gc_pc := Tracking\<rparr>" g1 now i g' c']
        by (auto simp add: resolve_judge_def Let_def)
    next
      case False
      then have "(g', c') = (refuse now (gc_address c1) g1, fail errClientAddressRefused c1)"
        using run' 1 by (simp add: resolve_judge_def Let_def fail_def)
      then show ?thesis using False j g1 c1 by (simp add: decided_def judged_def fail_def refuse_def)
    qed
  next
    case 2
    then have "judged trusted c1" using c1 by (simp add: decision_ok_def)
    moreover have "gc_admitted c1" "allowedBy c1 (gt_list g1)" using resolve_read_keeps(6) [OF read 2] c0(2) by (simp_all add: allowedBy_def)
    ultimately show ?thesis using run' 2 c1 g1 track_decides [of trusted c1 g1 now i g' c'] by simp
  next
    case 3
    then show ?thesis using run' resolve_read_refuses [OF c0(1,2) read] c0(3,4) g1 c1 by (simp add: decided_def)
  qed
qed

lemma admit_decides:
  assumes "admit limit now i d peer sent g = (g', r)" and "i \<notin> gt_open g"
  shows "(case r of None \<Rightarrow> \<not> entitled (gt_trusted g) (gt_list g) peer sent \<and> i \<notin> gt_open g'
    | Some c \<Rightarrow> decided i (entitled (gt_trusted g) (gt_list g) peer sent) g' c \<and> gc_deferring c = d)"
proof -
  obtain g1 r1 where acc: "gate_Accept now d peer sent g = (g1, r1)" by (meson surj_pair)
  show ?thesis
  proof (cases r1)
    case None
    then have "\<not> entitled (gt_trusted g) (gt_list g) peer sent"
      using acc by (auto simp: gate_Accept_def entitled_def Let_def split: if_splits)
    then show ?thesis using assms acc accept_frame [OF acc] by (auto simp: admit_def None)
  next
    case (Some c)
    note dec = accepted_decision [OF acc [unfolded Some]]
    have c: "gc_peer c = peer" "gc_sent c = sent" "gc_deferring c = d" "\<not> gc_closed c" "g1 = g"
      "gc_pc c = Tracking \<and> gc_admitted c = allowedBy c (gt_list g) \<and> (gc_admitted c \<or> d) \<or> gc_pc c = Unresolved"
      using acc by (auto simp: Some gate_Accept_def accepted_def allowedBy_def Let_def split: if_splits)
    obtain c' where r: "r = Some c'" "(if gc_pc c = Tracking then track now i c g else resolve limit now i c g) = (g', c')"
      using assms(1) acc by (auto simp: admit_def Some c(5) split: prod.splits)
    show ?thesis
    proof (cases "gc_pc c = Tracking")
      case True
      then show ?thesis using track_decides [of "gt_trusted g" c g now i g' c'] dec c r by (auto simp: decision_ok_def)
    next
      case False
      then show ?thesis using resolve_decides [OF dec _ c(4) assms(2), of limit now g' c'] c r by simp
    qed
  qed
qed

text \<open>C34: without interference the gate implements the contract in both directions.  A new connection is tracked and
open to requests exactly when its client is entitled.  Otherwise a listener that does not defer to TLS disconnects
it, never tracks it, and every read on it fails; one that defers keeps it open for the TLS handshake at most,
unless its header already shut it out, and the handshake is refused, except that of a client which offers the ACME
protocol alone: that one may finish, but is still not open to requests.\<close>

theorem gate_decides_exactly:
  assumes "connect limit now i deferToTLS protos peer sent g = (g', r)" and "i \<notin> gt_open g"
  shows "if entitled (gt_trusted g) (gt_list g) peer sent then i \<in> gt_open g' \<and> (\<exists>c. r = Some c \<and> served c)
    else (case r of None \<Rightarrow> i \<notin> gt_open g'
      | Some c \<Rightarrow> \<not> served c \<and>
          (if deferToTLS \<and> gc_resolveErr c = None then gc_tls c = (if protos = [acmeTLSALPNProtocol] then TlsAcme else TlsRefused)
           else i \<notin> gt_open g' \<and> gc_connClosed c \<and> gc_resolveErr c \<noteq> None \<and> (deferToTLS \<longrightarrow> gc_tls c = TlsRefused)))"
proof -
  obtain g1 r1 where adm: "admit limit now i deferToTLS peer sent g = (g1, r1)" by (meson surj_pair)
  note dec = admit_decides [OF adm assms(2)]
  show ?thesis
  proof (cases r1)
    case None
    then show ?thesis using assms(1) adm dec by (simp add: connect_def)
  next
    case (Some c)
    then show ?thesis using assms(1) adm dec
      by (auto simp: connect_def guardTLS_def decided_def served_def refuse_def Let_def split: if_splits option.splits)
  qed
qed

section \<open>Following the stored list\<close>

definition gate_list_after :: "ip_list option \<Rightarrow> ip_list \<Rightarrow> ip_list" where
  "gate_list_after upd l = (case upd of None \<Rightarrow> l | Some l' \<Rightarrow> l')"

text \<open>A save that reads a list another process stored, under the revision it was asked to replace, and cannot write.\<close>

definition fails_on_changed_file :: "bool \<Rightarrow> int \<Rightarrow> file_state \<Rightarrow> al_snapshot \<Rightarrow> bool" where
  "fails_on_changed_file io expected f current \<longleftrightarrow> \<not> io
     \<and> (case readSnapshot f of Inl _ \<Rightarrow> False | Inr s \<Rightarrow> as_Revision s = expected \<and> as_List s \<noteq> as_List current)"

text \<open>C35: a reload keeps the gate on the list that the store calls current, and so does a save, exactly unless it
fails to write after it has read a list that another process stored: then the store's current list is the one on
disk, the gate keeps the old one, and the reloads that follow do not put it right while the file stays as it is.\<close>

theorem gate_follows_store:
  assumes "allowlist_Replace io now expected l f current = (f', current', res, upd)"
    and "allowlist_reload f\<^sub>2 current\<^sub>2 = (current\<^sub>2', upd\<^sub>2)"
  shows "gate_list_after upd\<^sub>2 (as_List current\<^sub>2) = as_List current\<^sub>2'
    \<and> (gate_list_after upd (as_List current) = as_List current' \<longleftrightarrow> \<not> fails_on_changed_file io expected f current)
    \<and> (fails_on_changed_file io expected f current \<longrightarrow> allowlist_reload f' current' = (current', None))"
proof (intro conjI)
  show "gate_list_after upd\<^sub>2 (as_List current\<^sub>2) = as_List current\<^sub>2'" using assms(2)
    by (auto simp: allowlist_reload_def Store_Reload_def Snapshot_same_def gate_list_after_def split: sum.splits bool.splits)
  show "gate_list_after upd (as_List current) = as_List current' \<longleftrightarrow> \<not> fails_on_changed_file io expected f current"
    and "fails_on_changed_file io expected f current \<longrightarrow> allowlist_reload f' current' = (current', None)"
    using assms(1)
    by (auto simp: allowlist_Replace_def Store_Replace_def Replace_read_def Replace_write_def writeSnapshot_def gate_list_after_def
        fails_on_changed_file_def allowlist_reload_def Store_Reload_def Snapshot_same_def split: sum.splits if_splits)
qed

end
