(* ===== verification/Ip_Gate_Demo.thy ===== *)
theory Ip_Gate_Demo
  imports Ip_Gate_Claims
begin

text \<open>Runs of the gate on concrete lists, addresses and bytes.\<close>

section \<open>Lists and clients\<close>

definition office :: ip_list where
  "office = [\<lparr> pn_addr = Addr4 0xCB007100, pn_bits = 24 \<rparr>]"

definition elsewhere :: ip_list where
  "elsewhere = [\<lparr> pn_addr = Addr4 0xC6336400, pn_bits = 24 \<rparr>]"

definition balancers :: ip_list where
  "balancers = [\<lparr> pn_addr = Addr4 0x0A000000, pn_bits = 8 \<rparr>]"

definition client :: addr where
  "client = Addr4 0xCB007109"

definition balancer :: addr where
  "balancer = Addr4 0x0A000001"

lemma demo_lists [simp]:
  "List_Contains office client" "\<not> List_Contains elsewhere client" "\<not> List_Contains balancers client"
  "List_Contains balancers balancer" "\<not> List_Contains office balancer" "\<not> List_Contains elsewhere balancer"
  "\<not> IsLoopback client" "client \<noteq> AddrZero" "balancer \<noteq> AddrZero"
  by (simp_all add: List_Contains_def office_def elsewhere_def balancers_def client_def balancer_def Prefix_Contains_def)

lemma demo_allows [simp]: "Allows office client" "\<not> Allows elsewhere client" "Allows [] client"
  by (simp_all add: Allows_def) (simp_all add: client_def office_def elsewhere_def List_Contains_def Prefix_Contains_def)

section \<open>A direct client\<close>

definition direct_conn :: gconn where
  "direct_conn = (accepted client False (''GET /'', ReadEOF))\<lparr>gc_address := client, gc_admitted := True, gc_pc := Tracking\<rparr>"

definition direct_world :: gate_world where
  "direct_world = \<lparr> gw_gate = (newConnectionGate office balancers)\<lparr>gt_open := {0}\<rparr>,
     gw_conns = [0 \<mapsto> direct_conn\<lparr>gc_pc := Resolved\<rparr>], gw_update = NoUpdate \<rparr>"

lemma direct_reached: "gate_reach office balancers direct_world"
proof -
  have "gate_Accept 0 False client (''GET /'', ReadEOF) (newConnectionGate office balancers)
      = (newConnectionGate office balancers, Some direct_conn)"
    by (simp add: gate_Accept_def newConnectionGate_def direct_conn_def)
  from accepts [where w = "gate_start office balancers" and i = 0, unfolded gate_start_def, simplified, OF this]
  have 1: "gate_step (gate_start office balancers)
      \<lparr> gw_gate = newConnectionGate office balancers, gw_conns = [0 \<mapsto> direct_conn], gw_update = NoUpdate \<rparr>"
    by (simp add: gate_start_def)
  have "conn_step 0 (newConnectionGate office balancers, direct_conn) (track_locked 0 direct_conn (newConnectionGate office balancers))"
    by (rule tracks) (simp add: direct_conn_def)
  also have "track_locked 0 direct_conn (newConnectionGate office balancers)
      = ((newConnectionGate office balancers)\<lparr>gt_open := {0}\<rparr>, direct_conn\<lparr>gc_pc := Resolved\<rparr>)"
    by (simp add: track_locked_def direct_conn_def accepted_def allowedBy_def newConnectionGate_def)
  finally have "gate_step \<lparr> gw_gate = newConnectionGate office balancers, gw_conns = [0 \<mapsto> direct_conn], gw_update = NoUpdate \<rparr> direct_world"
    using conn_moves [of "\<lparr> gw_gate = newConnectionGate office balancers, gw_conns = [0 \<mapsto> direct_conn], gw_update = NoUpdate \<rparr>" 0 direct_conn]
    by (simp add: direct_world_def)
  with 1 show ?thesis unfolding gate_reach_def by (meson rtranclp.rtrancl_into_rtrancl rtranclp.rtrancl_refl)
qed

theorem open_clients_are_entitled_witness:
  "gate_reach office balancers direct_world \<and> served (direct_conn\<lparr>gc_pc := Resolved\<rparr>)
   \<and> entitled balancers office client (''GET /'', ReadEOF)"
  using open_clients_are_entitled [OF direct_reached, of 0 "direct_conn\<lparr>gc_pc := Resolved\<rparr>"] direct_reached
  by (simp add: direct_world_def direct_conn_def accepted_def served_def newConnectionGate_def)

section \<open>A relayed client\<close>

definition relay_bytes :: string where
  "relay_bytes = v1_header client balancer 51234 443 @ ''GET /''"

lemma relay_read: "pp_Read (relay_bytes, ReadEOF) = (Inr (from_source client 51234), (''GET /'', ReadEOF))"
  unfolding relay_bytes_def by (rule v1_read_back) (simp_all add: canonical_addr_def client_def balancer_def)

theorem gate_decides_exactly_witness:
  "\<not> entitled balancers elsewhere balancer (relay_bytes, ReadEOF)
   \<and> 0 \<notin> gt_open (fst (connect 0 0 0 False [] balancer (relay_bytes, ReadEOF) (newConnectionGate elsewhere balancers)))
   \<and> (\<exists>c. snd (connect 0 0 0 True [acmeTLSALPNProtocol] client (''GET /'', ReadEOF) (newConnectionGate elsewhere balancers)) = Some c
        \<and> gc_tls c = TlsAcme \<and> \<not> served c)"
proof -
  let ?g = "newConnectionGate elsewhere balancers" and ?relay = "(relay_bytes, ReadEOF)" and ?get = "(''GET /'', ReadEOF)"
  have no: "\<not> entitled balancers elsewhere balancer ?relay" "\<not> entitled balancers elsewhere client ?get"
    by (simp_all add: entitled_def relay_read from_source_def)
  have "0 \<notin> gt_open (fst (connect 0 0 0 False [] balancer ?relay ?g))"
    using gate_decides_exactly [OF prod.collapse [symmetric], where limit = 0 and now = 0 and i = 0 and deferToTLS = False and protos = "[]" and peer = balancer and sent = ?relay and g = ?g] no
    by (simp add: newConnectionGate_def split: option.splits)
  moreover obtain c where c: "snd (connect 0 0 0 True [acmeTLSALPNProtocol] client ?get ?g) = Some c" "gc_resolveErr c = None"
    by (simp add: connect_def admit_def gate_Accept_def newConnectionGate_def accepted_def track_def track_locked_def guardTLS_def allowedBy_def)
  moreover have "gc_tls c = TlsAcme \<and> \<not> served c"
    using gate_decides_exactly [OF prod.collapse [symmetric], where limit = 0 and now = 0 and i = 0 and deferToTLS = True and protos = "[acmeTLSALPNProtocol]" and peer = client and sent = ?get and g = ?g] no c
    by (simp add: newConnectionGate_def)
  ultimately show ?thesis using no by blast
qed

text \<open>A list change between the decision and \<open>track\<close>: \<open>track\<close> closes the connection, \<open>resolve\<close> still reports no
  error, and what the buffer holds of the refused client's request is handed to the application.\<close>

definition one_conn :: "ip_list \<Rightarrow> conn_gate \<Rightarrow> gconn \<Rightarrow> update_state \<Rightarrow> bool" where
  "one_conn l g c u \<longleftrightarrow> gate_reach l balancers \<lparr> gw_gate = g, gw_conns = [0 \<mapsto> c], gw_update = u \<rparr>"

lemma one_conn_moves: "one_conn l g c u \<Longrightarrow> conn_step 0 (g, c) (g', c') \<Longrightarrow> one_conn l g' c' u"
  using conn_moves [of "\<lparr> gw_gate = g, gw_conns = [0 \<mapsto> c], gw_update = u \<rparr>" 0 c g' c']
  by (simp add: one_conn_def gate_reach_def rtranclp.rtrancl_into_rtrancl)

lemma one_conn_update: "one_conn l g c NoUpdate \<Longrightarrow> one_conn l (g\<lparr>gt_list := l'\<rparr>) c (ListStored l')"
  using update_starts [of "\<lparr> gw_gate = g, gw_conns = [0 \<mapsto> c], gw_update = NoUpdate \<rparr>" l']
  by (simp add: one_conn_def gate_reach_def update_store_def rtranclp.rtrancl_into_rtrancl)

definition relay_conn :: gconn where
  "relay_conn = (accepted balancer False (relay_bytes, ReadEOF))\<lparr>gc_balancer := balancer\<rparr>"

lemma relay_accepted: "one_conn [] (newConnectionGate [] balancers) relay_conn NoUpdate"
proof -
  have acc: "gate_Accept 0 False balancer (relay_bytes, ReadEOF) (gw_gate (gate_start [] balancers))
      = (newConnectionGate [] balancers, Some relay_conn)"
    by (simp add: gate_Accept_def gate_start_def newConnectionGate_def relay_conn_def accepted_def)
  have "gw_conns (gate_start [] balancers) 0 = None" by (simp add: gate_start_def)
  then show ?thesis using accepts [OF acc] by (simp add: one_conn_def gate_reach_def gate_start_def r_into_rtranclp)
qed

definition relay_judged :: gconn where
  "relay_judged = relay_conn\<lparr>gc_reader := (''GET /'', ReadEOF), gc_address := client, gc_source := (client, 51234),
     gc_admitted := True, gc_pc := Tracking\<rparr>"

lemma relay_admitted: "one_conn [] (newConnectionGate [] balancers) relay_judged NoUpdate"
proof -
  let ?g = "newConnectionGate [] balancers"
  define c1 where "c1 = readProxyHeader_start 5 relay_conn"
  define c2 where "c2 = relay_judged\<lparr>gc_admitted := False, gc_pc := Judging\<rparr>"
  have "one_conn [] ?g c1 NoUpdate" unfolding c1_def
    by (rule one_conn_moves [OF relay_accepted resolve_starts]) (simp add: relay_conn_def accepted_def)
  moreover have "resolve_read 0 c1 ?g = (?g, c2)"
    by (simp add: resolve_read_def readProxyHeader_finish_def c1_def c2_def readProxyHeader_start_def relay_judged_def relay_conn_def accepted_def
        relay_read resolve_header_def from_source_def) (simp add: client_def)
  then have "conn_step 0 (?g, c1) (?g, c2)" using resolve_reads [of c1 0 ?g 0] by (simp add: c1_def readProxyHeader_start_def)
  moreover have "resolve_judge 0 c2 ?g = (?g, relay_judged)"
    by (simp add: resolve_judge_def c2_def relay_judged_def relay_conn_def accepted_def allowedBy_def newConnectionGate_def)
  then have "conn_step 0 (?g, c2) (?g, relay_judged)" using resolve_judges [of c2 0 ?g 0] by (simp add: c2_def)
  ultimately show ?thesis by (blast intro: one_conn_moves)
qed

theorem refused_request_is_delivered:
  "\<exists>w c. gate_reach [] balancers w \<and> gw_conns w 0 = Some c \<and> gc_closed c \<and> 0 \<notin> gt_open (gw_gate w)
     \<and> \<not> entitled balancers (gt_list (gw_gate w)) (gc_peer c) (gc_sent c) \<and> gc_delivered c = ''GET /''"
proof -
  define g where "g = (newConnectionGate [] balancers)\<lparr>gt_list := elsewhere\<rparr>"
  define c1 where "c1 = relay_judged\<lparr>gc_pc := Refusing\<rparr>"
  define c2 where "c2 = relay_judged\<lparr>gc_closed := True, gc_connClosed := True, gc_pc := Resolved\<rparr>"
  have "one_conn [] g relay_judged (ListStored elsewhere)" unfolding g_def by (rule one_conn_update [OF relay_admitted])
  moreover have "track_locked 0 relay_judged g = (g, c1)"
    by (simp add: track_locked_def relay_judged_def relay_conn_def accepted_def allowedBy_def g_def c1_def newConnectionGate_def)
  then have "conn_step 0 (g, relay_judged) (g, c1)" using tracks [of relay_judged 0 g] by (simp add: relay_judged_def)
  moreover have "conn_step 0 (g, c1) (refuse 0 client g, c2)"
    using track_refuses [of c1 0 g 0] by (simp add: c1_def c2_def track_refused_def conn_close_def relay_judged_def)
  moreover have "conn_step 0 (refuse 0 client g, c2) (refuse 0 client g, gate_Read 5 c2)"
    by (rule reads) (simp_all add: c2_def relay_judged_def relay_conn_def accepted_def)
  ultimately have "one_conn [] (refuse 0 client g) (gate_Read 5 c2) (ListStored elsewhere)" by (blast intro: one_conn_moves)
  moreover have "\<not> entitled balancers elsewhere balancer (relay_bytes, ReadEOF)" by (simp add: entitled_def relay_read from_source_def)
  ultimately show ?thesis
    by (intro exI [of _ "\<lparr> gw_gate = refuse 0 client g, gw_conns = [0 \<mapsto> gate_Read 5 c2], gw_update = ListStored elsewhere \<rparr>"] exI [of _ "gate_Read 5 c2"])
      (simp add: one_conn_def gate_Read_def c2_def relay_judged_def relay_conn_def accepted_def refuse_def g_def newConnectionGate_def)
qed

section \<open>A save that fails\<close>

definition stored_revision :: "int \<Rightarrow> ip_list \<Rightarrow> al_snapshot" where
  "stored_revision r l = \<lparr> as_Revision = r, as_List = l, as_UpdatedAt = Some 0 \<rparr>"

lemma cleared_file: "readSnapshot (stored (stored_revision 1 [])) = Inr (stored_revision 1 [])"
  by (rule read_written) (simp add: snapshot_ok_def stored_revision_def empty_list_ok four_digit_year_def maxInt64_def)

theorem gate_follows_store_witness:
  "fails_on_changed_file False 1 (stored (stored_revision 1 [])) (stored_revision 1 office)
   \<and> allowlist_reload (stored (stored_revision 1 [])) (stored_revision 1 []) = (stored_revision 1 [], None)"
proof -
  let ?f = "stored (stored_revision 1 [])"
  have fails: "fails_on_changed_file False 1 ?f (stored_revision 1 office)"
    by (simp add: fails_on_changed_file_def cleared_file) (simp add: stored_revision_def office_def)
  have rep: "allowlist_Replace False 0 1 elsewhere ?f (stored_revision 1 office) = (?f, stored_revision 1 [], Inl ErrStoreIO, None)"
    by (simp add: allowlist_Replace_def Store_Replace_def Replace_read_def Replace_write_def writeSnapshot_def cleared_file)
      (simp add: stored_revision_def)
  have "allowlist_reload ?f (stored_revision 1 office) = (stored_revision 1 [], Some [])"
    by (simp add: allowlist_reload_def Store_Reload_def cleared_file Snapshot_same_def) (simp add: stored_revision_def office_def)
  from gate_follows_store [OF rep this] fails show ?thesis by blast
qed

end
