(* ===== verification/Evidence_Chunk.thy ===== *)
theory Evidence_Chunk
  imports Go_Prelude
begin

unbundle bit_operations_syntax

text \<open>
  Content-defined chunks (\<open>src/internal/evidencechunk/chunk.go\<close>): where a body is cut depends on the bytes around
  the cut and not on their position, so that bodies with common content share chunks.
\<close>

section \<open>The code\<close>

definition MinimumBytes :: nat where "MinimumBytes = 2048"

definition AverageBytes :: nat where "AverageBytes = 8192"

definition MaximumBytes :: nat where "MaximumBytes = 65536"

definition maskBelowAverage :: "64 word" where "maskBelowAverage = 0x0003590703530000"

definition maskAboveAverage :: "64 word" where "maskAboveAverage = 0x0000d90003530000"

definition golden :: "64 word" where "golden = 0x9E3779B97F4A7C15"

definition mix :: "64 word \<Rightarrow> 64 word" where
  "mix s =
     (let m1 = (s XOR drop_bit 30 s) * 0xBF58476D1CE4E5B9;
          m2 = (m1 XOR drop_bit 27 m1) * 0x94D049BB133111EB
      in m2 XOR drop_bit 31 m2)"

fun buildGear :: "nat \<Rightarrow> 64 word \<Rightarrow> (64 word) list" where
  "buildGear 0 s = []"
| "buildGear (Suc n) s = mix (s + golden) # buildGear n (s + golden)"

definition gear :: "char \<Rightarrow> 64 word" where
  "gear c = buildGear 256 golden ! of_char c"

text \<open>The loop of \<open>boundary\<close> from an index on, over the bytes up to the limit.\<close>

definition cut_mask :: "nat \<Rightarrow> 64 word" where
  "cut_mask i = (if i < AverageBytes then maskBelowAverage else maskAboveAverage)"

definition roll :: "64 word \<Rightarrow> char \<Rightarrow> 64 word" where
  "roll h c = push_bit 1 h + gear c"

fun scan :: "nat \<Rightarrow> 64 word \<Rightarrow> string \<Rightarrow> nat" where
  "scan i h [] = i"
| "scan i h (c # cs) = (if roll h c AND cut_mask i = 0 then i + 1 else scan (i + 1) (roll h c) cs)"

definition boundary :: "string \<Rightarrow> nat" where
  "boundary d =
     (if length d \<le> MinimumBytes then length d
      else (let limit = min (length d) MaximumBytes in scan MinimumBytes 0 (drop MinimumBytes (take limit d))))"

lemma scan_range: "i \<le> scan i h cs \<and> scan i h cs \<le> i + length cs \<and> (cs \<noteq> [] \<longrightarrow> i < scan i h cs)"
proof (induction cs arbitrary: i h)
  case (Cons c cs)
  show ?case using Cons [of "i + 1" "roll h c"] by auto
qed simp

lemma boundary_range:
  "boundary d \<le> length d" "boundary d \<le> MaximumBytes" "d \<noteq> [] \<Longrightarrow> 0 < boundary d"
  "MinimumBytes < length d \<Longrightarrow> MinimumBytes < boundary d"
  using scan_range [of MinimumBytes 0 "drop MinimumBytes (take (min (length d) MaximumBytes) d)"]
  by (auto simp: boundary_def Let_def MinimumBytes_def MaximumBytes_def min_def split: if_splits)

function Split :: "string \<Rightarrow> string list" where
  "Split d = (if d = [] then [] else take (boundary d) d # Split (drop (boundary d) d))"
  by auto
termination by (relation "measure length") (use boundary_range(3) in auto)

declare Split.simps [simp del]

lemma Split_Nil [simp]: "Split [] = []"
  by (simp add: Split.simps)

lemma Split_step: "d \<noteq> [] \<Longrightarrow> Split d = take (boundary d) d # Split (drop (boundary d) d)"
  by (subst Split.simps) simp

section \<open>Size and number of chunks\<close>

lemma concat_Split: "concat (Split d) = d"
proof (induction d rule: Split.induct)
  case (1 d)
  then show ?case by (subst Split.simps) auto
qed

lemma Split_sizes: "list_all (\<lambda>c. 1 \<le> length c \<and> length c \<le> MaximumBytes) (Split d)"
proof (induction d rule: Split.induct)
  case (1 d)
  show ?case using 1 boundary_range(1-3) [of d] by (subst Split.simps) (auto simp: Suc_le_eq)
qed

lemma Split_nonempty [simp]: "Split d = [] \<longleftrightarrow> d = []"
  by (cases "d = []") (auto simp: Split_step)

lemma Split_minimum: "list_all (\<lambda>c. MinimumBytes < length c) (butlast (Split d))"
proof (induction d rule: Split.induct)
  case (1 d)
  show ?case
  proof (cases "drop (boundary d) d = []")
    case True
    then show ?thesis by (subst Split.simps) simp
  next
    case False
    then have "d \<noteq> []" "boundary d < length d" by auto
    moreover from this have "MinimumBytes < boundary d"
      using boundary_range(4) [of d] by (cases "MinimumBytes < length d") (auto simp: boundary_def)
    ultimately show ?thesis using 1 False by (simp add: Split_step [of d] min_def)
  qed
qed

lemma long_chunks_length: "list_all (\<lambda>c. k \<le> length c) cs \<Longrightarrow> k * length cs \<le> length (concat cs)"
  by (induction cs) auto

lemma Split_number: "length (Split d) \<le> length d div 2049 + 1"
proof (cases "d = []")
  case False
  have "list_all (\<lambda>c. 2049 \<le> length c) (butlast (Split d))"
    using Split_minimum [of d] by (auto simp: MinimumBytes_def list_all_iff)
  then have "2049 * length (butlast (Split d)) \<le> length (concat (butlast (Split d)))" by (rule long_chunks_length)
  also have "\<dots> \<le> length d"
  proof -
    have "Split d = butlast (Split d) @ [last (Split d)]" using False by simp
    then have "concat (Split d) = concat (butlast (Split d)) @ last (Split d)" by (metis concat.simps concat_append append_Nil2)
    then show ?thesis by (metis concat_Split length_append le_add1)
  qed
  finally have "length (butlast (Split d)) \<le> length d div 2049" by (simp add: less_eq_div_iff_mult_less_eq mult.commute)
  then show ?thesis by simp
qed simp

text \<open>C38: splitting loses nothing and stays within its bounds: the chunks in order are the body; each has between 1 and
65536 bytes, every one but the last more than 2048; and a body of up to 16 MiB gives at most 8192 of
them, the number its manifest has room for.\<close>

theorem chunks_reassemble:
  "concat (Split d) = d \<and> list_all (\<lambda>c. 1 \<le> length c \<and> length c \<le> 65536) (Split d)
   \<and> list_all (\<lambda>c. 2048 < length c) (butlast (Split d)) \<and> length (Split d) \<le> length d div 2049 + 1
   \<and> 16777216 div 2049 + 1 \<le> (8192 :: nat)"
  using concat_Split [of d] Split_sizes [of d] Split_minimum [of d] Split_number [of d]
  by (simp add: MaximumBytes_def MinimumBytes_def)

section \<open>Bodies share chunks\<close>

lemma scan_append: "scan i h xs < i + length xs \<Longrightarrow> scan i h (xs @ ys) = scan i h xs"
  by (induction xs arbitrary: i h) (auto split: if_splits)

text \<open>A chunk that is not the last does not depend on what follows the body.\<close>

lemma boundary_append:
  assumes "boundary d < length d" shows "boundary (d @ e) = boundary d"
proof -
  have long: "MinimumBytes < length d" using assms by (auto simp: boundary_def split: if_splits)
  show ?thesis
  proof (cases "MaximumBytes \<le> length d")
    case True
    then show ?thesis using long by (simp add: boundary_def min_def)
  next
    case False
    then have whole: "boundary d = scan MinimumBytes 0 (drop MinimumBytes d)" using long by (simp add: boundary_def min_def)
    obtain ys where "take (min (length (d @ e)) MaximumBytes) (d @ e) = d @ ys"
      using False that [of "take (MaximumBytes - length d) e"] that [of e] by (auto simp: min_def)
    note cut = this
    have "boundary (d @ e) = scan MinimumBytes 0 (drop MinimumBytes (take (min (length (d @ e)) MaximumBytes) (d @ e)))"
      using long unfolding boundary_def Let_def by simp
    also have "\<dots> = scan MinimumBytes 0 (drop MinimumBytes d @ ys)" unfolding cut using long by simp
    finally show ?thesis using assms long scan_append [of MinimumBytes 0 "drop MinimumBytes d" ys] whole by simp
  qed
qed

lemma Split_append: "d \<noteq> [] \<Longrightarrow> Split (d @ e) = butlast (Split d) @ Split (last (Split d) @ e)"
proof (induction d rule: Split.induct)
  case (1 d)
  show ?case
  proof (cases "drop (boundary d) d = []")
    case True
    then have "Split d = [d]" using 1(2) by (simp add: Split_step)
    then show ?thesis by simp
  next
    case False
    then have b: "boundary (d @ e) = boundary d" "boundary d \<le> length d" using boundary_append by simp_all
    have "Split (d @ e) = take (boundary d) d # Split (drop (boundary d) d @ e)"
      using 1(2) b by (simp add: Split_step [of "d @ e"])
    also have "\<dots> = take (boundary d) d # butlast (Split (drop (boundary d) d)) @ Split (last (Split (drop (boundary d) d)) @ e)"
      using 1(1) [OF 1(2) False] by simp
    finally show ?thesis using 1(2) False by (simp add: Split_step [of d])
  qed
qed

lemma Split_tail: "Split d = cs @ ss \<Longrightarrow> ss = Split (concat ss)"
proof (induction cs arbitrary: d)
  case Nil
  then show ?case using concat_Split [of d] by simp
next
  case (Cons c cs)
  then have "d \<noteq> []" by auto
  then have "Split (drop (boundary d) d) = cs @ ss" using Cons.prems by (simp add: Split_step)
  then show ?case by (rule Cons.IH)
qed

text \<open>The rolling hash forgets: as the highest bit of a mask is bit 49, the last fifty bytes decide about a cut.\<close>

lemma roll_split: "foldl roll h w = push_bit (length w) h + foldl roll 0 w"
proof (induction w rule: rev_induct)
  case (snoc c w)
  then show ?case by (simp add: roll_def push_bit_eq_mult algebra_simps)
qed simp

lemma take_bit_word_add: "take_bit 50 (x + y :: 64 word) = take_bit 50 (take_bit 50 x + take_bit 50 y)"
  by transfer (simp add: take_bit_add)

lemma roll_window:
  assumes "50 \<le> length w" shows "take_bit 50 (foldl roll h w) = take_bit 50 (foldl roll h' w)"
proof -
  have "take_bit 50 (push_bit (length w) x + y) = take_bit 50 y" for x y :: "64 word"
  proof -
    have "take_bit 50 (push_bit (length w) x) = 0" using assms by (simp add: take_bit_push_bit)
    moreover have "take_bit 50 (push_bit (length w) x + y) = take_bit 50 (take_bit 50 (push_bit (length w) x) + take_bit 50 y)"
      by (rule take_bit_word_add)
    ultimately show ?thesis by (simp only: add_0 take_bit_of_0) simp
  qed
  then show ?thesis by (simp add: roll_split [of h] roll_split [of h'])
qed

lemma cut_mask_window: "x AND cut_mask i = take_bit 50 x AND cut_mask i"
proof -
  have "take_bit 50 (cut_mask i) = cut_mask i" by (simp add: cut_mask_def maskBelowAverage_def maskAboveAverage_def)
  then show ?thesis by (metis and.assoc and.commute take_bit_and take_bit_eq_mask)
qed

text \<open>C39: bodies share chunks wherever their content agrees.  Appending to a body keeps every chunk but the last, and the
rest is the split of the last chunk with what was appended; behind a cut, the chunks are the split of what follows the cut,
whatever precedes it; and whether a cut is made at an index is decided by the last fifty bytes hashed,
so that an edit further back has no influence on it.\<close>

theorem chunks_are_shared:
  assumes "d \<noteq> []" and "Split (a @ s) = cs @ ss" and "concat cs = a" and "50 \<le> length w"
  shows "Split (d @ e) = butlast (Split d) @ Split (last (Split d) @ e) \<and> ss = Split s
    \<and> (foldl roll 0 (u @ w) AND cut_mask i = 0 \<longleftrightarrow> foldl roll 0 (v @ w) AND cut_mask i = 0)"
proof -
  have "concat ss = s" using concat_Split [of "a @ s"] assms(2,3) by simp
  then have "ss = Split s" using Split_tail [OF assms(2)] by simp
  moreover have "foldl roll 0 (u @ w) AND cut_mask i = foldl roll 0 (v @ w) AND cut_mask i"
    using roll_window [OF assms(4), of "foldl roll 0 u" "foldl roll 0 v"] by (metis cut_mask_window foldl_append)
  ultimately show ?thesis using Split_append [OF assms(1)] by simp
qed

lemma Split_short: "d \<noteq> [] \<Longrightarrow> length d \<le> MinimumBytes \<Longrightarrow> Split d = [d]"
  by (simp add: Split_step boundary_def)

theorem chunks_are_shared_witness:
  "Split (''ab'' @ ''cd'') = [''abcd'']
   \<and> (foldl roll 0 (''x'' @ replicate 50 (CHR ''y'')) AND cut_mask 3000 = 0 \<longleftrightarrow> foldl roll 0 (''z'' @ replicate 50 (CHR ''y'')) AND cut_mask 3000 = 0)"
proof -
  have "Split ([] @ ''ab'') = [] @ [''ab'']" by (simp add: Split_short MinimumBytes_def)
  from chunks_are_shared [OF _ this, of "''ab''" "replicate 50 (CHR ''y'')" "''cd''" "''x''" 3000 "''z''"]
  show ?thesis by (simp add: Split_short MinimumBytes_def)
qed

end
