(* ===== verification/Evidence_Body.thy ===== *)
theory Evidence_Body
  imports Evidence_Chunk "HOL-Library.Multiset"
begin

text \<open>
  The store of recorded bodies (\<open>src/internal/runtimepersistence/evidence_body.go\<close>, \<open>evidence_body_gc.go\<close> and the
  tables of \<open>schema.sql\<close>): a body is a manifest of chunks under their digests, chunks and bodies are stored once,
  and what no record refers to any more is deleted.

  SHA-256 and the zstd codec are parameters (\<open>body_codec\<close>).  A \<open>SELECT\<close> over a set of digests gives its rows in an
  order of its own (\<open>order\<close>).  An operation that returns an error is rolled back by its caller.
\<close>

section \<open>Tables\<close>

record body_codec =
  bc_sha256 :: "string \<Rightarrow> string"
  bc_EncodeAll :: "string \<Rightarrow> string"
  bc_DecodeAll :: "nat \<Rightarrow> string \<Rightarrow> string option"

record chunk_row =
  ch_plain :: nat
  ch_codec :: string
  ch_payload :: string

record body_row =
  bo_plain :: nat
  bo_manifest :: string

record evidence_db =
  ev_bodies :: "string \<Rightarrow> body_row option"
  ev_chunks :: "string \<Rightarrow> chunk_row option"
  ev_refs :: "(string \<times> string) set"
  ev_envelopes :: "string \<Rightarrow> string option option"
  ev_natives :: "string \<times> string \<Rightarrow> string option"

definition chunkCodecIdentity :: string where "chunkCodecIdentity = ''identity''"

definition chunkCodecZstd :: string where "chunkCodecZstd = ''zstd''"

definition maximumChunkManifestBytes :: nat where "maximumChunkManifestBytes = 8192 * 32"

definition DefaultMaximumBodyBytes :: nat where "DefaultMaximumBodyBytes = 16777216"

datatype evidence_error = ManifestBound | ChunkDisagrees | BodyDisagrees | StatementFailed | StoredInvalid | NoSuchBody | RecordConflict
  | EmptyBatch | CommitFailed

definition chunk_row_check :: "string \<Rightarrow> chunk_row \<Rightarrow> bool" where
  "chunk_row_check d r \<longleftrightarrow> length d = 32 \<and> 1 \<le> ch_plain r \<and> ch_plain r \<le> 65536
     \<and> (ch_codec r = chunkCodecIdentity \<or> ch_codec r = chunkCodecZstd) \<and> ch_payload r \<noteq> []"

definition body_row_check :: "string \<Rightarrow> body_row \<Rightarrow> bool" where
  "body_row_check d r \<longleftrightarrow> length d = 32 \<and> 1 \<le> bo_plain r \<and> bo_plain r \<le> 16777216
     \<and> length (bo_manifest r) mod 32 = 0 \<and> 32 \<le> length (bo_manifest r) \<and> length (bo_manifest r) \<le> 262144"

text \<open>The digests in a manifest, as the triggers and queries cut them.\<close>

function spans :: "string \<Rightarrow> string list" where
  "spans m = (if m = [] then [] else take 32 m # spans (drop 32 m))"
  by auto
termination by (relation "measure length") auto

declare spans.simps [simp del]

section \<open>Writing\<close>

definition compressed_row :: "body_codec \<Rightarrow> string \<Rightarrow> chunk_row" where
  "compressed_row K plain =
     (let stored = bc_EncodeAll K plain in
      if length stored \<ge> length plain then \<lparr> ch_plain = length plain, ch_codec = chunkCodecIdentity, ch_payload = plain \<rparr>
      else \<lparr> ch_plain = length plain, ch_codec = chunkCodecZstd, ch_payload = stored \<rparr>)"

text \<open>The rows and whether exactly one was written.\<close>

definition putCompressedRow ::
  "body_codec \<Rightarrow> string \<Rightarrow> string \<Rightarrow> (string \<Rightarrow> chunk_row option) \<Rightarrow> evidence_error + ((string \<Rightarrow> chunk_row option) \<times> bool)" where
  "putCompressedRow K d plain rows =
     (case rows d of
        Some r \<Rightarrow> Inr (rows, ch_plain r = length plain)
      | None \<Rightarrow>
          if chunk_row_check d (compressed_row K plain) then Inr (rows(d \<mapsto> compressed_row K plain), True)
          else Inl StatementFailed)"

definition putEvidenceChunk ::
  "body_codec \<Rightarrow> string \<Rightarrow> (string \<Rightarrow> chunk_row option) \<Rightarrow> evidence_error + (string \<Rightarrow> chunk_row option)" where
  "putEvidenceChunk K chunk rows =
     (case putCompressedRow K (bc_sha256 K chunk) chunk rows of
        Inl e \<Rightarrow> Inl e
      | Inr (rows', written) \<Rightarrow> if written then Inr rows' else Inl ChunkDisagrees)"

fun put_chunks :: "body_codec \<Rightarrow> string list \<Rightarrow> (string \<Rightarrow> chunk_row option) \<Rightarrow> evidence_error + (string \<Rightarrow> chunk_row option)" where
  "put_chunks K [] rows = Inr rows"
| "put_chunks K (c # cs) rows = (case putEvidenceChunk K c rows of Inl e \<Rightarrow> Inl e | Inr rows' \<Rightarrow> put_chunks K cs rows')"

definition body_row_of :: "body_codec \<Rightarrow> string \<Rightarrow> body_row" where
  "body_row_of K body = \<lparr> bo_plain = length body, bo_manifest = concat (map (bc_sha256 K) (Split body)) \<rparr>"

text \<open>The upsert of the body with the trigger that fills the reverse index.\<close>

definition put_body :: "string \<Rightarrow> body_row \<Rightarrow> evidence_db \<Rightarrow> evidence_error + evidence_db" where
  "put_body d r db =
     (case ev_bodies db d of
        Some old \<Rightarrow> if old = r then Inr db else Inl BodyDisagrees
      | None \<Rightarrow>
          if body_row_check d r \<and> set (spans (bo_manifest r)) \<subseteq> dom (ev_chunks db)
          then Inr (db\<lparr>ev_bodies := (ev_bodies db)(d \<mapsto> r), ev_refs := ev_refs db \<union> {d} \<times> set (spans (bo_manifest r))\<rparr>)
          else Inl StatementFailed)"

definition storeEvidenceBody :: "body_codec \<Rightarrow> string \<Rightarrow> evidence_db \<Rightarrow> evidence_error + (evidence_db \<times> string option)" where
  "storeEvidenceBody K body db =
     (if body = [] then Inr (db, None)
      else if length (Split body) * 32 > maximumChunkManifestBytes then Inl ManifestBound
      else (case put_chunks K (Split body) (ev_chunks db) of
          Inl e \<Rightarrow> Inl e
        | Inr rows \<Rightarrow>
            (case put_body (bc_sha256 K body) (body_row_of K body) (db\<lparr>ev_chunks := rows\<rparr>) of
               Inl e \<Rightarrow> Inl e
             | Inr db' \<Rightarrow> Inr (db', Some (bc_sha256 K body)))))"

text \<open>\<open>AppendBatch\<close>: the bodies and envelopes of a batch in one transaction.  \<open>ok\<close>: whether an envelope row
  is valid and satisfies the constraints of its table apart from its key.  A commit that fails may have been applied.\<close>

fun append_records :: "body_codec \<Rightarrow> (string \<Rightarrow> bool) \<Rightarrow> (string \<times> string) list \<Rightarrow> evidence_db \<Rightarrow> evidence_error + evidence_db" where
  "append_records K ok [] db = Inr db"
| "append_records K ok ((i, body) # rs) db =
     (case storeEvidenceBody K body db of
        Inl e \<Rightarrow> Inl e
      | Inr (db', d) \<Rightarrow>
          if ev_envelopes db' i \<noteq> None \<or> \<not> ok i then Inl StatementFailed
          else append_records K ok rs (db'\<lparr>ev_envelopes := (ev_envelopes db')(i \<mapsto> d)\<rparr>))"

definition end_transaction :: "commit_result \<Rightarrow> evidence_db \<Rightarrow> evidence_db \<Rightarrow> evidence_db \<times> evidence_error option" where
  "end_transaction commit old new = (if commit = CommitLost then old else new, if commit = CommitOK then None else Some CommitFailed)"

definition AppendBatch ::
  "body_codec \<Rightarrow> (string \<Rightarrow> bool) \<Rightarrow> commit_result \<Rightarrow> (string \<times> string) list \<Rightarrow> evidence_db \<Rightarrow> evidence_db \<times> evidence_error option" where
  "AppendBatch K ok commit rs db =
     (if rs = [] then (db, Some EmptyBatch)
      else (case append_records K ok rs db of
          Inl e \<Rightarrow> (db, Some e)
        | Inr db' \<Rightarrow> end_transaction commit db db'))"

text \<open>The end of \<open>PutContent\<close>, once the operation may record.\<close>

definition put_content ::
  "body_codec \<Rightarrow> commit_result \<Rightarrow> string \<times> string \<Rightarrow> string \<Rightarrow> evidence_db \<Rightarrow> evidence_db \<times> evidence_error option" where
  "put_content K commit key body db =
     (if body = [] \<or> length body > DefaultMaximumBodyBytes then (db, Some StoredInvalid)
      else if ev_natives db key \<noteq> None then (db, Some RecordConflict)
      else (case storeEvidenceBody K body db of
          Inl e \<Rightarrow> (db, Some e)
        | Inr (db', d) \<Rightarrow> end_transaction commit db (db'\<lparr>ev_natives := (ev_natives db')(key := d)\<rparr>)))"

section \<open>Reading\<close>

record chunk_bounds =
  cb_plain :: nat
  cb_stored :: nat
  cb_codec :: string

definition known_codec :: "string \<Rightarrow> string" where
  "known_codec c = (if c = chunkCodecIdentity \<or> c = chunkCodecZstd then c else [])"

fun chunk_bounds_loop ::
  "(string \<Rightarrow> chunk_row option) \<Rightarrow> (string \<Rightarrow> nat) \<Rightarrow> nat \<Rightarrow> string list \<Rightarrow> nat \<Rightarrow> (string \<times> chunk_bounds) list
     \<Rightarrow> (nat \<times> (string \<times> chunk_bounds) list) option" where
  "chunk_bounds_loop rows occ plainBytes [] seen bounds = Some (seen, bounds)"
| "chunk_bounds_loop rows occ plainBytes (d # ds) seen bounds =
     (case rows d of
        None \<Rightarrow> chunk_bounds_loop rows occ plainBytes ds seen bounds
      | Some r \<Rightarrow>
          if length d \<noteq> 32 \<or> occ d = 0 \<or> ch_plain r < 1 \<or> ch_plain r > MaximumBytes
             \<or> length (ch_payload r) < 1 \<or> length (ch_payload r) > MaximumBytes
             \<or> known_codec (ch_codec r) = []
             \<or> (ch_codec r = chunkCodecIdentity \<and> length (ch_payload r) \<noteq> ch_plain r)
             \<or> ch_plain r > (plainBytes - seen) div occ d
          then None
          else chunk_bounds_loop rows occ plainBytes ds (seen + ch_plain r * occ d)
                 (bounds @ [(d, \<lparr> cb_plain = ch_plain r, cb_stored = length (ch_payload r), cb_codec = ch_codec r \<rparr>)]))"

definition loadEvidenceChunkBounds ::
  "(string set \<Rightarrow> string list) \<Rightarrow> (string \<Rightarrow> chunk_row option) \<Rightarrow> string \<Rightarrow> nat \<Rightarrow> (string \<times> chunk_bounds) list option" where
  "loadEvidenceChunkBounds order rows manifest plainBytes =
     (let ds = spans manifest in
      case chunk_bounds_loop rows (count_list ds) plainBytes (order (set ds)) 0 [] of
        None \<Rightarrow> None
      | Some (seen, bounds) \<Rightarrow> if length bounds \<noteq> card (set ds) \<or> seen \<noteq> plainBytes then None else Some bounds)"

definition projected_payload :: "chunk_row \<Rightarrow> chunk_bounds \<Rightarrow> string" where
  "projected_payload r v =
     (if ch_plain r = cb_plain v \<and> ch_codec r = cb_codec v \<and> length (ch_payload r) = cb_stored v then ch_payload r else [])"

definition decoded_payload :: "body_codec \<Rightarrow> chunk_bounds \<Rightarrow> string \<Rightarrow> string option" where
  "decoded_payload K v stored = (if cb_codec v = chunkCodecZstd then bc_DecodeAll K (cb_plain v) stored else Some stored)"

fun load_chunks_loop ::
  "body_codec \<Rightarrow> (string \<Rightarrow> chunk_row option) \<Rightarrow> nat \<Rightarrow> (string \<times> chunk_bounds) list \<Rightarrow> nat \<Rightarrow> (string \<Rightarrow> string option)
     \<Rightarrow> (string \<Rightarrow> string option) option" where
  "load_chunks_loop K rows plainBytes [] decodedBytes chunks = Some chunks"
| "load_chunks_loop K rows plainBytes ((d, v) # bs) decodedBytes chunks =
     (case rows d of
        None \<Rightarrow> None
      | Some r \<Rightarrow>
          (let stored = projected_payload r v in
           if length stored \<noteq> cb_stored v \<or> cb_plain v > plainBytes - decodedBytes then None
           else (case decoded_payload K v stored of
               None \<Rightarrow> None
             | Some x \<Rightarrow>
                 if length x \<noteq> cb_plain v then None
                 else load_chunks_loop K rows plainBytes bs (decodedBytes + length x) (chunks(d \<mapsto> x)))))"

fun assemble :: "(string \<Rightarrow> string option) \<Rightarrow> nat \<Rightarrow> string list \<Rightarrow> string \<Rightarrow> string option" where
  "assemble chunks plainBytes [] body = Some body"
| "assemble chunks plainBytes (d # ds) body =
     (case chunks d of
        None \<Rightarrow> None
      | Some x \<Rightarrow> if length x > plainBytes - length body then None else assemble chunks plainBytes ds (body @ x))"

text \<open>A reader outside a transaction may see the tables change between its three queries: the tables at the first
  query, the chunks at the second (\<open>rows\<close>) and at the third (\<open>later\<close>) are separate arguments.\<close>

definition loadEvidenceBody ::
  "body_codec \<Rightarrow> (string set \<Rightarrow> string list) \<Rightarrow> evidence_db \<Rightarrow> (string \<Rightarrow> chunk_row option) \<Rightarrow> (string \<Rightarrow> chunk_row option)
     \<Rightarrow> string \<Rightarrow> evidence_error + string" where
  "loadEvidenceBody K order db rows later digest =
     (if digest = [] then Inr []
      else if length digest \<noteq> 32 then Inl StoredInvalid
      else (case ev_bodies db digest of
          None \<Rightarrow> Inl NoSuchBody
        | Some r \<Rightarrow>
            let plainBytes = bo_plain r; manifest = bo_manifest r in
            if plainBytes < 1 \<or> plainBytes > DefaultMaximumBodyBytes \<or> length manifest < 32
               \<or> length manifest > maximumChunkManifestBytes \<or> length manifest mod 32 \<noteq> 0
            then Inl StoredInvalid
            else (case Option.bind (loadEvidenceChunkBounds order rows manifest plainBytes)
                    (\<lambda>bounds. Option.bind (load_chunks_loop K later plainBytes bounds 0 Map.empty)
                      (\<lambda>chunks. assemble chunks plainBytes (spans manifest) [])) of
                None \<Rightarrow> Inl StoredInvalid
              | Some body \<Rightarrow>
                  if length body \<noteq> plainBytes \<or> bc_sha256 K body \<noteq> digest then Inl StoredInvalid else Inr body)))"

section \<open>Deleting\<close>

definition envelope_refers :: "evidence_db \<Rightarrow> string \<Rightarrow> bool" where
  "envelope_refers db d \<longleftrightarrow> Some (Some d) \<in> range (ev_envelopes db)"

definition native_refers :: "evidence_db \<Rightarrow> string \<Rightarrow> bool" where
  "native_refers db d \<longleftrightarrow> Some d \<in> range (ev_natives db)"

definition releaseEvidenceBody :: "bool \<Rightarrow> string \<Rightarrow> evidence_db \<Rightarrow> evidence_db" where
  "releaseEvidenceBody native d db =
     (case ev_bodies db d of
        None \<Rightarrow> db
      | Some r \<Rightarrow>
          if envelope_refers db d \<or> native \<and> native_refers db d then db
          else (let refs = {e \<in> ev_refs db. fst e \<noteq> d} in
            db\<lparr>ev_bodies := (ev_bodies db)(d := None), ev_refs := refs,
               ev_chunks := (\<lambda>x. if x \<in> set (spans (bo_manifest r)) \<and> x \<notin> snd ` refs then None else ev_chunks db x)\<rparr>))"

definition deleteRawEvidence :: "(string set \<Rightarrow> string list) \<Rightarrow> bool \<Rightarrow> (string \<Rightarrow> bool) \<Rightarrow> evidence_db \<Rightarrow> evidence_db" where
  "deleteRawEvidence order native P db =
     fold (releaseEvidenceBody native) (order {d. \<exists>i. P i \<and> ev_envelopes db i = Some (Some d)})
       (db\<lparr>ev_envelopes := (\<lambda>i. if P i then None else ev_envelopes db i)\<rparr>)"

definition deleteNativeContents :: "(string set \<Rightarrow> string list) \<Rightarrow> (string \<times> string \<Rightarrow> bool) \<Rightarrow> evidence_db \<Rightarrow> evidence_db" where
  "deleteNativeContents order P db =
     fold (releaseEvidenceBody True) (order {d. \<exists>k. P k \<and> ev_natives db k = Some d})
       (db\<lparr>ev_natives := (\<lambda>k. if P k then None else ev_natives db k)\<rparr>)"

end
