(* ===== verification/Evidence_Store.thy ===== *)
theory Evidence_Store
  imports Evidence_Body "HOL-Library.Char_ord" "HOL-Library.List_Lexorder"
begin

text \<open>
  What the store of recorded bodies guarantees: it implements a map from records to bodies, keeps nothing else,
  and what a read returns that other operations overlap.
\<close>

section \<open>What the tables hold\<close>

text \<open>What is assumed of the two libraries: digests have 32 bytes, and compressing one chunk, of 1 to 65536 bytes, gives
  something that decompresses to it.  Nothing is assumed of other inputs: the encoder gives no bytes for an empty one, and
  the decoder's memory is bounded.\<close>

definition codec_ok :: "body_codec \<Rightarrow> bool" where
  "codec_ok K \<longleftrightarrow> (\<forall>x. length (bc_sha256 K x) = 32)
     \<and> (\<forall>x. 1 \<le> length x \<and> length x \<le> 65536 \<longrightarrow>
          bc_EncodeAll K x \<noteq> [] \<and> bc_DecodeAll K (length x) (bc_EncodeAll K x) = Some x)"

definition order_ok :: "(string set \<Rightarrow> string list) \<Rightarrow> bool" where
  "order_ok order \<longleftrightarrow> (\<forall>S. finite S \<longrightarrow> set (order S) = S \<and> distinct (order S))"

text \<open>The contents in play, bodies and chunks; on them the digest is assumed to have no collision.\<close>

definition storable :: "string set \<Rightarrow> string \<Rightarrow> bool" where
  "storable C b \<longleftrightarrow> b \<in> C \<and> set (Split b) \<subseteq> C \<and> length b \<le> DefaultMaximumBodyBytes"

definition holds :: "body_codec \<Rightarrow> string set \<Rightarrow> evidence_db \<Rightarrow> bool" where
  "holds K B db \<longleftrightarrow>
     (\<forall>d r. ev_bodies db d = Some r \<longleftrightarrow> (\<exists>b\<in>B. d = bc_sha256 K b \<and> r = body_row_of K b))
     \<and> (\<forall>d r. ev_chunks db d = Some r \<longleftrightarrow> (\<exists>b\<in>B. \<exists>c\<in>set (Split b). d = bc_sha256 K c \<and> r = compressed_row K c))
     \<and> ev_refs db = {(bc_sha256 K b, bc_sha256 K c) | b c. b \<in> B \<and> c \<in> set (Split b)}"

lemma spans_concat: "list_all (\<lambda>d. length d = 32) ds \<Longrightarrow> spans (concat ds) = ds"
proof (induction ds)
  case (Cons d ds)
  then have "d \<noteq> []" by auto
  with Cons show ?case by (subst spans.simps) auto
qed (simp add: spans.simps)

lemma manifest_spans: "codec_ok K \<Longrightarrow> spans (bo_manifest (body_row_of K b)) = map (bc_sha256 K) (Split b)"
  by (simp add: body_row_of_def spans_concat list_all_iff codec_ok_def)

lemma manifest_length: "codec_ok K \<Longrightarrow> length (bo_manifest (body_row_of K b)) = 32 * length (Split b)"
proof -
  assume "codec_ok K"
  then have "length (concat (map (bc_sha256 K) cs)) = 32 * length cs" for cs by (induction cs) (auto simp: codec_ok_def)
  then show ?thesis by (simp add: body_row_of_def)
qed

lemma chunk_size: "c \<in> set (Split b) \<Longrightarrow> 1 \<le> length c \<and> length c \<le> 65536"
  using Split_sizes [of b] by (simp add: list_all_iff MaximumBytes_def)

lemma compressed_row_ok: "codec_ok K \<Longrightarrow> 1 \<le> length c \<Longrightarrow> length c \<le> 65536 \<Longrightarrow> chunk_row_check (bc_sha256 K c) (compressed_row K c)"
  by (auto simp: chunk_row_check_def compressed_row_def codec_ok_def Let_def)

lemma body_row_ok:
  assumes "codec_ok K" "b \<noteq> []" "length b \<le> DefaultMaximumBodyBytes"
  shows "body_row_check (bc_sha256 K b) (body_row_of K b)" "length (Split b) * 32 \<le> maximumChunkManifestBytes"
proof -
  have "length (Split b) \<le> 8192"
    using Split_number [of b] assms(3) div_le_mono [of "length b" 16777216 2049] by (simp add: DefaultMaximumBodyBytes_def)
  moreover have "1 \<le> length (Split b)" using assms(2) by (simp add: Suc_le_eq)
  moreover have "1 \<le> length b" using assms(2) by (simp add: Suc_le_eq)
  moreover have "bo_plain (body_row_of K b) = length b" "length (bc_sha256 K b) = 32" using assms(1) by (simp_all add: body_row_of_def codec_ok_def)
  ultimately show "body_row_check (bc_sha256 K b) (body_row_of K b)" "length (Split b) * 32 \<le> maximumChunkManifestBytes"
    using assms(3) by (simp_all add: body_row_check_def manifest_length [OF assms(1)] maximumChunkManifestBytes_def DefaultMaximumBodyBytes_def)
qed

section \<open>Storing a body\<close>

definition chunk_rows :: "body_codec \<Rightarrow> string set \<Rightarrow> (string \<Rightarrow> chunk_row option) \<Rightarrow> bool" where
  "chunk_rows K S rows \<longleftrightarrow> (\<forall>d r. rows d = Some r \<longleftrightarrow> (\<exists>c\<in>S. d = bc_sha256 K c \<and> r = compressed_row K c))"

lemma put_chunk:
  assumes K: "codec_ok K" and C: "inj_on (bc_sha256 K) C" "S \<subseteq> C" "c \<in> C" and c: "1 \<le> length c" "length c \<le> 65536"
    and rows: "chunk_rows K S rows"
  shows "\<exists>rows'. putEvidenceChunk K c rows = Inr rows' \<and> chunk_rows K (insert c S) rows'"
proof (cases "rows (bc_sha256 K c)")
  case None
  have "rows (bc_sha256 K x) = Some (compressed_row K x)" if "x \<in> S" for x using rows that unfolding chunk_rows_def by blast
  then have "bc_sha256 K x \<noteq> bc_sha256 K c" if "x \<in> S" for x using None that by (metis option.distinct(1))
  then have "chunk_rows K (insert c S) (rows(bc_sha256 K c \<mapsto> compressed_row K c))"
    using rows unfolding chunk_rows_def by (auto simp: fun_upd_def) blast
  then show ?thesis using None compressed_row_ok [OF K c] by (simp add: putEvidenceChunk_def putCompressedRow_def)
next
  case (Some r)
  then obtain c' where "c' \<in> S" "bc_sha256 K c = bc_sha256 K c'" "r = compressed_row K c'" using rows by (auto simp: chunk_rows_def)
  moreover from this have "c' = c" using C by (metis inj_on_contraD subsetD)
  ultimately have "insert c S = S" "ch_plain r = length c" by (auto simp: compressed_row_def Let_def)
  then show ?thesis using Some rows by (simp add: putEvidenceChunk_def putCompressedRow_def)
qed

lemma put_chunks_rows:
  assumes K: "codec_ok K" and C: "inj_on (bc_sha256 K) C"
  shows "S \<subseteq> C \<Longrightarrow> set cs \<subseteq> C \<Longrightarrow> list_all (\<lambda>c. 1 \<le> length c \<and> length c \<le> 65536) cs \<Longrightarrow> chunk_rows K S rows \<Longrightarrow>
    \<exists>rows'. put_chunks K cs rows = Inr rows' \<and> chunk_rows K (S \<union> set cs) rows'"
proof (induction cs arbitrary: S rows)
  case (Cons c cs)
  then obtain rows1 where 1: "putEvidenceChunk K c rows = Inr rows1" "chunk_rows K (insert c S) rows1"
    using put_chunk [OF K C, of S c rows] by auto
  moreover have "\<exists>rows'. put_chunks K cs rows1 = Inr rows' \<and> chunk_rows K (insert c S \<union> set cs) rows'"
    using Cons.prems 1(2) by (intro Cons.IH) auto
  ultimately show ?case by simp
qed simp

lemma holdsD:
  assumes "holds K B db"
  shows "\<And>d r. ev_bodies db d = Some r \<longleftrightarrow> (\<exists>b\<in>B. d = bc_sha256 K b \<and> r = body_row_of K b)"
    "\<And>d r. ev_chunks db d = Some r \<longleftrightarrow> (\<exists>b\<in>B. \<exists>c\<in>set (Split b). d = bc_sha256 K c \<and> r = compressed_row K c)"
    "ev_refs db = {(bc_sha256 K b, bc_sha256 K c) | b c. b \<in> B \<and> c \<in> set (Split b)}"
  using assms by (simp_all only: holds_def)

lemma holds_chunk_rows: "holds K B db \<Longrightarrow> chunk_rows K (\<Union>b\<in>B. set (Split b)) (ev_chunks db)"
  by (simp add: holds_def chunk_rows_def)

lemma holds_body: "holds K B db \<Longrightarrow> b \<in> B \<Longrightarrow> ev_bodies db (bc_sha256 K b) = Some (body_row_of K b)"
  using holdsD(1) [of K B db "bc_sha256 K b" "body_row_of K b"] by blast

lemma holds_chunk: "holds K B db \<Longrightarrow> b \<in> B \<Longrightarrow> c \<in> set (Split b) \<Longrightarrow> ev_chunks db (bc_sha256 K c) = Some (compressed_row K c)"
  using holdsD(2) [of K B db "bc_sha256 K c" "compressed_row K c"] by blast

lemma store_holds:
  assumes K: "codec_ok K" and C: "inj_on (bc_sha256 K) C" and B: "\<forall>x\<in>B. storable C x" and b: "storable C b" "b \<noteq> []"
    and h: "holds K B db"
  shows "\<exists>db'. storeEvidenceBody K b db = Inr (db', Some (bc_sha256 K b)) \<and> holds K (insert b B) db'
    \<and> ev_envelopes db' = ev_envelopes db \<and> ev_natives db' = ev_natives db"
proof -
  have "list_all (\<lambda>c. 1 \<le> length c \<and> length c \<le> 65536) (Split b)" using Split_sizes [of b] by (simp add: MaximumBytes_def)
  then obtain rows where rows: "put_chunks K (Split b) (ev_chunks db) = Inr rows" "chunk_rows K ((\<Union>b\<in>B. set (Split b)) \<union> set (Split b)) rows"
    using put_chunks_rows [OF K C, of "\<Union>b\<in>B. set (Split b)" "Split b" "ev_chunks db"] holds_chunk_rows [OF h] B b(1)
    by (fastforce simp: storable_def)
  let ?db = "db\<lparr>ev_chunks := rows\<rparr>" let ?d = "bc_sha256 K b"
  have new: "\<exists>db'. put_body ?d (body_row_of K b) ?db = Inr db' \<and> ev_chunks db' = rows
      \<and> (\<forall>d r. ev_bodies db' d = Some r \<longleftrightarrow> (\<exists>x\<in>insert b B. d = bc_sha256 K x \<and> r = body_row_of K x))
      \<and> ev_refs db' = {(bc_sha256 K x, bc_sha256 K c) | x c. x \<in> insert b B \<and> c \<in> set (Split x)}
      \<and> ev_envelopes db' = ev_envelopes db \<and> ev_natives db' = ev_natives db"
  proof (cases "ev_bodies db ?d")
    case None
    have "set (map (bc_sha256 K) (Split b)) \<subseteq> dom rows" using rows(2) by (auto simp: chunk_rows_def dom_def)
    moreover have "\<And>x. x \<in> B \<Longrightarrow> bc_sha256 K x \<noteq> ?d" using None holds_body [OF h] by (metis option.distinct(1))
    ultimately show ?thesis using None h body_row_ok(1) [OF K b(2)] b(1)
      by (auto simp: put_body_def manifest_spans [OF K] storable_def holds_def) blast
  next
    case (Some r)
    then obtain x where "x \<in> B" "?d = bc_sha256 K x" "r = body_row_of K x" using holdsD(1) [OF h] by blast
    moreover from this have "x = b" using C B b(1) by (auto simp: storable_def inj_on_def)
    ultimately have "insert b B = B" "r = body_row_of K b" by auto
    then have "put_body ?d (body_row_of K b) ?db = Inr ?db" using Some by (simp add: put_body_def)
    with \<open>insert b B = B\<close> show ?thesis using holdsD(1,3) [OF h] by simp
  qed
  then obtain db' where db': "put_body ?d (body_row_of K b) ?db = Inr db'" "ev_chunks db' = rows"
    "ev_envelopes db' = ev_envelopes db" "ev_natives db' = ev_natives db" "holds K (insert b B) db'"
    using rows(2) by (auto simp: holds_def chunk_rows_def)
  then show ?thesis using rows(1) body_row_ok(2) [OF K b(2)] b by (simp add: storeEvidenceBody_def storable_def not_less)
qed

section \<open>Reading a body back\<close>

definition bounds_of :: "chunk_row \<Rightarrow> chunk_bounds" where
  "bounds_of r = \<lparr> cb_plain = ch_plain r, cb_stored = length (ch_payload r), cb_codec = ch_codec r \<rparr>"

lemma compressed_row_plain [simp]: "ch_plain (compressed_row K c) = length c"
  by (simp add: compressed_row_def Let_def)

lemma compressed_row_codec:
  "ch_codec (compressed_row K c) = chunkCodecIdentity \<and> ch_payload (compressed_row K c) = c
   \<or> ch_codec (compressed_row K c) = chunkCodecZstd \<and> ch_payload (compressed_row K c) = bc_EncodeAll K c
       \<and> length (bc_EncodeAll K c) < length c"
  by (simp add: compressed_row_def Let_def)

text \<open>The chunks of a manifest as a function of their digest.\<close>

definition rows_for :: "body_codec \<Rightarrow> (string \<Rightarrow> string) \<Rightarrow> (string \<Rightarrow> chunk_row option) \<Rightarrow> string set \<Rightarrow> bool" where
  "rows_for K f rows W \<longleftrightarrow>
     (\<forall>d\<in>W. rows d = Some (compressed_row K (f d)) \<and> length d = 32 \<and> 1 \<le> length (f d) \<and> length (f d) \<le> 65536)"

lemma bounds_loop_reads:
  assumes K: "codec_ok K" and "rows_for K f rows (set W)" "\<forall>d\<in>set W. 0 < occ d"
    and "seen + sum_list (map (\<lambda>d. length (f d) * occ d) W) \<le> plainBytes"
  shows "chunk_bounds_loop rows occ plainBytes W seen bounds
    = Some (seen + sum_list (map (\<lambda>d. length (f d) * occ d) W), bounds @ map (\<lambda>d. (d, bounds_of (compressed_row K (f d)))) W)"
  using assms(2-4)
proof (induction W arbitrary: seen bounds)
  case (Cons d W)
  let ?r = "compressed_row K (f d)"
  have d: "rows d = Some ?r" "length d = 32" "1 \<le> length (f d)" "length (f d) \<le> 65536" "0 < occ d"
    using Cons.prems(1,2) by (auto simp: rows_for_def)
  have "chunk_row_check (bc_sha256 K (f d)) ?r" using compressed_row_ok [OF K d(3,4)] .
  then have pay: "1 \<le> length (ch_payload ?r)" "length (ch_payload ?r) \<le> 65536" "known_codec (ch_codec ?r) \<noteq> []"
    using compressed_row_codec [of K "f d"] d(4) by (auto simp: chunk_row_check_def known_codec_def chunkCodecIdentity_def chunkCodecZstd_def Suc_le_eq)
  have "seen + length (f d) * occ d \<le> plainBytes" using Cons.prems(3) by simp
  then have "length (f d) \<le> (plainBytes - seen) div occ d" using d(5) by (simp add: less_eq_div_iff_mult_less_eq)
  moreover have "ch_codec ?r = chunkCodecIdentity \<Longrightarrow> length (ch_payload ?r) = length (f d)"
    using compressed_row_codec [of K "f d"] by (auto simp: chunkCodecIdentity_def chunkCodecZstd_def)
  moreover have "chunk_bounds_loop rows occ plainBytes W (seen + length (f d) * occ d) (bounds @ [(d, bounds_of ?r)])
      = Some (seen + length (f d) * occ d + sum_list (map (\<lambda>d. length (f d) * occ d) W),
          (bounds @ [(d, bounds_of ?r)]) @ map (\<lambda>d. (d, bounds_of (compressed_row K (f d)))) W)"
    using Cons.prems by (intro Cons.IH) (auto simp: rows_for_def)
  moreover have "f d \<noteq> []" "ch_payload ?r \<noteq> []" using d(3) pay(1) by auto
  ultimately show ?case using d pay(2,3) by (auto simp: MaximumBytes_def bounds_of_def not_less not_le)
qed simp

lemma decoded_chunk:
  "codec_ok K \<Longrightarrow> 1 \<le> length c \<Longrightarrow> length c \<le> 65536 \<Longrightarrow>
   decoded_payload K (bounds_of (compressed_row K c)) (ch_payload (compressed_row K c)) = Some c"
  using compressed_row_codec [of K c] by (auto simp: decoded_payload_def bounds_of_def codec_ok_def chunkCodecIdentity_def chunkCodecZstd_def)

lemma chunks_loop_reads:
  assumes K: "codec_ok K" and "rows_for K f rows (set W)" "read + sum_list (map (\<lambda>d. length (f d)) W) \<le> plainBytes"
  shows "load_chunks_loop K rows plainBytes (map (\<lambda>d. (d, bounds_of (compressed_row K (f d)))) W) read chunks
    = Some (\<lambda>d. if d \<in> set W then Some (f d) else chunks d)"
  using assms(2,3)
proof (induction W arbitrary: read chunks)
  case (Cons d W)
  let ?r = "compressed_row K (f d)"
  have size: "1 \<le> length (f d)" "length (f d) \<le> 65536" using Cons.prems(1) by (simp_all add: rows_for_def)
  have "rows d = Some ?r" "projected_payload ?r (bounds_of ?r) = ch_payload ?r" "cb_plain (bounds_of ?r) = length (f d)"
    "cb_stored (bounds_of ?r) = length (ch_payload ?r)"
    using Cons.prems(1) by (simp_all add: rows_for_def projected_payload_def bounds_of_def)
  moreover have "load_chunks_loop K rows plainBytes (map (\<lambda>d. (d, bounds_of (compressed_row K (f d)))) W) (read + length (f d)) (chunks(d \<mapsto> f d))
      = Some (\<lambda>x. if x \<in> set W then Some (f x) else (chunks(d \<mapsto> f d)) x)"
    using Cons.prems by (intro Cons.IH) (auto simp: rows_for_def)
  ultimately show ?case using Cons.prems(2) by (auto simp: decoded_chunk [OF K size] not_less fun_eq_iff)
qed simp

lemma assemble_reads:
  "\<forall>d\<in>set ds. chunks d = Some (f d) \<Longrightarrow> length body + sum_list (map (\<lambda>d. length (f d)) ds) \<le> plainBytes \<Longrightarrow>
   assemble chunks plainBytes ds body = Some (body @ concat (map f ds))"
  by (induction ds arbitrary: body) auto

lemma count_pos: "d \<in> set ds \<Longrightarrow> 0 < count_list ds d"
  by (metis count_list_0_iff neq0_conv)

lemma bounds_loop_counts:
  "chunk_bounds_loop rows occ plainBytes W seen bounds = Some (seen', bounds') \<Longrightarrow>
   length bounds' = length bounds + length (filter (\<lambda>d. rows d \<noteq> None) W)"
  by (induction W arbitrary: seen bounds) (auto split: option.splits if_splits)

lemma missing_bounds:
  assumes "order_ok order" "d \<in> set (spans manifest)" "rows d = None"
  shows "loadEvidenceChunkBounds order rows manifest plainBytes = None"
proof -
  let ?W = "order (set (spans manifest))"
  have W: "set ?W = set (spans manifest)" "distinct ?W" using assms(1) by (auto simp: order_ok_def)
  then have "d \<in> set ?W" "\<not> rows d \<noteq> None" using assms(2,3) by auto
  then have less: "length (filter (\<lambda>d. rows d \<noteq> None) ?W) < length ?W" by (rule length_filter_less)
  have card: "card (set (spans manifest)) = length ?W" using distinct_card [OF W(2)] W(1) by simp
  show ?thesis
  proof (cases "chunk_bounds_loop rows (count_list (spans manifest)) plainBytes ?W 0 []")
    case (Some r)
    then have "length (snd r) \<noteq> length ?W" using bounds_loop_counts [of rows _ plainBytes ?W 0 "[]" "fst r" "snd r"] less by simp
    then show ?thesis using Some by (simp add: loadEvidenceChunkBounds_def Let_def card split: prod.splits) auto
  qed (simp add: loadEvidenceChunkBounds_def Let_def)
qed

lemma missing_chunk: "(d, v) \<in> set bs \<Longrightarrow> rows d = None \<Longrightarrow> load_chunks_loop K rows plainBytes bs n chunks = None"
  by (induction bs arbitrary: n chunks) (auto simp: Let_def split: option.splits)

definition all_chunks :: "body_codec \<Rightarrow> string \<Rightarrow> (string \<Rightarrow> chunk_row option) \<Rightarrow> bool" where
  "all_chunks K b rows \<longleftrightarrow> (\<forall>c\<in>set (Split b). rows (bc_sha256 K c) = Some (compressed_row K c))"

definition some_missing :: "body_codec \<Rightarrow> string \<Rightarrow> (string \<Rightarrow> chunk_row option) \<Rightarrow> bool" where
  "some_missing K b rows \<longleftrightarrow> (\<exists>c\<in>set (Split b). rows (bc_sha256 K c) = None)"

text \<open>What a reader gets when the body's row is there, and all of its chunks or not, at each of the two later queries.\<close>

lemma load_row:
  assumes K: "codec_ok K" and ord: "order_ok order" and C: "inj_on (bc_sha256 K) C" and b: "b \<noteq> []" "storable C b"
    and row: "ev_bodies db (bc_sha256 K b) = Some (body_row_of K b)"
  shows "all_chunks K b rows \<Longrightarrow> all_chunks K b later \<Longrightarrow> loadEvidenceBody K order db rows later (bc_sha256 K b) = Inr b"
    and "some_missing K b rows \<or> all_chunks K b rows \<and> some_missing K b later \<Longrightarrow>
      loadEvidenceBody K order db rows later (bc_sha256 K b) = Inl StoredInvalid"
proof -
  let ?r = "body_row_of K b" let ?f = "inv_into C (bc_sha256 K)"
  define ds where "ds = map (bc_sha256 K) (Split b)"
  define W where "W = order (set ds)"
  have W: "set W = set ds" "distinct W" using ord by (auto simp: W_def order_ok_def)
  have f: "?f (bc_sha256 K c) = c" if "c \<in> set (Split b)" for c using that b(2) C by (auto simp: storable_def)
  have rows_for: "rows_for K ?f t (set ds)" if "all_chunks K b t" for t
    using f that chunk_size K by (auto simp: rows_for_def ds_def codec_ok_def all_chunks_def)
  have map_f: "map ?f ds = Split b" using f by (simp add: ds_def map_idI)
  have total: "sum_list (map (\<lambda>d. length (?f d)) ds) = length b"
  proof -
    have "sum_list (map (\<lambda>d. length (?f d)) ds) = length (concat (map ?f ds))" by (simp add: length_concat o_def)
    then show ?thesis by (simp add: map_f concat_Split)
  qed
  have "sum_list (map (\<lambda>d. length (?f d) * count_list ds d) W) = (\<Sum>d\<in>set ds. count_list ds d * length (?f d))"
    using W by (simp add: sum_list_distinct_conv_sum_set mult.commute)
  then have occ: "sum_list (map (\<lambda>d. length (?f d) * count_list ds d) W) = length b"
    by (simp add: sum_list_map_eq_sum_count [symmetric] total)
  have "sum_list (map (\<lambda>d. length (?f d)) W) \<le> sum_list (map (\<lambda>d. length (?f d) * count_list ds d) W)"
    using W(1) by (intro sum_list_mono) (simp add: Suc_le_eq count_pos)
  then have once: "0 + sum_list (map (\<lambda>d. length (?f d)) W) \<le> length b" by (simp add: occ)
  have spans: "spans (bo_manifest ?r) = ds" by (simp add: ds_def manifest_spans [OF K])
  let ?bounds = "map (\<lambda>d. (d, bounds_of (compressed_row K (?f d)))) W"
  have bounds: "loadEvidenceChunkBounds order t (bo_manifest ?r) (length b) = Some ?bounds" if "all_chunks K b t" for t
    using bounds_loop_reads [OF K, of ?f t W "count_list ds" 0 "length b" "[]"] rows_for [OF that] W distinct_card [OF W(2)]
    by (simp add: loadEvidenceChunkBounds_def Let_def spans W_def [symmetric] occ count_pos)
  have len: "length (bc_sha256 K b) = 32" "bo_plain ?r = length b" using K by (simp_all add: codec_ok_def body_row_of_def)
  then have "bc_sha256 K b \<noteq> []" by auto
  then have load: "loadEvidenceBody K order db rows later (bc_sha256 K b) =
      (case Option.bind (loadEvidenceChunkBounds order rows (bo_manifest ?r) (length b))
          (\<lambda>bounds. Option.bind (load_chunks_loop K later (length b) bounds 0 Map.empty) (\<lambda>chunks. assemble chunks (length b) ds [])) of
        None \<Rightarrow> Inl StoredInvalid
      | Some body \<Rightarrow> if length body \<noteq> length b \<or> bc_sha256 K body \<noteq> bc_sha256 K b then Inl StoredInvalid else Inr body)"
    using row len body_row_ok(1) [OF K b(1)] b(1,2)
    by (auto simp: loadEvidenceBody_def Let_def spans body_row_check_def storable_def DefaultMaximumBodyBytes_def maximumChunkManifestBytes_def
        split: option.splits)
  show "loadEvidenceBody K order db rows later (bc_sha256 K b) = Inr b" if "all_chunks K b rows" "all_chunks K b later"
  proof -
    have "load_chunks_loop K later (length b) ?bounds 0 Map.empty = Some (\<lambda>d. if d \<in> set W then Some (?f d) else None)"
      using chunks_loop_reads [OF K _ once] rows_for [OF that(2)] W(1) by simp
    moreover have "assemble (\<lambda>d. if d \<in> set W then Some (?f d) else None) (length b) ds [] = Some b"
      using assemble_reads [of ds _ ?f "[]" "length b"] W(1) total by (simp add: map_f concat_Split)
    ultimately show ?thesis using bounds [OF that(1)] by (simp add: load)
  qed
  show "loadEvidenceBody K order db rows later (bc_sha256 K b) = Inl StoredInvalid"
    if "some_missing K b rows \<or> all_chunks K b rows \<and> some_missing K b later"
    using that
  proof
    assume "some_missing K b rows"
    then obtain d where "d \<in> set ds" "rows d = None" by (auto simp: some_missing_def ds_def)
    then have "loadEvidenceChunkBounds order rows (bo_manifest ?r) (length b) = None" using missing_bounds [OF ord] spans by blast
    then show ?thesis by (simp add: load)
  next
    assume later: "all_chunks K b rows \<and> some_missing K b later"
    then obtain d where "d \<in> set W" "later d = None" unfolding W(1) by (auto simp: some_missing_def ds_def)
    then have "load_chunks_loop K later (length b) ?bounds 0 Map.empty = None"
      by (intro missing_chunk [of d "bounds_of (compressed_row K (?f d))"]) auto
    then show ?thesis using bounds later by (simp add: load)
  qed
qed

lemma load_holds:
  assumes K: "codec_ok K" and ord: "order_ok order" and C: "inj_on (bc_sha256 K) C" and b: "b \<in> B" "b \<noteq> []" "storable C b" and h: "holds K B db"
  shows "loadEvidenceBody K order db (ev_chunks db) (ev_chunks db) (bc_sha256 K b) = Inr b"
  using load_row(1) [OF K ord C b(2,3) holds_body [OF h b(1)]] holds_chunk [OF h b(1)] by (simp add: all_chunks_def)

lemma holds_chunks:
  assumes "inj_on (bc_sha256 K) C" "\<forall>x\<in>B. storable C x" "holds K B db" "storable C b"
  shows "if set (Split b) \<subseteq> (\<Union>x\<in>B. set (Split x)) then all_chunks K b (ev_chunks db) else some_missing K b (ev_chunks db)"
proof (cases "set (Split b) \<subseteq> (\<Union>x\<in>B. set (Split x))")
  case True
  then show ?thesis using holds_chunk [OF assms(3)] by (auto simp: all_chunks_def)
next
  case False
  then obtain c where c: "c \<in> set (Split b)" "c \<notin> (\<Union>x\<in>B. set (Split x))" by blast
  have "bc_sha256 K c \<noteq> bc_sha256 K c'" if "x \<in> B" "c' \<in> set (Split x)" for x c'
    using inj_onD [OF assms(1), of c c'] c that assms(2,4) by (auto simp: storable_def)
  then have "ev_chunks db (bc_sha256 K c) = None" using holdsD(2) [OF assms(3)] by (metis not_None_eq)
  then show ?thesis using False c(1) by (auto simp: some_missing_def)
qed

section \<open>Releasing a body\<close>

definition referred :: "bool \<Rightarrow> evidence_db \<Rightarrow> string \<Rightarrow> bool" where
  "referred native db d \<longleftrightarrow> envelope_refers db d \<or> native \<and> native_refers db d"

lemma release_frame:
  "ev_envelopes (releaseEvidenceBody native d db) = ev_envelopes db" "ev_natives (releaseEvidenceBody native d db) = ev_natives db"
  by (simp_all add: releaseEvidenceBody_def Let_def split: option.splits)

text \<open>The row of a digest is the row of any chunk that has it.\<close>

lemma chunk_entry:
  assumes "inj_on (bc_sha256 K) C" "\<forall>x\<in>B. storable C x" "holds K B db"
  shows "ev_chunks db x = Some r \<longleftrightarrow>
    (x \<in> bc_sha256 K ` (\<Union>b\<in>B. set (Split b)) \<and> (\<forall>b\<in>B. \<forall>c\<in>set (Split b). x = bc_sha256 K c \<longrightarrow> r = compressed_row K c))"
proof -
  have inC: "c \<in> C" if "b \<in> B" "c \<in> set (Split b)" for b c using assms(2) that by (auto simp: storable_def)
  then have "c = c'" if "b \<in> B" "c \<in> set (Split b)" "b' \<in> B" "c' \<in> set (Split b')" "bc_sha256 K c = bc_sha256 K c'" for b b' c c'
    using assms(1) that by (meson inj_onD)
  then show ?thesis unfolding holdsD(2) [OF assms(3)] by blast
qed

lemma release_holds:
  assumes K: "codec_ok K" and C: "inj_on (bc_sha256 K) C" and B: "\<forall>x\<in>B. storable C x" and h: "holds K B db"
  shows "holds K {b \<in> B. bc_sha256 K b \<noteq> d \<or> referred native db d} (releaseEvidenceBody native d db)"
proof (cases "ev_bodies db d")
  case None
  then have "{b \<in> B. bc_sha256 K b \<noteq> d \<or> referred native db d} = B" using holds_body [OF h] by force
  then show ?thesis using None h by (simp add: releaseEvidenceBody_def)
next
  case (Some r)
  then obtain b where b: "b \<in> B" "d = bc_sha256 K b" "r = body_row_of K b" using holdsD(1) [OF h] by blast
  have same: "bc_sha256 K x = d \<longleftrightarrow> x = b" if "x \<in> B" for x
    using that b C B unfolding storable_def by (metis inj_on_contraD)
  show ?thesis
  proof (cases "referred native db d")
    case True
    then show ?thesis using Some h by (simp add: releaseEvidenceBody_def referred_def [symmetric])
  next
    case False
    define refs where "refs = {e \<in> ev_refs db. fst e \<noteq> d}"
    have refs: "refs = {(bc_sha256 K x, bc_sha256 K c) | x c. x \<in> B - {b} \<and> c \<in> set (Split x)}"
      unfolding refs_def holdsD(3) [OF h] using same by force
    have "ev_bodies (releaseEvidenceBody native d db) = (ev_bodies db)(d := None)"
      "ev_refs (releaseEvidenceBody native d db) = refs"
      "ev_chunks (releaseEvidenceBody native d db)
        = (\<lambda>x. if x \<in> bc_sha256 K ` set (Split b) \<and> x \<notin> snd ` refs then None else ev_chunks db x)"
      using Some False by (simp_all add: releaseEvidenceBody_def referred_def [symmetric] Let_def refs_def b(3) manifest_spans [OF K])
    note eqs = this
    have "holds K (B - {b}) (releaseEvidenceBody native d db)"
      unfolding holds_def eqs
    proof (intro conjI allI)
      fix x and r :: body_row
      show "((ev_bodies db)(d := None)) x = Some r \<longleftrightarrow> (\<exists>b\<in>B - {b}. x = bc_sha256 K b \<and> r = body_row_of K b)"
      proof (cases "x = d")
        case True
        then have "\<not> (\<exists>b\<in>B - {b}. x = bc_sha256 K b \<and> r = body_row_of K b)" using same by blast
        then show ?thesis by (simp add: True)
      next
        case False
        then have "(\<exists>b\<in>B - {b}. x = bc_sha256 K b \<and> r = body_row_of K b) \<longleftrightarrow> (\<exists>b\<in>B. x = bc_sha256 K b \<and> r = body_row_of K b)"
          using b(2) by blast
        then show ?thesis using holdsD(1) [OF h, of x r] False by simp
      qed
    next
      fix x and r :: chunk_row
      have ref: "x \<in> snd ` refs \<longleftrightarrow> (\<exists>y\<in>B - {b}. \<exists>c\<in>set (Split y). x = bc_sha256 K c)" unfolding refs by force
      note entry = chunk_entry [OF C B h, of x r]
      show "(if x \<in> bc_sha256 K ` set (Split b) \<and> x \<notin> snd ` refs then None else ev_chunks db x) = Some r
          \<longleftrightarrow> (\<exists>b\<in>B - {b}. \<exists>c\<in>set (Split b). x = bc_sha256 K c \<and> r = compressed_row K c)" (is "?l \<longleftrightarrow> ?r")
      proof (cases "x \<in> snd ` refs")
        case True
        then have "?l \<longleftrightarrow> ev_chunks db x = Some r" by simp
        also have "\<dots> \<longleftrightarrow> ?r"
        proof
          assume "ev_chunks db x = Some r"
          then show ?r using True entry ref by blast
        next
          assume ?r
          then show "ev_chunks db x = Some r" using holds_chunk [OF h] by blast
        qed
        finally show ?thesis .
      next
        case False
        then have "\<not> ?r" using ref by blast
        moreover have "\<not> ?l"
        proof (cases "x \<in> bc_sha256 K ` set (Split b)")
          case False
          then have "x \<notin> bc_sha256 K ` (\<Union>b\<in>B. set (Split b))" using \<open>x \<notin> snd ` refs\<close> ref by blast
          then show ?thesis using entry False by simp
        qed (use False in simp)
        ultimately show ?thesis by blast
      qed
    qed (rule refs)
    moreover have "{x \<in> B. bc_sha256 K x \<noteq> d \<or> referred native db d} = B - {b}" using False same by auto
    ultimately show ?thesis by simp
  qed
qed

section \<open>A map from records to bodies\<close>

text \<open>The specification: an envelope, and a content of a native operation, has a body.  The steps are the operations
  with what they mean for it; an operation that fails means nothing, unless its commit was applied all the same.\<close>

definition took_effect :: "commit_result \<Rightarrow> evidence_error option \<Rightarrow> bool" where
  "took_effect commit e \<longleftrightarrow> e = None \<or> e = Some CommitFailed \<and> commit = CommitApplied"

type_synonym kept = "(string \<Rightarrow> string option) \<times> (string \<times> string \<Rightarrow> string option)"

inductive evidence_step :: "body_codec \<Rightarrow> string set \<Rightarrow> (string set \<Rightarrow> string list) \<Rightarrow> evidence_db \<times> kept \<Rightarrow> evidence_db \<times> kept \<Rightarrow> bool"
  for K C order where
  appended: "list_all (\<lambda>(i, b). storable C b) rs \<Longrightarrow> AppendBatch K ok commit rs db = (db', e) \<Longrightarrow> took_effect commit e \<Longrightarrow>
    evidence_step K C order (db, ke, kn) (db', ke ++ map_of (rev rs), kn)"
| append_failed: "AppendBatch K ok commit rs db = (db', Some e) \<Longrightarrow> \<not> took_effect commit (Some e) \<Longrightarrow>
    evidence_step K C order (db, ke, kn) (db', ke, kn)"
| content_put: "storable C b \<Longrightarrow> put_content K commit key b db = (db', e) \<Longrightarrow> took_effect commit e \<Longrightarrow>
    evidence_step K C order (db, ke, kn) (db', ke, kn(key \<mapsto> b))"
| content_failed: "put_content K commit key b db = (db', Some e) \<Longrightarrow> \<not> took_effect commit (Some e) \<Longrightarrow>
    evidence_step K C order (db, ke, kn) (db', ke, kn)"
| envelopes_deleted: "native \<or> kn = Map.empty \<Longrightarrow>
    evidence_step K C order (db, ke, kn) (deleteRawEvidence order native P db, (\<lambda>i. if P i then None else ke i), kn)"
| contents_deleted:
    "evidence_step K C order (db, ke, kn) (deleteNativeContents order P db, ke, (\<lambda>k. if P k then None else kn k))"

definition empty_evidence :: evidence_db where
  "empty_evidence = \<lparr> ev_bodies = Map.empty, ev_chunks = Map.empty, ev_refs = {}, ev_envelopes = Map.empty, ev_natives = Map.empty \<rparr>"

definition evidence_reach :: "body_codec \<Rightarrow> string set \<Rightarrow> (string set \<Rightarrow> string list) \<Rightarrow> evidence_db \<Rightarrow> kept \<Rightarrow> bool" where
  "evidence_reach K C order db k \<longleftrightarrow> (evidence_step K C order)\<^sup>*\<^sup>* (empty_evidence, (Map.empty, Map.empty)) (db, k)"

definition kept_bodies :: "kept \<Rightarrow> string set" where
  "kept_bodies k = (ran (fst k) \<union> ran (snd k)) - {[]}"

definition body_ref :: "body_codec \<Rightarrow> string \<Rightarrow> string option" where
  "body_ref K b = (if b = [] then None else Some (bc_sha256 K b))"

text \<open>The records of the tables are those of the specification; \<open>B\<close>: the bodies in the tables.\<close>

definition records_ok :: "body_codec \<Rightarrow> string set \<Rightarrow> evidence_db \<Rightarrow> kept \<Rightarrow> bool" where
  "records_ok K C db k \<longleftrightarrow>
     ev_envelopes db = map_option (body_ref K) \<circ> fst k \<and> ev_natives db = map_option (bc_sha256 K) \<circ> snd k
     \<and> finite (dom (fst k)) \<and> finite (dom (snd k)) \<and> (\<forall>b\<in>ran (fst k) \<union> ran (snd k). storable C b) \<and> [] \<notin> ran (snd k)"

definition evidence_inv :: "body_codec \<Rightarrow> string set \<Rightarrow> evidence_db \<Rightarrow> kept \<Rightarrow> bool" where
  "evidence_inv K C db k \<longleftrightarrow> records_ok K C db k \<and> holds K (kept_bodies k) db"

lemma kept_storable: "records_ok K C db k \<Longrightarrow> \<forall>b\<in>kept_bodies k. storable C b"
  by (auto simp: records_ok_def kept_bodies_def)

lemma append_one:
  assumes K: "codec_ok K" and C: "inj_on (bc_sha256 K) C" and inv: "evidence_inv K C db (ke, kn)" and b: "storable C b"
    and run: "storeEvidenceBody K b db = Inr (db1, d)" and new: "ev_envelopes db1 i = None"
  shows "evidence_inv K C (db1\<lparr>ev_envelopes := (ev_envelopes db1)(i \<mapsto> d)\<rparr>) (ke(i \<mapsto> b), kn)"
proof -
  have rec: "records_ok K C db (ke, kn)" "holds K (kept_bodies (ke, kn)) db" using inv by (auto simp: evidence_inv_def)
  have db1: "holds K (if b = [] then kept_bodies (ke, kn) else insert b (kept_bodies (ke, kn))) db1"
    "ev_envelopes db1 = ev_envelopes db" "ev_natives db1 = ev_natives db" "d = body_ref K b"
    using run store_holds [OF K C kept_storable [OF rec(1)] b _ rec(2)] rec(2)
    by (auto simp: storeEvidenceBody_def body_ref_def split: if_splits)
  have fresh: "ke i = None" using new rec(1) db1(2) by (simp add: records_ok_def)
  then have "kept_bodies (ke(i \<mapsto> b), kn) = (if b = [] then kept_bodies (ke, kn) else insert b (kept_bodies (ke, kn)))"
    by (auto simp: kept_bodies_def)
  moreover have "records_ok K C (db1\<lparr>ev_envelopes := (ev_envelopes db1)(i \<mapsto> d)\<rparr>) (ke(i \<mapsto> b), kn)"
    using rec(1) b db1(2-4) fresh by (auto simp: records_ok_def fun_eq_iff)
  moreover have "holds K B (db1\<lparr>ev_envelopes := m\<rparr>) = holds K B db1" for B m by (simp add: holds_def)
  ultimately show ?thesis using db1(1) by (simp add: evidence_inv_def)
qed

lemma no_commit_failure:
  "storeEvidenceBody K b db \<noteq> Inl CommitFailed" "append_records K ok rs db \<noteq> Inl CommitFailed"
proof -
  have "put_chunks K cs rows \<noteq> Inl CommitFailed" for cs rows
    by (induction cs arbitrary: rows) (auto simp: putEvidenceChunk_def putCompressedRow_def split: sum.splits option.splits if_splits)
  then show store: "storeEvidenceBody K b db \<noteq> Inl CommitFailed" for b db
    by (auto simp: storeEvidenceBody_def put_body_def split: sum.splits option.splits if_splits)
  show "append_records K ok rs db \<noteq> Inl CommitFailed"
    by (induction rs arbitrary: db) (auto simp: store split: sum.splits if_splits)
qed

lemma append_ran: "AppendBatch K ok commit rs db = (db', e) \<Longrightarrow> took_effect commit e \<Longrightarrow> append_records K ok rs db = Inr db'"
  by (auto simp: AppendBatch_def took_effect_def end_transaction_def no_commit_failure split: sum.splits if_splits)

lemma content_ran:
  "put_content K commit key b db = (db', e) \<Longrightarrow> took_effect commit e \<Longrightarrow> b \<noteq> [] \<and> ev_natives db key = None
     \<and> (\<exists>db1 d. storeEvidenceBody K b db = Inr (db1, d) \<and> db' = db1\<lparr>ev_natives := (ev_natives db1)(key := d)\<rparr>)"
  by (auto simp: put_content_def took_effect_def end_transaction_def no_commit_failure split: sum.splits if_splits prod.splits)

lemma append_records_inv:
  assumes K: "codec_ok K" and C: "inj_on (bc_sha256 K) C"
  shows "evidence_inv K C db (ke, kn) \<Longrightarrow> list_all (\<lambda>(i, b). storable C b) rs \<Longrightarrow> append_records K ok rs db = Inr db' \<Longrightarrow>
    evidence_inv K C db' (ke ++ map_of (rev rs), kn)"
proof (induction rs arbitrary: db ke)
  case (Cons x rs)
  obtain i b where x: "x = (i, b)" by force
  obtain db1 d where run: "storeEvidenceBody K b db = Inr (db1, d)" "ev_envelopes db1 i = None"
    "append_records K ok rs (db1\<lparr>ev_envelopes := (ev_envelopes db1)(i \<mapsto> d)\<rparr>) = Inr db'"
    using Cons.prems(3) by (auto simp: x split: sum.splits if_splits)
  have "evidence_inv K C (db1\<lparr>ev_envelopes := (ev_envelopes db1)(i \<mapsto> d)\<rparr>) (ke(i \<mapsto> b), kn)"
    using Cons.prems(2) by (intro append_one [OF K C Cons.prems(1) _ run(1,2)]) (simp add: x)
  from Cons.IH [OF this _ run(3)] Cons.prems(2) have "evidence_inv K C db' (ke(i \<mapsto> b) ++ map_of (rev rs), kn)" by (simp add: fun_upd_def)
  moreover have "ke(i \<mapsto> b) ++ map_of (rev rs) = ke ++ map_of (rev (x # rs))" by (simp add: x map_add_def fun_eq_iff split: option.splits)
  ultimately show ?case by simp
qed simp

lemma put_content_inv:
  assumes K: "codec_ok K" and C: "inj_on (bc_sha256 K) C" and inv: "evidence_inv K C db (ke, kn)" and b: "storable C b"
    and run: "put_content K commit key b db = (db', e)" "took_effect commit e"
  shows "evidence_inv K C db' (ke, kn(key \<mapsto> b))"
proof -
  have rec: "records_ok K C db (ke, kn)" "holds K (kept_bodies (ke, kn)) db" using inv by (auto simp: evidence_inv_def)
  have ne: "b \<noteq> []" "ev_natives db key = None" using content_ran [OF run] by auto
  then obtain db1 where db1: "db' = db1\<lparr>ev_natives := (ev_natives db)(key \<mapsto> bc_sha256 K b)\<rparr>" "holds K (insert b (kept_bodies (ke, kn))) db1"
    "ev_envelopes db1 = ev_envelopes db"
    using content_ran [OF run] store_holds [OF K C kept_storable [OF rec(1)] b ne(1) rec(2)] by auto
  have fresh: "kn key = None" using ne(2) rec(1) by (simp add: records_ok_def)
  then have "kept_bodies (ke, kn(key \<mapsto> b)) = insert b (kept_bodies (ke, kn))" using ne(1) by (auto simp: kept_bodies_def)
  moreover have "records_ok K C db' (ke, kn(key \<mapsto> b))"
    using rec(1) b db1(1,3) fresh ne(1) by (auto simp: records_ok_def fun_eq_iff)
  moreover have "holds K B (db1\<lparr>ev_natives := m\<rparr>) = holds K B db1" for B m by (simp add: holds_def)
  ultimately show ?thesis using db1 by (simp add: evidence_inv_def)
qed

lemma fold_release:
  assumes K: "codec_ok K" and C: "inj_on (bc_sha256 K) C"
  shows "\<forall>x\<in>B. storable C x \<Longrightarrow> holds K B db \<Longrightarrow>
    holds K {b \<in> B. bc_sha256 K b \<notin> set ds \<or> referred native db (bc_sha256 K b)} (fold (releaseEvidenceBody native) ds db)
    \<and> ev_envelopes (fold (releaseEvidenceBody native) ds db) = ev_envelopes db
    \<and> ev_natives (fold (releaseEvidenceBody native) ds db) = ev_natives db"
proof (induction ds arbitrary: B db)
  case (Cons d ds)
  let ?db = "releaseEvidenceBody native d db" let ?B = "{b \<in> B. bc_sha256 K b \<noteq> d \<or> referred native db d}"
  have ref: "referred native ?db x = referred native db x" for x
    by (simp add: referred_def envelope_refers_def native_refers_def release_frame)
  have "holds K ?B ?db" using release_holds [OF K C Cons.prems] .
  then have "holds K {b \<in> ?B. bc_sha256 K b \<notin> set ds \<or> referred native ?db (bc_sha256 K b)} (fold (releaseEvidenceBody native) ds ?db)"
    using Cons.IH [of ?B ?db] Cons.prems(1) by simp
  moreover have "{b \<in> ?B. bc_sha256 K b \<notin> set ds \<or> referred native ?db (bc_sha256 K b)}
      = {b \<in> B. bc_sha256 K b \<notin> set (d # ds) \<or> referred native db (bc_sha256 K b)}" unfolding ref by auto
  ultimately show ?case using Cons.IH [of ?B ?db] Cons.prems(1) \<open>holds K ?B ?db\<close> by (simp add: release_frame)
qed simp

lemma range_map_option: "Some y \<in> range (map_option f \<circ> g) \<longleftrightarrow> (\<exists>x\<in>ran g. f x = y)"
proof
  assume "Some y \<in> range (map_option f \<circ> g)"
  then obtain i where "map_option f (g i) = Some y" by (metis comp_apply imageE)
  then show "\<exists>x\<in>ran g. f x = y" by (auto intro: ranI)
next
  assume "\<exists>x\<in>ran g. f x = y"
  then obtain x i where "g i = Some x" "f x = y" by (auto simp: ran_def)
  then have "(map_option f \<circ> g) i = Some y" by simp
  then show "Some y \<in> range (map_option f \<circ> g)" by (metis rangeI)
qed

text \<open>After a deletion, \<open>B\<close> may hold bodies that only the deleted records referred to; \<open>S\<close> has their digests.\<close>

lemma release_all:
  assumes K: "codec_ok K" and C: "inj_on (bc_sha256 K) C" and rec: "records_ok K C db k" and h: "holds K B db" and B: "\<forall>x\<in>B. storable C x"
    and native: "native \<or> snd k = Map.empty" and sub: "kept_bodies k \<subseteq> B" and S: "\<forall>b\<in>B - kept_bodies k. bc_sha256 K b \<in> set ds"
    and nonempty: "[] \<notin> B"
  shows "evidence_inv K C (fold (releaseEvidenceBody native) ds db) k"
proof -
  have "referred native db (bc_sha256 K b) \<longleftrightarrow> b \<in> kept_bodies k" if "b \<in> B" for b
  proof -
    have b: "b \<in> C" "b \<noteq> []" using that B nonempty by (auto simp: storable_def)
    have same: "bc_sha256 K x = bc_sha256 K b \<longleftrightarrow> x = b" if "storable C x" for x
      using that b(1) C by (metis inj_on_contraD storable_def)
    have "envelope_refers db (bc_sha256 K b) \<longleftrightarrow> b \<in> ran (fst k)"
    proof -
      have "envelope_refers db (bc_sha256 K b) \<longleftrightarrow> (\<exists>x \<in> ran (fst k). body_ref K x = Some (bc_sha256 K b))"
        using rec unfolding envelope_refers_def records_ok_def by (metis range_map_option)
      also have "\<dots> \<longleftrightarrow> b \<in> ran (fst k)" using rec same b(2) by (auto simp: records_ok_def body_ref_def split: if_splits)
      finally show ?thesis .
    qed
    moreover have "native_refers db (bc_sha256 K b) \<longleftrightarrow> b \<in> ran (snd k)"
    proof -
      have "native_refers db (bc_sha256 K b) \<longleftrightarrow> (\<exists>x \<in> ran (snd k). bc_sha256 K x = bc_sha256 K b)"
        using rec unfolding native_refers_def records_ok_def by (metis range_map_option)
      also have "\<dots> \<longleftrightarrow> b \<in> ran (snd k)" using rec same by (auto simp: records_ok_def)
      finally show ?thesis .
    qed
    ultimately show ?thesis using native b(2) by (auto simp: referred_def kept_bodies_def)
  qed
  then have "{b \<in> B. bc_sha256 K b \<notin> set ds \<or> referred native db (bc_sha256 K b)} = kept_bodies k" using sub S by auto
  then show ?thesis using fold_release [OF K C B h, of ds native] rec by (simp add: evidence_inv_def records_ok_def)
qed

lemma holds_records [simp]: "holds K B (db\<lparr>ev_envelopes := m\<rparr>) = holds K B db" "holds K B (db\<lparr>ev_natives := n\<rparr>) = holds K B db"
  by (simp_all add: holds_def)

lemma ran_delete: "b \<in> ran m \<Longrightarrow> b \<notin> ran (\<lambda>i. if P i then None else m i) \<Longrightarrow> \<exists>i. P i \<and> m i = Some b"
  by (auto simp: ran_def split: if_splits)

lemma ran_delete_sub: "ran (\<lambda>i. if P i then None else m i) \<subseteq> ran m" "dom (\<lambda>i. if P i then None else m i) \<subseteq> dom m"
  by (auto simp: ran_def split: if_splits)

lemma delete_envelopes_inv:
  assumes K: "codec_ok K" and ord: "order_ok order" and C: "inj_on (bc_sha256 K) C" and inv: "evidence_inv K C db (ke, kn)"
    and native: "native \<or> kn = Map.empty"
  shows "evidence_inv K C (deleteRawEvidence order native P db) (\<lambda>i. if P i then None else ke i, kn)"
proof -
  let ?ke = "\<lambda>i. if P i then None else ke i" let ?S = "{d. \<exists>i. P i \<and> ev_envelopes db i = Some (Some d)}"
  let ?db = "db\<lparr>ev_envelopes := (\<lambda>i. if P i then None else ev_envelopes db i)\<rparr>"
  have rec: "records_ok K C db (ke, kn)" and h: "holds K (kept_bodies (ke, kn)) db" using inv by (auto simp: evidence_inv_def)
  have env: "ev_envelopes db = map_option (body_ref K) \<circ> ke" and fin: "finite (dom ke)" using rec by (auto simp: records_ok_def)
  have "?S \<subseteq> bc_sha256 K ` ran ke" by (auto simp: env body_ref_def ran_def split: if_splits)
  then have "finite ?S" using fin by (meson finite_imageI finite_ran finite_subset)
  then have S: "set (order ?S) = ?S" using ord by (simp add: order_ok_def)
  have "records_ok K C ?db (?ke, kn)"
    using rec ran_delete_sub [of P ke] by (auto simp: records_ok_def fun_eq_iff intro: finite_subset)
  moreover have "bc_sha256 K b \<in> set (order ?S)" if "b \<in> kept_bodies (ke, kn) - kept_bodies (?ke, kn)" for b
  proof -
    have b: "b \<noteq> []" "b \<in> ran ke" "b \<notin> ran ?ke" using that by (auto simp: kept_bodies_def)
    then obtain i where "P i" "ke i = Some b" using ran_delete by metis
    then have "P i \<and> ev_envelopes db i = Some (Some (bc_sha256 K b))" using b(1) by (simp add: env body_ref_def)
    then show ?thesis unfolding S by blast
  qed
  ultimately show ?thesis unfolding deleteRawEvidence_def
    using h native kept_storable [OF rec] ran_delete_sub(1) [of P ke]
    by (intro release_all [OF K C, of ?db _ "kept_bodies (ke, kn)"]) (auto simp: kept_bodies_def)
qed

lemma delete_contents_inv:
  assumes K: "codec_ok K" and ord: "order_ok order" and C: "inj_on (bc_sha256 K) C" and inv: "evidence_inv K C db (ke, kn)"
  shows "evidence_inv K C (deleteNativeContents order P db) (ke, \<lambda>i. if P i then None else kn i)"
proof -
  let ?kn = "\<lambda>i. if P i then None else kn i" let ?S = "{d. \<exists>i. P i \<and> ev_natives db i = Some d}"
  let ?db = "db\<lparr>ev_natives := (\<lambda>i. if P i then None else ev_natives db i)\<rparr>"
  have rec: "records_ok K C db (ke, kn)" and h: "holds K (kept_bodies (ke, kn)) db" using inv by (auto simp: evidence_inv_def)
  have nat: "ev_natives db = map_option (bc_sha256 K) \<circ> kn" and fin: "finite (dom kn)" using rec by (auto simp: records_ok_def)
  have "?S \<subseteq> bc_sha256 K ` ran kn" by (auto simp: nat ran_def)
  then have "finite ?S" using fin by (meson finite_imageI finite_ran finite_subset)
  then have S: "set (order ?S) = ?S" using ord by (simp add: order_ok_def)
  have "records_ok K C ?db (ke, ?kn)"
    using rec ran_delete_sub [of P kn] by (auto simp: records_ok_def fun_eq_iff intro: finite_subset)
  moreover have "bc_sha256 K b \<in> set (order ?S)" if "b \<in> kept_bodies (ke, kn) - kept_bodies (ke, ?kn)" for b
  proof -
    have b: "b \<in> ran kn" "b \<notin> ran ?kn" using that by (auto simp: kept_bodies_def)
    then obtain i where "P i" "kn i = Some b" using ran_delete by metis
    then have "P i \<and> ev_natives db i = Some (bc_sha256 K b)" by (simp add: nat)
    then show ?thesis unfolding S by blast
  qed
  ultimately show ?thesis unfolding deleteNativeContents_def
    using h kept_storable [OF rec] ran_delete_sub(1) [of P kn]
    by (intro release_all [OF K C, of ?db _ "kept_bodies (ke, kn)"]) (auto simp: kept_bodies_def)
qed

section \<open>What the store guarantees\<close>

lemma failed_unchanged:
  "AppendBatch K ok commit rs db = (db', Some e) \<Longrightarrow> \<not> took_effect commit (Some e) \<Longrightarrow> db' = db"
  "put_content K commit key b db = (db', Some e) \<Longrightarrow> \<not> took_effect commit (Some e) \<Longrightarrow> db' = db"
  by (cases commit; auto simp: AppendBatch_def put_content_def end_transaction_def took_effect_def split: sum.splits if_splits)+

lemma evidence_step_inv:
  assumes K: "codec_ok K" and ord: "order_ok order" and C: "inj_on (bc_sha256 K) C"
    and step: "evidence_step K C order (db, ke, kn) (db', k')" and inv: "evidence_inv K C db (ke, kn)"
  shows "evidence_inv K C db' k'"
  using step
proof (cases rule: evidence_step.cases)
  case (appended rs ok commit e)
  then have "append_records K ok rs db = Inr db'" using append_ran by blast
  with append_records_inv [OF K C inv appended(2)] show ?thesis by (simp add: appended(1))
next
  case (content_put b commit key e)
  then show ?thesis using put_content_inv [OF K C inv] by simp
next
  case (envelopes_deleted native P)
  then show ?thesis using delete_envelopes_inv [OF K ord C inv] by simp
next
  case (contents_deleted P)
  then show ?thesis using delete_contents_inv [OF K ord C inv] by simp
qed (use inv failed_unchanged in blast)+

lemma evidence_reach_inv:
  assumes "codec_ok K" "order_ok order" "inj_on (bc_sha256 K) C" and "evidence_reach K C order db k"
  shows "evidence_inv K C db k"
  using assms(4) unfolding evidence_reach_def
proof (induction "(db, k)" arbitrary: db k rule: rtranclp_induct)
  case base
  show ?case by (auto simp: empty_evidence_def evidence_inv_def records_ok_def holds_def kept_bodies_def)
next
  case (step s)
  obtain db0 ke kn where "s = (db0, ke, kn)" by (metis surj_pair)
  with step show ?case using evidence_step_inv [OF assms(1-3)] by blast
qed

lemma load_no_digest: "loadEvidenceBody K order db rows later [] = Inr []"
  by (simp add: loadEvidenceBody_def)

definition read_record :: "body_codec \<Rightarrow> (string set \<Rightarrow> string list) \<Rightarrow> evidence_db \<Rightarrow> string option \<Rightarrow> evidence_error + string" where
  "read_record K order db d = loadEvidenceBody K order db (ev_chunks db) (ev_chunks db) (case d of None \<Rightarrow> [] | Some x \<Rightarrow> x)"

text \<open>C36: the tables implement a map from records to bodies.  After any sequence of batches, native contents and
deletions, with operations that fail between them (their commits lost or applied all the same), the records are those of the specification, each is read back with exactly
the body it was stored with, and the tables hold the bodies and the chunks of these records and no others: nothing that is
still referred to is lost, and nothing else is left behind.\<close>

theorem evidence_is_kept:
  assumes "codec_ok K" and "order_ok order" and "inj_on (bc_sha256 K) C" and "evidence_reach K C order db (ke, kn)"
  shows "map_option (read_record K order db) (ev_envelopes db i) = map_option Inr (ke i)
    \<and> map_option (\<lambda>d. read_record K order db (Some d)) (ev_natives db n) = map_option Inr (kn n)
    \<and> dom (ev_bodies db) = bc_sha256 K ` kept_bodies (ke, kn)
    \<and> dom (ev_chunks db) = bc_sha256 K ` (\<Union>b\<in>kept_bodies (ke, kn). set (Split b))"
proof -
  have inv: "records_ok K C db (ke, kn)" "holds K (kept_bodies (ke, kn)) db"
    using evidence_reach_inv [OF assms] by (auto simp: evidence_inv_def)
  have env: "ev_envelopes db i = map_option (body_ref K) (ke i)" "ev_natives db n = map_option (bc_sha256 K) (kn n)" "[] \<notin> ran kn"
    using inv(1) by (auto simp: records_ok_def)
  have load: "loadEvidenceBody K order db (ev_chunks db) (ev_chunks db) (bc_sha256 K b) = Inr b" if "b \<in> ran ke \<union> ran kn" "b \<noteq> []" for b
    using that kept_storable [OF inv(1)] by (intro load_holds [OF assms(1-3) _ _ _ inv(2)]) (auto simp: kept_bodies_def)
  have "map_option (read_record K order db) (ev_envelopes db i) = map_option Inr (ke i)"
    using load [OF UnI1] unfolding env by (cases "ke i") (simp_all add: read_record_def body_ref_def load_no_digest ranI)
  moreover have "map_option (\<lambda>d. read_record K order db (Some d)) (ev_natives db n) = map_option Inr (kn n)"
    using load [OF UnI2] env(3) unfolding env by (cases "kn n") (simp_all add: read_record_def, metis ranI)
  moreover have "dom (ev_bodies db) = bc_sha256 K ` kept_bodies (ke, kn)" using holdsD(1) [OF inv(2)] by (auto simp: dom_def)
  moreover have "dom (ev_chunks db) = bc_sha256 K ` (\<Union>b\<in>kept_bodies (ke, kn). set (Split b))"
    using holdsD(2) [OF inv(2)] by (auto simp: dom_def)
  ultimately show ?thesis by blast
qed

text \<open>C37: a read that other operations overlap.  Let any batches, native contents and deletions, failing ones among them,
be committed between the first query of a read and its second, and between the second and its third.  A body that was there at
the first query is returned exactly as it was stored, as long as each of its chunks still belongs to some body at both
later queries; if one does not, the read reports the body as invalid.  There is no third outcome.\<close>

theorem overlapped_read_is_exact:
  assumes "codec_ok K" and "order_ok order" and "inj_on (bc_sha256 K) C" and "evidence_reach K C order db k"
    and "(evidence_step K C order)\<^sup>*\<^sup>* (db, k) (db\<^sub>2, k\<^sub>2)" and "(evidence_step K C order)\<^sup>*\<^sup>* (db\<^sub>2, k\<^sub>2) (db\<^sub>3, k\<^sub>3)"
    and "b \<in> kept_bodies k"
  shows "loadEvidenceBody K order db (ev_chunks db\<^sub>2) (ev_chunks db\<^sub>3) (bc_sha256 K b) =
    (if set (Split b) \<subseteq> (\<Union>x\<in>kept_bodies k\<^sub>2. set (Split x)) \<inter> (\<Union>x\<in>kept_bodies k\<^sub>3. set (Split x)) then Inr b
     else Inl StoredInvalid)"
proof -
  have reach: "evidence_reach K C order db\<^sub>2 k\<^sub>2" "evidence_reach K C order db\<^sub>3 k\<^sub>3"
    using assms(4-6) unfolding evidence_reach_def by (meson rtranclp_trans)+
  have inv: "records_ok K C db k" "holds K (kept_bodies k) db"
    "records_ok K C db\<^sub>2 k\<^sub>2" "holds K (kept_bodies k\<^sub>2) db\<^sub>2" "records_ok K C db\<^sub>3 k\<^sub>3" "holds K (kept_bodies k\<^sub>3) db\<^sub>3"
    using evidence_reach_inv [OF assms(1-3)] assms(4) reach unfolding evidence_inv_def by blast+
  have b: "storable C b" "b \<noteq> []" using assms(7) kept_storable [OF inv(1)] by (auto simp: kept_bodies_def)
  note load = load_row [OF assms(1-3) b(2,1) holds_body [OF inv(2) assms(7)]]
  show ?thesis
    using load holds_chunks [OF assms(3) kept_storable [OF inv(3)] inv(4) b(1)] holds_chunks [OF assms(3) kept_storable [OF inv(5)] inv(6) b(1)]
    by (simp split: if_splits)
qed

section \<open>One record\<close>

definition demo_codec :: body_codec where
  "demo_codec = \<lparr> bc_sha256 = (\<lambda>x. take 32 (x @ replicate 32 (CHR ''.''))),
     bc_EncodeAll = (\<lambda>x. CHR ''z'' # x), bc_DecodeAll = (\<lambda>n s. Some (tl s)) \<rparr>"

lemma demo_codec_ok: "codec_ok demo_codec" "inj_on (bc_sha256 demo_codec) {''ab''}" "order_ok sorted_list_of_set"
  by (auto simp: codec_ok_def demo_codec_def order_ok_def)

lemma demo_reached:
  "\<exists>db. evidence_reach demo_codec {''ab''} sorted_list_of_set db ([''e1'' \<mapsto> ''ab''], Map.empty) \<and> ev_envelopes db ''e1'' \<noteq> None"
proof -
  have ab: "storable {''ab''} ''ab''" by (simp add: storable_def Split_short MinimumBytes_def DefaultMaximumBodyBytes_def)
  have "holds demo_codec {} empty_evidence" by (simp add: holds_def empty_evidence_def)
  from store_holds [OF demo_codec_ok(1,2) _ ab _ this] obtain db where
    db: "storeEvidenceBody demo_codec ''ab'' empty_evidence = Inr (db, Some (bc_sha256 demo_codec ''ab''))" "ev_envelopes db = Map.empty"
    by (auto simp: empty_evidence_def)
  let ?db = "db\<lparr>ev_envelopes := [''e1'' \<mapsto> Some (bc_sha256 demo_codec ''ab'')]\<rparr>"
  have "AppendBatch demo_codec (\<lambda>_. True) CommitOK [(''e1'', ''ab'')] empty_evidence = (?db, None)"
    using db by (simp add: AppendBatch_def end_transaction_def)
  from appended [OF _ this, of "{''ab''}" sorted_list_of_set Map.empty Map.empty] ab
  have "evidence_step demo_codec {''ab''} sorted_list_of_set (empty_evidence, Map.empty, Map.empty) (?db, [''e1'' \<mapsto> ''ab''], Map.empty)" by (simp add: took_effect_def)
  then show ?thesis unfolding evidence_reach_def by (intro exI [of _ ?db] conjI r_into_rtranclp) simp_all
qed

theorem evidence_is_kept_witness:
  "\<exists>db. evidence_reach demo_codec {''ab''} sorted_list_of_set db ([''e1'' \<mapsto> ''ab''], Map.empty)
     \<and> map_option (read_record demo_codec sorted_list_of_set db) (ev_envelopes db ''e1'') = Some (Inr ''ab'')"
proof -
  obtain db where db: "evidence_reach demo_codec {''ab''} sorted_list_of_set db ([''e1'' \<mapsto> ''ab''], Map.empty)"
    using demo_reached by blast
  then show ?thesis using evidence_is_kept [OF demo_codec_ok(1,3,2) db, of "''e1''"] by auto
qed

theorem overlapped_read_is_exact_witness:
  "\<exists>(db :: evidence_db) (db\<^sub>3 :: evidence_db). loadEvidenceBody demo_codec sorted_list_of_set db (ev_chunks db) (ev_chunks db) (bc_sha256 demo_codec ''ab'') = Inr ''ab''
     \<and> loadEvidenceBody demo_codec sorted_list_of_set db (ev_chunks db) (ev_chunks db\<^sub>3) (bc_sha256 demo_codec ''ab'') = Inl StoredInvalid"
proof -
  let ?k = "([''e1'' \<mapsto> ''ab''], Map.empty) :: kept"
  obtain db where db: "evidence_reach demo_codec {''ab''} sorted_list_of_set db ?k" using demo_reached by blast
  define db\<^sub>3 where "db\<^sub>3 = deleteRawEvidence sorted_list_of_set True (\<lambda>i. i = ''e1'') db"
  have "(evidence_step demo_codec {''ab''} sorted_list_of_set)\<^sup>*\<^sup>* (db, ?k) (db\<^sub>3, (\<lambda>i. if i = ''e1'' then None else fst ?k i), Map.empty)"
    unfolding db\<^sub>3_def using envelopes_deleted [of True "snd ?k" demo_codec "{''ab''}" sorted_list_of_set db "fst ?k" "\<lambda>i. i = ''e1''"]
    by (intro r_into_rtranclp) simp
  moreover have "(\<lambda>i. if i = ''e1'' then None else fst ?k i) = Map.empty" by auto
  ultimately have gone: "(evidence_step demo_codec {''ab''} sorted_list_of_set)\<^sup>*\<^sup>* (db, ?k) (db\<^sub>3, (Map.empty, Map.empty))" by simp
  have kept: "kept_bodies ?k = {''ab''}" "kept_bodies (Map.empty, Map.empty) = {}" "Split ''ab'' = [''ab'']"
    by (simp_all add: kept_bodies_def Split_short MinimumBytes_def)
  note read = overlapped_read_is_exact [OF demo_codec_ok(1,3,2) db rtranclp.rtrancl_refl]
  have "''ab'' \<in> kept_bodies ?k" by (simp add: kept)
  from read [OF rtranclp.rtrancl_refl this] read [OF gone this]
  have "loadEvidenceBody demo_codec sorted_list_of_set db (ev_chunks db) (ev_chunks db) (bc_sha256 demo_codec ''ab'') = Inr ''ab''"
    "loadEvidenceBody demo_codec sorted_list_of_set db (ev_chunks db) (ev_chunks db\<^sub>3) (bc_sha256 demo_codec ''ab'') = Inl StoredInvalid"
    by (simp_all add: kept)
  then show ?thesis by blast
qed

end
