(* ===== verification/Tool_Policy.thy ===== *)
theory Tool_Policy
  imports Go_Path
begin

text \<open>
  The tool policy (\<open>src/internal/toolpolicy/gate.go\<close>): the last decision before a provider's tool calls are released to
  the client.  In the modes \<open>review\<close> and \<open>strict\<close> a group of calls is let through without a person only if every call
  works on files of the workspace.

  JSON documents are parsed values; the names of an object are distinct (\<open>protocolcore.NewJSONObject\<close>), and the empty
  document is \<open>None\<close>.  The reviewer, the evidence of native operations and the file system are parameters.
\<close>

section \<open>Requests\<close>

datatype json = JNull | JBool bool | JNum string | JStr string | JArr "json list" | JObj "(string \<times> json) list"

type_synonym json_document = "(string \<times> json) list option"

definition ToolPolicyObserve :: string where "ToolPolicyObserve = ''observe''"

definition ToolPolicyReview :: string where "ToolPolicyReview = ''review''"

definition ToolPolicyStrict :: string where "ToolPolicyStrict = ''strict''"

definition PolicySet_Validate :: "string \<Rightarrow> bool" where
  "PolicySet_Validate m \<longleftrightarrow> m = ToolPolicyObserve \<or> m = ToolPolicyReview \<or> m = ToolPolicyStrict"

record tool_call =
  tc_Kind :: string
  tc_Name :: string
  tc_Namespace :: string
  tc_Arguments :: json_document

record tool_definition =
  td_Kind :: string
  td_Name :: string
  td_InputSchema :: json_document

definition EffectiveKind :: "string \<Rightarrow> string" where
  "EffectiveKind k = (if k = [] then ''function'' else k)"

record decision_context =
  dc_policySet :: string
  dc_workspaceRoot :: string
  dc_structuredWorkspaceTools :: bool
  dc_tools :: "tool_definition list"
  dc_toolNamespaces :: "string list"

text \<open>A native operation: whether its evidence verifies, its context and the policy of its plan.\<close>

record native_request =
  nr_verified :: bool
  nr_context :: decision_context
  nr_planPolicy :: string

record decision_request =
  dr_native :: "native_request option"
  dr_context :: decision_context
  dr_intents :: "tool_call list"

datatype tool_decision = ToolDecisionApproved | ToolDecisionRejected string

datatype tool_error = EvidenceRefused | NativePolicyInvalid | PolicyUnsupported | ReviewFailed string

section \<open>Paths\<close>

definition lexicallyInside :: "string \<Rightarrow> string \<Rightarrow> bool" where
  "lexicallyInside root candidate =
     (case Rel root candidate of None \<Rightarrow> False | Some relative \<Rightarrow> relative \<noteq> ''..'' \<and> \<not> prefix ''../'' relative)"

text \<open>The loop over the ancestors of a path that does not exist: \<open>n\<close> elements are left.  \<open>limit\<close>: the links the operating
  system follows.\<close>

fun ancestor_inside :: "file_system \<Rightarrow> nat \<Rightarrow> string \<Rightarrow> nat \<Rightarrow> string \<Rightarrow> bool" where
  "ancestor_inside fs limit realRoot 0 ancestor =
     (case Lstat fs limit ancestor of
        Found _ \<Rightarrow> (case EvalSymlinks fs ancestor of Found a \<Rightarrow> lexicallyInside realRoot (abs_path a) | _ \<Rightarrow> False)
      | _ \<Rightarrow> False)"
| "ancestor_inside fs limit realRoot (Suc n) ancestor =
     (case Lstat fs limit ancestor of
        Found _ \<Rightarrow> (case EvalSymlinks fs ancestor of Found a \<Rightarrow> lexicallyInside realRoot (abs_path a) | _ \<Rightarrow> False)
      | ErrNotExist \<Rightarrow> if ancestor = Dir ancestor then False else ancestor_inside fs limit realRoot n (Dir ancestor)
      | _ \<Rightarrow> False)"

definition candidate_path :: "string \<Rightarrow> string \<Rightarrow> string" where
  "candidate_path realRoot input = Clean (if IsAbs input then input else Join realRoot input)"

definition insideWorkspace :: "file_system \<Rightarrow> nat \<Rightarrow> string \<Rightarrow> string \<Rightarrow> bool \<Rightarrow> bool" where
  "insideWorkspace fs limit realRoot input allowCreate =
     (let candidate = candidate_path realRoot input in
      if \<not> lexicallyInside realRoot candidate then False
      else (case EvalSymlinks fs candidate of
          Found c \<Rightarrow> lexicallyInside realRoot (abs_path c)
        | ErrNotExist \<Rightarrow> allowCreate \<and> ancestor_inside fs limit realRoot (length (elements candidate)) candidate
        | _ \<Rightarrow> False))"

section \<open>Arguments and schemas\<close>

text \<open>\<open>json.Unmarshal\<close> into a string that is empty: \<open>null\<close> leaves it alone, another type is an error.\<close>

fun unmarshal_string :: "string \<Rightarrow> json \<Rightarrow> string option" where
  "unmarshal_string old JNull = Some old"
| "unmarshal_string old (JStr s) = Some s"
| "unmarshal_string old _ = None"

definition separated :: "string \<Rightarrow> string list" where
  "separated p = filter (\<lambda>s. s \<noteq> []) (split_char (CHR ''/'') (map (\<lambda>c. if c = CHR 0x5C then CHR ''/'' else c) p))"

definition safeRelativePattern :: "json option \<Rightarrow> bool" where
  "safeRelativePattern raw =
     (case Option.bind raw (unmarshal_string []) of
        None \<Rightarrow> False
      | Some pattern \<Rightarrow> pattern \<noteq> [] \<and> \<not> IsAbs pattern \<and> \<not> sublist ''..'' pattern \<and> ''..'' \<notin> set (separated pattern))"

text \<open>Decoding of the schema: the names of a struct's fields are matched without regard to case (\<open>fold_name\<close>: the
  folding of \<open>encoding/json\<close>), and every further member of the same name continues on the field.  A slice keeps
  the array behind it, so that \<open>null\<close> leaves an element that was there before.\<close>

definition field_is :: "(string \<Rightarrow> string) \<Rightarrow> string \<Rightarrow> string \<Rightarrow> bool" where
  "field_is fold_name f n \<longleftrightarrow> n = f \<or> fold_name n = fold_name f"

record tool_schema =
  sc_Type :: string
  sc_Properties :: "string \<Rightarrow> string option"
  sc_Required :: "string list"
  sc_array :: "string list"

fun unmarshal_property :: "(string \<Rightarrow> string) \<Rightarrow> string \<Rightarrow> (string \<times> json) list \<Rightarrow> string option" where
  "unmarshal_property fold_name t [] = Some t"
| "unmarshal_property fold_name t ((n, v) # ms) =
     (if field_is fold_name ''type'' n
      then (case unmarshal_string t v of None \<Rightarrow> None | Some t' \<Rightarrow> unmarshal_property fold_name t' ms)
      else unmarshal_property fold_name t ms)"

fun unmarshal_properties :: "(string \<Rightarrow> string) \<Rightarrow> (string \<Rightarrow> string option) \<Rightarrow> (string \<times> json) list \<Rightarrow> (string \<Rightarrow> string option) option" where
  "unmarshal_properties fold_name m [] = Some m"
| "unmarshal_properties fold_name m ((n, v) # ms) =
     (case v of
        JNull \<Rightarrow> unmarshal_properties fold_name (m(n \<mapsto> [])) ms
      | JObj members \<Rightarrow>
          (case unmarshal_property fold_name [] members of
             None \<Rightarrow> None
           | Some t \<Rightarrow> unmarshal_properties fold_name (m(n \<mapsto> t)) ms)
      | _ \<Rightarrow> None)"

fun unmarshal_elements :: "nat \<Rightarrow> string list \<Rightarrow> json list \<Rightarrow> string list option" where
  "unmarshal_elements i array [] = Some array"
| "unmarshal_elements i array (v # vs) =
     (let array = (if i < length array then array else array @ [[]]) in
      case unmarshal_string (array ! i) v of
        None \<Rightarrow> None
      | Some s \<Rightarrow> unmarshal_elements (i + 1) (array[i := s]) vs)"

definition unmarshal_member :: "(string \<Rightarrow> string) \<Rightarrow> tool_schema \<Rightarrow> string \<Rightarrow> json \<Rightarrow> tool_schema option" where
  "unmarshal_member fold_name sc n v =
     (if field_is fold_name ''type'' n
      then map_option (\<lambda>t. sc\<lparr>sc_Type := t\<rparr>) (unmarshal_string (sc_Type sc) v)
      else if field_is fold_name ''properties'' n
      then (case v of
          JNull \<Rightarrow> Some (sc\<lparr>sc_Properties := Map.empty\<rparr>)
        | JObj ms \<Rightarrow> map_option (\<lambda>m. sc\<lparr>sc_Properties := m\<rparr>) (unmarshal_properties fold_name (sc_Properties sc) ms)
        | _ \<Rightarrow> None)
      else if field_is fold_name ''required'' n
      then (case v of
          JNull \<Rightarrow> Some (sc\<lparr>sc_Required := [], sc_array := []\<rparr>)
        | JArr vs \<Rightarrow>
            if vs = [] then Some (sc\<lparr>sc_Required := [], sc_array := []\<rparr>)
            else map_option (\<lambda>a. sc\<lparr>sc_Required := take (length vs) a, sc_array := a\<rparr>) (unmarshal_elements 0 (sc_array sc) vs)
        | _ \<Rightarrow> None)
      else Some sc)"

fun unmarshal_schema :: "(string \<Rightarrow> string) \<Rightarrow> tool_schema \<Rightarrow> (string \<times> json) list \<Rightarrow> tool_schema option" where
  "unmarshal_schema fold_name sc [] = Some sc"
| "unmarshal_schema fold_name sc ((n, v) # ms) =
     (case unmarshal_member fold_name sc n v of None \<Rightarrow> None | Some sc' \<Rightarrow> unmarshal_schema fold_name sc' ms)"

definition schemaDeclaresStringPath :: "(string \<Rightarrow> string) \<Rightarrow> tool_definition \<Rightarrow> string \<Rightarrow> bool \<Rightarrow> bool" where
  "schemaDeclaresStringPath fold_name d field optional =
     (case Option.bind (td_InputSchema d)
             (unmarshal_schema fold_name \<lparr> sc_Type = [], sc_Properties = Map.empty, sc_Required = [], sc_array = [] \<rparr>) of
        None \<Rightarrow> False
      | Some sc \<Rightarrow> sc_Type sc = ''object'' \<and> sc_Properties sc field = Some ''string'' \<and> (optional \<or> field \<in> set (sc_Required sc)))"

section \<open>The decision\<close>

text \<open>The path argument of a known tool: its name, whether the tool may create the file, whether it may be left out.\<close>

definition path_field :: "string \<Rightarrow> (string \<times> bool \<times> bool) option" where
  "path_field n =
     (if n = ''Read'' \<or> n = ''Edit'' then Some (''file_path'', False, False)
      else if n = ''Write'' then Some (''file_path'', True, False)
      else if n = ''NotebookEdit'' then Some (''notebook_path'', False, False)
      else if n = ''Glob'' \<or> n = ''Grep'' then Some (''path'', False, True)
      else None)"

definition safeWorkspaceIntent ::
  "(string \<Rightarrow> string) \<Rightarrow> file_system \<Rightarrow> nat \<Rightarrow> string \<Rightarrow> tool_definition \<Rightarrow> tool_call \<Rightarrow> bool" where
  "safeWorkspaceIntent fold_name fs limit realRoot d call =
     (case (tc_Arguments call, path_field (tc_Name call)) of
        (Some members, Some (pathField, allowCreate, optionalPath)) \<Rightarrow>
          let arguments = map_of (rev members) in
          schemaDeclaresStringPath fold_name d pathField optionalPath
          \<and> (case arguments pathField of
               None \<Rightarrow> optionalPath
             | Some raw \<Rightarrow>
                 (case unmarshal_string [] raw of
                    None \<Rightarrow> False
                  | Some p \<Rightarrow> p \<noteq> [] \<and> insideWorkspace fs limit realRoot p allowCreate))
          \<and> (tc_Name call = ''Glob'' \<longrightarrow> safeRelativePattern (arguments ''pattern''))
          \<and> (tc_Name call = ''Grep'' \<longrightarrow> arguments ''glob'' \<noteq> None \<longrightarrow> safeRelativePattern (arguments ''glob''))
      | _ \<Rightarrow> False)"

definition safe_call :: "(string \<Rightarrow> string) \<Rightarrow> file_system \<Rightarrow> nat \<Rightarrow> string \<Rightarrow> (string \<Rightarrow> tool_definition option) \<Rightarrow> tool_call \<Rightarrow> bool" where
  "safe_call fold_name fs limit realRoot definitions call =
     (if tc_Namespace call \<noteq> [] \<or> EffectiveKind (tc_Kind call) \<noteq> ''function'' then False
      else (case definitions (tc_Name call) of
          None \<Rightarrow> False
        | Some d \<Rightarrow> EffectiveKind (td_Kind d) = ''function'' \<and> safeWorkspaceIntent fold_name fs limit realRoot d call))"

definition safeWorkspaceGroup ::
  "(string \<Rightarrow> string) \<Rightarrow> file_system \<Rightarrow> nat \<Rightarrow> decision_context \<Rightarrow> tool_call list \<Rightarrow> bool" where
  "safeWorkspaceGroup fold_name fs limit dc intents =
     (if \<not> dc_structuredWorkspaceTools dc \<or> dc_workspaceRoot dc = [] \<or> intents = [] then False
      else (case EvalSymlinks fs (dc_workspaceRoot dc) of
          Found root \<Rightarrow>
            let realRoot = abs_path root; names = map td_Name (dc_tools dc) in
            Stat_IsDir fs limit realRoot \<and> distinct names
            \<and> (dc_toolNamespaces dc \<noteq> [] \<longrightarrow> list_all (\<lambda>c. tc_Namespace c = []) intents)
            \<and> list_all (safe_call fold_name fs limit realRoot (map_of (zip names (dc_tools dc)))) intents
        | _ \<Rightarrow> False))"

definition ReasonStrictPolicy :: string where "ReasonStrictPolicy = ''tool_policy_strict''"

definition Decide ::
  "(string \<Rightarrow> string) \<Rightarrow> file_system \<Rightarrow> nat \<Rightarrow> (decision_request \<Rightarrow> tool_error + tool_decision) \<Rightarrow> decision_request
     \<Rightarrow> tool_error + tool_decision" where
  "Decide fold_name fs limit review request =
     (case dr_native request of
        Some nr \<Rightarrow>
          let policy = dc_policySet (nr_context nr) in
          if \<not> nr_verified nr then Inl EvidenceRefused
          else if \<not> PolicySet_Validate policy \<or> policy \<noteq> nr_planPolicy nr then Inl NativePolicyInvalid
          else if policy = ToolPolicyObserve then review request
          else if policy = ToolPolicyStrict then Inr (ToolDecisionRejected ReasonStrictPolicy)
          else review request
      | None \<Rightarrow>
          let policy = dc_policySet (dr_context request) in
          if \<not> PolicySet_Validate policy then Inl PolicyUnsupported
          else if policy = ToolPolicyObserve then Inr ToolDecisionApproved
          else if safeWorkspaceGroup fold_name fs limit (dr_context request) (dr_intents request) then Inr ToolDecisionApproved
          else if policy = ToolPolicyReview then review request
          else Inr (ToolDecisionRejected ReasonStrictPolicy))"

section \<open>Inside the workspace\<close>

lemma lexicallyInside_iff:
  assumes "list_all plain_name r" and "list_all plain_name l"
  shows "lexicallyInside (abs_path r) (abs_path l) \<longleftrightarrow> prefix r l"
proof -
  obtain bs ts where st: "strip_common r l = (bs, ts)" by force
  have pre: "bs = [] \<longleftrightarrow> prefix r l" using strip_common_prefix [of r l] st by simp
  have names: "list_all plain_name bs" "list_all plain_name ts"
    using strip_common_suffix [of r l] assms unfolding st list_all_iff by auto
  then have hd: "bs = [] \<or> hd bs \<noteq> ''..''" by (cases bs) (auto simp: plain_name_def)
  have Rel: "Rel (abs_path r) (abs_path l) = (if bs = [] \<and> ts = [] then Some ''.''
      else Some (join ''/'' (replicate (length bs) ''..'' @ ts)))"
    using assms hd by (simp add: Rel_def st Let_def)
  show ?thesis
  proof (cases bs)
    case Nil
    show ?thesis
    proof (cases ts)
      case (Cons t ts')
      have "split_char (CHR ''/'') (join ''/'' ts) = ts"
        using names(2) Cons by (intro split_join) (auto simp: list_all_iff plain_name_def)
      then have "join ''/'' ts \<noteq> ''..'' \<and> \<not> prefix ''../'' (join ''/'' ts)"
        using names(2) Cons by (auto simp: plain_name_def prefix_def)
      then show ?thesis using Nil Cons pre Rel by (simp add: lexicallyInside_def)
    qed (use Nil pre Rel in \<open>simp add: lexicallyInside_def\<close>)
  next
    case (Cons b bs')
    have "join ''/'' (''..'' # xs) = ''..'' \<or> prefix ''../'' (join ''/'' (''..'' # xs))" for xs by (cases xs) simp_all
    then show ?thesis using Cons pre Rel by (auto simp: lexicallyInside_def)
  qed
qed

text \<open>Where the operating system gets to with an absolute path; with \<open>create\<close> the caller creates what is missing.\<close>

definition opened :: "file_system \<Rightarrow> nat \<Rightarrow> bool \<Rightarrow> string \<Rightarrow> walked" where
  "opened fs links create p = walk fs create links [] (split_char (CHR ''/'') p)"

lemma split_abs_path: "list_all plain_name c \<Longrightarrow> walk fs create n [] (split_char (CHR ''/'') (abs_path c)) = walk fs create n [] c"
  by (cases "c = []") (auto simp: abs_path_def split_join list_all_iff plain_name_def)

lemma EvalSymlinks_names: "EvalSymlinks fs p = Found a \<Longrightarrow> list_all plain_name a"
  unfolding EvalSymlinks_def by (rule walk_names [OF split_slash_free]) simp_all

lemma opened_spelling:
  assumes p: "IsAbs p" "''..'' \<notin> set (split_char (CHR ''/'') p)" and c: "Clean p = abs_path c" "list_all plain_name c"
    and "opened fs n create p = Found l"
  shows "walk fs create n [] c = Found l"
proof -
  have "elements p = c" using elements_Clean_plain [OF p] c by simp
  then have "c = filter proper (split_char (CHR ''/'') p)" by (simp add: elements_def)
  then show ?thesis using assms(5) unfolding opened_def by (auto intro: walk_filter)
qed

lemma candidate_names:
  obtains c where "candidate_path (abs_path r) input = abs_path c" "list_all plain_name c"
proof -
  have "IsAbs (if IsAbs input then input else Join (abs_path r) input)"
    by (simp add: Join_def Clean_abs IsAbs_abs_path [unfolded IsAbs_def] IsAbs_def abs_path_def)
  then show thesis using that Clean_names unfolding candidate_path_def by (metis Clean_abs)
qed

lemma Dir_abs_path: "list_all plain_name c \<Longrightarrow> Dir (abs_path c) = abs_path (butlast c)"
  by (simp add: Dir_def)

text \<open>The loop stops at the longest part of the path that exists.\<close>

lemma ancestor_found:
  "ancestor_inside fs limit realRoot k (abs_path c) \<Longrightarrow> list_all plain_name c \<Longrightarrow>
   \<exists>j a. j \<le> length c \<and> EvalSymlinks fs (abs_path (take j c)) = Found a \<and> lexicallyInside realRoot (abs_path a)
     \<and> (j < length c \<longrightarrow> Lstat fs limit (abs_path (take (Suc j) c)) = ErrNotExist)"
proof (induction k arbitrary: c)
  case (Suc k)
  show ?case
  proof (cases "Lstat fs limit (abs_path c) = ErrNotExist")
    case True
    then have inside: "ancestor_inside fs limit realRoot k (abs_path (butlast c))" and "c \<noteq> []"
      using Suc.prems by (auto simp: Dir_abs_path split: if_splits)
    have "list_all plain_name (butlast c)" using Suc.prems(2) by (auto simp: list_all_iff dest: in_set_butlastD)
    from Suc.IH [OF inside this] obtain j a where j: "j \<le> length (butlast c)" "EvalSymlinks fs (abs_path (take j (butlast c))) = Found a"
      "lexicallyInside realRoot (abs_path a)" "j < length (butlast c) \<longrightarrow> Lstat fs limit (abs_path (take (Suc j) (butlast c))) = ErrNotExist"
      by blast
    have lt: "j < length c" using j(1) \<open>c \<noteq> []\<close> by (cases c rule: rev_cases) auto
    have "Lstat fs limit (abs_path (take (Suc j) c)) = ErrNotExist"
      using j(1,4) True by (cases "j < length (butlast c)") (simp_all add: take_butlast)
    then show ?thesis using j lt by (intro exI [of _ j] exI [of _ a]) (simp add: take_butlast)
  qed (use Suc.prems in \<open>auto split: walked.splits intro!: exI [of _ "length c"]\<close>)
next
  case 0
  then show ?case by (auto split: walked.splits intro!: exI [of _ "length c"])
qed

lemma missing_below:
  assumes c: "list_all plain_name c" and j: "j < length c" and a: "walk fs False m [] (take j c) = Found a"
    and "Lstat fs limit (abs_path (take (Suc j) c)) = ErrNotExist"
  shows "is_dir fs a" "fs (a @ [c ! j]) = None"
proof -
  have "list_all plain_name (take (Suc j) c)" using c by (auto simp: list_all_iff dest: in_set_takeD)
  then have els: "elements (abs_path (take (Suc j) c)) = take j c @ [c ! j]" using j by (simp add: take_Suc_conv_app_nth)
  have "walk fs False limit [] (take j c) = Found a"
    using assms(4) walk_agree [OF a, of limit] unfolding Lstat_def Let_def els by (auto split: walked.splits)
  then show "is_dir fs a" "fs (a @ [c ! j]) = None" using assms(4) unfolding Lstat_def Let_def els by (auto split: if_splits)
qed

lemma inside_confined:
  assumes r: "list_all plain_name r" and inside: "insideWorkspace fs limit (abs_path r) input allowCreate"
    and p: "IsAbs p" "''..'' \<notin> set (split_char (CHR ''/'') p)" "Clean p = candidate_path (abs_path r) input"
    and opened: "opened fs n allowCreate p = Found l"
  shows "prefix r l"
proof -
  obtain c where c: "candidate_path (abs_path r) input = abs_path c" "list_all plain_name c" by (rule candidate_names)
  have walk: "walk fs allowCreate n [] c = Found l" using opened_spelling [OF p(1,2) _ c(2) opened] p(3) c(1) by simp
  have eval: "EvalSymlinks fs (abs_path xs) = walk fs False maxLinks [] xs" if "list_all plain_name xs" for xs
    using split_abs_path [OF that] by (simp add: EvalSymlinks_def)
  have within: "prefix r a" if "EvalSymlinks fs x = Found a" "lexicallyInside (abs_path r) (abs_path a)" for x a
    using that lexicallyInside_iff [OF r EvalSymlinks_names] by blast
  consider a where "EvalSymlinks fs (abs_path c) = Found a" "lexicallyInside (abs_path r) (abs_path a)"
    | "EvalSymlinks fs (abs_path c) = ErrNotExist" "allowCreate" "ancestor_inside fs limit (abs_path r) (length c) (abs_path c)"
    using inside c by (auto simp: insideWorkspace_def Let_def split: walked.splits if_splits)
  then show ?thesis
  proof cases
    case (1 a)
    then have "walk fs allowCreate maxLinks [] c = Found a" using eval [OF c(2)] walk_create by (cases allowCreate) auto
    then have "a = l" using walk_agree [OF walk, of maxLinks "Found a"] by simp
    then show ?thesis using within 1 by blast
  next
    case 2
    from ancestor_found [OF 2(3) c(2)] obtain j a where
      j: "j \<le> length c" "EvalSymlinks fs (abs_path (take j c)) = Found a" "lexicallyInside (abs_path r) (abs_path a)"
      "j < length c \<longrightarrow> Lstat fs limit (abs_path (take (Suc j) c)) = ErrNotExist" by blast
    have lt: "j < length c" using j(1,2) 2(1) by (cases "j = length c") auto
    have "list_all plain_name (take j c)" using c(2) by (auto simp: list_all_iff dest: in_set_takeD)
    then have a: "walk fs False maxLinks [] (take j c) = Found a" using j(2) eval by simp
    note below = missing_below [OF c(2) lt a]
    have "is_dir fs a" "fs (a @ [c ! j]) = None" using below j(4) lt by blast+
    moreover have "walk fs True n [] (take j c @ c ! j # drop (Suc j) c) = Found l" using walk 2(2) lt by (simp add: id_take_nth_drop [symmetric])
    ultimately obtain k where "walk fs True k a (c ! j # drop (Suc j) c) = Found l" using walk_prefix [OF a] by blast
    moreover have "proper (c ! j)" "c ! j \<noteq> ''..''" using c(2) lt by (auto simp: list_all_length plain_name_def)
    ultimately have "prefix a l" using \<open>fs (a @ [c ! j]) = None\<close> by (auto simp: walk_enter split: if_splits)
    then show ?thesis using within [OF j(2,3)] prefix_order.trans by blast
  qed
qed

lemma unmarshal_string_given: "unmarshal_string [] raw = Some p \<Longrightarrow> p \<noteq> [] \<Longrightarrow> raw = JStr p"
  by (cases raw) auto

text \<open>C40: what is let through without a person stays in the workspace.  If a group of calls is approved although the
reviewer fails, and the mode is not \<open>observe\<close>, then the request is no native one, every call is one of the six file tools,
and where a call names a path, the place the operating system opens for it, or creates for \<open>Write\<close>, lies in the real
workspace directory: whatever links there are, however many of them the system follows, and for every spelling of the
path without \<open>..\<close>.\<close>

theorem workspace_confinement:
  assumes "Decide fold_name fs limit (\<lambda>_. Inl (ReviewFailed e)) request = Inr ToolDecisionApproved"
    and "dc_policySet (dr_context request) \<noteq> ToolPolicyObserve" and "call \<in> set (dr_intents request)"
  shows "dr_native request = None \<and> tc_Name call \<in> {''Read'', ''Edit'', ''Write'', ''NotebookEdit'', ''Glob'', ''Grep''}
    \<and> (\<exists>root members field create optional.
        EvalSymlinks fs (dc_workspaceRoot (dr_context request)) = Found root
        \<and> tc_Arguments call = Some members \<and> path_field (tc_Name call) = Some (field, create, optional)
        \<and> (case map_of (rev members) field of
             None \<Rightarrow> optional
           | Some raw \<Rightarrow> \<exists>input. raw = JStr input
               \<and> (\<forall>p n l. IsAbs p \<and> ''..'' \<notin> set (split_char (CHR ''/'') p) \<and> Clean p = candidate_path (abs_path root) input
                    \<and> opened fs n create p = Found l \<longrightarrow> prefix root l)))"
proof -
  have group: "dr_native request = None" "safeWorkspaceGroup fold_name fs limit (dr_context request) (dr_intents request)"
    using assms(1,2) by (auto simp: Decide_def Let_def split: option.splits if_splits)
  then obtain root where root: "EvalSymlinks fs (dc_workspaceRoot (dr_context request)) = Found root"
    and calls: "list_all (safe_call fold_name fs limit (abs_path root)
      (map_of (zip (map td_Name (dc_tools (dr_context request))) (dc_tools (dr_context request))))) (dr_intents request)"
    by (auto simp: safeWorkspaceGroup_def Let_def split: walked.splits if_splits)
  then obtain defs where "safe_call fold_name fs limit (abs_path root) defs call" using assms(3) by (auto simp: list_all_iff)
  then obtain d where safe: "safeWorkspaceIntent fold_name fs limit (abs_path root) d call"
    by (auto simp: safe_call_def split: option.splits if_splits)
  then obtain members field create optional where args: "tc_Arguments call = Some members" "path_field (tc_Name call) = Some (field, create, optional)"
    by (auto simp: safeWorkspaceIntent_def split: option.splits)
  have arg: "case map_of (rev members) field of None \<Rightarrow> optional
      | Some raw \<Rightarrow> \<exists>input. raw = JStr input \<and> insideWorkspace fs limit (abs_path root) input create"
    using safe args by (cases "map_of (rev members) field") (auto simp: safeWorkspaceIntent_def Let_def dest: unmarshal_string_given split: option.splits)
  have "tc_Name call \<in> {''Read'', ''Edit'', ''Write'', ''NotebookEdit'', ''Glob'', ''Grep''}"
    using args(2) by (auto simp: path_field_def split: if_splits)
  then show ?thesis using group(1) root args arg inside_confined [OF EvalSymlinks_names [OF root]] by (fastforce split: option.splits)
qed

section \<open>Two workspaces\<close>

definition demo_fs :: file_system where
  "demo_fs l = (if l = [''w''] then Some FsDir else if l = [''w'', ''a''] then Some FsFile else None)"

definition demo_request :: decision_request where
  "demo_request = \<lparr> dr_native = None,
     dr_context = \<lparr> dc_policySet = ''strict'', dc_workspaceRoot = ''/w'', dc_structuredWorkspaceTools = True,
       dc_tools = [\<lparr> td_Kind = [], td_Name = ''Read'', td_InputSchema = Some [(''type'', JStr ''object''),
         (''properties'', JObj [(''file_path'', JObj [(''type'', JStr ''string'')])]), (''required'', JArr [JStr ''file_path''])] \<rparr>],
       dc_toolNamespaces = [] \<rparr>,
     dr_intents = [\<lparr> tc_Kind = [], tc_Name = ''Read'', tc_Namespace = [], tc_Arguments = Some [(''file_path'', JStr ''a'')] \<rparr>] \<rparr>"

lemmas path_eval = EvalSymlinks_def Lstat_def Stat_IsDir_def is_dir_def walk.simps(2) maxLinks_def abs_path_def elements_def
  candidate_path_def Join_def Clean_def IsAbs_def lexicallyInside_def Rel_def Dir_def opened_def Let_def

lemma demo_inside: "insideWorkspace demo_fs 40 ''/w'' ''a'' False"
  by (simp add: insideWorkspace_def path_eval demo_fs_def)

lemma demo_approved: "Decide id demo_fs 40 review demo_request = Inr ToolDecisionApproved"
proof -
  have "EvalSymlinks demo_fs ''/w'' = Found [''w'']" "Stat_IsDir demo_fs 40 (abs_path [''w''])" by (simp_all add: path_eval demo_fs_def)
  moreover have "insideWorkspace demo_fs 40 (abs_path [''w'']) ''a'' False" using demo_inside by (simp add: abs_path_def)
  ultimately show ?thesis
    by (simp add: Decide_def demo_request_def safeWorkspaceGroup_def safe_call_def safeWorkspaceIntent_def path_field_def
      schemaDeclaresStringPath_def unmarshal_member_def field_is_def PolicySet_Validate_def ToolPolicyObserve_def ToolPolicyReview_def
      ToolPolicyStrict_def EffectiveKind_def)
qed

theorem workspace_confinement_witness:
  "Decide id demo_fs 40 (\<lambda>_. Inl (ReviewFailed [])) demo_request = Inr ToolDecisionApproved
   \<and> opened demo_fs 40 False ''/w//a'' = Found [''w'', ''a'']
   \<and> (\<exists>root. EvalSymlinks demo_fs ''/w'' = Found root \<and> prefix root [''w'', ''a''])"
proof -
  let ?call = "\<lparr> tc_Kind = [], tc_Name = ''Read'', tc_Namespace = [], tc_Arguments = Some [(''file_path'', JStr ''a'')] \<rparr>"
  have opened: "opened demo_fs 40 False ''/w//a'' = Found [''w'', ''a'']" by (simp add: path_eval demo_fs_def)
  have "EvalSymlinks demo_fs ''/w'' = Found [''w'']" by (simp add: path_eval demo_fs_def)
  moreover have "IsAbs ''/w//a''" "''..'' \<notin> set (split_char (CHR ''/'') ''/w//a'')"
    "Clean ''/w//a'' = candidate_path (abs_path [''w'']) ''a''" by (simp_all add: path_eval)
  ultimately show ?thesis
    using workspace_confinement [OF demo_approved, of ?call] demo_approved opened
    by (auto simp: demo_request_def path_field_def ToolPolicyObserve_def)
qed

text \<open>With \<open>..\<close> in the argument the check and the operating system disagree: the check cleans \<open>link/..\<close> away as text,
  the system follows the link first.\<close>

definition link_fs :: file_system where
  "link_fs l = (if l \<in> {[''w''], [''o''], [''o'', ''d'']} then Some FsDir else if l = [''w'', ''k''] then Some (FsLink ''/o/d'') else None)"

theorem dotdot_leaves_workspace:
  "insideWorkspace link_fs 40 ''/w'' ''k/../x'' True \<and> opened link_fs 40 True ''/w/k/../x'' = Found [''o'', ''x'']"
proof
  show "insideWorkspace link_fs 40 ''/w'' ''k/../x'' True" by (simp add: insideWorkspace_def path_eval link_fs_def)
  show "opened link_fs 40 True ''/w/k/../x'' = Found [''o'', ''x'']" by (simp add: path_eval link_fs_def)
qed

end
