(* ===== verification/Spec2Isabelle.thy ===== *)
theory Spec2Isabelle
  imports
    Capture_Identity
    Connection_Policy
    Connection_Rule_Store
    Offline_Hold_Safety
    Commit_Ledger
    Body_Admission
    Lifecycle_Gates
    Sse_Wire
    Capture_Admission
    Retained_Demo
    Connect_Udp
    Capture_Run_Demo
    Ip_Gate_Demo
    Evidence_Store
    Tool_Policy
begin

text \<open>
  A verification development of vibermate, the proxy through which AI agents reach their providers.

  \<^bold>\<open>The program.\<close>  An agent is launched as a \<^emph>\<open>Capture run\<close> (or a person names a manual Capture) and is
  given a proxy capability.  The proxy authenticates it, decides whether the connection may be
  attempted, keeps long-lived connections only as long as their authority lasts, holds egress while
  the operator is offline, admits bodies within a budget, and records for every exchange what the
  provider and the client may already have seen.  The modelled parts are the ones that decide; what
  they call and do not decide (dialing, SQL, files, clocks, random bytes) is a parameter.

  \<^bold>\<open>Theories, in the order they build on each other\<close> (paths below \<open>src/internal\<close>):

  \<^item> \<open>Go_Prelude\<close>: strings as bytes with Go's UTF-8, trimming and case folding; machine integers;
    contexts; the outcomes of a commit; the lemmas on lists and text the components share.
    \<open>Go_Base64\<close>: \<open>base64.RawURLEncoding\<close>, strict and lenient, and \<open>hex\<close>.
  \<^item> \<open>Capture_Identity\<close> (\<open>captureidentity\<close>): references and their keys, which are in bijection.
  \<^item> \<open>Connection_Policy\<close> (\<open>connectionpolicy\<close>) and \<open>Connection_Rule_Store\<close>
    (\<open>runtimepersistence/connection_rule_repository.go\<close>, \<open>remembered_answer.go\<close>): rules, compilation,
    evaluation, the set in force and its SQLite tables.  The manager is written against an interface,
    the locale \<open>rule_repository\<close>, which the tables interpret: what is in force is stored, and never
    moves backwards.
  \<^item> \<open>Egress_Policy\<close> (\<open>egressnetwork\<close>) and \<open>Offline_Hold\<close>, \<open>_Inv\<close>, \<open>_System\<close>, \<open>_Safety\<close>, \<open>_Demo\<close>
    (\<open>offlinehold\<close>): the planned-offline gate.  Each critical section is a definition, the callers
    that wait outside the mutex are part of a system of steps; admission, accounting, revisions,
    resuming, shutdown.
  \<^item> \<open>Shutdown_Contract\<close>: the contract of an admission gate, locales \<open>draining_gate\<close> and
    \<open>releasing_gate\<close>, interpreted by the offline gate, the body gate, the two lifecycle gates and the
    owner of retained connections.
  \<^item> \<open>Commit_Ledger\<close> and \<open>Body_Admission\<close> (\<open>exchange/ledger.go\<close>, \<open>resource_admission.go\<close>,
    \<open>resource_envelope.go\<close>): when an attempt may be resent, and the body budget at the width of
    \<open>uint64\<close>.  \<open>Lifecycle_Gates\<close> (\<open>lifecyclegate\<close>, \<open>captureassignment/lifecycle.go\<close>).
  \<^item> \<open>Sse_Wire\<close> (\<open>ssewire\<close>): the incremental decoder equals a byte-at-a-time reference machine.
  \<^item> \<open>Connect_Udp\<close> (\<open>connectudp\<close>): varints, datagram capsules and request paths.
  \<^item> \<open>Capture_Credential\<close>, \<open>Capture_Admission\<close> (\<open>capturecredential\<close>, \<open>captureadmission\<close> and the
    evidence types of \<open>workspaceidentity\<close>, \<open>clientadapter\<close>, \<open>runtimeuser\<close>): what an authenticated
    capability is worth.
  \<^item> \<open>Retained_Authority\<close>, \<open>_Inv\<close>, \<open>_Safety\<close>, \<open>_Joins\<close>, \<open>_Demo\<close> (\<open>captureadmission/retained.go\<close>): the
    owner of connections that outlive their authentication, with its worker goroutine.  The check that
    \<open>Retain\<close> makes before it takes the lock and its registration under it are separate steps.
  \<^item> \<open>Capture_Run\<close>, \<open>_Store\<close>, \<open>_Rows\<close>, \<open>_Safety\<close>, \<open>_System\<close>, \<open>_Claims\<close>, \<open>_Demo\<close> (\<open>capturerun\<close>,
    \<open>runtimepersistence/capture_run_repository.go\<close>, \<open>schema.sql\<close>): runs, their table, and the manager.
    \<open>lease_step\<close> is an abstract specification of a lease; every operation, restart and change of users,
    sessions and the gate refines it, and rows deleted from outside are leases forgotten.  Which capability
    is admitted is stated over the leases and the login sessions.
  \<^item> \<open>Go_Netip\<close>, \<open>Ip_Allowlist\<close>, \<open>Ip_Allowlist_Store\<close> (\<open>ipallowlist\<close>): IP addresses and networks as
    \<open>net/netip\<close> parses and prints them; the list of networks that may connect, its catch-all test
    equal to covering a family, and its file with its text and the limit for reading it.
  \<^item> \<open>Proxy_Protocol\<close> (\<open>proxyprotocol\<close>) and \<open>Ip_Gate\<close>, \<open>_System\<close>, \<open>_Claims\<close>, \<open>_Demo\<close> (\<open>serverhost/ip_gate.go\<close>,
    \<open>ip_allowlist.go\<close>): the header of a relayed connection, and the gate in front of the Server's
    listeners.  \<open>entitled\<close> is the contract of the gate over the two lists, the TCP peer and the bytes it
    sends; the handlers implement it, and every interleaving of connections, TLS handshakes and list
    changes keeps to it.
  \<^item> \<open>Evidence_Chunk\<close>, \<open>Evidence_Body\<close>, \<open>Evidence_Store\<close> (\<open>evidencechunk\<close>, \<open>runtimepersistence/evidence_body.go\<close>,
    \<open>evidence_body_gc.go\<close>, \<open>raw_evidence_repository.go\<close>, \<open>native_tool_content.go\<close>): content-defined chunks with the
    rolling hash at its width, and the tables that store every body and chunk once.  They implement a map from
    records to bodies and keep nothing else; a read that other operations overlap returns the stored body or
    reports it as invalid.  SHA-256 and zstd are parameters (\<open>codec_ok\<close>: what is assumed of them, on chunks of
    1 to 65536 bytes).
  \<^item> \<open>Go_Path\<close>, \<open>Tool_Policy\<close> (\<open>toolpolicy\<close>): Go's \<open>filepath\<close> and a file system with symbolic links, and the
    decision on a group of tool calls: what passes without a person stays in the workspace.

  \<^bold>\<open>How state and effects are modelled.\<close>  A struct is a record with one field per field of the source,
  prefixed by an abbreviation of the type; an enumeration whose values the compiler does not close
  stays a string.  An operation takes the state and returns it with its result, an error is \<open>Inl\<close> or
  a value of an error type.  A critical section is one definition; a goroutine that leaves the mutex
  is split there, and the interleavings are the steps of an inductive relation.  Pointers are indices
  into lists that only grow.  A database may refuse to begin, fail a statement or a read, and lose a
  commit that was applied; these outcomes are arguments, and every property holds for all of them
  unless it says otherwise.

  \<^bold>\<open>Bounds.\<close>  No definition needs fuel: loops are structural or have a measure (the reader of capsules
  consumes input, \<open>reader_comes_to_an_end\<close>).  Integers whose overflow the code depends on are words
  (\<open>uint64\<close> credits and counters, catalog revisions, varints); others are unbounded where a limit of the
  source keeps them far below their width.

  \<^bold>\<open>Not modelled.\<close>  The exchange pipeline and the protocol codecs of the providers, the loopback proxy and
  the transports, the desktop and server hosts, the approval of tool calls by a person, native tools and MCP, trust stores and installers, the
  acceptance and release tools: they are input and output around the modelled decisions, or large
  translations between provider dialects that this development does not reach yet.
\<close>

end
